(* ===== verification/Prelude.thy ===== *)
theory Prelude
  imports Main "HOL-Library.Word"
begin

text \<open>
  Shared vocabulary of the development: names for the C++ integer types, the wrap-around
  arithmetic of \<open>uint64_t\<close> written out on \<open>nat\<close>, and the generic facts on lists, characters and
  words that the component theories rest on.

  A \<open>std::string\<close> is a \<open>string\<close> (a list of \<open>char\<close>, and a HOL \<open>char\<close> is exactly one byte).
  \<open>static_cast<uint8_t>(c)\<close> followed by a widening conversion is \<open>of_char c\<close> at the wider word
  type; \<open>static_cast<char>(w)\<close> of a word is \<open>byte_char w\<close>.
\<close>

unbundle bit_operations_syntax

type_synonym u8 = "8 word"
type_synonym u32 = "32 word"
type_synonym u64 = "64 word"

named_theorems wire_simps \<open>facts that evaluate the big-endian readers on written data\<close>
named_theorems raft_simps \<open>unfolding rules for the Raft handlers\<close>
named_theorems raft_frame \<open>fields a Raft operation leaves alone\<close>

section \<open>Characters and words\<close>

definition byte_char :: "'a::len word \<Rightarrow> char" where
  "byte_char w = char_of (unat w)"

lemma bit_of_char_word:
  "bit (of_char c :: 'a::len word) n \<longleftrightarrow> n < LENGTH('a) \<and> bit (of_char c :: nat) n"
proof -
  have "(of_char c :: 'a word) = word_of_nat (of_char c)"
    by (simp add: of_nat_of_char)
  then show ?thesis
    by (simp add: bit_simps)
qed

lemma of_char_byte_char:
  "(of_char (byte_char (w :: 'a::len word)) :: 'b::len word) = ucast (take_bit 8 w)"
proof (rule bit_word_eqI)
  fix n assume "n < LENGTH('b)"
  have "(of_char (byte_char w) :: nat) = take_bit 8 (unat w)"
    by (simp add: byte_char_def take_bit_eq_mod)
  then show "bit (of_char (byte_char w) :: 'b word) n = bit (ucast (take_bit 8 w) :: 'b word) n"
    by (auto simp: bit_of_char_word bit_simps unsigned_take_bit_eq)
qed

lemma byte_char_of_char [simp]: "byte_char (of_char c :: u8) = c"
proof -
  have "(of_char c :: u8) = word_of_nat (of_char c)" by (simp add: of_nat_of_char)
  then have "unat (of_char c :: u8) = of_char c"
    by (simp add: unat_of_nat)
  then show ?thesis by (simp add: byte_char_def)
qed

section \<open>Unsigned 64-bit arithmetic on natural numbers\<close>

text \<open>
  Terms, indices, versions and sequence numbers are \<open>uint64_t\<close>. Where the code only compares and
  increments them they are kept as \<open>nat\<close> and the increment wraps explicitly.
\<close>

abbreviation u64_size :: nat where
  "u64_size \<equiv> 18446744073709551616"

definition u64_add :: "nat \<Rightarrow> nat \<Rightarrow> nat" where
  "u64_add a b = (a + b) mod u64_size"

definition u64_sub :: "nat \<Rightarrow> nat \<Rightarrow> nat" where
  "u64_sub a b = (if b \<le> a then a - b else (a + u64_size - b) mod u64_size)"

lemma u64_add_lt [simp]: "u64_add a b < u64_size"
  by (simp add: u64_add_def)

lemma u64_add_exact: "a + b < u64_size \<Longrightarrow> u64_add a b = a + b"
  by (simp add: u64_add_def)

lemma u64_sub_exact: "b \<le> a \<Longrightarrow> u64_sub a b = a - b"
  by (simp add: u64_sub_def)

lemma u64_size_pow: "u64_size = 2 ^ 64"
  by simp

lemma unat_of_nat_u64 [simp]: "n < u64_size \<Longrightarrow> unat (of_nat n :: u64) = n"
  by (simp add: unat_of_nat)

lemma unat_of_nat_u32 [simp]: "n < 2 ^ 32 \<Longrightarrow> unat (of_nat n :: u32) = n"
  by (simp add: unat_of_nat)

section \<open>Lists\<close>

lemma take_drop_append_middle:
  "pos = length xs \<Longrightarrow> n = length ys \<Longrightarrow> take n (drop pos (xs @ ys @ zs)) = ys"
  by simp

lemma take_Suc_eq_iff:
  "i < length xs \<Longrightarrow> i < length ys \<Longrightarrow>
    take (Suc i) xs = take (Suc i) ys \<longleftrightarrow> take i xs = take i ys \<and> xs ! i = ys ! i"
  by (simp add: take_Suc_conv_app_nth)

lemma take_eq_mono: "take n xs = take n ys \<Longrightarrow> m \<le> n \<Longrightarrow> take m xs = take m ys"
  by (metis min.absorb1 take_take)

lemma take_eq_nth: "take n xs = take n ys \<Longrightarrow> i < n \<Longrightarrow> xs ! i = ys ! i"
  by (metis nth_take)

end
