(* ===== verification/Status.thy ===== *)
theory Status
  imports Prelude
begin

text \<open>
  \<open>include/common/status.h\<close>, \<open>src/common/status.cc\<close> and the code mapping of
  \<open>include/network/proto_util.h\<close>.

  A \<open>StatusOr<T>\<close> is a sum: \<open>Inl s\<close> was built from a \<open>Status\<close>, \<open>Inr v\<close> from a value.
\<close>

section \<open>Status codes\<close>

datatype StatusCode =
    kOk
  | kNotFound
  | kChecksumMismatch
  | kConflict
  | kInvalidArgument
  | kAlreadyExists
  | kIoError
  | kUnavailable

definition StatusCodeName :: "StatusCode \<Rightarrow> string" where
  "StatusCodeName c =
    (case c of
       kOk \<Rightarrow> ''OK''
     | kNotFound \<Rightarrow> ''NOT_FOUND''
     | kChecksumMismatch \<Rightarrow> ''CHECKSUM_MISMATCH''
     | kConflict \<Rightarrow> ''CONFLICT''
     | kInvalidArgument \<Rightarrow> ''INVALID_ARGUMENT''
     | kAlreadyExists \<Rightarrow> ''ALREADY_EXISTS''
     | kIoError \<Rightarrow> ''IO_ERROR''
     | kUnavailable \<Rightarrow> ''UNAVAILABLE'')"

record Status =
  code :: StatusCode
  message :: string

definition Status_Ok :: Status where
  "Status_Ok = \<lparr>code = kOk, message = ''''\<rparr>"

definition NotFound :: "string \<Rightarrow> Status" where
  "NotFound msg = \<lparr>code = kNotFound, message = msg\<rparr>"

definition ChecksumMismatch :: "string \<Rightarrow> Status" where
  "ChecksumMismatch msg = \<lparr>code = kChecksumMismatch, message = msg\<rparr>"

definition Conflict :: "string \<Rightarrow> Status" where
  "Conflict msg = \<lparr>code = kConflict, message = msg\<rparr>"

definition InvalidArgument :: "string \<Rightarrow> Status" where
  "InvalidArgument msg = \<lparr>code = kInvalidArgument, message = msg\<rparr>"

definition AlreadyExists :: "string \<Rightarrow> Status" where
  "AlreadyExists msg = \<lparr>code = kAlreadyExists, message = msg\<rparr>"

definition IoError :: "string \<Rightarrow> Status" where
  "IoError msg = \<lparr>code = kIoError, message = msg\<rparr>"

definition Unavailable :: "string \<Rightarrow> Status" where
  "Unavailable msg = \<lparr>code = kUnavailable, message = msg\<rparr>"

definition ok :: "Status \<Rightarrow> bool" where
  "ok s \<longleftrightarrow> code s = kOk"

definition ToString :: "Status \<Rightarrow> string" where
  "ToString s =
    (let out = StatusCodeName (code s)
     in if message s \<noteq> [] then out @ '': '' @ message s else out)"

section \<open>StatusOr\<close>

type_synonym 'a StatusOr = "Status + 'a"

definition sor_ok :: "'a StatusOr \<Rightarrow> bool" where
  "sor_ok r = (case r of Inl s \<Rightarrow> ok s | Inr _ \<Rightarrow> True)"

definition sor_status :: "'a StatusOr \<Rightarrow> Status" where
  "sor_status r = (case r of Inl s \<Rightarrow> s | Inr _ \<Rightarrow> Status_Ok)"

lemmas status_defs =
  Status_Ok_def NotFound_def ChecksumMismatch_def Conflict_def InvalidArgument_def
  AlreadyExists_def IoError_def Unavailable_def

lemma code_constructors [simp]:
  "code Status_Ok = kOk" "code (NotFound m) = kNotFound"
  "code (ChecksumMismatch m) = kChecksumMismatch" "code (Conflict m) = kConflict"
  "code (InvalidArgument m) = kInvalidArgument" "code (AlreadyExists m) = kAlreadyExists"
  "code (IoError m) = kIoError" "code (Unavailable m) = kUnavailable"
  by (simp_all add: status_defs)

lemma ok_constructors [simp]:
  "ok Status_Ok" "\<not> ok (NotFound m)" "\<not> ok (ChecksumMismatch m)" "\<not> ok (Conflict m)"
  "\<not> ok (InvalidArgument m)" "\<not> ok (AlreadyExists m)" "\<not> ok (IoError m)" "\<not> ok (Unavailable m)"
  by (simp_all add: ok_def)

lemma sor_simps [simp]:
  "sor_ok (Inr v)" "sor_ok (Inl s) = ok s" "sor_status (Inl s) = s" "sor_status (Inr v) = Status_Ok"
  by (simp_all add: sor_ok_def sor_status_def)

section \<open>Wire codes\<close>

text \<open>
  The \<open>Code\<close> enum of \<open>proto/storage.proto\<close>. proto3 enums are open: a peer may send a number the
  reader does not know, which reaches the \<open>default\<close> branch of \<open>FromProtoCode\<close>.
\<close>

datatype rpc_Code =
    rpc_OK
  | rpc_NOT_FOUND
  | rpc_CHECKSUM_MISMATCH
  | rpc_CONFLICT
  | rpc_INVALID_ARGUMENT
  | rpc_ALREADY_EXISTS
  | rpc_IO_ERROR
  | rpc_UNAVAILABLE
  | rpc_unrecognized int

definition ToProtoCode :: "StatusCode \<Rightarrow> rpc_Code" where
  "ToProtoCode c =
    (case c of
       kOk \<Rightarrow> rpc_OK
     | kNotFound \<Rightarrow> rpc_NOT_FOUND
     | kChecksumMismatch \<Rightarrow> rpc_CHECKSUM_MISMATCH
     | kConflict \<Rightarrow> rpc_CONFLICT
     | kInvalidArgument \<Rightarrow> rpc_INVALID_ARGUMENT
     | kAlreadyExists \<Rightarrow> rpc_ALREADY_EXISTS
     | kIoError \<Rightarrow> rpc_IO_ERROR
     | kUnavailable \<Rightarrow> rpc_UNAVAILABLE)"

definition FromProtoCode :: "rpc_Code \<Rightarrow> StatusCode" where
  "FromProtoCode c =
    (case c of
       rpc_OK \<Rightarrow> kOk
     | rpc_NOT_FOUND \<Rightarrow> kNotFound
     | rpc_CHECKSUM_MISMATCH \<Rightarrow> kChecksumMismatch
     | rpc_CONFLICT \<Rightarrow> kConflict
     | rpc_INVALID_ARGUMENT \<Rightarrow> kInvalidArgument
     | rpc_ALREADY_EXISTS \<Rightarrow> kAlreadyExists
     | rpc_IO_ERROR \<Rightarrow> kIoError
     | rpc_UNAVAILABLE \<Rightarrow> kUnavailable
     | rpc_unrecognized _ \<Rightarrow> kIoError)"

lemma FromProtoCode_ToProtoCode [simp]: "FromProtoCode (ToProtoCode c) = c"
  by (cases c) (simp_all add: FromProtoCode_def ToProtoCode_def)

lemma FromProtoCode_ok: "FromProtoCode c = kOk \<longleftrightarrow> c = rpc_OK"
  by (cases c) (simp_all add: FromProtoCode_def)

lemma ToProtoCode_ok [simp]: "ToProtoCode c = rpc_OK \<longleftrightarrow> c = kOk"
  by (cases c) (simp_all add: ToProtoCode_def)

end
