(* ===== verification/Posix.thy ===== *)
theory Posix
  imports Status
begin

text \<open>
  The write loop every file and socket writer of the code uses, and the temp-file-and-rename
  writer of \<open>RaftStorage\<close>.

  What the kernel answers is an input: a list of answers to successive \<open>write\<close> calls (a short
  count, \<open>EINTR\<close>, or an error with its \<open>strerror\<close> text); when the list is used up, a call writes
  everything it was given. An \<open>int\<close>-returning call such as \<open>open\<close>, \<open>fsync\<close> or \<open>rename\<close> is an
  optional error text, \<open>None\<close> for success.
\<close>

datatype write_answer = Wrote nat | Eintr | WriteErr string

fun write_loop :: "write_answer list \<Rightarrow> string \<Rightarrow> string \<Rightarrow> string \<times> string option" where
  "write_loop ws out [] = (out, None)"
| "write_loop [] out (c # cs) = (out @ c # cs, None)"
| "write_loop (Eintr # ws) out (c # cs) = write_loop ws out (c # cs)"
| "write_loop (WriteErr e # ws) out (c # cs) = (out, Some e)"
| "write_loop (Wrote n # ws) out (c # cs) =
     write_loop ws (out @ take n (c # cs)) (drop n (c # cs))"

lemma write_loop_ok: "write_loop ws out p = (out', None) \<Longrightarrow> out' = out @ p"
  by (induction ws out p rule: write_loop.induct) auto

lemma write_loop_prefix: "write_loop ws out p = (out', e) \<Longrightarrow> \<exists>k. out' = out @ take k p"
proof (induction ws out p rule: write_loop.induct)
  case (5 n ws out c cs)
  then obtain k where "out' = (out @ take n (c # cs)) @ take k (drop n (c # cs))"
    by auto
  then have "out' = out @ take (n + k) (c # cs)"
    by (simp add: take_add)
  then show ?case by blast
next
  case (2 out c cs)
  then have "out' = out @ take (length (c # cs)) (c # cs)" by simp
  then show ?case by blast
qed (auto intro: exI [of _ 0])

lemma write_loop_all [simp]: "write_loop [] out p = (out @ p, None)"
  by (cases p) simp_all

text \<open>Answers to opening a log (creating its directory, opening the file) and to one append (the writes, the \<open>fsync\<close>).\<close>

record open_env =
  oe_mkdir :: "string option"
  oe_open :: "string option"

definition open_good :: open_env where
  "open_good = \<lparr>oe_mkdir = None, oe_open = None\<rparr>"

record append_env =
  ap_write :: "write_answer list"
  ap_fsync :: "string option"

definition append_good :: append_env where
  "append_good = \<lparr>ap_write = [], ap_fsync = None\<rparr>"

section \<open>Atomic replacement of a file\<close>

record wfa_env =
  wfa_open :: "string option"
  wfa_write :: "write_answer list"
  wfa_fsync :: "string option"
  wfa_rename :: "string option"

definition wfa_good :: wfa_env where
  "wfa_good = \<lparr>wfa_open = None, wfa_write = [], wfa_fsync = None, wfa_rename = None\<rparr>"

text \<open>
  \<open>RaftStorage::WriteFileAtomic\<close>: the bytes go to \<open>path.tmp\<close>; only the final rename touches
  \<open>path\<close>. The result is the status and the new content of \<open>path\<close> (the temp file is recreated with
  \<open>O_TRUNC\<close> on the next call, so its content never matters).
\<close>

definition WriteFileAtomic :: "wfa_env \<Rightarrow> string \<Rightarrow> string \<Rightarrow> Status \<times> string" where
  "WriteFileAtomic env path_content bytes =
    (case wfa_open env of
       Some e \<Rightarrow> (IoError (''open tmp: '' @ e), path_content)
     | None \<Rightarrow>
         (case write_loop (wfa_write env) [] bytes of
            (_, Some e) \<Rightarrow> (IoError (''write tmp: '' @ e), path_content)
          | (tmp, None) \<Rightarrow>
              (case wfa_fsync env of
                 Some e \<Rightarrow> (IoError (''fsync tmp: '' @ e), path_content)
               | None \<Rightarrow>
                   (case wfa_rename env of
                      Some e \<Rightarrow> (IoError (''rename: '' @ e), path_content)
                    | None \<Rightarrow> (Status_Ok, tmp)))))"

lemma WriteFileAtomic_result:
  "WriteFileAtomic env old bytes = (s, new) \<Longrightarrow> new = (if ok s then bytes else old)"
  by (auto simp: WriteFileAtomic_def split: option.splits prod.splits dest: write_loop_ok)

lemma WriteFileAtomic_good [simp]: "WriteFileAtomic wfa_good old bytes = (Status_Ok, bytes)"
  by (simp add: WriteFileAtomic_def wfa_good_def)

end
