(* ===== verification/Wire.thy ===== *)
theory Wire
  imports Prelude
begin

text \<open>
  \<open>include/common/wire.h\<close>: the big-endian writers \<open>PutU32\<close>, \<open>PutU64\<close>, \<open>PutStr\<close>, the
  table-free \<open>Crc32\<close>, and the bounds-checked \<open>Reader\<close>.

  A writer takes the output string and returns it extended. A \<open>Reader\<close> method that returns false
  is \<open>None\<close>; one that returns true is \<open>Some\<close> of the value read and the advanced reader.
  The lemmas show that each reader inverts its writer, that a reader never looks past the end of
  its buffer, and that the CRC distinguishes any two buffers of one length that differ in a
  single byte.
\<close>

unbundle bit_operations_syntax

section \<open>Writers\<close>

definition PutU32 :: "string \<Rightarrow> u32 \<Rightarrow> string" where
  "PutU32 out v = fold (\<lambda>i out. out @ [byte_char (drop_bit (i * 8) v AND 0xff)]) [3, 2, 1, 0] out"

definition PutU64 :: "string \<Rightarrow> u64 \<Rightarrow> string" where
  "PutU64 out v =
    fold (\<lambda>i out. out @ [byte_char (drop_bit (i * 8) v AND 0xff)]) [7, 6, 5, 4, 3, 2, 1, 0] out"

definition PutStr :: "string \<Rightarrow> string \<Rightarrow> string" where
  "PutStr out s = PutU32 out (of_nat (length s)) @ s"

section \<open>CRC-32\<close>

definition crc_bit :: "u32 \<Rightarrow> u32" where
  "crc_bit crc = (let mask = - (crc AND 1) in drop_bit 1 crc XOR (0xEDB88320 AND mask))"

definition crc_byte :: "u32 \<Rightarrow> char \<Rightarrow> u32" where
  "crc_byte crc c = (crc_bit ^^ 8) (crc XOR of_char c)"

definition Crc32 :: "string \<Rightarrow> u32" where
  "Crc32 data = NOT (fold (\<lambda>c crc. crc_byte crc c) data 0xFFFFFFFF)"

section \<open>Reader\<close>

record reader =
  rd_buf :: string
  rd_pos :: nat

abbreviation buf_len :: "reader \<Rightarrow> nat" where
  "buf_len r \<equiv> length (rd_buf r)"

definition Reader :: "string \<Rightarrow> reader" where
  "Reader p = \<lparr>rd_buf = p, rd_pos = 0\<rparr>"

definition be_value :: "string \<Rightarrow> 'a::len word" where
  "be_value cs = fold (\<lambda>c r. push_bit 8 r OR of_char c) cs 0"

definition Reader_U32 :: "reader \<Rightarrow> (u32 \<times> reader) option" where
  "Reader_U32 r =
    (if rd_pos r + 4 > buf_len r then None
     else Some (be_value (take 4 (drop (rd_pos r) (rd_buf r))), r\<lparr>rd_pos := rd_pos r + 4\<rparr>))"

definition Reader_U64 :: "reader \<Rightarrow> (u64 \<times> reader) option" where
  "Reader_U64 r =
    (if rd_pos r + 8 > buf_len r then None
     else Some (be_value (take 8 (drop (rd_pos r) (rd_buf r))), r\<lparr>rd_pos := rd_pos r + 8\<rparr>))"

definition Reader_Str :: "reader \<Rightarrow> (string \<times> reader) option" where
  "Reader_Str r =
    (case Reader_U32 r of
       None \<Rightarrow> None
     | Some (len, r) \<Rightarrow>
         if rd_pos r + unat len > buf_len r then None
         else Some (take (unat len) (drop (rd_pos r) (rd_buf r)), r\<lparr>rd_pos := rd_pos r + unat len\<rparr>))"

section \<open>Shape of the written data\<close>

definition u32_bytes :: "u32 \<Rightarrow> string" where
  "u32_bytes v = map (\<lambda>i. byte_char (drop_bit (i * 8) v AND 0xff)) [3, 2, 1, 0]"

definition u64_bytes :: "u64 \<Rightarrow> string" where
  "u64_bytes v = map (\<lambda>i. byte_char (drop_bit (i * 8) v AND 0xff)) [7, 6, 5, 4, 3, 2, 1, 0]"

lemma PutU32_bytes: "PutU32 out v = out @ u32_bytes v"
  by (simp add: PutU32_def u32_bytes_def)

lemma PutU64_bytes: "PutU64 out v = out @ u64_bytes v"
  by (simp add: PutU64_def u64_bytes_def)

lemma PutStr_bytes: "PutStr out s = out @ u32_bytes (of_nat (length s)) @ s"
  by (simp add: PutStr_def PutU32_bytes)

lemma length_u32_bytes [simp]: "length (u32_bytes v) = 4"
  by (simp add: u32_bytes_def)

lemma length_u64_bytes [simp]: "length (u64_bytes v) = 8"
  by (simp add: u64_bytes_def)

section \<open>Readers invert writers\<close>

lemma of_char_low_byte:
  "(of_char (byte_char (w AND 0xff)) :: 'a::len word) = take_bit 8 w" if "8 \<le> LENGTH('a)"
proof -
  have "w AND 0xff = take_bit 8 w"
    by (simp add: take_bit_eq_mask mask_eq_exp_minus_1)
  then show ?thesis
    by (simp add: of_char_byte_char)
qed

lemma be_step:
  "push_bit 8 (take_bit k (drop_bit (m + 8) v)) OR take_bit 8 (drop_bit m v) =
     take_bit (k + 8) (drop_bit m (v :: 'a::len word))"
proof (rule bit_word_eqI)
  fix n assume "n < LENGTH('a)"
  have "n \<ge> 8 \<Longrightarrow> m + 8 + (n - 8) = m + n" by simp
  then show "bit (push_bit 8 (take_bit k (drop_bit (m + 8) v)) OR take_bit 8 (drop_bit m v)) n =
      bit (take_bit (k + 8) (drop_bit m v)) n"
    using \<open>n < LENGTH('a)\<close> by (cases "n < 8") (auto simp: bit_simps)
qed

lemmas be_steps =
  be_step [of 8 16, simplified] be_step [of 16 8, simplified] be_step [of 24 0, simplified]
  be_step [of 8 48, simplified] be_step [of 16 40, simplified] be_step [of 24 32, simplified]
  be_step [of 32 24, simplified] be_step [of 40 16, simplified] be_step [of 48 8, simplified]
  be_step [of 56 0, simplified]

lemma be_value_u32_bytes: "be_value (u32_bytes v) = v"
proof -
  have "be_value (u32_bytes v) = take_bit 32 v"
    by (simp add: be_value_def u32_bytes_def of_char_low_byte be_steps)
  then show ?thesis by (simp add: take_bit_word_eq_self)
qed

lemma be_value_u64_bytes: "be_value (u64_bytes v) = v"
proof -
  have "be_value (u64_bytes v) = take_bit 64 v"
    by (simp add: be_value_def u64_bytes_def of_char_low_byte be_steps)
  then show ?thesis by (simp add: take_bit_word_eq_self)
qed

text \<open>
  Reading at the position where a value was written returns it and moves past it; what was
  written before and after does not matter.
\<close>

lemma Reader_U32_at [wire_simps]:
  "Reader_U32 \<lparr>rd_buf = xs @ u32_bytes v @ zs, rd_pos = length xs\<rparr> =
     Some (v, \<lparr>rd_buf = xs @ u32_bytes v @ zs, rd_pos = length xs + 4\<rparr>)"
  by (simp add: Reader_U32_def be_value_u32_bytes)

lemma Reader_U64_at [wire_simps]:
  "Reader_U64 \<lparr>rd_buf = xs @ u64_bytes v @ zs, rd_pos = length xs\<rparr> =
     Some (v, \<lparr>rd_buf = xs @ u64_bytes v @ zs, rd_pos = length xs + 8\<rparr>)"
  by (simp add: Reader_U64_def be_value_u64_bytes)

lemma Reader_Str_at [wire_simps]:
  assumes "length s < 2 ^ 32"
  shows "Reader_Str \<lparr>rd_buf = xs @ u32_bytes (of_nat (length s)) @ s @ zs, rd_pos = length xs\<rparr> =
     Some (s, \<lparr>rd_buf = xs @ u32_bytes (of_nat (length s)) @ s @ zs, rd_pos = length xs + 4 + length s\<rparr>)"
  using assms by (simp add: Reader_Str_def Reader_U32_at)

text \<open>No reader moves past the end of its buffer, and each leaves the buffer as it was.\<close>

lemma Reader_U32_bounds:
  "Reader_U32 r = Some (v, r') \<Longrightarrow> rd_buf r' = rd_buf r \<and> rd_pos r' = rd_pos r + 4 \<and> rd_pos r' \<le> buf_len r"
  by (auto simp: Reader_U32_def split: if_splits)

lemma Reader_U64_bounds:
  "Reader_U64 r = Some (v, r') \<Longrightarrow> rd_buf r' = rd_buf r \<and> rd_pos r' = rd_pos r + 8 \<and> rd_pos r' \<le> buf_len r"
  by (auto simp: Reader_U64_def split: if_splits)

lemma Reader_Str_bounds:
  "Reader_Str r = Some (s, r') \<Longrightarrow>
     rd_buf r' = rd_buf r \<and> rd_pos r' = rd_pos r + 4 + length s \<and> rd_pos r' \<le> buf_len r"
  by (auto simp: Reader_Str_def split: if_splits option.splits prod.splits dest!: Reader_U32_bounds)

section \<open>What the CRC detects\<close>

text \<open>
  One division step is injective: the polynomial's top bit is set, so the bit shifted out can be
  read back from the result's top bit.
\<close>

lemma crc_bit_cases:
  "crc_bit c = (if bit c 0 then drop_bit 1 c XOR 0xEDB88320 else drop_bit 1 c)"
proof (cases "bit c 0")
  case True
  then have "c AND 1 = 1" by (simp add: and_one_eq bit_0 odd_iff_mod_2_eq_one)
  with True show ?thesis by (simp add: crc_bit_def)
next
  case False
  then have "c AND 1 = 0" by (simp add: and_one_eq bit_0 even_iff_mod_2_eq_zero)
  with False show ?thesis by (simp add: crc_bit_def)
qed

lemma crc_bit_top: "bit (crc_bit c) 31 \<longleftrightarrow> bit c 0"
proof -
  have "\<not> bit (drop_bit 1 c) 31"
    using bit_imp_le_length [of c 32] by (auto simp: bit_drop_bit_eq)
  moreover have "bit (0xEDB88320 :: u32) 31" by simp
  ultimately show ?thesis by (auto simp: crc_bit_cases bit_xor_iff)
qed

lemma inj_crc_bit: "inj crc_bit"
proof (rule injI)
  fix c d assume eq: "crc_bit c = crc_bit d"
  then have b0: "bit c 0 = bit d 0" using crc_bit_top by metis
  have dr: "drop_bit 1 c = drop_bit 1 d"
  proof (cases "bit c 0")
    case True
    with b0 eq have "drop_bit 1 c XOR 0xEDB88320 = drop_bit 1 d XOR 0xEDB88320"
      by (simp only: crc_bit_cases if_True)
    then have "(drop_bit 1 c XOR 0xEDB88320) XOR 0xEDB88320 =
        (drop_bit 1 d XOR 0xEDB88320) XOR 0xEDB88320" by (rule arg_cong)
    then show ?thesis by (simp only: xor.assoc xor_self_eq xor.right_neutral)
  next
    case False
    with b0 eq show ?thesis by (simp only: crc_bit_cases if_False)
  qed
  show "c = d"
  proof (rule bit_word_eqI)
    fix n assume "n < LENGTH(32)"
    show "bit c n = bit d n"
    proof (cases n)
      case 0
      then show ?thesis using b0 by simp
    next
      case (Suc m)
      have "bit (drop_bit 1 c) m = bit (drop_bit 1 d) m" by (simp only: dr)
      then show ?thesis by (simp add: Suc bit_drop_bit_eq)
    qed
  qed
qed

lemma inj_crc_byte_state: "crc_byte s c = crc_byte t c \<Longrightarrow> s = t"
proof -
  assume "crc_byte s c = crc_byte t c"
  then have "s XOR of_char c = t XOR of_char c"
    unfolding crc_byte_def by (rule injD [OF inj_fn [OF inj_crc_bit]])
  then have "(s XOR of_char c) XOR of_char c = (t XOR of_char c) XOR of_char c" by simp
  then show "s = t" by (simp only: xor.assoc xor_self_eq xor.right_neutral)
qed

lemma of_char_u32_inj: "(of_char c :: u32) = of_char d \<Longrightarrow> c = d"
proof -
  assume "(of_char c :: u32) = of_char d"
  then have "unat (word_of_nat (of_char c) :: u32) = unat (word_of_nat (of_char d) :: u32)"
    by (simp add: of_nat_of_char)
  moreover have "(of_char x :: nat) < 2 ^ 32" for x
    using nat_of_char_less_256 [of x] by (rule less_trans) simp
  ultimately show "c = d" by simp
qed

lemma inj_crc_byte_char: "crc_byte s c = crc_byte s d \<Longrightarrow> c = d"
proof -
  assume "crc_byte s c = crc_byte s d"
  then have "s XOR of_char c = s XOR of_char d"
    unfolding crc_byte_def by (rule injD [OF inj_fn [OF inj_crc_bit]])
  then have "s XOR (s XOR of_char c) = s XOR (s XOR of_char d)" by simp
  then have "(of_char c :: u32) = of_char d"
    by (simp only: xor.assoc [symmetric] xor_self_eq xor.left_neutral)
  then show "c = d" by (rule of_char_u32_inj)
qed

lemma crc_fold_inj:
  "fold (\<lambda>c crc. crc_byte crc c) xs s = fold (\<lambda>c crc. crc_byte crc c) xs t \<Longrightarrow> s = t"
  by (induction xs arbitrary: s t) (auto dest: inj_crc_byte_state)

lemma Crc32_one_byte:
  "Crc32 (xs @ c # ys) = Crc32 (xs @ d # ys) \<Longrightarrow> c = d"
  by (auto simp: Crc32_def dest!: crc_fold_inj inj_crc_byte_char)

end
