(* ===== verification/Framing.thy ===== *)
theory Framing
  imports Wire
begin

text \<open>
  The append-only record format shared by the write-ahead log and the Raft log: a record is
  \<open>[u32 len][body][u32 crc]\<close>, and the file is a concatenation of records. \<open>Frame\<close> and
  \<open>ReadFramedRecords\<close> are the functions of \<open>src/consensus/raft_storage.cc\<close>.

  The lemmas: reading a concatenation of frames gives back the bodies; a partial last record (what
  a crash in the middle of an append leaves) is dropped and costs nothing before it; a record whose
  body lost one byte to corruption is not delivered, and neither is anything after it.
\<close>

definition Frame :: "string \<Rightarrow> string" where
  "Frame body = PutU32 (PutU32 [] (of_nat (length body)) @ body) (Crc32 body)"

text \<open>
  The reading loop, over the position in the whole file \<open>all_\<close>; the loop condition and the three
  exits are the code's. \<open>frame_end\<close> is a \<open>size_t\<close> sum of a file offset and a 32-bit length, which
  does not wrap.
\<close>

function read_frames_from :: "string \<Rightarrow> nat \<Rightarrow> string list" where
  "read_frames_from all pos =
    (if pos + 4 \<le> length all then
       let body_len = unat (be_value (take 4 (drop pos all)) :: u32);
           frame_end = pos + 4 + body_len + 4
       in if body_len = 0 \<or> frame_end > length all then []
          else
            let body = take body_len (drop (pos + 4) all);
                stored_crc = (be_value (take 4 (drop (pos + 4 + body_len) all)) :: u32)
            in if Crc32 body \<noteq> stored_crc then []
               else body # read_frames_from all frame_end
     else [])"
  by pat_completeness auto
termination
  by (relation "measure (\<lambda>(all, pos). length all - pos)") auto

declare read_frames_from.simps [simp del]

definition ReadFramedRecords :: "string \<Rightarrow> string list" where
  "ReadFramedRecords all = read_frames_from all 0"

section \<open>Reading back what was written\<close>

definition frameable :: "string \<Rightarrow> bool" where
  "frameable body \<longleftrightarrow> body \<noteq> [] \<and> length body < 2 ^ 32"

lemma Frame_bytes: "Frame body = u32_bytes (of_nat (length body)) @ body @ u32_bytes (Crc32 body)"
  by (simp add: Frame_def PutU32_bytes)

lemma length_Frame [simp]: "length (Frame body) = length body + 8"
  by (simp add: Frame_bytes)

lemma read_frames_from_step:
  assumes "pos + 4 \<le> length all" and "unat (be_value (take 4 (drop pos all)) :: u32) = n"
    and "take n (drop (pos + 4) all) = body"
    and "(be_value (take 4 (drop (pos + 4 + n) all)) :: u32) = crc"
  shows "read_frames_from all pos =
    (if n = 0 \<or> pos + 4 + n + 4 > length all \<or> Crc32 body \<noteq> crc then []
     else body # read_frames_from all (pos + 4 + n + 4))"
  using assms(1) by (subst read_frames_from.simps) (simp only: Let_def assms(2-) if_True simp_thms split: if_split, blast)

lemma unat_length_u32:
  "frameable body \<Longrightarrow> unat (of_nat (length body) :: u32) = length body"
  by (simp add: frameable_def)

lemma read_frames_from_frame:
  assumes "frameable body"
  shows "read_frames_from (xs @ Frame body @ zs) (length xs) =
           body # read_frames_from (xs @ Frame body @ zs) (length xs + length (Frame body))"
proof -
  let ?all = "xs @ Frame body @ zs"
  have len: "(be_value (take 4 (drop (length xs) ?all)) :: u32) = of_nat (length body)"
    by (simp add: Frame_bytes be_value_u32_bytes)
  have n: "unat (be_value (take 4 (drop (length xs) ?all)) :: u32) = length body"
    by (simp only: len unat_length_u32 [OF assms])
  have crc: "(be_value (take 4 (drop (length xs + 4 + length body) ?all)) :: u32) = Crc32 body"
    by (simp add: Frame_bytes be_value_u32_bytes)
  have body: "take (length body) (drop (length xs + 4) ?all) = body"
    by (simp add: Frame_bytes)
  have "length xs + 4 \<le> length ?all" by simp
  from read_frames_from_step [OF this n body crc] show ?thesis
    using assms by (simp add: frameable_def ac_simps)
qed

lemma read_frames_from_frames:
  assumes "\<forall>b \<in> set bs. frameable b"
  shows "read_frames_from (xs @ concat (map Frame bs) @ zs) (length xs) =
           bs @ read_frames_from (xs @ concat (map Frame bs) @ zs)
                  (length xs + length (concat (map Frame bs)))"
  using assms
proof (induction bs arbitrary: xs)
  case Nil
  then show ?case by simp
next
  case (Cons b bs)
  have "read_frames_from (xs @ Frame b @ concat (map Frame bs) @ zs) (length xs) =
      b # read_frames_from ((xs @ Frame b) @ concat (map Frame bs) @ zs) (length (xs @ Frame b))"
    using Cons.prems read_frames_from_frame [of b xs "concat (map Frame bs) @ zs"] by simp
  with Cons.IH [of "xs @ Frame b"] Cons.prems show ?case
    by (simp add: add.assoc)
qed

theorem ReadFramedRecords_frames:
  "\<forall>b \<in> set bs. frameable b \<Longrightarrow>
     ReadFramedRecords (concat (map Frame bs) @ zs) =
       bs @ read_frames_from (concat (map Frame bs) @ zs) (length (concat (map Frame bs)))"
  using read_frames_from_frames [of bs "[]" zs] by (simp add: ReadFramedRecords_def)

lemma read_frames_from_end: "length all < pos + 4 \<Longrightarrow> read_frames_from all pos = []"
  by (subst read_frames_from.simps) simp

text \<open>A strict prefix of a frame at the end of the file is not read as a record.\<close>

lemma read_frames_from_torn:
  assumes "frameable body" and "k < length (Frame body)"
  shows "read_frames_from (xs @ take k (Frame body)) (length xs) = []"
proof (cases "k < 4")
  case True
  then show ?thesis by (intro read_frames_from_end) simp
next
  case False
  let ?all = "xs @ take k (Frame body)"
  have "take 4 (take k (Frame body)) = u32_bytes (of_nat (length body))"
    using False by (simp add: Frame_bytes min_def)
  then have len: "(be_value (take 4 (drop (length xs) ?all)) :: u32) = of_nat (length body)"
    by (simp add: be_value_u32_bytes)
  then have n: "unat (be_value (take 4 (drop (length xs) ?all)) :: u32) = length body"
    by (simp only: unat_length_u32 [OF assms(1)])
  have "length xs + 4 \<le> length ?all" using False by simp
  note step = read_frames_from_step [OF this n refl refl]
  have "length ?all < length xs + 4 + length body + 4"
    using assms by simp
  then show ?thesis
    by (subst step) (simp only: simp_thms if_True)
qed

text \<open>
  The same holds when other bytes follow the partial record, as long as the file stays shorter
  than the length the partial record announces.
\<close>

lemma read_frames_from_short:
  assumes "frameable body" and "4 \<le> k" and "k + length zs < length (Frame body)"
  shows "read_frames_from (xs @ take k (Frame body) @ zs) (length xs) = []"
proof -
  let ?all = "xs @ take k (Frame body) @ zs"
  have "take 4 (take k (Frame body)) = u32_bytes (of_nat (length body))"
    using assms(2) by (simp add: Frame_bytes min_def)
  then have "(be_value (take 4 (drop (length xs) ?all)) :: u32) = of_nat (length body)"
    using assms(2) by (simp add: be_value_u32_bytes)
  then have n: "unat (be_value (take 4 (drop (length xs) ?all)) :: u32) = length body"
    by (simp only: unat_length_u32 [OF assms(1)])
  have "length xs + 4 \<le> length ?all" using assms(2) by simp
  note step = read_frames_from_step [OF this n refl refl]
  have "length ?all < length xs + 4 + length body + 4"
    using assms by simp
  then show ?thesis
    by (subst step) (simp only: simp_thms if_True)
qed

theorem ReadFramedRecords_torn_tail:
  assumes "\<forall>b \<in> set bs. frameable b" and "frameable body" and "k < length (Frame body)"
  shows "ReadFramedRecords (concat (map Frame bs) @ take k (Frame body)) = bs"
  using ReadFramedRecords_frames [OF assms(1)] read_frames_from_torn [OF assms(2,3)] by simp

corollary ReadFramedRecords_exact:
  "\<forall>b \<in> set bs. frameable b \<Longrightarrow> ReadFramedRecords (concat (map Frame bs)) = bs"
  using ReadFramedRecords_frames [of bs "[]"] by (simp add: read_frames_from_end)

text \<open>One corrupted body byte: the record and all later ones are withheld, earlier ones survive.\<close>

theorem ReadFramedRecords_corrupt_byte:
  assumes "\<forall>b \<in> set bs. frameable b" and "frameable (xs @ c # ys)" and "d \<noteq> c"
  shows "ReadFramedRecords
      (concat (map Frame bs) @
       u32_bytes (of_nat (length (xs @ c # ys))) @ (xs @ d # ys) @ u32_bytes (Crc32 (xs @ c # ys)) @ zs)
     = bs"
proof -
  let ?bad = "u32_bytes (of_nat (length (xs @ c # ys))) @ (xs @ d # ys)
      @ u32_bytes (Crc32 (xs @ c # ys)) @ zs"
  let ?pre = "concat (map Frame bs)"
  let ?L = "length (xs @ c # ys)"
  have len: "(be_value (take 4 (drop (length ?pre) (?pre @ ?bad))) :: u32) = of_nat ?L"
    by (simp add: be_value_u32_bytes)
  then have n: "unat (be_value (take 4 (drop (length ?pre) (?pre @ ?bad))) :: u32) = ?L"
    by (simp only: unat_length_u32 [OF assms(2)])
  have body: "take ?L (drop (length ?pre + 4) (?pre @ ?bad)) = xs @ d # ys"
    by simp
  have crc: "(be_value (take 4 (drop (length ?pre + 4 + ?L) (?pre @ ?bad))) :: u32) =
      Crc32 (xs @ c # ys)"
    by (simp add: be_value_u32_bytes)
  have neq: "Crc32 (xs @ d # ys) \<noteq> Crc32 (xs @ c # ys)"
    using assms(3) Crc32_one_byte by blast
  have "length ?pre + 4 \<le> length (?pre @ ?bad)" by simp
  from read_frames_from_step [OF this n body crc] neq
  have "read_frames_from (?pre @ ?bad) (length ?pre) = []"
    by (simp only: simp_thms if_True)
  then show ?thesis
    using ReadFramedRecords_frames [OF assms(1), of ?bad] by simp
qed

end
