(* ===== verification/Durable_Log.thy ===== *)
theory Durable_Log
  imports Prelude
begin

text \<open>
  The interface both on-disk logs of the system promise: the write-ahead log of a storage node and
  the entry log of a Raft node. A provider appends one record at a time to a file and replays the
  file on start-up; \<open>clean\<close> says the file ends at a record boundary, and \<open>torn e s t\<close> that \<open>t\<close> is
  what a crash during the append of \<open>e\<close> to \<open>s\<close> can leave behind.
\<close>

locale durable_log =
  fixes append :: "'e \<Rightarrow> 's \<Rightarrow> 's"
    and replay :: "'s \<Rightarrow> 'e list"
    and clean :: "'s \<Rightarrow> bool"
    and writable :: "'e \<Rightarrow> bool"
    and torn :: "'e \<Rightarrow> 's \<Rightarrow> 's \<Rightarrow> bool"
  assumes clean_append: "clean s \<Longrightarrow> writable e \<Longrightarrow> clean (append e s)"
    and replay_append: "clean s \<Longrightarrow> writable e \<Longrightarrow> replay (append e s) = replay s @ [e]"
    and replay_torn: "clean s \<Longrightarrow> writable e \<Longrightarrow> torn e s t \<Longrightarrow> replay t = replay s"
begin

lemma clean_appends: "clean s \<Longrightarrow> \<forall>e \<in> set es. writable e \<Longrightarrow> clean (fold append es s)"
  by (induction es arbitrary: s) (auto simp: clean_append)

lemma replay_appends:
  "clean s \<Longrightarrow> \<forall>e \<in> set es. writable e \<Longrightarrow> replay (fold append es s) = replay s @ es"
  by (induction es arbitrary: s) (auto simp: clean_append replay_append)

text \<open>
  Whatever was appended completely survives a crash in the middle of the next append, and nothing
  of the interrupted record shows.
\<close>

lemma crash_recovers_prefix:
  assumes "clean s" and "\<forall>e \<in> set es. writable e" and "writable e"
    and "torn e (fold append es s) t"
  shows "replay t = replay s @ es"
  using assms replay_torn [OF clean_appends] replay_appends by simp

end

end
