(* ===== verification/Raft_Storage.thy ===== *)
theory Raft_Storage
  imports Posix Framing Durable_Log
begin

text \<open>
  \<open>include/consensus/raft_types.h\<close> (the log entry and the hard state) and
  \<open>src/consensus/raft_storage.cc\<close>: the two files a Raft node keeps, as their byte contents.

  The lemmas show that what was saved is what a later \<open>Open\<close> loads, and that a crash in the middle
  of an append loses only the entry being appended. They also show what \<open>Open\<close> does not do: it
  leaves a torn tail in the file, and entries appended after it cannot be read back.
\<close>

section \<open>Types\<close>

datatype Role = kFollower | kCandidate | kLeader

definition RoleName :: "Role \<Rightarrow> string" where
  "RoleName r =
    (case r of kFollower \<Rightarrow> ''follower'' | kCandidate \<Rightarrow> ''candidate'' | kLeader \<Rightarrow> ''leader'')"

record LogEntry =
  le_term :: nat
  le_index :: nat
  le_command :: string

record HardState =
  hs_current_term :: nat
  hs_voted_for :: string

definition HardState_default :: HardState where
  "HardState_default = \<lparr>hs_current_term = 0, hs_voted_for = ''''\<rparr>"

section \<open>Encoding\<close>

definition EncodeEntry :: "LogEntry \<Rightarrow> string" where
  "EncodeEntry e =
    PutStr (PutU64 (PutU64 [] (of_nat (le_term e))) (of_nat (le_index e))) (le_command e)"

definition DecodeEntry :: "string \<Rightarrow> LogEntry option" where
  "DecodeEntry body =
    (case Reader_U64 (Reader body) of None \<Rightarrow> None
     | Some (t, r) \<Rightarrow>
       (case Reader_U64 r of None \<Rightarrow> None
        | Some (i, r) \<Rightarrow>
          (case Reader_Str r of None \<Rightarrow> None
           | Some (c, r) \<Rightarrow> Some \<lparr>le_term = unat t, le_index = unat i, le_command = c\<rparr>)))"

definition EncodeHardState :: "HardState \<Rightarrow> string" where
  "EncodeHardState hs = PutStr (PutU64 [] (of_nat (hs_current_term hs))) (hs_voted_for hs)"

definition DecodeHardState :: "string \<Rightarrow> HardState option" where
  "DecodeHardState body =
    (case Reader_U64 (Reader body) of None \<Rightarrow> None
     | Some (t, r) \<Rightarrow>
       (case Reader_Str r of None \<Rightarrow> None
        | Some (v, r) \<Rightarrow> Some \<lparr>hs_current_term = unat t, hs_voted_for = v\<rparr>))"

section \<open>The storage object\<close>

text \<open>
  \<open>log_file\<close> and \<open>meta_file\<close> are the contents of \<open>raft-log\<close> and \<open>raft-state\<close>; a file that does
  not exist yet reads as the empty string, exactly as \<open>ReadFramedRecords\<close> treats it. \<open>log_fd_open\<close>
  is \<open>log_fd_ >= 0\<close>.
\<close>

record RaftStorage =
  log_file :: string
  meta_file :: string
  log_fd_open :: bool
  loaded_hard :: HardState
  loaded_log :: "LogEntry list"

text \<open>The recovery loop over the records: it stops at the first body that does not decode.\<close>

fun decode_entries :: "string list \<Rightarrow> LogEntry list" where
  "decode_entries [] = []"
| "decode_entries (b # bs) =
     (case DecodeEntry b of None \<Rightarrow> [] | Some e \<Rightarrow> e # decode_entries bs)"

definition load_hard :: "string \<Rightarrow> HardState" where
  "load_hard meta =
    (let records = ReadFramedRecords meta
     in if records = [] then HardState_default
        else case DecodeHardState (last records) of None \<Rightarrow> HardState_default | Some hs \<Rightarrow> hs)"

definition RaftStorage_Open :: "open_env \<Rightarrow> string \<Rightarrow> string \<Rightarrow> RaftStorage StatusOr" where
  "RaftStorage_Open env log meta =
    (case oe_mkdir env of Some e \<Rightarrow> Inl (IoError (''create raft dir: '' @ e))
     | None \<Rightarrow>
       (case oe_open env of Some e \<Rightarrow> Inl (IoError (''open raft-log: '' @ e))
        | None \<Rightarrow>
          Inr \<lparr>log_file = log, meta_file = meta, log_fd_open = True,
               loaded_hard = load_hard meta,
               loaded_log = decode_entries (ReadFramedRecords log)\<rparr>))"

text \<open>A write on a closed descriptor fails with \<open>EBADF\<close>.\<close>

definition WriteAll :: "append_env \<Rightarrow> RaftStorage \<Rightarrow> string \<Rightarrow> Status \<times> RaftStorage" where
  "WriteAll env st p =
    (if \<not> log_fd_open st \<and> p \<noteq> [] then (IoError ''raft-log write: Bad file descriptor'', st)
     else
       (case write_loop (ap_write env) (log_file st) p of
          (f, Some e) \<Rightarrow> (IoError (''raft-log write: '' @ e), st\<lparr>log_file := f\<rparr>)
        | (f, None) \<Rightarrow>
            (case ap_fsync env of
               Some e \<Rightarrow> (IoError (''raft-log fsync: '' @ e), st\<lparr>log_file := f\<rparr>)
             | None \<Rightarrow> (Status_Ok, st\<lparr>log_file := f\<rparr>))))"

definition SaveHardState :: "wfa_env \<Rightarrow> HardState \<Rightarrow> RaftStorage \<Rightarrow> Status \<times> RaftStorage" where
  "SaveHardState env hs st =
    (let framed = Frame (EncodeHardState hs);
         (s, f) = WriteFileAtomic env (meta_file st) framed
     in (s, st\<lparr>meta_file := f\<rparr>))"

definition AppendEntry :: "append_env \<Rightarrow> LogEntry \<Rightarrow> RaftStorage \<Rightarrow> Status \<times> RaftStorage" where
  "AppendEntry env e st = WriteAll env st (Frame (EncodeEntry e))"

definition RewriteLog ::
  "wfa_env \<Rightarrow> string option \<Rightarrow> LogEntry list \<Rightarrow> RaftStorage \<Rightarrow> Status \<times> RaftStorage" where
  "RewriteLog env reopen entries st =
    (let all = fold (\<lambda>e all. all @ Frame (EncodeEntry e)) entries [];
         (s, f) = WriteFileAtomic env (log_file st) all;
         st = st\<lparr>log_file := f\<rparr>
     in if \<not> ok s then (s, st)
        else case reopen of
               Some e \<Rightarrow> (IoError (''reopen raft-log: '' @ e), st\<lparr>log_fd_open := False\<rparr>)
             | None \<Rightarrow> (Status_Ok, st\<lparr>log_fd_open := True\<rparr>))"

section \<open>Encoding round trips\<close>

definition entry_ok :: "LogEntry \<Rightarrow> bool" where
  "entry_ok e \<longleftrightarrow> le_term e < u64_size \<and> le_index e < u64_size \<and> length (le_command e) + 20 < 2 ^ 32"

definition hard_ok :: "HardState \<Rightarrow> bool" where
  "hard_ok hs \<longleftrightarrow> hs_current_term hs < u64_size \<and> length (hs_voted_for hs) + 12 < 2 ^ 32"

lemma EncodeEntry_bytes:
  "EncodeEntry e = u64_bytes (of_nat (le_term e)) @ u64_bytes (of_nat (le_index e)) @
     u32_bytes (of_nat (length (le_command e))) @ le_command e"
  by (simp add: EncodeEntry_def PutStr_bytes PutU64_bytes)

lemma EncodeHardState_bytes:
  "EncodeHardState hs = u64_bytes (of_nat (hs_current_term hs)) @
     u32_bytes (of_nat (length (hs_voted_for hs))) @ hs_voted_for hs"
  by (simp add: EncodeHardState_def PutStr_bytes PutU64_bytes)

lemma frameable_EncodeEntry: "entry_ok e \<Longrightarrow> frameable (EncodeEntry e)"
  by (simp add: frameable_def EncodeEntry_bytes entry_ok_def flip: length_0_conv)

lemma frameable_EncodeHardState: "hard_ok hs \<Longrightarrow> frameable (EncodeHardState hs)"
  by (simp add: frameable_def EncodeHardState_bytes hard_ok_def flip: length_0_conv)

lemma Reader_at0: "Reader p = \<lparr>rd_buf = [] @ p, rd_pos = length ([] :: string)\<rparr>"
  by (simp add: Reader_def)

lemma DecodeEntry_EncodeEntry:
  assumes "entry_ok e"
  shows "DecodeEntry (EncodeEntry e) = Some e"
proof -
  let ?t = "u64_bytes (of_nat (le_term e))" and ?i = "u64_bytes (of_nat (le_index e))"
  let ?l = "u32_bytes (of_nat (length (le_command e)))" and ?c = "le_command e"
  have 1: "Reader_U64 (Reader (EncodeEntry e)) =
      Some (of_nat (le_term e), \<lparr>rd_buf = ?t @ ?i @ ?l @ ?c, rd_pos = 8\<rparr>)"
    using Reader_U64_at [of "[]" _ "?i @ ?l @ ?c"] by (simp add: Reader_def EncodeEntry_bytes)
  have 2: "Reader_U64 \<lparr>rd_buf = ?t @ ?i @ ?l @ ?c, rd_pos = 8\<rparr> =
      Some (of_nat (le_index e), \<lparr>rd_buf = ?t @ ?i @ ?l @ ?c, rd_pos = 16\<rparr>)"
    using Reader_U64_at [of ?t _ "?l @ ?c"] by simp
  have 3: "Reader_Str \<lparr>rd_buf = ?t @ ?i @ ?l @ ?c, rd_pos = 16\<rparr> =
      Some (?c, \<lparr>rd_buf = ?t @ ?i @ ?l @ ?c, rd_pos = 20 + length ?c\<rparr>)"
    using Reader_Str_at [of ?c "?t @ ?i" "[]"] assms by (simp add: entry_ok_def)
  show ?thesis
    using assms by (simp add: DecodeEntry_def 1 2 3 entry_ok_def)
qed

lemma DecodeHardState_EncodeHardState:
  assumes "hard_ok hs"
  shows "DecodeHardState (EncodeHardState hs) = Some hs"
proof -
  let ?t = "u64_bytes (of_nat (hs_current_term hs))"
  let ?l = "u32_bytes (of_nat (length (hs_voted_for hs)))" and ?v = "hs_voted_for hs"
  have 1: "Reader_U64 (Reader (EncodeHardState hs)) =
      Some (of_nat (hs_current_term hs), \<lparr>rd_buf = ?t @ ?l @ ?v, rd_pos = 8\<rparr>)"
    using Reader_U64_at [of "[]" _ "?l @ ?v"] by (simp add: Reader_def EncodeHardState_bytes)
  have 2: "Reader_Str \<lparr>rd_buf = ?t @ ?l @ ?v, rd_pos = 8\<rparr> =
      Some (?v, \<lparr>rd_buf = ?t @ ?l @ ?v, rd_pos = 12 + length ?v\<rparr>)"
    using Reader_Str_at [of ?v ?t "[]"] assms by (simp add: hard_ok_def)
  show ?thesis
    using assms by (simp add: DecodeHardState_def 1 2 hard_ok_def)
qed

section \<open>What a later Open loads\<close>

definition log_bytes :: "LogEntry list \<Rightarrow> string" where
  "log_bytes es = concat (map (\<lambda>e. Frame (EncodeEntry e)) es)"

definition stored_log :: "RaftStorage \<Rightarrow> LogEntry list" where
  "stored_log st = decode_entries (ReadFramedRecords (log_file st))"

definition stored_hard :: "RaftStorage \<Rightarrow> HardState" where
  "stored_hard st = load_hard (meta_file st)"

lemma Open_loads:
  "RaftStorage_Open open_good (log_file st) (meta_file st) =
     Inr (st\<lparr>log_fd_open := True, loaded_hard := stored_hard st, loaded_log := stored_log st\<rparr>)"
  by (simp add: RaftStorage_Open_def open_good_def stored_hard_def stored_log_def)

lemma decode_entries_encoded:
  "\<forall>e \<in> set es. entry_ok e \<Longrightarrow> decode_entries (map EncodeEntry es) = es"
  by (induction es) (simp_all add: DecodeEntry_EncodeEntry)

lemma log_bytes_frames: "log_bytes es = concat (map Frame (map EncodeEntry es))"
  by (simp add: log_bytes_def comp_def)

lemma log_bytes_append: "log_bytes (es @ fs) = log_bytes es @ log_bytes fs"
  by (simp add: log_bytes_def)

lemma read_log_bytes:
  assumes "\<forall>e \<in> set es. entry_ok e"
  shows "decode_entries (ReadFramedRecords (log_bytes es)) = es"
proof -
  have "\<forall>b \<in> set (map EncodeEntry es). frameable b"
    using assms by (auto simp: frameable_EncodeEntry)
  from ReadFramedRecords_exact [OF this] show ?thesis
    unfolding log_bytes_frames using decode_entries_encoded [OF assms] by simp
qed

lemma read_torn_log_bytes:
  assumes "\<forall>e \<in> set es. entry_ok e" and "entry_ok e" and "k < length (Frame (EncodeEntry e))"
  shows "decode_entries (ReadFramedRecords (log_bytes es @ take k (Frame (EncodeEntry e)))) = es"
proof -
  have "\<forall>b \<in> set (map EncodeEntry es). frameable b"
    using assms by (auto simp: frameable_EncodeEntry)
  from ReadFramedRecords_torn_tail [OF this frameable_EncodeEntry [OF assms(2)] assms(3)]
  show ?thesis
    unfolding log_bytes_frames using decode_entries_encoded [OF assms(1)] by simp
qed

lemma fold_frames: "fold (\<lambda>e all. all @ Frame (EncodeEntry e)) es acc = acc @ log_bytes es"
  by (induction es arbitrary: acc) (simp_all add: log_bytes_def)

definition holds_log :: "RaftStorage \<Rightarrow> LogEntry list \<Rightarrow> bool" where
  "holds_log st es \<longleftrightarrow> log_fd_open st \<and> (\<forall>e \<in> set es. entry_ok e) \<and> log_file st = log_bytes es"

lemma holds_log_stored: "holds_log st es \<Longrightarrow> stored_log st = es"
  by (simp add: holds_log_def stored_log_def read_log_bytes)

lemma AppendEntry_good:
  "holds_log st es \<Longrightarrow> entry_ok e \<Longrightarrow>
     \<exists>st'. AppendEntry append_good e st = (Status_Ok, st') \<and> holds_log st' (es @ [e]) \<and>
       meta_file st' = meta_file st"
  by (simp add: AppendEntry_def WriteAll_def append_good_def holds_log_def log_bytes_append)
    (simp add: log_bytes_def)

lemma RewriteLog_good:
  "\<forall>e \<in> set es. entry_ok e \<Longrightarrow>
     \<exists>st'. RewriteLog wfa_good None es st = (Status_Ok, st') \<and> holds_log st' es \<and>
       meta_file st' = meta_file st"
  by (simp add: RewriteLog_def holds_log_def fold_frames)

lemma SaveHardState_stored:
  assumes "hard_ok hs" and "SaveHardState env hs st = (s, st')"
  shows "stored_hard st' = (if ok s then hs else stored_hard st) \<and>
    log_file st' = log_file st \<and> log_fd_open st' = log_fd_open st"
proof -
  obtain f where f: "WriteFileAtomic env (meta_file st) (Frame (EncodeHardState hs)) = (s, f)"
    and st': "st' = st\<lparr>meta_file := f\<rparr>"
    using assms(2) by (auto simp: SaveHardState_def split: prod.splits)
  have "ReadFramedRecords (Frame (EncodeHardState hs)) = [EncodeHardState hs]"
    using ReadFramedRecords_exact [of "[EncodeHardState hs]"] frameable_EncodeHardState [OF assms(1)]
    by simp
  then have "load_hard (Frame (EncodeHardState hs)) = hs"
    by (simp add: load_hard_def DecodeHardState_EncodeHardState [OF assms(1)])
  with WriteFileAtomic_result [OF f] show ?thesis
    by (simp add: st' stored_hard_def)
qed

section \<open>The Raft log as a durable log\<close>

definition raft_append :: "LogEntry \<Rightarrow> RaftStorage \<Rightarrow> RaftStorage" where
  "raft_append e st = snd (AppendEntry append_good e st)"

definition raft_clean :: "RaftStorage \<Rightarrow> bool" where
  "raft_clean st \<longleftrightarrow> holds_log st (stored_log st)"

text \<open>A crash during the append leaves a strict prefix of the frame at the end of the file.\<close>

definition raft_torn :: "LogEntry \<Rightarrow> RaftStorage \<Rightarrow> RaftStorage \<Rightarrow> bool" where
  "raft_torn e st st' \<longleftrightarrow>
    (\<exists>k < length (Frame (EncodeEntry e)).
       st' = st\<lparr>log_file := log_file st @ take k (Frame (EncodeEntry e))\<rparr>)"

lemma raft_append_holds: "holds_log st es \<Longrightarrow> entry_ok e \<Longrightarrow> holds_log (raft_append e st) (es @ [e])"
  using AppendEntry_good [of st es e] by (auto simp: raft_append_def)

interpretation raft_log: durable_log raft_append stored_log raft_clean entry_ok raft_torn
proof
  fix s e assume s: "raft_clean s" and e: "entry_ok e"
  then have h: "holds_log (raft_append e s) (stored_log s @ [e])"
    by (simp add: raft_clean_def raft_append_holds)
  then show st: "stored_log (raft_append e s) = stored_log s @ [e]"
    by (rule holds_log_stored)
  from h show "raft_clean (raft_append e s)"
    by (simp add: raft_clean_def st)
next
  fix s e t assume "raft_clean s" "entry_ok e" "raft_torn e s t"
  then show "stored_log t = stored_log s"
    by (auto simp: raft_torn_def raft_clean_def holds_log_def stored_log_def [of t]
        intro!: read_torn_log_bytes)
qed

definition empty_storage :: RaftStorage where
  "empty_storage =
    \<lparr>log_file = [], meta_file = [], log_fd_open = True,
     loaded_hard = HardState_default, loaded_log = []\<rparr>"

section \<open>Properties\<close>

text \<open>
  C23. Raft log durability: starting from any storage whose log file ends at a record boundary,
  append any number of entries with \<open>AppendEntry\<close> and crash in the middle of appending one more;
  the next \<open>Open\<close> loads exactly the entries that were there plus all completed appends. No
  completed entry is lost and the interrupted one is not misread.
\<close>

theorem raft_log_survives_crash:
  assumes "holds_log st old" and "\<forall>e \<in> set es. entry_ok e" and "entry_ok e"
    and "k < length (Frame (EncodeEntry e))"
    and "st' = fold raft_append es st"
  shows "RaftStorage_Open open_good (log_file st' @ take k (Frame (EncodeEntry e))) (meta_file st') =
    Inr \<lparr>log_file = log_file st' @ take k (Frame (EncodeEntry e)), meta_file = meta_file st',
      log_fd_open = True, loaded_hard = stored_hard st', loaded_log = old @ es\<rparr>"
proof -
  have clean: "raft_clean st" using assms(1) by (simp add: raft_clean_def holds_log_stored)
  let ?t = "st'\<lparr>log_file := log_file st' @ take k (Frame (EncodeEntry e))\<rparr>"
  have "raft_torn e st' ?t" using assms(4) by (auto simp: raft_torn_def)
  then have "stored_log ?t = old @ es"
    using raft_log.crash_recovers_prefix [OF clean assms(2,3)] assms(5) holds_log_stored [OF assms(1)]
    by simp
  then show ?thesis
    by (simp add: RaftStorage_Open_def open_good_def stored_log_def stored_hard_def)
qed

theorem raft_log_survives_crash_witness:
  "RaftStorage_Open open_good
     (log_file (fold raft_append [\<lparr>le_term = 1, le_index = 1, le_command = ''a''\<rparr>] empty_storage) @
      take 5 (Frame (EncodeEntry \<lparr>le_term = 1, le_index = 2, le_command = ''b''\<rparr>)))
     (meta_file (fold raft_append [\<lparr>le_term = 1, le_index = 1, le_command = ''a''\<rparr>] empty_storage)) =
   Inr \<lparr>log_file =
       log_file (fold raft_append [\<lparr>le_term = 1, le_index = 1, le_command = ''a''\<rparr>] empty_storage) @
       take 5 (Frame (EncodeEntry \<lparr>le_term = 1, le_index = 2, le_command = ''b''\<rparr>)),
     meta_file =
       meta_file (fold raft_append [\<lparr>le_term = 1, le_index = 1, le_command = ''a''\<rparr>] empty_storage),
     log_fd_open = True,
     loaded_hard =
       stored_hard (fold raft_append [\<lparr>le_term = 1, le_index = 1, le_command = ''a''\<rparr>] empty_storage),
     loaded_log = [] @ [\<lparr>le_term = 1, le_index = 1, le_command = ''a''\<rparr>]\<rparr>"
  by (rule raft_log_survives_crash)
    (simp_all add: holds_log_def empty_storage_def log_bytes_def entry_ok_def EncodeEntry_bytes)

text \<open>
  Hard state durability: after \<open>SaveHardState\<close>, whatever the kernel answered, a later \<open>Open\<close>
  loads the new term and vote if the call reported success and the previous ones if it did not:
  the replacement of \<open>raft-state\<close> is atomic, never a mixture.
\<close>

theorem raft_hard_state_atomic:
  assumes "hard_ok hs" and "SaveHardState env hs st = (s, st')"
  shows "\<exists>st''. RaftStorage_Open open_good (log_file st') (meta_file st') = Inr st'' \<and>
    loaded_hard st'' = (if ok s then hs else stored_hard st) \<and> loaded_log st'' = stored_log st"
  unfolding Open_loads using SaveHardState_stored [OF assms]
  by (simp add: stored_log_def)

theorem raft_hard_state_atomic_witness:
  "\<exists>st''. RaftStorage_Open open_good
       (log_file (empty_storage\<lparr>meta_file :=
          Frame (EncodeHardState \<lparr>hs_current_term = 3, hs_voted_for = ''B''\<rparr>)\<rparr>))
       (meta_file (empty_storage\<lparr>meta_file :=
          Frame (EncodeHardState \<lparr>hs_current_term = 3, hs_voted_for = ''B''\<rparr>)\<rparr>)) = Inr st'' \<and>
     loaded_hard st'' =
       (if ok Status_Ok then \<lparr>hs_current_term = 3, hs_voted_for = ''B''\<rparr> else stored_hard empty_storage) \<and>
     loaded_log st'' = stored_log empty_storage"
  by (rule raft_hard_state_atomic [where env = wfa_good])
    (simp_all add: hard_ok_def SaveHardState_def)

text \<open>
  C24. A torn tail is never repaired: \<open>Open\<close> skips the partial record but leaves it in the file, and
  later appends go behind it. If the torn record was longer than what is appended afterwards, every
  one of these entries, although \<open>AppendEntry\<close> reported success and fsync'd it, is missing after
  the next restart.
\<close>

theorem raft_append_after_torn_tail_lost:
  assumes "\<forall>x \<in> set old. entry_ok x" and "entry_ok big" and "4 \<le> k"
    and "k + length (log_bytes new) < length (Frame (EncodeEntry big))"
    and "RaftStorage_Open open_good (log_bytes old @ take k (Frame (EncodeEntry big))) meta = Inr st"
    and "st' = fold raft_append new st"
  shows "loaded_log st = old \<and> log_file st' = log_bytes old @ take k (Frame (EncodeEntry big)) @ log_bytes new
    \<and> stored_log st' = old"
proof -
  let ?F = "Frame (EncodeEntry big)"
  have k: "k < length ?F" using assms(4) by simp
  have st: "log_file st = log_bytes old @ take k ?F" "log_fd_open st"
    and ld: "loaded_log st = old"
    using assms(5) read_torn_log_bytes [OF assms(1,2) k]
    by (auto simp: RaftStorage_Open_def open_good_def)
  have app: "log_fd_open u \<Longrightarrow> log_file (fold raft_append es u) = log_file u @ log_bytes es" for es u
    by (induction es arbitrary: u)
      (simp_all add: raft_append_def AppendEntry_def WriteAll_def append_good_def log_bytes_def)
  have f': "log_file st' = log_bytes old @ take k ?F @ log_bytes new"
    using app [OF st(2)] assms(6) st(1) by simp
  have "\<forall>b \<in> set (map EncodeEntry old). frameable b"
    using assms(1) by (auto simp: frameable_EncodeEntry)
  note fr = ReadFramedRecords_frames [OF this]
  have "read_frames_from (log_bytes old @ take k ?F @ log_bytes new) (length (log_bytes old)) = []"
    using assms(3,4) by (intro read_frames_from_short [OF frameable_EncodeEntry [OF assms(2)]]) simp_all
  then have "stored_log st' = old"
    unfolding stored_log_def f' log_bytes_frames [of old]
    using fr decode_entries_encoded [OF assms(1)] by (simp flip: log_bytes_frames)
  with ld f' show ?thesis by simp
qed

theorem raft_append_after_torn_tail_lost_witness:
  "\<exists>st. RaftStorage_Open open_good
       (log_bytes [] @ take 10 (Frame (EncodeEntry
          \<lparr>le_term = 1, le_index = 1, le_command = replicate 60 CHR ''x''\<rparr>))) [] = Inr st \<and>
     stored_log (fold raft_append [\<lparr>le_term = 2, le_index = 1, le_command = ''y''\<rparr>] st) = []"
proof -
  let ?big = "\<lparr>le_term = 1, le_index = 1, le_command = replicate 60 CHR ''x''\<rparr>"
  let ?f = "log_bytes [] @ take 10 (Frame (EncodeEntry ?big))"
  obtain st where st: "RaftStorage_Open open_good ?f [] = Inr st"
    by (simp add: RaftStorage_Open_def open_good_def)
  have "stored_log (fold raft_append [\<lparr>le_term = 2, le_index = 1, le_command = ''y''\<rparr>] st) = []"
    using raft_append_after_torn_tail_lost [of "[]" ?big 10
        "[\<lparr>le_term = 2, le_index = 1, le_command = ''y''\<rparr>]" "[]" st, OF _ _ _ _ st refl]
    by (simp add: entry_ok_def EncodeEntry_bytes log_bytes_def)
  with st show ?thesis by blast
qed

end
