(* ===== verification/Raft_Node.thy ===== *)
theory Raft_Node
  imports Raft_Storage
begin

text \<open>
  \<open>src/consensus/raft_node.cc\<close>: the state of one Raft node and every critical section of its code,
  one definition per locked region. Each definition takes the node (the members of \<open>RaftNode\<close>) and
  returns it updated; the mutex \<open>mu_\<close> makes every one of them atomic. The background threads and
  the messages between nodes are in theory \<open>Raft_Cluster\<close>.

  What the environment decides is collected in \<open>raft_env\<close>: the clock, the random draw of the
  election timeout, and the answers of the file system to the calls of \<open>RaftStorage\<close>, whose
  statuses the node ignores. \<open>None\<close> from an operation means that the C++ code would have thrown
  (\<open>vector::resize\<close> of a wrapped size) or read past the end of \<open>log_\<close>.
\<close>

section \<open>State\<close>

record RaftConfig =
  cfg_id :: string
  cfg_peers :: "string list"
  cfg_election_min :: int
  cfg_election_max :: int
  cfg_heartbeat :: int

record RaftNode =
  config :: RaftConfig
  storage :: RaftStorage
  current_term :: nat
  voted_for :: string
  log :: "LogEntry list"
  role :: Role
  leader_id :: string
  commit_index :: nat
  last_applied :: nat
  last_activity :: int
  last_leader_contact :: int
  election_timeout :: int
  next_index :: "string \<rightharpoonup> nat"
  match_index :: "string \<rightharpoonup> nat"
  applied :: "LogEntry list" \<comment> \<open>the calls of \<open>apply_\<close> made so far, in order\<close>

record raft_env =
  now :: int
  draw :: nat
  io_step_down :: wfa_env
  io_save :: wfa_env
  io_append :: append_env
  io_rewrite :: wfa_env
  io_reopen :: "string option"

record RequestVoteRequest =
  rv_term :: nat
  rv_candidate_id :: string
  rv_last_log_index :: nat
  rv_last_log_term :: nat
  rv_pre_vote :: bool

record RequestVoteResponse =
  rvr_term :: nat
  rvr_vote_granted :: bool

record AppendEntriesRequest =
  ae_term :: nat
  ae_leader_id :: string
  ae_prev_log_index :: nat
  ae_prev_log_term :: nat
  ae_entries :: "LogEntry list"
  ae_leader_commit :: nat

record AppendEntriesResponse =
  aer_term :: nat
  aer_success :: bool
  aer_conflict_index :: nat

section \<open>Index helpers\<close>

definition last_index :: "LogEntry list \<Rightarrow> nat" where
  "last_index l = (if l = [] then 0 else le_index (last l))"

definition LastLogIndexLocked :: "RaftNode \<Rightarrow> nat" where
  "LastLogIndexLocked n = last_index (log n)"

definition LastLogTermLocked :: "RaftNode \<Rightarrow> nat" where
  "LastLogTermLocked n = (if log n = [] then 0 else le_term (last (log n)))"

definition term_at :: "LogEntry list \<Rightarrow> nat \<Rightarrow> nat" where
  "term_at l index = (if index = 0 \<or> index > length l then 0 else le_term (l ! (index - 1)))"

definition TermAtLocked :: "RaftNode \<Rightarrow> nat \<Rightarrow> nat" where
  "TermAtLocked n index = term_at (log n) index"

definition MajorityLocked :: "RaftNode \<Rightarrow> nat" where
  "MajorityLocked n = (length (cfg_peers (config n)) + 1) div 2 + 1"

text \<open>\<open>uniform_int_distribution(lo, hi - 1)\<close>, with the generator's output as \<open>draw\<close>.\<close>

definition RandomElectionTimeout :: "raft_env \<Rightarrow> RaftConfig \<Rightarrow> int" where
  "RandomElectionTimeout env cfg =
    (let lo = cfg_election_min cfg;
         hi = max (lo + 1) (cfg_election_max cfg)
     in lo + int (draw env) mod (hi - lo))"

section \<open>Construction\<close>

text \<open>\<open>RaftNode::RaftNode\<close>: 24 hours are 86400000 ms.\<close>

definition RaftNode_new :: "raft_env \<Rightarrow> RaftConfig \<Rightarrow> RaftStorage \<Rightarrow> RaftNode" where
  "RaftNode_new env cfg st =
    \<lparr>config = cfg, storage = st,
     current_term = hs_current_term (loaded_hard st),
     voted_for = hs_voted_for (loaded_hard st),
     log = loaded_log st,
     role = kFollower, leader_id = '''', commit_index = 0, last_applied = 0,
     last_activity = now env, last_leader_contact = now env - 86400000,
     election_timeout = RandomElectionTimeout env cfg,
     next_index = Map.empty, match_index = Map.empty, applied = []\<rparr>"

section \<open>Persistence and stepping down\<close>

definition PersistHardStateLocked :: "wfa_env \<Rightarrow> RaftNode \<Rightarrow> RaftNode" where
  "PersistHardStateLocked io n =
    n\<lparr>storage := snd (SaveHardState io
        \<lparr>hs_current_term = current_term n, hs_voted_for = voted_for n\<rparr> (storage n))\<rparr>"

definition StepDownIfStaleLocked :: "raft_env \<Rightarrow> nat \<Rightarrow> RaftNode \<Rightarrow> RaftNode" where
  "StepDownIfStaleLocked env trm n =
    (if trm > current_term n then
       PersistHardStateLocked (io_step_down env)
         (n\<lparr>current_term := trm, voted_for := '''', role := kFollower\<rparr>)
     else n)"

section \<open>RequestVote\<close>

definition up_to_date :: "RequestVoteRequest \<Rightarrow> RaftNode \<Rightarrow> bool" where
  "up_to_date req n \<longleftrightarrow>
    rv_last_log_term req > LastLogTermLocked n \<or>
    (rv_last_log_term req = LastLogTermLocked n \<and> rv_last_log_index req \<ge> LastLogIndexLocked n)"

definition HandleRequestVote ::
  "raft_env \<Rightarrow> RequestVoteRequest \<Rightarrow> RaftNode \<Rightarrow> RaftNode \<times> RequestVoteResponse" where
  "HandleRequestVote env req n =
    (if rv_pre_vote req then
       (n, \<lparr>rvr_term = current_term n,
            rvr_vote_granted =
              (if rv_term req \<ge> current_term n \<and> role n \<noteq> kLeader then
                 let leaderless = (now env - last_leader_contact n \<ge> cfg_election_min (config n))
                 in up_to_date req n \<and> leaderless
               else False)\<rparr>)
     else
       let n = StepDownIfStaleLocked env (rv_term req) n;
           grant = (rv_term req = current_term n \<and>
                    (voted_for n = '''' \<or> voted_for n = rv_candidate_id req) \<and> up_to_date req n);
           n = (if grant then
                  PersistHardStateLocked (io_save env) (n\<lparr>voted_for := rv_candidate_id req\<rparr>)
                    \<lparr>last_activity := now env, election_timeout := RandomElectionTimeout env (config n)\<rparr>
                else n)
       in (n, \<lparr>rvr_term = current_term n, rvr_vote_granted = grant\<rparr>))"

section \<open>Applying committed entries\<close>

text \<open>The loop \<open>while (last_applied_ < commit_index_)\<close>; reading \<open>log_\<close> out of range is \<open>None\<close>.\<close>

function ApplyCommittedLocked :: "RaftNode \<Rightarrow> RaftNode option" where
  "ApplyCommittedLocked n =
    (if last_applied n < commit_index n then
       let k = last_applied n + 1
       in if k \<le> length (log n)
          then ApplyCommittedLocked (n\<lparr>last_applied := k, applied := applied n @ [log n ! (k - 1)]\<rparr>)
          else None
     else Some n)"
  by pat_completeness auto
termination
  by (relation "measure (\<lambda>n. commit_index n - last_applied n)") auto

declare ApplyCommittedLocked.simps [simp del]

section \<open>AppendEntries\<close>

definition vector_resize :: "nat \<Rightarrow> LogEntry list \<Rightarrow> LogEntry list" where
  "vector_resize k l =
    take k l @ replicate (k - length l) \<lparr>le_term = 0, le_index = 0, le_command = ''''\<rparr>"

text \<open>
  The loop over \<open>req.entries()\<close>, carrying the log and the flag \<open>changed\<close>. With \<open>idx = 0\<close> the size
  \<open>idx - 1\<close> wraps to \<open>2^64 - 1\<close> and \<open>resize\<close> throws.
\<close>

fun append_loop :: "LogEntry list \<Rightarrow> LogEntry list \<times> bool \<Rightarrow> (LogEntry list \<times> bool) option" where
  "append_loop [] (l, changed) = Some (l, changed)"
| "append_loop (e # es) (l, changed) =
     (if le_index e \<le> last_index l then
        if term_at l (le_index e) = le_term e then append_loop es (l, changed)
        else if le_index e = 0 then None
        else append_loop es (vector_resize (le_index e - 1) l @ [e], True)
      else append_loop es (l @ [e], True))"

definition HandleAppendEntries ::
  "raft_env \<Rightarrow> AppendEntriesRequest \<Rightarrow> RaftNode \<Rightarrow> (RaftNode \<times> AppendEntriesResponse) option" where
  "HandleAppendEntries env req n =
    (let resp = \<lparr>aer_term = 0, aer_success = False, aer_conflict_index = 0\<rparr>
     in if ae_term req < current_term n then Some (n, resp\<lparr>aer_term := current_term n\<rparr>)
        else
          let n = StepDownIfStaleLocked env (ae_term req) n;
              n = n\<lparr>role := kFollower, leader_id := ae_leader_id req, last_activity := now env,
                     last_leader_contact := now env,
                     election_timeout := RandomElectionTimeout env (config n)\<rparr>;
              resp = resp\<lparr>aer_term := current_term n\<rparr>;
              prev_index = ae_prev_log_index req
          in if prev_index > LastLogIndexLocked n then
               Some (n, resp\<lparr>aer_conflict_index := u64_add (LastLogIndexLocked n) 1\<rparr>)
             else if prev_index > 0 \<and> TermAtLocked n prev_index \<noteq> ae_prev_log_term req then
               Some (n, resp\<lparr>aer_conflict_index := prev_index\<rparr>)
             else
               case append_loop (ae_entries req) (log n, False) of
                 None \<Rightarrow> None
               | Some (l, changed) \<Rightarrow>
                   let n = n\<lparr>log := l\<rparr>;
                       n = (if changed then
                              n\<lparr>storage := snd (RewriteLog (io_rewrite env) (io_reopen env) l (storage n))\<rparr>
                            else n);
                       resp = resp\<lparr>aer_success := True\<rparr>
                   in if ae_leader_commit req > commit_index n then
                        case ApplyCommittedLocked
                               (n\<lparr>commit_index := min (ae_leader_commit req) (LastLogIndexLocked n)\<rparr>) of
                          None \<Rightarrow> None
                        | Some n \<Rightarrow> Some (n, resp)
                      else Some (n, resp))"

section \<open>Committing and proposing\<close>

text \<open>The scan \<open>for (n = last; n > commit_index_; --n)\<close> for the highest committable index.\<close>

definition replica_count :: "RaftNode \<Rightarrow> nat \<Rightarrow> nat" where
  "replica_count n k =
    1 + length (filter (\<lambda>p. case match_index n p of None \<Rightarrow> False | Some m \<Rightarrow> m \<ge> k) (cfg_peers (config n)))"

fun commit_scan :: "RaftNode \<Rightarrow> nat \<Rightarrow> nat option" where
  "commit_scan n 0 = None"
| "commit_scan n (Suc k) =
     (if Suc k > commit_index n then
        if TermAtLocked n (Suc k) \<noteq> current_term n then commit_scan n k
        else if replica_count n (Suc k) \<ge> MajorityLocked n then Some (Suc k)
        else commit_scan n k
      else None)"

definition AdvanceCommitLocked :: "RaftNode \<Rightarrow> RaftNode option" where
  "AdvanceCommitLocked n =
    (case commit_scan n (LastLogIndexLocked n) of
       None \<Rightarrow> Some n
     | Some k \<Rightarrow> ApplyCommittedLocked (n\<lparr>commit_index := k\<rparr>))"

definition Propose :: "raft_env \<Rightarrow> string \<Rightarrow> RaftNode \<Rightarrow> (RaftNode \<times> nat StatusOr) option" where
  "Propose env cmd n =
    (if role n \<noteq> kLeader then
       Some (n, Inl (Unavailable (''not leader (leader='' @ leader_id n @ '')'')))
     else
       let entry = \<lparr>le_term = current_term n, le_index = u64_add (LastLogIndexLocked n) 1,
                    le_command = cmd\<rparr>;
           n = n\<lparr>log := log n @ [entry],
                  storage := snd (AppendEntry (io_append env) entry (storage n))\<rparr>
       in case AdvanceCommitLocked n of
            None \<Rightarrow> None
          | Some n \<Rightarrow> Some (n, Inr (le_index entry)))"

text \<open>
  \<open>WaitApplied\<close>: the list holds the node as the waiting thread finds it each time it owns the lock;
  when the list ends, \<open>wait_until\<close> has timed out.
\<close>

fun WaitApplied :: "nat \<Rightarrow> nat \<Rightarrow> RaftNode list \<Rightarrow> Status" where
  "WaitApplied index trm [] = Unavailable ''timed out waiting for commit''"
| "WaitApplied index trm (n # ns) =
     (if last_applied n < index then
        if current_term n > trm then Unavailable ''term advanced; proposal may be lost''
        else if index \<le> LastLogIndexLocked n \<and> TermAtLocked n index \<noteq> trm
          then Unavailable ''log entry overwritten before commit''
        else WaitApplied index trm ns
      else if TermAtLocked n index \<noteq> trm
        then Unavailable ''log entry overwritten before apply''
      else Status_Ok)"

section \<open>Elections\<close>

definition ElectionLoop_due :: "raft_env \<Rightarrow> RaftNode \<Rightarrow> bool" where
  "ElectionLoop_due env n \<longleftrightarrow>
    role n \<noteq> kLeader \<and> now env \<ge> last_activity n + election_timeout n"

text \<open>First locked region of \<open>StartElection\<close>: the pre-vote request.\<close>

definition StartElection_prevote :: "RaftNode \<Rightarrow> RequestVoteRequest option" where
  "StartElection_prevote n =
    (if role n = kLeader then None
     else Some \<lparr>rv_term = u64_add (current_term n) 1, rv_candidate_id = cfg_id (config n),
                rv_last_log_index = LastLogIndexLocked n, rv_last_log_term = LastLogTermLocked n,
                rv_pre_vote = True\<rparr>)"

text \<open>Second locked region: abort, or become candidate of the next term.\<close>

definition StartElection_begin ::
  "raft_env \<Rightarrow> nat \<Rightarrow> RaftNode \<Rightarrow> (RaftNode \<times> RequestVoteRequest) option" where
  "StartElection_begin env would_be_term n =
    (if role n = kLeader \<or> u64_add (current_term n) 1 \<noteq> would_be_term \<or>
        now env - last_leader_contact n < cfg_election_min (config n) then None
     else
       let n = PersistHardStateLocked (io_save env)
             (n\<lparr>current_term := u64_add (current_term n) 1, role := kCandidate,
                voted_for := cfg_id (config n), leader_id := ''''\<rparr>);
           n = n\<lparr>last_activity := now env, election_timeout := RandomElectionTimeout env (config n)\<rparr>
       in Some (n, \<lparr>rv_term = current_term n, rv_candidate_id = cfg_id (config n),
                    rv_last_log_index = LastLogIndexLocked n, rv_last_log_term = LastLogTermLocked n,
                    rv_pre_vote = False\<rparr>))"

text \<open>
  The locked region of the request threads of \<open>WinVoteRound\<close>, run when a peer answered: the node
  and the shared counter \<open>votes\<close>.
\<close>

definition WinVoteRound_reply ::
  "raft_env \<Rightarrow> RequestVoteResponse \<Rightarrow> bool \<Rightarrow> nat \<Rightarrow> RaftNode \<times> nat \<Rightarrow> RaftNode \<times> nat" where
  "WinVoteRound_reply env resp pre_vote trm nv =
    (case nv of (n, votes) \<Rightarrow>
       if rvr_term resp > current_term n then (StepDownIfStaleLocked env (rvr_term resp) n, votes)
       else if \<not> pre_vote \<and> (role n \<noteq> kCandidate \<or> current_term n \<noteq> trm) then (n, votes)
       else if rvr_vote_granted resp then (n, votes + 1)
       else (n, votes))"

definition WinVoteRound_result :: "RaftNode \<Rightarrow> nat \<Rightarrow> bool" where
  "WinVoteRound_result n votes \<longleftrightarrow> votes \<ge> MajorityLocked n"

definition BecomeLeaderLocked :: "RaftNode \<Rightarrow> RaftNode" where
  "BecomeLeaderLocked n =
    (let next = u64_add (LastLogIndexLocked n) 1;
         n = n\<lparr>role := kLeader, leader_id := cfg_id (config n)\<rparr>
     in fold (\<lambda>peer n. n\<lparr>next_index := (next_index n)(peer \<mapsto> next),
                          match_index := (match_index n)(peer \<mapsto> 0)\<rparr>)
          (cfg_peers (config n)) n)"

text \<open>Last locked region of \<open>StartElection\<close>, entered when \<open>WinVoteRound\<close> returned true.\<close>

definition StartElection_finish :: "nat \<Rightarrow> RaftNode \<Rightarrow> RaftNode" where
  "StartElection_finish trm n =
    (if role n = kCandidate \<and> current_term n = trm then BecomeLeaderLocked n else n)"

section \<open>Replication\<close>

text \<open>
  First locked region of \<open>ReplicateTo\<close>. The loop copies \<open>log_[next - 1 .. LastLogIndex - 1]\<close>; lemma
  \<open>ReplicateTo_in_range\<close> shows that these reads are in range.
\<close>

definition ReplicateTo_request :: "string \<Rightarrow> nat \<Rightarrow> RaftNode \<Rightarrow> AppendEntriesRequest option" where
  "ReplicateTo_request peer trm n =
    (if role n \<noteq> kLeader \<or> current_term n \<noteq> trm then None
     else
       let next = (case next_index n peer of Some i \<Rightarrow> i | None \<Rightarrow> u64_add (LastLogIndexLocked n) 1);
           prev = u64_sub next 1
       in Some \<lparr>ae_term = trm, ae_leader_id = cfg_id (config n), ae_prev_log_index = prev,
                ae_prev_log_term = TermAtLocked n prev,
                ae_entries = map (\<lambda>i. log n ! (i - 1)) [next ..< LastLogIndexLocked n + 1],
                ae_leader_commit = commit_index n\<rparr>)"

text \<open>Second locked region of \<open>ReplicateTo\<close>, entered when the peer answered.\<close>

definition ReplicateTo_response ::
  "raft_env \<Rightarrow> string \<Rightarrow> nat \<Rightarrow> AppendEntriesRequest \<Rightarrow> AppendEntriesResponse \<Rightarrow> RaftNode \<Rightarrow> RaftNode option" where
  "ReplicateTo_response env peer trm req resp n =
    (if current_term n \<noteq> trm \<or> role n \<noteq> kLeader then Some n
     else if aer_term resp > current_term n then Some (StepDownIfStaleLocked env (aer_term resp) n)
     else if aer_success resp then
       let matched = u64_add (ae_prev_log_index req) (length (ae_entries req));
           m = max (case match_index n peer of Some i \<Rightarrow> i | None \<Rightarrow> 0) matched
       in AdvanceCommitLocked
            (n\<lparr>match_index := (match_index n)(peer \<mapsto> m),
               next_index := (next_index n)(peer \<mapsto> u64_add m 1)\<rparr>)
     else
       let conflict = aer_conflict_index resp
       in Some (n\<lparr>next_index := (next_index n)(peer \<mapsto> (if conflict = 0 then 1 else conflict))\<rparr>))"

section \<open>Disks that report no error\<close>

definition wfa_ok :: "wfa_env \<Rightarrow> bool" where
  "wfa_ok io \<longleftrightarrow> (\<forall>old new. WriteFileAtomic io old new = (Status_Ok, new))"

definition append_ok :: "append_env \<Rightarrow> bool" where
  "append_ok io \<longleftrightarrow>
    (\<forall>st p. log_fd_open st \<longrightarrow> WriteAll io st p = (Status_Ok, st\<lparr>log_file := log_file st @ p\<rparr>))"

definition disk_ok :: "raft_env \<Rightarrow> bool" where
  "disk_ok env \<longleftrightarrow> wfa_ok (io_step_down env) \<and> wfa_ok (io_save env) \<and> append_ok (io_append env) \<and>
    wfa_ok (io_rewrite env) \<and> io_reopen env = None"

lemma disk_okD:
  assumes "disk_ok env"
  shows "WriteFileAtomic (io_step_down env) old new = (Status_Ok, new)"
    and "WriteFileAtomic (io_save env) old new = (Status_Ok, new)"
    and "WriteFileAtomic (io_rewrite env) old new = (Status_Ok, new)"
    and "log_fd_open st \<Longrightarrow> WriteAll (io_append env) st b = (Status_Ok, st\<lparr>log_file := log_file st @ b\<rparr>)"
    and "io_reopen env = None"
  using assms by (simp_all add: disk_ok_def wfa_ok_def append_ok_def)

section \<open>Well-formed nodes\<close>

text \<open>The comment \<open>log_[i].index == i+1\<close> of \<open>raft_node.h\<close>.\<close>

definition log_wf :: "LogEntry list \<Rightarrow> bool" where
  "log_wf l \<longleftrightarrow> (\<forall>k < length l. le_index (l ! k) = Suc k) \<and> length l + 1 < u64_size"

text \<open>The disk holds the term, the vote and the log of the node.\<close>

definition durable :: "RaftNode \<Rightarrow> bool" where
  "durable n \<longleftrightarrow> holds_log (storage n) (log n) \<and>
    stored_hard (storage n) = \<lparr>hs_current_term = current_term n, hs_voted_for = voted_for n\<rparr>"

definition node_ok :: "RaftNode \<Rightarrow> bool" where
  "node_ok n \<longleftrightarrow> log_wf (log n) \<and> current_term n < u64_size \<and> length (voted_for n) + 12 < 2 ^ 32 \<and>
    durable n \<and> commit_index n \<le> length (log n) \<and> last_applied n = commit_index n \<and>
    applied n = take (commit_index n) (log n)"

lemma last_index_wf: "log_wf l \<Longrightarrow> last_index l = length l"
  by (auto simp: last_index_def log_wf_def last_conv_nth)

lemma LastLogIndex_wf [simp]: "log_wf (log n) \<Longrightarrow> LastLogIndexLocked n = length (log n)"
  by (simp add: LastLogIndexLocked_def last_index_wf)

lemma log_wf_take: "log_wf l \<Longrightarrow> log_wf (take m l)"
  by (auto simp: log_wf_def min_def)

lemma log_wf_snoc: "log_wf l \<Longrightarrow> le_index e = length l + 1 \<Longrightarrow> length l + 2 < u64_size \<Longrightarrow> log_wf (l @ [e])"
  by (auto simp: log_wf_def nth_append less_Suc_eq)

lemma term_at_nth: "k < length l \<Longrightarrow> term_at l (Suc k) = le_term (l ! k)"
  by (simp add: term_at_def)

lemma ApplyCommitted_all:
  assumes "last_applied n \<le> commit_index n" and "commit_index n \<le> length (log n)"
    and "applied n = take (last_applied n) (log n)"
  shows "ApplyCommittedLocked n =
    Some (n\<lparr>last_applied := commit_index n, applied := take (commit_index n) (log n)\<rparr>)"
  using assms
proof (induction n rule: ApplyCommittedLocked.induct)
  case (1 n)
  show ?case
  proof (cases "last_applied n < commit_index n")
    case True
    then have "ApplyCommittedLocked n = ApplyCommittedLocked
        (n\<lparr>last_applied := last_applied n + 1, applied := applied n @ [log n ! last_applied n]\<rparr>)"
      using "1.prems"(2) by (simp add: ApplyCommittedLocked.simps [of n])
    also have "\<dots> = Some (n\<lparr>last_applied := commit_index n, applied := take (commit_index n) (log n)\<rparr>)"
      using "1.IH" [OF True refl] "1.prems" True by (simp add: take_Suc_conv_app_nth)
    finally show ?thesis .
  next
    case False
    then show ?thesis
      using "1.prems" by (simp add: ApplyCommittedLocked.simps [of n])
  qed
qed

lemma Persist_ok:
  assumes "WriteFileAtomic io (meta_file (storage n)) = (\<lambda>new. (Status_Ok, new))"
    and "current_term n < u64_size" and "length (voted_for n) + 12 < 2 ^ 32"
    and "holds_log (storage n) (log n)"
  shows "durable (PersistHardStateLocked io n)"
    and "\<exists>st. PersistHardStateLocked io n = n\<lparr>storage := st\<rparr>"
proof -
  let ?hs = "\<lparr>hs_current_term = current_term n, hs_voted_for = voted_for n\<rparr>"
  obtain st where st: "SaveHardState io ?hs (storage n) = (Status_Ok, st)"
    using assms(1) by (simp add: SaveHardState_def)
  have "hard_ok ?hs" using assms(2,3) by (simp add: hard_ok_def)
  from SaveHardState_stored [OF this st] assms(4)
  have "durable (n\<lparr>storage := st\<rparr>)"
    by (simp add: durable_def holds_log_def)
  moreover have "PersistHardStateLocked io n = n\<lparr>storage := st\<rparr>"
    by (simp add: PersistHardStateLocked_def st)
  ultimately show "durable (PersistHardStateLocked io n)"
    and "\<exists>st. PersistHardStateLocked io n = n\<lparr>storage := st\<rparr>" by auto
qed

text \<open>Stepping down to term \<open>t\<close>: what is left of the node, and its disk still agrees.\<close>

lemma StepDown_ok:
  assumes "disk_ok env" and "node_ok n" and "t < u64_size"
  obtains st where
    "StepDownIfStaleLocked env t n =
      (if t > current_term n
       then n\<lparr>current_term := t, voted_for := '''', role := kFollower, storage := st\<rparr> else n)"
    and "node_ok (StepDownIfStaleLocked env t n)"
proof (cases "t > current_term n")
  case True
  let ?n = "n\<lparr>current_term := t, voted_for := '''', role := kFollower\<rparr>"
  have W: "WriteFileAtomic (io_step_down env) (meta_file (storage ?n)) = (\<lambda>new. (Status_Ok, new))"
    using disk_okD(1) [OF assms(1)] by blast
  note P = Persist_ok [OF W]
  have "durable (PersistHardStateLocked (io_step_down env) ?n)"
    and "\<exists>st. PersistHardStateLocked (io_step_down env) ?n = ?n\<lparr>storage := st\<rparr>"
    using P assms by (auto simp: node_ok_def durable_def)
  then obtain st where "PersistHardStateLocked (io_step_down env) ?n = ?n\<lparr>storage := st\<rparr>"
    "durable (?n\<lparr>storage := st\<rparr>)" by auto
  with True assms(2,3) show ?thesis
    by (intro that [of st]) (simp_all add: StepDownIfStaleLocked_def node_ok_def)
next
  case False
  then show ?thesis using that [of "storage n"] assms(2) by (simp add: StepDownIfStaleLocked_def)
qed

end
