(* ===== verification/Raft_Cluster.thy ===== *)
theory Raft_Cluster
  imports Raft_Node
begin

text \<open>
  A group of Raft nodes that exchange messages: the threads \<open>Start\<close> creates (one election loop and
  one replication loop per peer on every node), the requests and replies in flight, and process
  crashes with a restart from disk. Every rule of \<open>node_step\<close> and \<open>cluster_step\<close> runs exactly one locked region of
  \<open>raft_node.cc\<close>, so any interleaving of the threads of all nodes is a sequence of these steps.

  Messages stay in the sets once sent and a handler may run on any of them at any time: loss (it is
  never handled, or the reply is never taken up), delay, reordering and duplication are all covered.
  Clocks and random draws are arbitrary in every step. The file system is assumed not to report an
  error (\<open>disk_ok\<close>); what happens otherwise is the subject of \<open>Raft_Findings\<close>.
\<close>

section \<open>State\<close>

text \<open>The election thread: idle, or inside \<open>WinVoteRound\<close> with the peers still to answer and the votes.\<close>

datatype vote_thread = VIdle | VRound RequestVoteRequest "string list" nat

record cluster =
  nodes :: "string \<Rightarrow> RaftNode"
  vthreads :: "string \<Rightarrow> vote_thread"
  rthreads :: "string \<Rightarrow> string \<rightharpoonup> AppendEntriesRequest" \<comment> \<open>the call a replication loop waits for\<close>
  vote_reqs :: "(string \<times> string \<times> RequestVoteRequest) set"
  vote_resps :: "(string \<times> string \<times> RequestVoteRequest \<times> RequestVoteResponse) set"
  append_reqs :: "(string \<times> string \<times> AppendEntriesRequest) set"
  append_resps :: "(string \<times> string \<times> AppendEntriesRequest \<times> AppendEntriesResponse) set"

section \<open>Configuration\<close>

text \<open>What \<open>tools/metadata/metadata_main.cc\<close> sets up: every node lists all the others once.\<close>

definition wf_config :: "string list \<Rightarrow> (string \<Rightarrow> RaftConfig) \<Rightarrow> bool" where
  "wf_config M cfg \<longleftrightarrow> distinct M \<and>
    (\<forall>p \<in> set M. cfg_id (cfg p) = p \<and> distinct (cfg_peers (cfg p)) \<and>
       set (cfg_peers (cfg p)) = set M - {p} \<and> p \<noteq> '''' \<and> length p + 12 < 2 ^ 32)"

section \<open>Steps\<close>

definition fan_out :: "RaftNode \<Rightarrow> 'r \<Rightarrow> (string \<times> string \<times> 'r) set" where
  "fan_out n req = {(cfg_id (config n), p, req) | p. p \<in> set (cfg_peers (config n))}"

text \<open>
  \<open>reboot\<close>: the process restarts and \<open>Open\<close> reads what is on disk. A crash may fall between the
  persistence of a higher term and the rest of the handler, hence the \<open>StepDownIfStaleLocked\<close>.
\<close>

definition reboot :: "raft_env \<Rightarrow> raft_env \<Rightarrow> nat \<Rightarrow> RaftNode \<Rightarrow> RaftNode option" where
  "reboot env env' t n =
    (let st = storage (StepDownIfStaleLocked env t n)
     in case RaftStorage_Open open_good (log_file st) (meta_file st) of
          Inl _ \<Rightarrow> None
        | Inr st' \<Rightarrow> Some (RaftNode_new env' (config n) st'))"

text \<open>What the threads of a node do: every rule is one locked region, or a thread that gives up waiting for an answer.\<close>

inductive node_step :: "string list \<Rightarrow> cluster \<Rightarrow> cluster \<Rightarrow> bool" for M where
  prevote: "p \<in> set M \<Longrightarrow> vthreads s p = VIdle \<Longrightarrow> ElectionLoop_due env (nodes s p) \<Longrightarrow>
    StartElection_prevote (nodes s p) = Some req \<Longrightarrow>
    node_step M s (s\<lparr>vthreads := (vthreads s)(p := VRound req (cfg_peers (config (nodes s p))) 1),
      vote_reqs := fan_out (nodes s p) req \<union> vote_reqs s\<rparr>)"
| vote_reply: "p \<in> set M \<Longrightarrow> disk_ok env \<Longrightarrow> vthreads s p = VRound req pend votes \<Longrightarrow> q \<in> set pend \<Longrightarrow>
    (q, p, req, resp) \<in> vote_resps s \<Longrightarrow>
    WinVoteRound_reply env resp (rv_pre_vote req) (rv_term req) (nodes s p, votes) = (n, votes') \<Longrightarrow>
    node_step M s (s\<lparr>nodes := (nodes s)(p := n),
      vthreads := (vthreads s)(p := VRound req (remove1 q pend) votes')\<rparr>)"
| vote_unreachable: "p \<in> set M \<Longrightarrow> vthreads s p = VRound req pend votes \<Longrightarrow> q \<in> set pend \<Longrightarrow>
    node_step M s (s\<lparr>vthreads := (vthreads s)(p := VRound req (remove1 q pend) votes)\<rparr>)"
| round_lost: "p \<in> set M \<Longrightarrow> vthreads s p = VRound req [] votes \<Longrightarrow>
    \<not> WinVoteRound_result (nodes s p) votes \<Longrightarrow>
    node_step M s (s\<lparr>vthreads := (vthreads s)(p := VIdle)\<rparr>)"
| election_aborted: "p \<in> set M \<Longrightarrow> vthreads s p = VRound req [] votes \<Longrightarrow> rv_pre_vote req \<Longrightarrow>
    WinVoteRound_result (nodes s p) votes \<Longrightarrow>
    StartElection_begin env (rv_term req) (nodes s p) = None \<Longrightarrow>
    node_step M s (s\<lparr>vthreads := (vthreads s)(p := VIdle)\<rparr>)"
| election_begun: "p \<in> set M \<Longrightarrow> disk_ok env \<Longrightarrow> vthreads s p = VRound req [] votes \<Longrightarrow>
    rv_pre_vote req \<Longrightarrow> WinVoteRound_result (nodes s p) votes \<Longrightarrow>
    current_term (nodes s p) + 1 < u64_size \<Longrightarrow>
    StartElection_begin env (rv_term req) (nodes s p) = Some (n, req') \<Longrightarrow>
    node_step M s (s\<lparr>nodes := (nodes s)(p := n),
      vthreads := (vthreads s)(p := VRound req' (cfg_peers (config n)) 1),
      vote_reqs := fan_out n req' \<union> vote_reqs s\<rparr>)"
| election_won: "p \<in> set M \<Longrightarrow> vthreads s p = VRound req [] votes \<Longrightarrow> \<not> rv_pre_vote req \<Longrightarrow>
    WinVoteRound_result (nodes s p) votes \<Longrightarrow>
    node_step M s (s\<lparr>nodes := (nodes s)(p := StartElection_finish (rv_term req) (nodes s p)),
      vthreads := (vthreads s)(p := VIdle)\<rparr>)"
| propose: "p \<in> set M \<Longrightarrow> disk_ok env \<Longrightarrow> length cmd + 20 < 2 ^ 32 \<Longrightarrow>
    length (log (nodes s p)) + 2 < u64_size \<Longrightarrow> Propose env cmd (nodes s p) = Some (n, r) \<Longrightarrow>
    node_step M s (s\<lparr>nodes := (nodes s)(p := n)\<rparr>)"
| replicate: "p \<in> set M \<Longrightarrow> q \<in> set (cfg_peers (config (nodes s p))) \<Longrightarrow> rthreads s p q = None \<Longrightarrow>
    ReplicateTo_request q (current_term (nodes s p)) (nodes s p) = Some req \<Longrightarrow>
    node_step M s (s\<lparr>rthreads := (rthreads s)(p := (rthreads s p)(q \<mapsto> req)),
      append_reqs := insert (p, q, req) (append_reqs s)\<rparr>)"
| replicate_reply: "p \<in> set M \<Longrightarrow> disk_ok env \<Longrightarrow> rthreads s p q = Some req \<Longrightarrow>
    (q, p, req, resp) \<in> append_resps s \<Longrightarrow>
    ReplicateTo_response env q (ae_term req) req resp (nodes s p) = Some n \<Longrightarrow>
    node_step M s (s\<lparr>nodes := (nodes s)(p := n),
      rthreads := (rthreads s)(p := (rthreads s p)(q := None))\<rparr>)"
| replicate_unreachable: "p \<in> set M \<Longrightarrow>
    node_step M s (s\<lparr>rthreads := (rthreads s)(p := (rthreads s p)(q := None))\<rparr>)"
| restart: "p \<in> set M \<Longrightarrow> disk_ok env \<Longrightarrow> t < u64_size \<Longrightarrow> reboot env env' t (nodes s p) = Some n \<Longrightarrow>
    node_step M s (s\<lparr>nodes := (nodes s)(p := n), vthreads := (vthreads s)(p := VIdle),
      rthreads := (rthreads s)(p := Map.empty)\<rparr>)"

text \<open>The group: besides its threads, any node may at any time handle a request that was sent to it.\<close>

inductive cluster_step :: "string list \<Rightarrow> cluster \<Rightarrow> cluster \<Rightarrow> bool" for M where
  handle_vote: "p \<in> set M \<Longrightarrow> disk_ok env \<Longrightarrow> (c, p, req) \<in> vote_reqs s \<Longrightarrow>
    HandleRequestVote env req (nodes s p) = (n, resp) \<Longrightarrow>
    cluster_step M s (s\<lparr>nodes := (nodes s)(p := n),
      vote_resps := insert (p, c, req, resp) (vote_resps s)\<rparr>)"
| handle_append: "p \<in> set M \<Longrightarrow> disk_ok env \<Longrightarrow> (c, p, req) \<in> append_reqs s \<Longrightarrow>
    HandleAppendEntries env req (nodes s p) = Some (n, resp) \<Longrightarrow>
    cluster_step M s (s\<lparr>nodes := (nodes s)(p := n),
      append_resps := insert (p, c, req, resp) (append_resps s)\<rparr>)"
| own: "node_step M s s' \<Longrightarrow> cluster_step M s s'"

lemmas cluster_prevote = node_step.prevote [THEN cluster_step.own]
lemmas cluster_vote_reply = node_step.vote_reply [THEN cluster_step.own]
lemmas cluster_vote_unreachable = node_step.vote_unreachable [THEN cluster_step.own]
lemmas cluster_round_lost = node_step.round_lost [THEN cluster_step.own]
lemmas cluster_election_aborted = node_step.election_aborted [THEN cluster_step.own]
lemmas cluster_election_begun = node_step.election_begun [THEN cluster_step.own]
lemmas cluster_election_won = node_step.election_won [THEN cluster_step.own]
lemmas cluster_propose = node_step.propose [THEN cluster_step.own]
lemmas cluster_replicate = node_step.replicate [THEN cluster_step.own]
lemmas cluster_replicate_reply = node_step.replicate_reply [THEN cluster_step.own]
lemmas cluster_replicate_unreachable = node_step.replicate_unreachable [THEN cluster_step.own]
lemmas cluster_restart = node_step.restart [THEN cluster_step.own]

text \<open>The first start of every node, on an empty directory.\<close>

definition cluster_init :: "(string \<Rightarrow> raft_env) \<Rightarrow> (string \<Rightarrow> RaftConfig) \<Rightarrow> cluster" where
  "cluster_init env cfg =
    \<lparr>nodes = (\<lambda>p. RaftNode_new (env p) (cfg p) empty_storage), vthreads = (\<lambda>_. VIdle),
     rthreads = (\<lambda>_. Map.empty), vote_reqs = {}, vote_resps = {}, append_reqs = {}, append_resps = {}\<rparr>"

definition reachable :: "string list \<Rightarrow> (string \<Rightarrow> RaftConfig) \<Rightarrow> cluster \<Rightarrow> bool" where
  "reachable M cfg s \<longleftrightarrow> (\<exists>env. (cluster_step M)\<^sup>*\<^sup>* (cluster_init env cfg) s)"

lemma Open_empty: "RaftStorage_Open open_good '''' '''' = Inr empty_storage"
  using Open_loads [of empty_storage]
  by (simp add: empty_storage_def stored_log_def stored_hard_def load_hard_def ReadFramedRecords_def
      read_frames_from.simps)

end
