(* ===== verification/Raft_Example.thy ===== *)
theory Raft_Example
  imports Raft_Cluster
begin

text \<open>
  One run of a group of two nodes, step by step: node \<open>a\<close> times out, wins the pre-vote and the vote of
  \<open>b\<close>, becomes leader of term 1, proposes a command, replicates and commits it, and tells \<open>b\<close>. The
  states of the run are the concrete inputs at which the safety theorems are applied.
\<close>

definition env_at :: "int \<Rightarrow> raft_env" where
  "env_at t = \<lparr>now = t, draw = 0, io_step_down = wfa_good, io_save = wfa_good, io_append = append_good,
     io_rewrite = wfa_good, io_reopen = None\<rparr>"

definition duo :: "string list" where
  "duo = [''a'', ''b'']"

definition duo_cfg :: "string \<Rightarrow> RaftConfig" where
  "duo_cfg p = \<lparr>cfg_id = p, cfg_peers = filter (\<lambda>q. q \<noteq> p) duo, cfg_election_min = 150,
     cfg_election_max = 300, cfg_heartbeat = 50\<rparr>"

lemma disk_ok_env_at [simp]: "disk_ok (env_at t)"
  by (simp add: disk_ok_def env_at_def wfa_ok_def append_ok_def WriteAll_def append_good_def)

lemma wf_duo [simp]: "wf_config duo duo_cfg"
  by (auto simp: wf_config_def duo_def duo_cfg_def)

lemma Persist_fields [simp]:
  "config (PersistHardStateLocked io n) = config n" "current_term (PersistHardStateLocked io n) = current_term n"
  "voted_for (PersistHardStateLocked io n) = voted_for n" "log (PersistHardStateLocked io n) = log n"
  "role (PersistHardStateLocked io n) = role n" "commit_index (PersistHardStateLocked io n) = commit_index n"
  "last_applied (PersistHardStateLocked io n) = last_applied n" "applied (PersistHardStateLocked io n) = applied n"
  "last_leader_contact (PersistHardStateLocked io n) = last_leader_contact n"
  "match_index (PersistHardStateLocked io n) = match_index n" "next_index (PersistHardStateLocked io n) = next_index n"
  by (simp_all add: PersistHardStateLocked_def)

text \<open>The states, each written as the rule that leads to it writes it.\<close>

definition pre_a :: RequestVoteRequest where
  "pre_a = \<lparr>rv_term = 1, rv_candidate_id = ''a'', rv_last_log_index = 0, rv_last_log_term = 0, rv_pre_vote = True\<rparr>"

definition req_a :: RequestVoteRequest where
  "req_a = \<lparr>rv_term = 1, rv_candidate_id = ''a'', rv_last_log_index = 0, rv_last_log_term = 0, rv_pre_vote = False\<rparr>"

definition yes :: "nat \<Rightarrow> RequestVoteResponse" where
  "yes t = \<lparr>rvr_term = t, rvr_vote_granted = True\<rparr>"

definition run0 :: cluster where
  "run0 = cluster_init (\<lambda>_. env_at 0) duo_cfg"

definition cand_a :: RaftNode where
  "cand_a = fst (the (StartElection_begin (env_at 220) 1 (nodes run0 ''a'')))"

definition voted_b :: RaftNode where
  "voted_b = fst (HandleRequestVote (env_at 230) req_a (nodes run0 ''b''))"

definition lead_a :: RaftNode where
  "lead_a = BecomeLeaderLocked cand_a"

definition run1 :: cluster where \<comment> \<open>\<open>a\<close> times out and asks for a pre-vote\<close>
  "run1 = run0\<lparr>vthreads := (vthreads run0)(''a'' := VRound pre_a (cfg_peers (config (nodes run0 ''a''))) 1),
     vote_reqs := fan_out (nodes run0 ''a'') pre_a \<union> vote_reqs run0\<rparr>"

definition run2 :: cluster where \<comment> \<open>\<open>b\<close> grants the pre-vote\<close>
  "run2 = run1\<lparr>nodes := (nodes run1)(''b'' := nodes run0 ''b''),
     vote_resps := insert (''b'', ''a'', pre_a, yes 0) (vote_resps run1)\<rparr>"

definition run3 :: cluster where \<comment> \<open>\<open>a\<close> counts it\<close>
  "run3 = run2\<lparr>nodes := (nodes run2)(''a'' := nodes run0 ''a''),
     vthreads := (vthreads run2)(''a'' := VRound pre_a (remove1 ''b'' [''b'']) 2)\<rparr>"

definition run4 :: cluster where \<comment> \<open>\<open>a\<close> becomes candidate of term 1\<close>
  "run4 = run3\<lparr>nodes := (nodes run3)(''a'' := cand_a),
     vthreads := (vthreads run3)(''a'' := VRound req_a (cfg_peers (config cand_a)) 1),
     vote_reqs := fan_out cand_a req_a \<union> vote_reqs run3\<rparr>"

definition run5 :: cluster where \<comment> \<open>\<open>b\<close> votes for \<open>a\<close>\<close>
  "run5 = run4\<lparr>nodes := (nodes run4)(''b'' := voted_b),
     vote_resps := insert (''b'', ''a'', req_a, yes 1) (vote_resps run4)\<rparr>"

definition run6 :: cluster where \<comment> \<open>\<open>a\<close> counts the vote\<close>
  "run6 = run5\<lparr>nodes := (nodes run5)(''a'' := cand_a),
     vthreads := (vthreads run5)(''a'' := VRound req_a (remove1 ''b'' [''b'']) 2)\<rparr>"

definition run7 :: cluster where \<comment> \<open>\<open>a\<close> is leader\<close>
  "run7 = run6\<lparr>nodes := (nodes run6)(''a'' := StartElection_finish (rv_term req_a) (nodes run6 ''a'')),
     vthreads := (vthreads run6)(''a'' := VIdle)\<rparr>"

lemma env_at_simps [simp]: "now (env_at t) = t" "draw (env_at t) = 0"
  by (simp_all add: env_at_def)

lemma duo_cfg_simps [simp]:
  "cfg_id (duo_cfg p) = p" "cfg_peers (duo_cfg ''a'') = [''b'']" "cfg_peers (duo_cfg ''b'') = [''a'']"
  "cfg_election_min (duo_cfg p) = 150" "cfg_election_max (duo_cfg p) = 300"
  "set duo = {''a'', ''b''}"
  by (simp_all add: duo_cfg_def duo_def)

lemma start_node:
  "config (nodes run0 p) = duo_cfg p" "current_term (nodes run0 p) = 0" "voted_for (nodes run0 p) = ''''"
  "log (nodes run0 p) = []" "role (nodes run0 p) = kFollower" "commit_index (nodes run0 p) = 0"
  "last_applied (nodes run0 p) = 0" "applied (nodes run0 p) = []" "last_activity (nodes run0 p) = 0"
  "last_leader_contact (nodes run0 p) = - 86400000" "election_timeout (nodes run0 p) = 150"
  by (simp_all add: run0_def cluster_init_def RaftNode_new_def empty_storage_def HardState_default_def
      RandomElectionTimeout_def)

lemmas node_simps = start_node LastLogIndexLocked_def LastLogTermLocked_def last_index_def TermAtLocked_def
  term_at_def MajorityLocked_def u64_add_def yes_def

lemmas reqs = req_a_def pre_a_def

lemma cand_a:
  "StartElection_begin (env_at 220) 1 (nodes run0 ''a'') = Some (cand_a, req_a)"
  "config cand_a = duo_cfg ''a''" "current_term cand_a = 1" "voted_for cand_a = ''a''" "log cand_a = []"
  "role cand_a = kCandidate" "commit_index cand_a = 0" "last_applied cand_a = 0" "applied cand_a = []"
  by (simp_all add: cand_a_def StartElection_begin_def Let_def node_simps reqs)

lemma voted_b:
  "HandleRequestVote (env_at 230) req_a (nodes run0 ''b'') = (voted_b, yes 1)"
  "config voted_b = duo_cfg ''b''" "current_term voted_b = 1" "voted_for voted_b = ''a''" "log voted_b = []"
  "role voted_b = kFollower" "commit_index voted_b = 0" "last_applied voted_b = 0" "applied voted_b = []"
  by (simp_all add: voted_b_def HandleRequestVote_def Let_def StepDownIfStaleLocked_def up_to_date_def
      node_simps reqs)

lemma lead_a:
  "config lead_a = duo_cfg ''a''" "current_term lead_a = 1" "log lead_a = []" "role lead_a = kLeader"
  "commit_index lead_a = 0" "last_applied lead_a = 0" "applied lead_a = []"
  "next_index lead_a ''b'' = Some 1" "match_index lead_a ''b'' = Some 0"
  by (simp_all add: lead_a_def BecomeLeaderLocked_def Let_def cand_a node_simps)

lemma run_nodes:
  "nodes run1 p = nodes run0 p" "nodes run2 p = nodes run0 p" "nodes run3 p = nodes run0 p"
  "nodes run4 ''a'' = cand_a" "nodes run4 ''b'' = nodes run0 ''b''"
  "nodes run5 ''a'' = cand_a" "nodes run5 ''b'' = voted_b"
  "nodes run6 ''a'' = cand_a" "nodes run6 ''b'' = voted_b"
  "nodes run7 ''a'' = lead_a" "nodes run7 ''b'' = voted_b"
  by (simp_all add: run1_def run2_def run3_def run4_def run5_def run6_def run7_def StartElection_finish_def
      cand_a lead_a_def reqs)

lemma run_threads0:
  "vthreads run0 ''a'' = VIdle" "vthreads run1 ''a'' = VRound pre_a [''b''] 1" "vthreads run2 = vthreads run1"
  "vthreads run3 ''a'' = VRound pre_a [] 2" "vthreads run4 ''a'' = VRound req_a [''b''] 1"
  "vthreads run5 = vthreads run4" "vthreads run6 ''a'' = VRound req_a [] 2"
  by (simp add: run0_def cluster_init_def) (simp add: run1_def start_node, simp add: run2_def, simp add: run3_def,
    simp add: run4_def cand_a, simp add: run5_def, simp add: run6_def)

lemmas run_threads = run_threads0 [unfolded run_threads0(3,6)] run_threads0(2,5) [folded run_threads0(3,6)]

lemma run_msgs:
  "(''a'', ''b'', pre_a) \<in> vote_reqs run1" "(''b'', ''a'', pre_a, yes 0) \<in> vote_resps run2"
  "(''a'', ''b'', req_a) \<in> vote_reqs run4" "(''b'', ''a'', req_a, yes 1) \<in> vote_resps run5"
  by (simp_all add: run1_def run2_def run4_def run5_def fan_out_def cand_a start_node)

lemma step1: "cluster_step duo run0 run1"
  unfolding run1_def
  by (rule cluster_prevote [where env = "env_at 200"])
     (simp_all add: run_threads ElectionLoop_due_def StartElection_prevote_def node_simps reqs)

lemma step2: "cluster_step duo run1 run2"
  unfolding run2_def
  by (rule cluster_step.handle_vote [where env = "env_at 205", OF _ _ run_msgs(1)])
     (simp_all add: run_nodes run_msgs HandleRequestVote_def up_to_date_def node_simps reqs)

lemma step3: "cluster_step duo run2 run3"
  unfolding run3_def
  by (rule cluster_vote_reply [where env = "env_at 208", OF _ _ run_threads(8) _ run_msgs(2)])
     (simp_all add: run_nodes WinVoteRound_reply_def node_simps pre_a_def)

lemma step4: "cluster_step duo run3 run4"
  unfolding run4_def
  by (rule cluster_election_begun [where env = "env_at 220" and req = pre_a and votes = 2])
     (use cand_a(1) in \<open>simp_all add: run_nodes run_threads WinVoteRound_result_def node_simps pre_a_def\<close>)

lemma step5: "cluster_step duo run4 run5"
  unfolding run5_def
  by (rule cluster_step.handle_vote [where env = "env_at 230"]) (simp_all add: run_nodes run_msgs voted_b)

lemma step6: "cluster_step duo run5 run6"
  unfolding run6_def
  by (rule cluster_vote_reply [where env = "env_at 240", OF _ _ run_threads(9) _ run_msgs(4)])
     (simp_all add: run_nodes WinVoteRound_reply_def cand_a req_a_def yes_def)

lemma step7: "cluster_step duo run6 run7"
  unfolding run7_def
  by (rule cluster_election_won [where votes = 2])
     (simp_all add: run_nodes run_threads WinVoteRound_result_def MajorityLocked_def cand_a req_a_def)

lemmas steps_to_leader = step1 step2 step3 step4 step5 step6 step7

lemma run_to_leader: "(cluster_step duo)\<^sup>*\<^sup>* run0 run7"
  using steps_to_leader by (meson converse_rtranclp_into_rtranclp rtranclp.rtrancl_refl)

section \<open>Committing a command\<close>

definition entry_x :: LogEntry where
  "entry_x = \<lparr>le_term = 1, le_index = 1, le_command = ''x''\<rparr>"

definition prop_a :: RaftNode where
  "prop_a = fst (the (Propose (env_at 300) ''x'' lead_a))"

definition append_b :: "AppendEntriesRequest" where
  "append_b = \<lparr>ae_term = 1, ae_leader_id = ''a'', ae_prev_log_index = 0, ae_prev_log_term = 0,
     ae_entries = [entry_x], ae_leader_commit = 0\<rparr>"

definition done1 :: AppendEntriesResponse where
  "done1 = \<lparr>aer_term = 1, aer_success = True, aer_conflict_index = 0\<rparr>"

definition stored_b :: RaftNode where
  "stored_b = fst (the (HandleAppendEntries (env_at 310) append_b voted_b))"

definition comm_a :: RaftNode where
  "comm_a = the (ReplicateTo_response (env_at 320) ''b'' 1 append_b done1 prop_a)"

definition run8 :: cluster where \<comment> \<open>\<open>a\<close> proposes the command \<open>x\<close>\<close>
  "run8 = run7\<lparr>nodes := (nodes run7)(''a'' := prop_a)\<rparr>"

definition run9 :: cluster where \<comment> \<open>\<open>a\<close> sends it to \<open>b\<close>\<close>
  "run9 = run8\<lparr>rthreads := (rthreads run8)(''a'' := (rthreads run8 ''a'')(''b'' \<mapsto> append_b)),
     append_reqs := insert (''a'', ''b'', append_b) (append_reqs run8)\<rparr>"

definition run10 :: cluster where \<comment> \<open>\<open>b\<close> stores it\<close>
  "run10 = run9\<lparr>nodes := (nodes run9)(''b'' := stored_b),
     append_resps := insert (''b'', ''a'', append_b, done1) (append_resps run9)\<rparr>"

definition run11 :: cluster where \<comment> \<open>\<open>a\<close> commits and applies it\<close>
  "run11 = run10\<lparr>nodes := (nodes run10)(''a'' := comm_a),
     rthreads := (rthreads run10)(''a'' := (rthreads run10 ''a'')(''b'' := None))\<rparr>"

lemma prop_a:
  "Propose (env_at 300) ''x'' lead_a = Some (prop_a, Inr 1)"
  "config prop_a = duo_cfg ''a''" "current_term prop_a = 1" "log prop_a = [entry_x]" "role prop_a = kLeader"
  "commit_index prop_a = 0" "last_applied prop_a = 0" "applied prop_a = []"
  "next_index prop_a ''b'' = Some 1" "match_index prop_a ''b'' = Some 0"
  by (simp_all add: prop_a_def Propose_def Let_def AdvanceCommitLocked_def replica_count_def lead_a node_simps
      entry_x_def)

lemma stored_b:
  "HandleAppendEntries (env_at 310) append_b voted_b = Some (stored_b, done1)"
  "config stored_b = duo_cfg ''b''" "current_term stored_b = 1" "log stored_b = [entry_x]"
  "role stored_b = kFollower" "commit_index stored_b = 0" "last_applied stored_b = 0" "applied stored_b = []"
  by (simp_all add: stored_b_def HandleAppendEntries_def Let_def StepDownIfStaleLocked_def append_b_def
      voted_b node_simps entry_x_def done1_def)

lemma comm_a:
  "ReplicateTo_response (env_at 320) ''b'' 1 append_b done1 prop_a = Some comm_a"
  "config comm_a = duo_cfg ''a''" "current_term comm_a = 1" "log comm_a = [entry_x]" "role comm_a = kLeader"
  "commit_index comm_a = 1" "last_applied comm_a = 1" "applied comm_a = [entry_x]"
  by (simp_all add: comm_a_def ReplicateTo_response_def Let_def AdvanceCommitLocked_def replica_count_def
      append_b_def done1_def prop_a node_simps entry_x_def ApplyCommittedLocked.simps)

lemma run_nodes2:
  "nodes run8 ''a'' = prop_a" "nodes run8 ''b'' = voted_b" "nodes run9 ''a'' = prop_a" "nodes run9 ''b'' = voted_b"
  "nodes run10 ''a'' = prop_a" "nodes run10 ''b'' = stored_b" "nodes run11 ''a'' = comm_a"
  "nodes run11 ''b'' = stored_b"
  by (simp_all add: run8_def run9_def run10_def run11_def run_nodes)

lemma run_rthreads:
  "rthreads run1 = rthreads run0" "rthreads run2 = rthreads run1" "rthreads run3 = rthreads run2"
  "rthreads run4 = rthreads run3" "rthreads run5 = rthreads run4" "rthreads run6 = rthreads run5"
  "rthreads run7 = rthreads run6" "rthreads run8 = rthreads run7" "rthreads run0 p = Map.empty"
  by (simp add: run1_def) (simp add: run2_def, simp add: run3_def, simp add: run4_def, simp add: run5_def,
    simp add: run6_def, simp add: run7_def, simp add: run8_def, simp add: run0_def cluster_init_def)

lemma run_rest:
  "rthreads run8 ''a'' ''b'' = None" "rthreads run10 ''a'' ''b'' = Some append_b"
  "(''a'', ''b'', append_b) \<in> append_reqs run9" "(''b'', ''a'', append_b, done1) \<in> append_resps run10"
  by (simp add: run_rthreads) (simp add: run10_def run9_def, simp add: run9_def, simp add: run10_def)

lemma step8: "cluster_step duo run7 run8"
  unfolding run8_def
  by (rule cluster_propose [where env = "env_at 300" and cmd = "''x''"])
     (use prop_a(1) in \<open>simp_all add: run_nodes lead_a\<close>)

lemma step9: "cluster_step duo run8 run9"
  unfolding run9_def
  by (rule cluster_replicate)
     (simp_all add: run_nodes2 run_rest prop_a ReplicateTo_request_def Let_def append_b_def node_simps
       entry_x_def u64_sub_def)

lemma step10: "cluster_step duo run9 run10"
  unfolding run10_def
  by (rule cluster_step.handle_append [where env = "env_at 310", OF _ _ run_rest(3)])
     (simp_all add: run_nodes2 stored_b)

lemma step11: "cluster_step duo run10 run11"
  unfolding run11_def
  by (rule cluster_replicate_reply [where env = "env_at 320", OF _ _ run_rest(2,4)])
     (use comm_a(1) in \<open>simp_all add: run_nodes2 append_b_def\<close>)

lemma run_to_commit: "(cluster_step duo)\<^sup>*\<^sup>* run7 run11"
  using step8 step9 step10 step11 by (meson converse_rtranclp_into_rtranclp rtranclp.rtrancl_refl)

lemma reach_leader: "reachable duo duo_cfg run7"
  using run_to_leader unfolding reachable_def run0_def by blast

lemma reach_commit: "reachable duo duo_cfg run11"
  using run_to_leader run_to_commit unfolding reachable_def run0_def by (meson rtranclp_trans)

text \<open>A second proposal after the commit of the first.\<close>

definition entry_y :: LogEntry where
  "entry_y = \<lparr>le_term = 1, le_index = 2, le_command = ''y''\<rparr>"

definition next_a :: RaftNode where
  "next_a = fst (the (Propose (env_at 330) ''y'' comm_a))"

definition run12 :: cluster where
  "run12 = run11\<lparr>nodes := (nodes run11)(''a'' := next_a)\<rparr>"

lemma next_a:
  "Propose (env_at 330) ''y'' comm_a = Some (next_a, Inr 2)"
  "current_term next_a = 1" "log next_a = [entry_x, entry_y]" "role next_a = kLeader"
proof -
  have "match_index comm_a ''b'' = Some 1"
    by (simp add: comm_a_def ReplicateTo_response_def Let_def AdvanceCommitLocked_def replica_count_def
      append_b_def done1_def prop_a node_simps entry_x_def ApplyCommittedLocked.simps)
  then show "Propose (env_at 330) ''y'' comm_a = Some (next_a, Inr 2)"
      "current_term next_a = 1" "log next_a = [entry_x, entry_y]" "role next_a = kLeader"
    by (simp_all add: next_a_def Propose_def Let_def AdvanceCommitLocked_def replica_count_def comm_a node_simps entry_x_def entry_y_def)
qed

lemma step12: "cluster_step duo run11 run12"
  unfolding run12_def
  by (rule cluster_propose [where env = "env_at 330" and cmd = "''y''"])
     (use next_a(1) in \<open>simp_all add: run_nodes2 comm_a\<close>)

end
