(* ===== verification/Raft_Findings.thy ===== *)
theory Raft_Findings
  imports Raft_Example
begin

text \<open>
  What the assumption \<open>disk_ok\<close> of \<open>Raft_Cluster\<close> hides: \<open>raft_node.cc\<close> discards the status of
  \<open>SaveHardState\<close>, \<open>AppendEntry\<close> and \<open>RewriteLog\<close> and answers the RPC all the same.
\<close>

definition disk_full :: "wfa_env \<Rightarrow> bool" where
  "disk_full io \<longleftrightarrow> (\<forall>old new. \<not> ok (fst (WriteFileAtomic io old new)))"

lemma disk_full_unchanged:
  assumes "disk_full io" and "WriteFileAtomic io old new = (s, f)"
  shows "f = old"
proof -
  have "\<not> ok s" using assms unfolding disk_full_def by (metis fst_conv)
  then show ?thesis using WriteFileAtomic_result [OF assms(2)] by simp
qed

lemma Persist_full:
  assumes "disk_full io"
  shows "PersistHardStateLocked io n = n"
proof -
  let ?b = "Frame (EncodeHardState \<lparr>hs_current_term = current_term n, hs_voted_for = voted_for n\<rparr>)"
  obtain s where "WriteFileAtomic io (meta_file (storage n)) ?b = (s, meta_file (storage n))"
    using disk_full_unchanged [OF assms] by (metis surj_pair)
  then show ?thesis by (simp add: PersistHardStateLocked_def SaveHardState_def)
qed

definition vote_req :: "nat \<Rightarrow> string \<Rightarrow> RequestVoteRequest" where
  "vote_req t c = \<lparr>rv_term = t, rv_candidate_id = c, rv_last_log_index = 0, rv_last_log_term = 0, rv_pre_vote = False\<rparr>"

text \<open>
  C25. A node whose disk rejects writes votes twice in one term: it grants its vote to one candidate,
  restarts, and grants it to another candidate of the same term. \<open>raft_types.h\<close> says that term and
  vote "are fsync'd before any RPC reply depends on them"; \<open>PersistHardStateLocked\<close> ignores the
  failure and the reply is sent.
\<close>

theorem double_vote_when_disk_full:
  assumes "disk_full (io_step_down env)" and "disk_full (io_save env)" and "0 < t"
    and "n = RaftNode_new env0 cfg empty_storage"
  shows "\<exists>n1 r1 st n2 r2.
    HandleRequestVote env (vote_req t c1) n = (n1, r1) \<and> rvr_vote_granted r1 \<and>
    RaftStorage_Open open_good (log_file (storage n1)) (meta_file (storage n1)) = Inr st \<and>
    HandleRequestVote env (vote_req t c2) (RaftNode_new env0 cfg st) = (n2, r2) \<and>
    rvr_vote_granted r2 \<and> rvr_term r1 = t \<and> rvr_term r2 = t"
proof -
  have vote: "\<exists>n1 r1. HandleRequestVote env (vote_req t c) n = (n1, r1) \<and> rvr_vote_granted r1 \<and>
      rvr_term r1 = t \<and> log_file (storage n1) = '''' \<and> meta_file (storage n1) = ''''" for c
    using assms by (simp add: HandleRequestVote_def vote_req_def Let_def StepDownIfStaleLocked_def Persist_full
        RaftNode_new_def empty_storage_def HardState_default_def up_to_date_def LastLogIndexLocked_def
        LastLogTermLocked_def last_index_def)
  obtain n1 r1 where 1: "HandleRequestVote env (vote_req t c1) n = (n1, r1)" "rvr_vote_granted r1"
      "rvr_term r1 = t" "log_file (storage n1) = ''''" "meta_file (storage n1) = ''''"
    using vote by blast
  have "RaftStorage_Open open_good (log_file (storage n1)) (meta_file (storage n1)) = Inr empty_storage"
    using 1(4,5) Open_empty by simp
  with 1 vote [of c2] assms(4) show ?thesis by blast
qed

definition full :: wfa_env where
  "full = wfa_good\<lparr>wfa_open := Some ''No space left on device''\<rparr>"

theorem double_vote_when_disk_full_witness:
  "\<exists>n1 r1 st n2 r2.
    HandleRequestVote ((env_at 0)\<lparr>io_step_down := full, io_save := full\<rparr>) (vote_req 1 ''a'') (nodes run0 ''b'') = (n1, r1) \<and>
    rvr_vote_granted r1 \<and>
    RaftStorage_Open open_good (log_file (storage n1)) (meta_file (storage n1)) = Inr st \<and>
    HandleRequestVote ((env_at 0)\<lparr>io_step_down := full, io_save := full\<rparr>) (vote_req 1 ''c'')
      (RaftNode_new (env_at 0) (duo_cfg ''b'') st) = (n2, r2) \<and>
    rvr_vote_granted r2 \<and> rvr_term r1 = 1 \<and> rvr_term r2 = 1"
proof -
  have "disk_full full" by (simp add: disk_full_def full_def WriteFileAtomic_def wfa_good_def IoError_def ok_def)
  then show ?thesis
    by (intro double_vote_when_disk_full) (simp_all add: run0_def cluster_init_def)
qed

end
