(* ===== verification/Ordered_Map.thy ===== *)
theory Ordered_Map
  imports Prelude "HOL-Library.List_Lexorder" "HOL-Library.Char_ord"
begin

text \<open>
  \<open>std::map\<close>: an association list with strictly increasing keys, so that iteration order, insertion
  and erasure are those of the container. Strings are ordered bytewise, as \<open>std::less\<close> orders them.
  The laws the clients use are the interface \<open>ordered_map\<close>, interpreted on the list operations.
\<close>

type_synonym ('k, 'v) omap = "('k \<times> 'v) list"

definition om_ok :: "('k::linorder, 'v) omap \<Rightarrow> bool" where
  "om_ok m \<longleftrightarrow> sorted_wrt (<) (map fst m)"

text \<open>\<open>m.find(k)\<close>, \<open>m[k] = v\<close>, \<open>m.emplace(k, v)\<close> (keeps an existing value) and \<open>m.erase(k)\<close>.\<close>

definition om_find :: "('k, 'v) omap \<Rightarrow> 'k \<rightharpoonup> 'v" where
  "om_find m = map_of m"

fun om_set :: "'k::linorder \<Rightarrow> 'v \<Rightarrow> ('k, 'v) omap \<Rightarrow> ('k, 'v) omap" where
  "om_set k v [] = [(k, v)]"
| "om_set k v ((k', v') # m) =
     (if k < k' then (k, v) # (k', v') # m
      else if k = k' then (k, v) # m
      else (k', v') # om_set k v m)"

definition om_emplace :: "'k::linorder \<Rightarrow> 'v \<Rightarrow> ('k, 'v) omap \<Rightarrow> ('k, 'v) omap" where
  "om_emplace k v m = (case om_find m k of None \<Rightarrow> om_set k v m | Some _ \<Rightarrow> m)"

definition om_erase :: "'k \<Rightarrow> ('k, 'v) omap \<Rightarrow> ('k, 'v) omap" where
  "om_erase k m = filter (\<lambda>(k', _). k' \<noteq> k) m"

locale ordered_map =
  fixes find :: "'m \<Rightarrow> 'k::linorder \<rightharpoonup> 'v" and set :: "'k \<Rightarrow> 'v \<Rightarrow> 'm \<Rightarrow> 'm" and erase :: "'k \<Rightarrow> 'm \<Rightarrow> 'm"
    and ok :: "'m \<Rightarrow> bool"
  assumes find_set: "ok m \<Longrightarrow> find (set k v m) = (find m)(k \<mapsto> v)"
    and find_erase: "ok m \<Longrightarrow> find (erase k m) = (find m)(k := None)"
    and ok_set: "ok m \<Longrightarrow> ok (set k v m)"
    and ok_erase: "ok m \<Longrightarrow> ok (erase k m)"
begin

lemma find_after_set [simp]: "ok m \<Longrightarrow> find (set k v m) k = Some v"
  by (simp add: find_set)

lemma find_after_erase [simp]: "ok m \<Longrightarrow> find (erase k m) k = None"
  by (simp add: find_erase)

lemma find_other:
  "ok m \<Longrightarrow> k' \<noteq> k \<Longrightarrow> find (set k v m) k' = find m k'"
  "ok m \<Longrightarrow> k' \<noteq> k \<Longrightarrow> find (erase k m) k' = find m k'"
  by (simp_all add: find_set find_erase)

text \<open>Two updates of different keys commute for every reader.\<close>

lemma set_set_commute:
  "ok m \<Longrightarrow> k \<noteq> k' \<Longrightarrow> find (set k v (set k' v' m)) = find (set k' v' (set k v m))"
  by (simp add: find_set ok_set fun_upd_twist)

end

lemma om_set_keys: "set (map fst (om_set k v m)) = insert k (set (map fst m))"
  by (induction k v m rule: om_set.induct) auto

lemma om_ok_Cons: "om_ok ((k, v) # m) \<longleftrightarrow> (\<forall>x \<in> fst ` set m. k < x) \<and> om_ok m"
  by (auto simp: om_ok_def)

lemma om_ok_Nil [simp]: "om_ok []"
  by (simp add: om_ok_def)

lemma om_ok_set: "om_ok m \<Longrightarrow> om_ok (om_set k v m)"
proof (induction k v m rule: om_set.induct)
  case (2 k v k' v' m)
  then show ?case
    using om_set_keys [of k v m] by (auto simp: om_ok_Cons image_iff)
qed (simp add: om_ok_def)

lemma om_find_set: "om_ok m \<Longrightarrow> om_find (om_set k v m) = (om_find m)(k \<mapsto> v)"
proof (induction k v m rule: om_set.induct)
  case (2 k v k' v' m)
  have "k \<notin> fst ` set m" if "k < k'" using 2(2) that by (fastforce simp: om_ok_Cons)
  then show ?case using 2 by (auto simp: om_find_def om_ok_Cons fun_upd_twist fun_eq_iff)
qed (simp add: om_find_def)

interpretation om: ordered_map om_find om_set om_erase om_ok
proof
  fix m :: "('k::linorder, 'v) omap" and k v
  assume ok: "om_ok m"
  show "om_find (om_set k v m) = (om_find m)(k \<mapsto> v)" by (rule om_find_set [OF ok])
  show "om_ok (om_set k v m)" by (rule om_ok_set [OF ok])
  show "om_find (om_erase k m) = (om_find m)(k := None)"
    by (induction m) (auto simp: om_find_def om_erase_def)
  show "om_ok (om_erase k m)"
    using ok by (induction m) (auto simp: om_ok_def om_erase_def)
qed

lemma om_find_iff: "om_ok m \<Longrightarrow> om_find m k = Some v \<longleftrightarrow> (k, v) \<in> set m"
  unfolding om_find_def om_ok_def
  by (metis map_of_SomeD map_of_is_SomeI strict_sorted_iff strict_sorted_equal distinct_map sorted_wrt_map)

lemma om_find_emplace: "om_ok m \<Longrightarrow>
  om_find (om_emplace k v m) = (if om_find m k = None then (om_find m)(k \<mapsto> v) else om_find m)"
  by (auto simp: om_emplace_def om_find_set split: option.splits)

lemma om_ok_emplace: "om_ok m \<Longrightarrow> om_ok (om_emplace k v m)"
  by (auto simp: om_emplace_def om_ok_set split: option.splits)

lemma om_ok_filter: "om_ok m \<Longrightarrow> om_ok (filter P m)"
  by (induction m) (auto simp: om_ok_def)

text \<open>A map with increasing keys is determined by its pairs.\<close>

lemma om_set_eq:
  assumes "om_ok m" and "om_ok m'" and "set m = set m'"
  shows "m = m'"
proof -
  have "sorted_wrt (\<lambda>x y. fst x < fst y) m" "sorted_wrt (\<lambda>x y. fst x < fst y) m'"
    using assms(1,2) by (simp_all add: om_ok_def sorted_wrt_map)
  with assms(3) show ?thesis
  proof (induction m arbitrary: m')
    case (Cons x m)
    then obtain y m2 where m': "m' = y # m2" by (cases m') auto
    have "x = y"
      using Cons.prems by (auto simp: m') (metis insertE insertI1 less_asym)+
    moreover have "x \<notin> set m" "y \<notin> set m2" using Cons.prems by (auto simp: m')
    ultimately have "set m = set m2" using Cons.prems(1) by (auto simp: m')
    with \<open>x = y\<close> show ?case using Cons by (simp add: m')
  qed simp
qed

lemma om_ext:
  assumes "om_ok m" and "om_ok m'" and "om_find m = om_find m'"
  shows "m = m'"
  by (rule om_set_eq [OF assms(1,2)])
     (use om_find_iff [OF assms(1)] om_find_iff [OF assms(2)] assms(3) in auto)

end
