(* ===== verification/Sha256.thy ===== *)
theory Sha256
  imports Prelude
begin

text \<open>
  \<open>src/common/sha256.cc\<close>, \<open>hash.cc\<close> and \<open>digest.cc\<close>: the streaming SHA-256 with its 64-byte buffer,
  the hex digest, the 64-bit ring hash and the path of an object on disk.

  The lemmas show that feeding a message in pieces is the same as feeding it at once, that the digest
  is the fold of the compression function over the padded message (the reference definition), and
  that it is always 64 lowercase hexadecimal characters.
\<close>

unbundle bit_operations_syntax

section \<open>The compression function\<close>

definition kInitState :: "u32 list" where
  "kInitState = [0x6a09e667, 0xbb67ae85, 0x3c6ef372, 0xa54ff53a, 0x510e527f, 0x9b05688c, 0x1f83d9ab, 0x5be0cd19]"

definition kRoundConstants :: "u32 list" where
  "kRoundConstants =
    [0x428a2f98, 0x71374491, 0xb5c0fbcf, 0xe9b5dba5, 0x3956c25b, 0x59f111f1, 0x923f82a4, 0xab1c5ed5] @
    [0xd807aa98, 0x12835b01, 0x243185be, 0x550c7dc3, 0x72be5d74, 0x80deb1fe, 0x9bdc06a7, 0xc19bf174] @
    [0xe49b69c1, 0xefbe4786, 0x0fc19dc6, 0x240ca1cc, 0x2de92c6f, 0x4a7484aa, 0x5cb0a9dc, 0x76f988da] @
    [0x983e5152, 0xa831c66d, 0xb00327c8, 0xbf597fc7, 0xc6e00bf3, 0xd5a79147, 0x06ca6351, 0x14292967] @
    [0x27b70a85, 0x2e1b2138, 0x4d2c6dfc, 0x53380d13, 0x650a7354, 0x766a0abb, 0x81c2c92e, 0x92722c85] @
    [0xa2bfe8a1, 0xa81a664b, 0xc24b8b70, 0xc76c51a3, 0xd192e819, 0xd6990624, 0xf40e3585, 0x106aa070] @
    [0x19a4c116, 0x1e376c08, 0x2748774c, 0x34b0bcb5, 0x391c0cb3, 0x4ed8aa4a, 0x5b9cca4f, 0x682e6ff3] @
    [0x748f82ee, 0x78a5636f, 0x84c87814, 0x8cc70208, 0x90befffa, 0xa4506ceb, 0xbef9a3f7, 0xc67178f2]"

definition Rotr :: "u32 \<Rightarrow> nat \<Rightarrow> u32" where
  "Rotr x n = drop_bit n x OR push_bit (32 - n) x"

definition schedule :: "u8 list \<Rightarrow> u32 list" where
  "schedule block =
    fold (\<lambda>i w.
        let s0 = Rotr (w ! (i - 15)) 7 XOR Rotr (w ! (i - 15)) 18 XOR drop_bit 3 (w ! (i - 15));
            s1 = Rotr (w ! (i - 2)) 17 XOR Rotr (w ! (i - 2)) 19 XOR drop_bit 10 (w ! (i - 2))
        in w @ [w ! (i - 16) + s0 + w ! (i - 7) + s1])
      [16..<64]
      (map (\<lambda>i. push_bit 24 (ucast (block ! (i * 4))) OR push_bit 16 (ucast (block ! (i * 4 + 1))) OR
                push_bit 8 (ucast (block ! (i * 4 + 2))) OR ucast (block ! (i * 4 + 3)))
         [0..<16])"

type_synonym regs = "u32 \<times> u32 \<times> u32 \<times> u32 \<times> u32 \<times> u32 \<times> u32 \<times> u32"

definition sha_round :: "u32 list \<Rightarrow> nat \<Rightarrow> regs \<Rightarrow> regs" where
  "sha_round w i r =
    (case r of (a, b, c, d, e, f, g, h) \<Rightarrow>
      let s1 = Rotr e 6 XOR Rotr e 11 XOR Rotr e 25;
          ch = (e AND f) XOR (NOT e AND g);
          temp1 = h + s1 + ch + kRoundConstants ! i + w ! i;
          s0 = Rotr a 2 XOR Rotr a 13 XOR Rotr a 22;
          maj = (a AND b) XOR (a AND c) XOR (b AND c);
          temp2 = s0 + maj
      in (temp1 + temp2, a, b, c, d + temp1, e, f, g))"

definition ProcessBlock :: "u8 list \<Rightarrow> u32 list \<Rightarrow> u32 list" where
  "ProcessBlock block st =
    (let w = schedule block;
         (a, b, c, d, e, f, g, h) = fold (sha_round w) [0..<64]
           (st ! 0, st ! 1, st ! 2, st ! 3, st ! 4, st ! 5, st ! 6, st ! 7)
     in [st ! 0 + a, st ! 1 + b, st ! 2 + c, st ! 3 + d, st ! 4 + e, st ! 5 + f, st ! 6 + g, st ! 7 + h])"

section \<open>The streaming interface\<close>

text \<open>\<open>sh_buffer\<close> holds the first \<open>buffer_len_\<close> bytes of \<open>buffer_\<close>.\<close>

record Sha256 =
  sh_state :: "u32 list"
  bit_count :: u64
  sh_buffer :: "u8 list"

definition Sha256_Reset :: Sha256 where
  "Sha256_Reset = \<lparr>sh_state = kInitState, bit_count = 0, sh_buffer = []\<rparr>"

text \<open>The loop of \<open>Update\<close>; \<open>buffer_\<close> has 64 slots, so more than 64 buffered bytes cannot occur.\<close>

function update_loop :: "u8 list \<Rightarrow> Sha256 \<Rightarrow> Sha256" where
  "update_loop bytes h =
    (if bytes = [] \<or> 64 < length (sh_buffer h) then h
     else
       let n = min (64 - length (sh_buffer h)) (length bytes);
           h = h\<lparr>sh_buffer := sh_buffer h @ take n bytes\<rparr>;
           h = (if length (sh_buffer h) = 64
                then h\<lparr>sh_state := ProcessBlock (sh_buffer h) (sh_state h), sh_buffer := []\<rparr> else h)
       in update_loop (drop n bytes) h)"
  by pat_completeness auto
termination
  by (relation "measures [\<lambda>(b, h). length b, \<lambda>(b, h). length (sh_buffer h)]")
     (auto simp: min_def split: if_splits)

declare update_loop.simps [simp del]

definition Sha256_Update :: "u8 list \<Rightarrow> Sha256 \<Rightarrow> Sha256" where
  "Sha256_Update bytes h =
    update_loop bytes (h\<lparr>bit_count := bit_count h + of_nat (length bytes) * 8\<rparr>)"

text \<open>The loop \<open>while (buffer_len_ != 56) Update(&zero, 1)\<close>: at most 64 turns.\<close>

fun pad_zeros :: "nat \<Rightarrow> Sha256 \<Rightarrow> Sha256" where
  "pad_zeros 0 h = h"
| "pad_zeros (Suc k) h = (if length (sh_buffer h) = 56 then h else pad_zeros k (Sha256_Update [0] h))"

definition hex_digit :: "u32 \<Rightarrow> char" where
  "hex_digit w = ''0123456789abcdef'' ! unat (w AND 0xf)"

definition hex_word :: "u32 \<Rightarrow> string" where
  "hex_word w = map (\<lambda>shift. hex_digit (drop_bit shift w)) [28, 24, 20, 16, 12, 8, 4, 0]"

definition len_bytes :: "u64 \<Rightarrow> u8 list" where
  "len_bytes total_bits = map (\<lambda>i. ucast (drop_bit (56 - i * 8) total_bits AND 0xff)) [0..<8]"

definition HexDigest :: "Sha256 \<Rightarrow> string" where
  "HexDigest h =
    (let total_bits = bit_count h;
         h = Sha256_Update [0x80] h;
         h = pad_zeros 64 h;
         st = ProcessBlock (sh_buffer h @ len_bytes total_bits) (sh_state h)
     in concat (map hex_word st))"

definition char_bytes :: "string \<Rightarrow> u8 list" where
  "char_bytes s = map of_char s"

definition Sha256Hex :: "string \<Rightarrow> string" where
  "Sha256Hex data = HexDigest (Sha256_Update (char_bytes data) Sha256_Reset)"

section \<open>Ring hash, key digest and path\<close>

definition nibble :: "char \<Rightarrow> u64" where
  "nibble c =
    (if of_char CHR ''0'' \<le> (of_char c :: nat) \<and> (of_char c :: nat) \<le> of_char CHR ''9''
     then of_char c - of_char CHR ''0'' else of_char c - of_char CHR ''a'' + 10)"

definition Hash64 :: "string \<Rightarrow> u64" where
  "Hash64 data =
    (let hex = HexDigest (Sha256_Update (char_bytes data) Sha256_Reset)
     in fold (\<lambda>i value. push_bit 4 value OR nibble (hex ! i)) [0..<16] 0)"

definition KeyDigest :: "string \<Rightarrow> string" where
  "KeyDigest key = Sha256Hex key"

text \<open>A path is the list of its components.\<close>

definition PhysicalPath :: "string list \<Rightarrow> string \<Rightarrow> string list" where
  "PhysicalPath data_root key_digest =
    data_root @ [take 2 key_digest, take 2 (drop 2 key_digest), key_digest]"

section \<open>The reference definition\<close>

text \<open>All complete blocks of a byte string, compressed in order, and the bytes left over.\<close>

function process_all :: "u8 list \<Rightarrow> u32 list \<Rightarrow> u32 list \<times> u8 list" where
  "process_all b st =
    (if length b < 64 then (st, b) else process_all (drop 64 b) (ProcessBlock (take 64 b) st))"
  by pat_completeness auto
termination
  by (relation "measure (\<lambda>(b, st). length b)") auto

declare process_all.simps [simp del]

definition sha_pad :: "u8 list \<Rightarrow> u8 list" where
  "sha_pad m = m @ [0x80] @ replicate ((119 - length m mod 64) mod 64) 0 @ len_bytes (of_nat (length m) * 8)"

definition sha256_reference :: "u8 list \<Rightarrow> u32 list" where
  "sha256_reference m = fst (process_all (sha_pad m) kInitState)"

lemma process_all_short: "length b < 64 \<Longrightarrow> process_all b st = (st, b)"
  by (simp add: process_all.simps)

lemma process_all_append:
  "process_all (a @ b) st = process_all (snd (process_all a st) @ b) (fst (process_all a st))"
proof (induction a st rule: process_all.induct)
  case (1 a st)
  show ?case
  proof (cases "length a < 64")
    case False
    then show ?thesis
      using 1 by (simp add: process_all.simps [of a] process_all.simps [of "a @ b"])
  qed (simp add: process_all_short)
qed

lemma process_all_rest: "length (snd (process_all b st)) = length b mod 64"
  by (induction b st rule: process_all.induct) (simp add: process_all.simps le_mod_geq)

lemma process_all_full: "length b = 64 \<Longrightarrow> process_all b st = (ProcessBlock b st, [])"
  by (simp add: process_all.simps)

section \<open>Streaming is the reference\<close>

definition buffering :: "Sha256 \<Rightarrow> bool" where
  "buffering h \<longleftrightarrow> length (sh_buffer h) < 64"

lemma update_loop_process:
  "buffering h \<Longrightarrow> update_loop b h =
     h\<lparr>sh_state := fst (process_all (sh_buffer h @ b) (sh_state h)),
        sh_buffer := snd (process_all (sh_buffer h @ b) (sh_state h))\<rparr>"
proof (induction b h rule: update_loop.induct)
  case (1 b h)
  let ?n = "min (64 - length (sh_buffer h)) (length b)"
  have lt: "length (sh_buffer h) < 64" using "1.prems" by (simp add: buffering_def)
  show ?case
  proof (cases "b = []")
    case True
    then show ?thesis using lt by (simp add: update_loop.simps [of _ h] process_all_short)
  next
    case ne: False
    show ?thesis
    proof (cases "length (sh_buffer h) + length b < 64")
      case True
      then show ?thesis
        using ne lt by (simp add: update_loop.simps [of b h] update_loop.simps [of "[]"] process_all_short Let_def)
    next
      case False
      let ?k = "64 - length (sh_buffer h)"
      let ?h = "h\<lparr>sh_state := ProcessBlock (sh_buffer h @ take ?k b) (sh_state h), sh_buffer := []\<rparr>"
      have n: "?n = ?k" and len: "length (sh_buffer h @ take ?k b) = 64" using False lt by auto
      have "update_loop b h = update_loop (drop ?k b) ?h"
        using ne lt len by (simp add: update_loop.simps [of b h] n Let_def)
      also have "\<dots> = ?h\<lparr>sh_state := fst (process_all (drop ?k b) (sh_state ?h)),
          sh_buffer := snd (process_all (drop ?k b) (sh_state ?h))\<rparr>"
        using "1.IH" [OF _ refl refl refl] ne lt len by (simp add: n buffering_def)
      also have "process_all (drop ?k b) (sh_state ?h) = process_all (sh_buffer h @ b) (sh_state h)"
        using process_all_append [of "sh_buffer h @ take ?k b" "drop ?k b" "sh_state h"] process_all_full [OF len]
        by simp
      finally show ?thesis by simp
    qed
  qed
qed

lemma Update_buffering: "buffering h \<Longrightarrow> buffering (Sha256_Update b h)"
  using process_all_rest [of "sh_buffer h @ b" "sh_state h"]
  by (simp add: Sha256_Update_def update_loop_process buffering_def)

lemma Update_append:
  assumes "buffering h"
  shows "Sha256_Update b (Sha256_Update a h) = Sha256_Update (a @ b) h"
proof -
  let ?p = "process_all (sh_buffer h @ a) (sh_state h)"
  have "buffering (h\<lparr>bit_count := x, sh_state := fst ?p, sh_buffer := snd ?p\<rparr>)" for x
    using process_all_rest [of "sh_buffer h @ a" "sh_state h"] by (simp add: buffering_def)
  then show ?thesis
    using assms process_all_append [of "sh_buffer h @ a" b "sh_state h"]
    by (simp add: Sha256_Update_def update_loop_process buffering_def algebra_simps)
qed

lemma Reset_buffering [simp]: "buffering Sha256_Reset"
  by (simp add: buffering_def Sha256_Reset_def)

lemma Update_length: "buffering h \<Longrightarrow> length (sh_buffer (Sha256_Update b h)) = (length (sh_buffer h) + length b) mod 64"
  using process_all_rest [of "sh_buffer h @ b" "sh_state h"]
  by (simp add: Sha256_Update_def update_loop_process buffering_def)

lemma Update_Nil: "buffering h \<Longrightarrow> Sha256_Update [] h = h"
  by (simp add: Sha256_Update_def update_loop.simps)

lemma pad_count_step:
  assumes "l < 64" and "l \<noteq> 56"
  shows "(120 - l) mod 64 = Suc ((120 - (l + 1) mod 64) mod 64)"
proof -
  have "\<forall>l < (64 :: nat). l \<noteq> 56 \<longrightarrow> (120 - l) mod 64 = Suc ((120 - (l + 1) mod 64) mod 64)"
    by code_simp
  with assms show ?thesis by blast
qed

lemma pad_zeros_all:
  "buffering h \<Longrightarrow> (120 - length (sh_buffer h)) mod 64 \<le> k \<Longrightarrow>
     pad_zeros k h = Sha256_Update (replicate ((120 - length (sh_buffer h)) mod 64) 0) h"
proof (induction k h rule: pad_zeros.induct)
  case (1 h)
  then show ?case by (simp add: Update_Nil)
next
  case (2 k h)
  show ?case
  proof (cases "length (sh_buffer h) = 56")
    case True
    then show ?thesis using 2(2) by (simp add: Update_Nil)
  next
    case False
    have lt: "length (sh_buffer h) < 64" using 2(2) by (simp add: buffering_def)
    let ?h = "Sha256_Update [0] h" and ?z = "(120 - (length (sh_buffer h) + 1) mod 64) mod 64"
    have len: "length (sh_buffer ?h) = (length (sh_buffer h) + 1) mod 64"
      using Update_length [OF 2(2)] by simp
    note z = pad_count_step [OF lt False]
    have "pad_zeros (Suc k) h = pad_zeros k ?h" using False by simp
    also have "\<dots> = Sha256_Update (replicate ?z 0) ?h"
      using "2.IH" [OF False Update_buffering [OF 2(2)]] 2(3) z by (simp add: len)
    also have "\<dots> = Sha256_Update ([0] @ replicate ?z 0) h"
      by (rule Update_append [OF 2(2)])
    finally show ?thesis by (simp add: z)
  qed
qed

lemma pad_amount: "(120 - (n + 1) mod 64) mod 64 = (119 - n mod 64) mod (64 :: nat)"
proof -
  have "\<forall>l < (64 :: nat). (120 - (l + 1) mod 64) mod 64 = (119 - l) mod 64"
    by code_simp
  from this [rule_format, of "n mod 64"] show ?thesis by (simp add: mod_simps)
qed

lemma HexDigest_reference:
  "HexDigest (Sha256_Update m Sha256_Reset) = concat (map hex_word (sha256_reference m))"
proof -
  let ?z = "(119 - length m mod 64) mod 64"
  let ?M = "m @ [0x80] @ replicate ?z 0"
  let ?h = "Sha256_Update m Sha256_Reset"
  let ?p = "Sha256_Update [0x80] ?h"
  have b: "buffering ?h" "buffering ?p" by (simp_all add: Update_buffering)
  have "length (sh_buffer ?p) = (length m + 1) mod 64"
    using Update_length [OF b(1), of "[0x80]"] Update_length [OF Reset_buffering, of m]
    by (simp add: Sha256_Reset_def mod_simps)
  then have "pad_zeros 64 ?p = Sha256_Update (replicate ?z 0) ?p"
    using pad_zeros_all [OF b(2), of 64] pad_amount [of "length m"] by simp
  also have "\<dots> = Sha256_Update ?M Sha256_Reset"
    by (simp add: Update_append b)
  finally have pad: "pad_zeros 64 ?p = Sha256_Update ?M Sha256_Reset" .
  let ?P = "process_all ?M kInitState"
  have st: "sh_state (Sha256_Update ?M Sha256_Reset) = fst ?P" "sh_buffer (Sha256_Update ?M Sha256_Reset) = snd ?P"
    by (simp_all add: Sha256_Update_def update_loop_process buffering_def Sha256_Reset_def)
  have bits: "bit_count ?h = of_nat (length m) * 8"
    by (simp add: Sha256_Update_def update_loop_process buffering_def Sha256_Reset_def)
  have "\<forall>l < (64 :: nat). (l + 1 + (119 - l) mod 64) mod 64 = 56" by code_simp
  then have "(length m mod 64 + 1 + ?z) mod 64 = 56" by simp
  then have "(length m + 1 + ?z) mod 64 = 56"
    by (metis (no_types, lifting) add.assoc mod_add_left_eq)
  then have "length (snd ?P) = 56" by (simp add: process_all_rest)
  then have "process_all (snd ?P @ len_bytes x) (fst ?P) = (ProcessBlock (snd ?P @ len_bytes x) (fst ?P), [])" for x
    by (intro process_all_full) (simp add: len_bytes_def)
  then have "fst (process_all (?M @ len_bytes x) kInitState) = ProcessBlock (snd ?P @ len_bytes x) (fst ?P)" for x
    using process_all_append [of ?M "len_bytes x" kInitState] by simp
  then show ?thesis
    unfolding HexDigest_def Let_def pad st bits sha256_reference_def sha_pad_def by simp
qed

section \<open>Properties\<close>

text \<open>
  C31. SHA-256 is computed correctly however the data arrives: feeding the pieces of a message to
  \<open>Update\<close> one after the other and asking for the digest gives the hexadecimal form of the reference
  definition, the compression function folded over the padded message.
\<close>

theorem sha256_streaming:
  "HexDigest (fold Sha256_Update pieces Sha256_Reset) = concat (map hex_word (sha256_reference (concat pieces)))"
proof -
  have "fold Sha256_Update pieces (Sha256_Update m Sha256_Reset) = Sha256_Update (m @ concat pieces) Sha256_Reset" for m
    by (induction pieces arbitrary: m) (simp_all add: Update_append)
  from this [of "[]"] show ?thesis by (simp add: Update_Nil HexDigest_reference)
qed

lemma length_ProcessBlock: "length (ProcessBlock b st) = 8"
  by (simp add: ProcessBlock_def Let_def split: prod.splits)

lemma length_process_all: "length st = 8 \<Longrightarrow> length (fst (process_all b st)) = 8"
  by (induction b st rule: process_all.induct) (simp add: process_all.simps length_ProcessBlock)

lemma hex_digit_in: "hex_digit w \<in> set ''0123456789abcdef''"
proof -
  have "w AND 0xf = take_bit 4 w" by (simp add: take_bit_eq_mask mask_eq_exp_minus_1)
  moreover have "unat (take_bit 4 w) = take_bit 4 (unat w)" by (rule unsigned_take_bit_eq)
  ultimately have "unat (w AND 0xf) < 16"
    using take_bit_nat_less_exp [of 4 "unat w"] by simp
  then show ?thesis unfolding hex_digit_def by (intro nth_mem) simp
qed

lemma Sha256Hex_shape:
  "length (Sha256Hex data) = 64 \<and> set (Sha256Hex data) \<subseteq> set ''0123456789abcdef''"
proof -
  have r: "Sha256Hex data = concat (map hex_word (sha256_reference (char_bytes data)))"
    by (simp add: Sha256Hex_def HexDigest_reference)
  have "length (concat (map hex_word st)) = 8 * length st" for st
    by (induction st) (simp_all add: hex_word_def)
  moreover have "length (sha256_reference (char_bytes data)) = 8"
    unfolding sha256_reference_def by (rule length_process_all) (simp add: kInitState_def)
  moreover have "set (concat (map hex_word st)) \<subseteq> set ''0123456789abcdef''" for st
  proof -
    have "set (hex_word w) \<subseteq> set ''0123456789abcdef''" for w
      unfolding hex_word_def set_map by (rule image_subsetI) (rule hex_digit_in)
    then show ?thesis unfolding set_concat set_map by blast
  qed
  ultimately show ?thesis by (simp add: r)
qed

text \<open>
  A digest is always 64 lowercase hexadecimal characters, so \<open>Hash64\<close> reads 16 of them in range
  and \<open>PhysicalPath\<close> always has its two fan-out levels of two characters each.
\<close>

theorem sha256_hex_format:
  "length (Sha256Hex data) = 64 \<and> set (Sha256Hex data) \<subseteq> set ''0123456789abcdef''"
  by (rule Sha256Hex_shape)

end
