(* ===== verification/Hash_Ring.thy ===== *)
theory Hash_Ring
  imports Ordered_Map Sha256 Decimal
begin

text \<open>
  \<open>src/cluster/consistent_hash_ring.cc\<close>: the ring of virtual nodes as a \<open>std::map\<close> from position to
  owner, walked clockwise with wrap-around.

  The lemmas show that the walk is the ring rotated to the key's position, that a lookup returns
  distinct members, that it returns enough of them, and the property that gives consistent hashing
  its name: a node that joins or leaves only changes the placements it takes part in.
\<close>

section \<open>The ring\<close>

record ConsistentHashRing =
  vnodes :: nat
  ring :: "(u64, string) omap"
  physical_nodes :: "string list"

definition Ring_new :: "nat \<Rightarrow> ConsistentHashRing" where
  "Ring_new virtual_nodes_per_node =
    \<lparr>vnodes = (if virtual_nodes_per_node = 0 then 1 else virtual_nodes_per_node), ring = [], physical_nodes = []\<rparr>"

definition Ring_Contains :: "string \<Rightarrow> ConsistentHashRing \<Rightarrow> bool" where
  "Ring_Contains node_id r \<longleftrightarrow> node_id \<in> set (physical_nodes r)"

definition vnode_name :: "string \<Rightarrow> nat \<Rightarrow> string" where
  "vnode_name node_id i = node_id @ ''#'' @ to_string i"

definition Ring_AddNode :: "string \<Rightarrow> ConsistentHashRing \<Rightarrow> ConsistentHashRing" where
  "Ring_AddNode node_id r =
    (if Ring_Contains node_id r then r
     else r\<lparr>physical_nodes := physical_nodes r @ [node_id],
            ring := fold (\<lambda>i. om_emplace (Hash64 (vnode_name node_id i)) node_id) [0..<vnodes r] (ring r)\<rparr>)"

text \<open>\<open>erase\<close> on the vector removes the first occurrence; the loop on the map removes every position.\<close>

definition Ring_RemoveNode :: "string \<Rightarrow> ConsistentHashRing \<Rightarrow> ConsistentHashRing" where
  "Ring_RemoveNode node_id r =
    (if \<not> Ring_Contains node_id r then r
     else r\<lparr>physical_nodes := remove1 node_id (physical_nodes r),
            ring := filter (\<lambda>(pos, owner). owner \<noteq> node_id) (ring r)\<rparr>)"

definition lower_bound :: "u64 \<Rightarrow> (u64, string) omap \<Rightarrow> (u64, string) omap" where
  "lower_bound pos m = dropWhile (\<lambda>(p, _). p < pos) m"

definition LookupPrimary :: "string \<Rightarrow> ConsistentHashRing \<Rightarrow> string" where
  "LookupPrimary key r =
    (if ring r = [] then ''''
     else case lower_bound (Hash64 key) (ring r) of
            [] \<Rightarrow> snd (hd (ring r))
          | (p, owner) # _ \<Rightarrow> owner)"

text \<open>
  The walk of \<open>LookupReplicas\<close>: \<open>it\<close> is the rest of the map from the iterator on; at the end it
  starts over. \<open>steps\<close> bounds the number of positions visited.
\<close>

fun walk :: "(u64, string) omap \<Rightarrow> nat \<Rightarrow> nat \<Rightarrow> (u64, string) omap \<Rightarrow> string list \<Rightarrow> string list" where
  "walk all max_distinct 0 it result = result"
| "walk all max_distinct (Suc steps) it result =
     (if length result < max_distinct then
        case it of
          [] \<Rightarrow> result
        | (p, node) # rest \<Rightarrow>
            walk all max_distinct steps (if rest = [] then all else rest)
              (if node \<in> set result then result else result @ [node])
      else result)"

definition LookupReplicas :: "string \<Rightarrow> nat \<Rightarrow> ConsistentHashRing \<Rightarrow> string list" where
  "LookupReplicas key count r =
    (if ring r = [] \<or> count = 0 then []
     else
       let max_distinct = min count (length (physical_nodes r));
           it = lower_bound (Hash64 key) (ring r);
           it = (if it = [] then ring r else it)
       in walk (ring r) max_distinct (length (ring r)) it [])"

section \<open>Reference form of a lookup\<close>

fun firsts :: "'a list \<Rightarrow> 'a list \<Rightarrow> 'a list" where
  "firsts acc [] = acc"
| "firsts acc (x # xs) = firsts (if x \<in> set acc then acc else acc @ [x]) xs"

definition owners_from :: "u64 \<Rightarrow> (u64, string) omap \<Rightarrow> string list" where
  "owners_from pos m = map snd (filter (\<lambda>(p, _). pos \<le> p) m @ filter (\<lambda>(p, _). p < pos) m)"

definition ring_ok :: "ConsistentHashRing \<Rightarrow> bool" where
  "ring_ok r \<longleftrightarrow> om_ok (ring r) \<and> distinct (physical_nodes r) \<and> snd ` set (ring r) \<subseteq> set (physical_nodes r) \<and>
    0 < vnodes r"

lemma firsts_append: "firsts acc (xs @ ys) = firsts (firsts acc xs) ys"
  by (induction acc xs rule: firsts.induct) simp_all

lemma firsts_prefix: "take (length acc) (firsts acc xs) = acc"
proof (induction acc xs rule: firsts.induct)
  case (2 acc x xs)
  have "length acc \<le> length (if x \<in> set acc then acc else acc @ [x])" by simp
  then have "take (length acc) (firsts acc (x # xs)) =
      take (length acc) (take (length (if x \<in> set acc then acc else acc @ [x]))
        (firsts (if x \<in> set acc then acc else acc @ [x]) xs))"
    by (simp add: min_def)
  then show ?case using 2 by simp
qed simp

lemma firsts_distinct: "distinct acc \<Longrightarrow> distinct (firsts acc xs)"
  by (induction acc xs rule: firsts.induct) auto

lemma firsts_set: "set (firsts acc xs) = set acc \<union> set xs"
  by (induction acc xs rule: firsts.induct) auto

lemma firsts_filter: "filter P (firsts acc xs) = firsts (filter P acc) (filter P xs)"
  by (induction acc xs rule: firsts.induct) auto

text \<open>The walk over a full turn of the ring: stop early, or go once around.\<close>

lemma walk_linear:
  assumes "steps \<le> length it" and "length result \<le> d"
  shows "walk all d steps it result = take d (firsts result (map snd (take steps it)))"
  using assms
proof (induction all d steps it result rule: walk.induct)
  case (2 all d steps it result)
  show ?case
  proof (cases "length result < d")
    case False
    then show ?thesis
      using 2(3) firsts_prefix [of result] by simp
  next
    case True
    obtain p node rest where it: "it = (p, node) # rest" using 2(2) by (cases it) auto
    let ?r = "if node \<in> set result then result else result @ [node]"
    have "walk all d (Suc steps) it result = walk all d steps (if rest = [] then all else rest) ?r"
      using True it by simp
    also have "\<dots> = take d (firsts ?r (map snd (take steps rest)))"
    proof (cases "rest = []")
      case True
      then have "steps = 0" using 2(2) it by simp
      then show ?thesis using \<open>length result < d\<close> by simp
    next
      case False
      then show ?thesis
        using 2(1) [OF \<open>length result < d\<close> it refl] 2(2,3) it \<open>length result < d\<close> by auto
    qed
    finally show ?thesis by (simp add: it)
  qed
qed simp

lemma walk_turn:
  assumes "it \<noteq> []" and "length it \<le> steps" and "steps - length it \<le> length all" and "length result \<le> d"
  shows "walk all d steps it result = take d (firsts result (map snd (it @ take (steps - length it) all)))"
  using assms
proof (induction it arbitrary: steps result)
  case (Cons x it)
  obtain p node where x: "x = (p, node)" by (cases x)
  obtain n where n: "steps = Suc n" using Cons.prems(2) by (cases steps) auto
  let ?r = "if node \<in> set result then result else result @ [node]"
  show ?case
  proof (cases "length result < d")
    case False
    then show ?thesis
      using Cons.prems(4) firsts_prefix [of result "map snd ((x # it) @ take (steps - length (x # it)) all)"]
      by (simp add: n del: firsts.simps)
  next
    case True
    then have "walk all d steps (x # it) result = walk all d n (if it = [] then all else it) ?r"
      by (simp add: n x)
    also have "\<dots> = take d (firsts ?r (map snd (it @ take (n - length it) all)))"
    proof (cases "it = []")
      case True
      then show ?thesis
        using walk_linear [of n all ?r d] Cons.prems(3) \<open>length result < d\<close> by (simp add: n)
    next
      case False
      then show ?thesis
        using Cons.IH [of n ?r] Cons.prems(2,3) \<open>length result < d\<close> by (simp add: n)
    qed
    finally show ?thesis by (simp add: x n)
  qed
qed simp

lemma lower_bound_filter: "om_ok m \<Longrightarrow> lower_bound pos m = filter (\<lambda>(p, _). pos \<le> p) m"
proof (induction m)
  case (Cons x m)
  obtain p v where x: "x = (p, v)" by (cases x)
  have "\<forall>y \<in> set m. pos \<le> fst y" if "pos \<le> p"
    using Cons.prems that by (fastforce simp: x om_ok_Cons)
  then have "pos \<le> p \<Longrightarrow> filter (\<lambda>(p, _). pos \<le> p) m = m"
    by (auto simp: filter_id_conv)
  then show ?case
    using Cons by (auto simp: x lower_bound_def om_ok_Cons not_less)
qed (simp add: lower_bound_def)

lemma below_take:
  fixes m :: "(u64, string) omap"
  assumes "om_ok m"
  shows "take (length m - length (filter (\<lambda>(p, _). pos \<le> p) m)) m = filter (\<lambda>(p, _). p < pos) m"
proof -
  have "takeWhile (\<lambda>(p, _). p < pos) m @ lower_bound pos m = m"
    by (simp add: lower_bound_def)
  then have eq: "takeWhile (\<lambda>(p, _). p < pos) m @ filter (\<lambda>(p, _). pos \<le> p) m = m"
    using lower_bound_filter [OF assms] by simp
  then have "length m - length (filter (\<lambda>(p, _). pos \<le> p) m) = length (takeWhile (\<lambda>(p, _). p < pos) m)"
    by (metis add_diff_cancel_right' length_append)
  moreover have "filter (\<lambda>(p, _). p < pos) m = takeWhile (\<lambda>(p, _). p < pos) m"
  proof -
    have "filter (\<lambda>(p, _). p < pos) m =
        filter (\<lambda>(p, _). p < pos) (takeWhile (\<lambda>(p, _). p < pos) m) @
        filter (\<lambda>(p, _). p < pos) (filter (\<lambda>(p, _). pos \<le> p) m)"
      using arg_cong [OF eq, of "filter (\<lambda>(p, _). p < pos)"] by simp
    also have "filter (\<lambda>(p, _). p < pos) (takeWhile (\<lambda>(p, _). p < pos) m) = takeWhile (\<lambda>(p, _). p < pos) m"
      by (auto simp: filter_id_conv dest: set_takeWhileD)
    also have "filter (\<lambda>(p, _). p < pos) (filter (\<lambda>(p, _). pos \<le> p) m) = []"
      by (auto simp: filter_empty_conv)
    finally show ?thesis by simp
  qed
  ultimately show ?thesis using takeWhile_eq_take by metis
qed

lemma LookupReplicas_reference:
  assumes "om_ok (ring r)"
  shows "LookupReplicas key count r =
    take (min count (length (physical_nodes r))) (firsts [] (owners_from (Hash64 key) (ring r)))"
proof (cases "ring r = [] \<or> count = 0")
  case True
  then show ?thesis by (auto simp: LookupReplicas_def owners_from_def)
next
  case False
  let ?m = "ring r" and ?pos = "Hash64 key" and ?d = "min count (length (physical_nodes r))"
  let ?hi = "filter (\<lambda>(p, _). ?pos \<le> p) ?m" and ?lo = "filter (\<lambda>(p, _). p < ?pos) ?m"
  have "walk ?m ?d (length ?m) (if ?hi = [] then ?m else ?hi) [] = take ?d (firsts [] (map snd (?hi @ ?lo)))"
  proof (cases "?hi = []")
    case True
    then have "?lo = ?m" by (auto simp: filter_empty_conv filter_id_conv)
    then show ?thesis using walk_linear [of "length ?m" ?m "[]" ?d] True by simp
  next
    case hi: False
    then show ?thesis
      using walk_turn [OF hi, of "length ?m" ?m "[]" ?d] below_take [OF assms, of ?pos] by simp
  qed
  with False show ?thesis
    by (simp add: LookupReplicas_def Let_def lower_bound_filter [OF assms] owners_from_def)
qed

section \<open>Membership changes\<close>

lemma LookupReplicas_distinct: "om_ok (ring r) \<Longrightarrow> distinct (LookupReplicas key count r)"
  by (simp add: LookupReplicas_reference firsts_distinct)

lemma vnode_fold:
  assumes "om_ok m" and "x \<notin> snd ` set m"
  shows "om_ok (fold (\<lambda>i. om_emplace (f i) x) is m) \<and>
    filter (\<lambda>(p, owner). owner \<noteq> x) (fold (\<lambda>i. om_emplace (f i) x) is m) = m \<and>
    snd ` set (fold (\<lambda>i. om_emplace (f i) x) is m) \<subseteq> insert x (snd ` set m)"
proof -
  have ok: "om_ok (fold (\<lambda>i. om_emplace (f i) x) is m')" if "om_ok m'" for m' :: "('a, 'b) omap"
    using that by (induction "is" arbitrary: m') (simp_all add: om_ok_emplace)
  have find: "om_find (fold (\<lambda>i. om_emplace (f i) x) is m') p =
      (case om_find m' p of Some v \<Rightarrow> Some v | None \<Rightarrow> if p \<in> f ` set is then Some x else None)"
    if "om_ok m'" for m' p
    using that
    by (induction "is" arbitrary: m')
       (auto simp: om_ok_emplace om_find_emplace split: option.splits if_splits)
  let ?m = "fold (\<lambda>i. om_emplace (f i) x) is m"
  have mem: "(p, v) \<in> set ?m \<longleftrightarrow> (p, v) \<in> set m \<or> (v = x \<and> om_find m p = None \<and> p \<in> f ` set is)" for p v
    using find [OF assms(1), of p] om_find_iff [OF ok [OF assms(1)], of p v] om_find_iff [OF assms(1), of p v]
    by (auto split: option.splits if_splits)
  have "set (filter (\<lambda>(p, owner). owner \<noteq> x) ?m) = set m"
    using mem assms(2) by (auto simp: image_iff)
  moreover have "om_ok (filter (\<lambda>(p, owner). owner \<noteq> x) ?m)"
    by (rule om_ok_filter [OF ok [OF assms(1)]])
  ultimately have "filter (\<lambda>(p, owner). owner \<noteq> x) ?m = m"
    using om_set_eq [OF _ assms(1)] by blast
  moreover have "snd ` set ?m \<subseteq> insert x (snd ` set m)"
  proof
    fix v assume "v \<in> snd ` set ?m"
    then obtain p where "(p, v) \<in> set ?m" by auto
    then show "v \<in> insert x (snd ` set m)" using mem [of p v] by (metis image_eqI insert_iff snd_conv)
  qed
  ultimately show ?thesis using ok [OF assms(1)] by blast
qed

lemma ring_ok_new: "ring_ok (Ring_new k)"
  by (simp add: ring_ok_def Ring_new_def)

lemma ring_ok_AddNode: "ring_ok r \<Longrightarrow> ring_ok (Ring_AddNode x r)"
  using vnode_fold [of "ring r" x "\<lambda>i. Hash64 (vnode_name x i)" "[0..<vnodes r]"]
  by (auto simp: ring_ok_def Ring_AddNode_def Ring_Contains_def)

lemma ring_ok_RemoveNode: "ring_ok r \<Longrightarrow> ring_ok (Ring_RemoveNode x r)"
  by (auto simp: ring_ok_def Ring_RemoveNode_def om_ok_filter)

lemma RemoveNode_AddNode:
  assumes "ring_ok r" and "x \<notin> set (physical_nodes r)"
  shows "Ring_RemoveNode x (Ring_AddNode x r) = r"
proof -
  have "x \<notin> snd ` set (ring r)" using assms by (auto simp: ring_ok_def)
  from vnode_fold [OF _ this, of "\<lambda>i. Hash64 (vnode_name x i)" "[0..<vnodes r]"] assms
  show ?thesis
    by (simp add: ring_ok_def Ring_RemoveNode_def Ring_AddNode_def Ring_Contains_def remove1_append)
qed

lemma owners_from_filter:
  "filter (\<lambda>o'. o' \<noteq> x) (owners_from pos m) = owners_from pos (filter (\<lambda>(p, owner). owner \<noteq> x) m)"
  by (simp add: owners_from_def filter_map comp_def case_prod_unfold conj_commute)

text \<open>Without the node \<open>x\<close>, a placement keeps the remaining nodes in the same order, in front.\<close>

lemma LookupReplicas_RemoveNode:
  assumes "ring_ok r" and "x \<in> set (physical_nodes r)"
    and R: "R = LookupReplicas key count r" and R': "R' = LookupReplicas key count (Ring_RemoveNode x r)"
  shows "filter (\<lambda>n. n \<noteq> x) R = take (length (filter (\<lambda>n. n \<noteq> x) R)) R'"
proof -
  let ?F = "firsts [] (owners_from (Hash64 key) (ring r))" and ?P = "\<lambda>n. n \<noteq> x"
  let ?n = "length (physical_nodes r)" and ?d = "min count (length (physical_nodes r))"
  have F: "distinct ?F" "set ?F \<subseteq> set (physical_nodes r)"
    using assms(1) by (auto simp: firsts_distinct firsts_set owners_from_def ring_ok_def)
  have R1: "R = take ?d ?F"
    using LookupReplicas_reference assms(1) by (simp add: R ring_ok_def)
  have "ring_ok (Ring_RemoveNode x r)" by (rule ring_ok_RemoveNode [OF assms(1)])
  then have R2: "R' = take (min count (?n - 1)) (filter ?P ?F)"
    using LookupReplicas_reference [of "Ring_RemoveNode x r"] assms(2)
    by (simp add: R' ring_ok_def Ring_RemoveNode_def Ring_Contains_def length_remove1 firsts_filter owners_from_filter)
  have pre: "filter ?P ?F = filter ?P R @ filter ?P (drop ?d ?F)"
    unfolding R1 by (metis append_take_drop_id filter_append)
  have "length (filter ?P R) \<le> count"
    using length_filter_le [of ?P R] by (simp add: R1)
  moreover have "length (filter ?P R) \<le> ?n - 1"
  proof -
    have "card (set (filter ?P R)) \<le> card (set (physical_nodes r) - {x})"
      using F(2) unfolding R1 by (intro card_mono) (auto dest: in_set_takeD)
    moreover have "card (set (filter ?P R)) = length (filter ?P R)"
      using F(1) unfolding R1 by (intro distinct_card) simp
    moreover have "card (set (physical_nodes r) - {x}) = ?n - 1"
      using assms(1,2) by (simp add: ring_ok_def distinct_card)
    ultimately show ?thesis by linarith
  qed
  ultimately show ?thesis unfolding R2 pre by simp
qed

lemma vnode_name_inj: "vnode_name x i = vnode_name y j \<longleftrightarrow> x = y \<and> i = j"
proof
  assume eq: "vnode_name x i = vnode_name y j"
  have hash: "is_digit c \<Longrightarrow> c \<noteq> CHR ''#''" for c by (auto simp: is_digit_def)
  have split: "takeWhile (\<lambda>c. c \<noteq> CHR ''#'') (rev (vnode_name z k)) = rev (to_string k)" for z k
    using to_string_digits [of k] hash by (subst vnode_name_def) (simp add: takeWhile_append)
  have "rev (to_string i) = rev (to_string j)"
    using split [of x i] split [of y j] eq by simp
  then have "i = j" by (simp add: to_string_inj)
  with eq show "x = y \<and> i = j" by (simp add: vnode_name_def)
qed simp

section \<open>Clockwise distance\<close>

text \<open>
  How far a member is from a position of the circle of \<open>2 ^ 64\<close> positions, going clockwise to the nearest of its
  virtual nodes; the subtraction wraps around.
\<close>

definition clockwise :: "u64 \<Rightarrow> (u64, string) omap \<Rightarrow> string \<Rightarrow> u64" where
  "clockwise pos m n = Min (set (map (\<lambda>(p, _). p - pos) (filter (\<lambda>(_, owner). owner = n) m)))"

lemma distance_less:
  fixes p q pos :: u64
  shows "p < q \<Longrightarrow> pos \<le> p \<or> q < pos \<Longrightarrow> p - pos < q - pos" and "q < pos \<Longrightarrow> pos \<le> p \<Longrightarrow> p - pos < q - pos"
  using unsigned_less [of p, where 'a = nat] unsigned_less [of q, where 'a = nat] unsigned_less [of pos, where 'a = nat]
  by (auto simp: word_less_nat_alt word_le_nat_alt unat_sub_if_size word_size)

definition rotated :: "u64 \<Rightarrow> (u64, string) omap \<Rightarrow> (u64, string) omap" where
  "rotated pos m = filter (\<lambda>(p, _). pos \<le> p) m @ filter (\<lambda>(p, _). p < pos) m"

lemma rotated_increasing:
  assumes "om_ok m"
  shows "sorted_wrt (\<lambda>x y. fst x - pos < fst y - pos) (rotated pos m)"
proof -
  have "sorted_wrt (\<lambda>x y. fst x < fst y) m" using assms by (simp add: om_ok_def sorted_wrt_map)
  then have s: "sorted_wrt (\<lambda>x y. fst x < fst y) (filter P m)" for P by (rule sorted_wrt_filter)
  have "sorted_wrt (\<lambda>x y. fst x - pos < fst y - pos) (filter (\<lambda>(p, _). pos \<le> p) m)"
    by (rule sorted_wrt_mono_rel [OF _ s]) (auto intro: distance_less(1))
  moreover have "sorted_wrt (\<lambda>x y. fst x - pos < fst y - pos) (filter (\<lambda>(p, _). p < pos) m)"
    by (rule sorted_wrt_mono_rel [OF _ s]) (auto intro: distance_less(1))
  ultimately show ?thesis by (auto simp: rotated_def sorted_wrt_append intro: distance_less(2))
qed

lemma clockwise_set: "set m = set m' \<Longrightarrow> clockwise pos m = clockwise pos m'"
  by (simp add: clockwise_def fun_eq_iff)

lemma clockwise_snoc:
  assumes "\<forall>x \<in> set L. fst x - pos < d - pos"
  shows "n \<in> snd ` set L \<Longrightarrow> clockwise pos (L @ [(d, o')]) n = clockwise pos L n"
    and "n \<notin> snd ` set L \<Longrightarrow> clockwise pos (L @ [(d, n)]) n = d - pos"
    and "n \<in> snd ` set L \<Longrightarrow> clockwise pos L n < d - pos"
proof -
  let ?D = "\<lambda>L. set (map (\<lambda>(p, _). p - pos) (filter (\<lambda>(_, owner). owner = n) L))"
  have D: "?D (L @ [(d, o')]) = (if o' = n then insert (d - pos) (?D L) else ?D L)" for o' by auto
  show less: "clockwise pos L n < d - pos" if m: "n \<in> snd ` set L"
  proof -
    obtain p where "(p, n) \<in> set L" using m by auto
    then have "p - pos \<in> ?D L" "p - pos < d - pos" using assms by force+
    then show ?thesis unfolding clockwise_def by (meson List.finite_set Min_le le_less_trans)
  qed
  show "clockwise pos (L @ [(d, o')]) n = clockwise pos L n" if m: "n \<in> snd ` set L"
  proof -
    have "?D L \<noteq> {}" using m by (auto simp: filter_empty_conv)
    then have "Min (insert (d - pos) (?D L)) = min (d - pos) (Min (?D L))" by (intro Min_insert) auto
    then show ?thesis using less [OF m] unfolding clockwise_def D by (simp only: min_def if_split not_less [symmetric]) auto
  qed
  show "clockwise pos (L @ [(d, n)]) n = d - pos" if m: "n \<notin> snd ` set L"
  proof -
    have "?D L = {}" using m by (force simp: filter_empty_conv)
    then show ?thesis unfolding clockwise_def D by (simp only: if_True refl Min_singleton simp_thms)
  qed
qed

lemma firsts_snoc: "firsts acc (xs @ [x]) = (if x \<in> set (firsts acc xs) then firsts acc xs else firsts acc xs @ [x])"
  by (simp add: firsts_append)

lemma firsts_by_distance:
  assumes "sorted_wrt (\<lambda>x y. fst x - pos < fst y - pos) L"
  shows "sorted_wrt (\<lambda>x y. clockwise pos L x < clockwise pos L y) (firsts [] (map snd L))"
  using assms
proof (induction L rule: rev_induct)
  case (snoc x L)
  obtain d n where x: "x = (d, n)" by fastforce
  have less: "\<forall>x \<in> set L. fst x - pos < d - pos" using snoc.prems by (auto simp: sorted_wrt_append x)
  note C = clockwise_snoc [OF less]
  have F: "set (firsts [] (map snd L)) = snd ` set L" by (simp add: firsts_set)
  have IH: "sorted_wrt (\<lambda>y z. clockwise pos (L @ [x]) y < clockwise pos (L @ [x]) z) (firsts [] (map snd L))"
    using snoc by (auto simp: sorted_wrt_append x F C(1) intro: sorted_wrt_mono_rel [rotated])
  show ?case
    using IH C(1-3) by (auto simp: firsts_snoc F sorted_wrt_append x)
qed simp

lemma primary_first:
  assumes "om_ok (ring r)" and "ring r \<noteq> []"
  obtains p L where "rotated (Hash64 key) (ring r) = (p, LookupPrimary key r) # L"
proof -
  let ?m = "ring r" and ?L = "rotated (Hash64 key) (ring r)"
  have "set ?L = set ?m" by (auto simp: rotated_def)
  then obtain p o' L where L: "?L = (p, o') # L" using assms(2) by (cases ?L) auto
  have "LookupPrimary key r = o'"
  proof (cases "filter (\<lambda>(p, _). Hash64 key \<le> p) ?m")
    case Nil
    then have "filter (\<lambda>(p, _). p < Hash64 key) ?m = ?m" by (auto simp: filter_empty_conv filter_id_conv)
    then have "?m = (p, o') # L" using L Nil by (simp add: rotated_def)
    then show ?thesis using Nil lower_bound_filter [OF assms(1), of "Hash64 key"] by (simp add: LookupPrimary_def)
  next
    case (Cons x xs)
    then show ?thesis using L assms(2) by (auto simp: rotated_def LookupPrimary_def lower_bound_filter [OF assms(1)])
  qed
  with L show thesis using that by simp
qed

lemma primary_nearest:
  assumes "om_ok (ring r)" and "ring r \<noteq> []"
  shows "\<exists>p. (p, LookupPrimary key r) \<in> set (ring r) \<and> (\<forall>(q, owner) \<in> set (ring r). p - Hash64 key \<le> q - Hash64 key)"
proof -
  obtain p L where L: "rotated (Hash64 key) (ring r) = (p, LookupPrimary key r) # L" using primary_first [OF assms] .
  have rot: "set (ring r) = set (rotated (Hash64 key) (ring r))" by (auto simp: rotated_def)
  have "\<forall>(q, owner) \<in> set (ring r). p - Hash64 key \<le> q - Hash64 key"
    using rotated_increasing [OF assms(1), of "Hash64 key"] unfolding rot L by (auto simp: less_imp_le)
  then show ?thesis unfolding rot L by auto
qed

section \<open>Properties\<close>

text \<open>
  C29. Placement: a lookup returns distinct members of the ring, as many as asked for, or every node that owns a
  position of the ring if there are fewer. They come in the order in which one meets them walking clockwise from the
  hash of the key, with wrap-around: each is nearer than the next, and no node that is left out is nearer than one
  that is returned. The primary is the owner of the position nearest clockwise to the hash.
\<close>

theorem ring_placement:
  assumes "ring_ok r" and "R = LookupReplicas key count r"
  shows "distinct R \<and> set R \<subseteq> snd ` set (ring r) \<and> length R = min count (card (snd ` set (ring r))) \<and>
    (\<forall>i j. i < j \<and> j < length R \<longrightarrow> clockwise (Hash64 key) (ring r) (R ! i) < clockwise (Hash64 key) (ring r) (R ! j)) \<and>
    (\<forall>x \<in> set R. \<forall>y \<in> snd ` set (ring r) - set R. clockwise (Hash64 key) (ring r) x < clockwise (Hash64 key) (ring r) y) \<and>
    (0 < count \<and> ring r \<noteq> [] \<longrightarrow> hd R = LookupPrimary key r) \<and>
    (ring r \<noteq> [] \<longrightarrow> (\<exists>p. (p, LookupPrimary key r) \<in> set (ring r) \<and> (\<forall>(q, owner) \<in> set (ring r). p - Hash64 key \<le> q - Hash64 key)))"
proof -
  let ?m = "ring r" and ?pos = "Hash64 key" and ?n = "length (physical_nodes r)"
  let ?F = "firsts [] (owners_from ?pos ?m)" and ?d = "clockwise (Hash64 key) (ring r)"
  have ok: "om_ok ?m" and own: "snd ` set ?m \<subseteq> set (physical_nodes r)" and dp: "distinct (physical_nodes r)"
    using assms(1) by (auto simp: ring_ok_def)
  have R: "R = take (min count ?n) ?F"
    using LookupReplicas_reference [OF ok] assms(2) by simp
  have F: "?F = firsts [] (map snd (rotated ?pos ?m))" by (simp add: owners_from_def rotated_def)
  have rot: "set (rotated ?pos ?m) = set ?m" by (auto simp: rotated_def)
  have setF: "set ?F = snd ` set ?m" unfolding F by (simp add: firsts_set rot)
  have dF: "distinct ?F" by (simp add: firsts_distinct)
  have len: "length ?F = card (snd ` set ?m)" using distinct_card [OF dF] setF by simp
  have "card (snd ` set ?m) \<le> ?n"
    using card_mono [OF _ own] distinct_card [OF dp] by simp
  then have length: "length R = min count (card (snd ` set ?m))" by (simp add: R len)
  have sorted: "sorted_wrt (\<lambda>x y. ?d x < ?d y) ?F"
    using firsts_by_distance [OF rotated_increasing [OF ok, of ?pos]] unfolding F clockwise_set [OF rot] .
  have cut: "?F = R @ drop (min count ?n) ?F" by (simp add: R)
  then have near: "sorted_wrt (\<lambda>x y. ?d x < ?d y) R" and far: "\<forall>x \<in> set R. \<forall>y \<in> set (drop (min count ?n) ?F). ?d x < ?d y"
    using sorted by (metis sorted_wrt_append)+
  have rest: "snd ` set ?m - set R \<subseteq> set (drop (min count ?n) ?F)" using cut setF by (metis Diff_subset_conv set_append order_refl)
  have "hd R = LookupPrimary key r" if c: "0 < count" and ne: "?m \<noteq> []"
  proof -
    obtain p L where "rotated ?pos ?m = (p, LookupPrimary key r) # L" using primary_first [OF ok ne] .
    then have "hd ?F = LookupPrimary key r" unfolding F using firsts_prefix [of "[LookupPrimary key r]" "map snd L"]
      by (cases "firsts [LookupPrimary key r] (map snd L)") auto
    moreover have "0 < ?n" using own ne by (cases ?m) auto
    ultimately show ?thesis using c by (simp add: R hd_take)
  qed
  moreover have "set R \<subseteq> snd ` set ?m" using set_take_subset [of "min count ?n" ?F] setF unfolding R by simp
  moreover have "distinct R" using dF by (simp add: R)
  moreover have "\<forall>i j. i < j \<and> j < length R \<longrightarrow> ?d (R ! i) < ?d (R ! j)" using near by (simp add: sorted_wrt_iff_nth_less)
  ultimately show ?thesis using length far rest primary_nearest [OF ok] by blast
qed

definition ring_ab :: ConsistentHashRing where
  "ring_ab = \<lparr>vnodes = 1, ring = [(5, ''a''), (9, ''b'')], physical_nodes = [''a'', ''b'']\<rparr>"

lemma ring_ok_ab: "ring_ok ring_ab"
  by (simp add: ring_ok_def ring_ab_def om_ok_def)

theorem ring_placement_witness:
  "length (LookupReplicas ''k'' 3 ring_ab) = 2 \<and> set (LookupReplicas ''k'' 3 ring_ab) \<subseteq> {''a'', ''b''} \<and>
   (\<exists>p. (p, LookupPrimary ''k'' ring_ab) \<in> {(5, ''a''), (9, ''b'')} \<and> p - Hash64 ''k'' \<le> 5 - Hash64 ''k'' \<and> p - Hash64 ''k'' \<le> 9 - Hash64 ''k'')"
  using ring_placement [OF ring_ok_ab refl, of "''k''" 3] by (simp add: ring_ab_def)

text \<open>
  C30. Consistent hashing: when a node joins, every key keeps its previous nodes in the same order,
  except that the new node may be inserted and the last ones pushed out; when it leaves again the
  ring is exactly what it was before.
\<close>

theorem ring_minimal_disruption:
  assumes "ring_ok r" and "x \<notin> set (physical_nodes r)"
    and "kept = filter (\<lambda>n. n \<noteq> x) (LookupReplicas key count (Ring_AddNode x r))"
  shows "kept = take (length kept) (LookupReplicas key count r) \<and> Ring_RemoveNode x (Ring_AddNode x r) = r"
proof -
  have "x \<in> set (physical_nodes (Ring_AddNode x r))"
    by (simp add: Ring_AddNode_def Ring_Contains_def)
  from LookupReplicas_RemoveNode [OF ring_ok_AddNode [OF assms(1)] this refl refl]
    RemoveNode_AddNode [OF assms(1,2)]
  show ?thesis unfolding assms(3) by simp
qed

theorem ring_minimal_disruption_witness:
  "let kept = filter (\<lambda>n. n \<noteq> ''c'') (LookupReplicas ''k'' 2 (Ring_AddNode ''c'' ring_ab))
   in kept = take (length kept) (LookupReplicas ''k'' 2 ring_ab)"
proof -
  have "''c'' \<notin> set (physical_nodes ring_ab)" by (simp add: ring_ab_def)
  from ring_minimal_disruption [OF ring_ok_ab this refl, of "''k''" 2] show ?thesis
    unfolding Let_def by (rule conjunct1)
qed

end
