(* ===== verification/Metadata_Repository.thy ===== *)
theory Metadata_Repository
  imports Hash_Ring Status
begin

text \<open>
  The control plane in one process: \<open>src/cluster/cluster_map.cc\<close> (membership and placement) and
  \<open>src/cluster/metadata_repository.cc\<close> (where each object lives).

  \<open>metadata_view\<close> is the contract of \<open>include/cluster/metadata_view.h\<close> over the map from keys to live
  object locations; \<open>MetadataRepository\<close> provides it, and the cache and the coordinator rely on it.
\<close>

section \<open>Cluster map\<close>

datatype NodeState = kJoining | kHealthy | kSuspect | kUnavailableNode | kRecovering

definition NodeStateName :: "NodeState \<Rightarrow> string" where
  "NodeStateName st =
    (case st of kJoining \<Rightarrow> ''JOINING'' | kHealthy \<Rightarrow> ''HEALTHY'' | kSuspect \<Rightarrow> ''SUSPECT''
     | kUnavailableNode \<Rightarrow> ''UNAVAILABLE'' | kRecovering \<Rightarrow> ''RECOVERING'')"

record NodeInfo =
  ni_id :: string
  ni_address :: string
  ni_state :: NodeState
  ni_capacity_bytes :: nat
  ni_last_heartbeat_ms :: int

definition NodeInfo_default :: NodeInfo where
  "NodeInfo_default = \<lparr>ni_id = '''', ni_address = '''', ni_state = kHealthy, ni_capacity_bytes = 0, ni_last_heartbeat_ms = 0\<rparr>"

record ClusterMap =
  cm_nodes :: "NodeInfo list"
  cm_ring :: ConsistentHashRing

definition ClusterMap_new :: "nat \<Rightarrow> ClusterMap" where
  "ClusterMap_new virtual_nodes_per_node = \<lparr>cm_nodes = [], cm_ring = Ring_new virtual_nodes_per_node\<rparr>"

text \<open>\<open>*std::find_if(...) = node\<close> and \<open>erase(std::find_if(...))\<close>: the first entry with the id.\<close>

fun replace_first :: "NodeInfo \<Rightarrow> NodeInfo list \<Rightarrow> NodeInfo list" where
  "replace_first node [] = []"
| "replace_first node (n # ns) = (if ni_id n = ni_id node then node # ns else n # replace_first node ns)"

fun erase_first :: "string \<Rightarrow> NodeInfo list \<Rightarrow> NodeInfo list" where
  "erase_first node_id [] = []"
| "erase_first node_id (n # ns) = (if ni_id n = node_id then ns else n # erase_first node_id ns)"

definition AddOrUpdateNode :: "NodeInfo \<Rightarrow> ClusterMap \<Rightarrow> ClusterMap" where
  "AddOrUpdateNode node cm =
    (if ni_id node \<in> ni_id ` set (cm_nodes cm) then cm\<lparr>cm_nodes := replace_first node (cm_nodes cm)\<rparr>
     else cm\<lparr>cm_nodes := cm_nodes cm @ [node], cm_ring := Ring_AddNode (ni_id node) (cm_ring cm)\<rparr>)"

definition ClusterMap_RemoveNode :: "string \<Rightarrow> ClusterMap \<Rightarrow> bool \<times> ClusterMap" where
  "ClusterMap_RemoveNode node_id cm =
    (if node_id \<notin> ni_id ` set (cm_nodes cm) then (False, cm)
     else (True, cm\<lparr>cm_nodes := erase_first node_id (cm_nodes cm), cm_ring := Ring_RemoveNode node_id (cm_ring cm)\<rparr>))"

definition GetNode :: "string \<Rightarrow> ClusterMap \<Rightarrow> NodeInfo option" where
  "GetNode node_id cm = List.find (\<lambda>n. ni_id n = node_id) (cm_nodes cm)"

definition ClusterMap_PlacementFor :: "string \<Rightarrow> nat \<Rightarrow> ClusterMap \<Rightarrow> string list" where
  "ClusterMap_PlacementFor key replication_factor cm = LookupReplicas key replication_factor (cm_ring cm)"

definition PrimaryFor :: "string \<Rightarrow> ClusterMap \<Rightarrow> string" where
  "PrimaryFor key cm = LookupPrimary key (cm_ring cm)"

text \<open>The node table and the ring have the same members, each once.\<close>

definition cluster_map_ok :: "ClusterMap \<Rightarrow> bool" where
  "cluster_map_ok cm \<longleftrightarrow> ring_ok (cm_ring cm) \<and> map ni_id (cm_nodes cm) = physical_nodes (cm_ring cm)"

lemma replace_first_ids: "map ni_id (replace_first node ns) = map ni_id ns"
  by (induction node ns rule: replace_first.induct) auto

lemma erase_first_ids: "map ni_id (erase_first x ns) = remove1 x (map ni_id ns)"
  by (induction x ns rule: erase_first.induct) auto

lemma cluster_map_ok_new: "cluster_map_ok (ClusterMap_new k)"
  by (simp add: cluster_map_ok_def ClusterMap_new_def ring_ok_new) (simp add: Ring_new_def)

lemma cluster_map_ok_Add:
  assumes "cluster_map_ok cm"
  shows "cluster_map_ok (AddOrUpdateNode node cm)"
proof -
  have "ni_id ` set (cm_nodes cm) = set (physical_nodes (cm_ring cm))"
    using assms by (simp add: cluster_map_ok_def flip: set_map)
  then show ?thesis
    using assms ring_ok_AddNode [of "cm_ring cm" "ni_id node"]
    by (auto simp: AddOrUpdateNode_def cluster_map_ok_def replace_first_ids Ring_AddNode_def Ring_Contains_def)
qed

lemma cluster_map_ok_Remove:
  assumes "cluster_map_ok cm"
  shows "cluster_map_ok (snd (ClusterMap_RemoveNode x cm))"
proof -
  have "ni_id ` set (cm_nodes cm) = set (physical_nodes (cm_ring cm))"
    using assms by (simp add: cluster_map_ok_def flip: set_map)
  then show ?thesis
    using assms ring_ok_RemoveNode [of "cm_ring cm" x]
    by (auto simp: ClusterMap_RemoveNode_def cluster_map_ok_def erase_first_ids Ring_RemoveNode_def Ring_Contains_def)
qed

section \<open>Object locations\<close>

record ObjectLocation =
  ol_key :: string
  ol_version :: nat
  ol_checksum :: string
  ol_size :: nat
  ol_deleted :: bool
  ol_replicas :: "string list"

record MetadataRepository =
  mr_cluster :: ClusterMap
  mr_objects :: "(string, ObjectLocation) omap"

definition MetadataRepository_new :: "nat \<Rightarrow> MetadataRepository" where
  "MetadataRepository_new virtual_nodes_per_node =
    \<lparr>mr_cluster = ClusterMap_new virtual_nodes_per_node, mr_objects = []\<rparr>"

definition Repo_AddNode :: "NodeInfo \<Rightarrow> MetadataRepository \<Rightarrow> MetadataRepository" where
  "Repo_AddNode node m = m\<lparr>mr_cluster := AddOrUpdateNode node (mr_cluster m)\<rparr>"

definition Repo_Nodes :: "MetadataRepository \<Rightarrow> NodeInfo list" where
  "Repo_Nodes m = cm_nodes (mr_cluster m)"

definition Repo_PlacementFor :: "string \<Rightarrow> nat \<Rightarrow> MetadataRepository \<Rightarrow> string list" where
  "Repo_PlacementFor key rf m = ClusterMap_PlacementFor key rf (mr_cluster m)"

definition RegisterObject :: "ObjectLocation \<Rightarrow> MetadataRepository \<Rightarrow> Status \<times> MetadataRepository" where
  "RegisterObject loc m = (Status_Ok, m\<lparr>mr_objects := om_set (ol_key loc) loc (mr_objects m)\<rparr>)"

definition LookupObject :: "string \<Rightarrow> MetadataRepository \<Rightarrow> ObjectLocation StatusOr" where
  "LookupObject key m =
    (case om_find (mr_objects m) key of
       None \<Rightarrow> Inl (NotFound (''no metadata for key: '' @ key))
     | Some loc \<Rightarrow> if ol_deleted loc then Inl (NotFound (''no metadata for key: '' @ key)) else Inr loc)"

definition RemoveObject :: "string \<Rightarrow> MetadataRepository \<Rightarrow> Status \<times> MetadataRepository" where
  "RemoveObject key m =
    (case om_find (mr_objects m) key of
       None \<Rightarrow> (NotFound (''no metadata for key: '' @ key), m)
     | Some loc \<Rightarrow>
         if ol_deleted loc then (NotFound (''no metadata for key: '' @ key), m)
         else (Status_Ok, m\<lparr>mr_objects := om_set key (loc\<lparr>ol_deleted := True, ol_replicas := []\<rparr>) (mr_objects m)\<rparr>))"

definition ListObjects :: "string \<Rightarrow> MetadataRepository \<Rightarrow> ObjectLocation list StatusOr" where
  "ListObjects prefix m =
    Inr (map snd (filter (\<lambda>(key, loc). \<not> ol_deleted loc \<and> take (length prefix) key = prefix) (mr_objects m)))"

section \<open>The contract of a metadata view\<close>

text \<open>What a view shows: the live location of a key.\<close>

definition live :: "ObjectLocation option \<Rightarrow> ObjectLocation option" where
  "live x = (case x of None \<Rightarrow> None | Some loc \<Rightarrow> if ol_deleted loc then None else Some loc)"

definition no_metadata :: "string \<Rightarrow> Status" where
  "no_metadata key = NotFound (''no metadata for key: '' @ key)"

locale metadata_view =
  fixes inv :: "'s \<Rightarrow> bool" and view :: "'s \<Rightarrow> string \<rightharpoonup> ObjectLocation"
    and register :: "ObjectLocation \<Rightarrow> 's \<Rightarrow> Status \<times> 's"
    and look :: "string \<Rightarrow> 's \<Rightarrow> ObjectLocation StatusOr \<times> 's"
    and remove :: "string \<Rightarrow> 's \<Rightarrow> Status \<times> 's"
  assumes register_ok: "inv s \<Longrightarrow> \<not> ol_deleted loc \<Longrightarrow> register loc s = (st, s') \<Longrightarrow>
      ok st \<and> inv s' \<and> view s' = (view s)(ol_key loc \<mapsto> loc)"
    and look_view: "inv s \<Longrightarrow> look key s = (r, s') \<Longrightarrow>
      inv s' \<and> view s' = view s \<and> r = (case view s key of None \<Rightarrow> Inl (no_metadata key) | Some loc \<Rightarrow> Inr loc)"
    and remove_view: "inv s \<Longrightarrow> remove key s = (st, s') \<Longrightarrow>
      inv s' \<and> view s' = (view s)(key := None) \<and> (ok st \<longleftrightarrow> view s key \<noteq> None)"
begin

text \<open>What was registered last is what a lookup returns, until the key is registered again or removed.\<close>

lemma look_registered:
  assumes "inv s" and "\<not> ol_deleted loc" and "register loc s = (st, s1)" and "look (ol_key loc) s1 = (r, s2)"
  shows "r = Inr loc"
  using register_ok [OF assms(1-3)] look_view [OF _ assms(4)] by simp

lemma look_removed:
  assumes "inv s" and "remove key s = (st, s1)" and "look key s1 = (r, s2)"
  shows "r = Inl (no_metadata key)"
  using remove_view [OF assms(1,2)] look_view [OF _ assms(3)] by simp

lemma remove_twice:
  assumes "inv s" and "remove key s = (st, s1)" and "remove key s1 = (st', s2)"
  shows "\<not> ok st' \<and> view s2 = view s1"
  using remove_view [OF assms(1,2)] remove_view [OF _ assms(3)] by auto

end

definition repo_ok :: "MetadataRepository \<Rightarrow> bool" where
  "repo_ok m \<longleftrightarrow> cluster_map_ok (mr_cluster m) \<and> om_ok (mr_objects m) \<and>
    (\<forall>key loc. om_find (mr_objects m) key = Some loc \<longrightarrow> ol_key loc = key)"

definition repo_view :: "MetadataRepository \<Rightarrow> string \<rightharpoonup> ObjectLocation" where
  "repo_view m key = live (om_find (mr_objects m) key)"

definition repo_look :: "string \<Rightarrow> MetadataRepository \<Rightarrow> ObjectLocation StatusOr \<times> MetadataRepository" where
  "repo_look key m = (LookupObject key m, m)"

lemma repo_ok_new: "repo_ok (MetadataRepository_new k)"
  by (simp add: repo_ok_def MetadataRepository_new_def cluster_map_ok_new om_find_def)

lemma repo_ok_AddNode: "repo_ok m \<Longrightarrow> repo_ok (Repo_AddNode node m)"
  by (simp add: repo_ok_def Repo_AddNode_def cluster_map_ok_Add)

lemma repo_ok_Register: "repo_ok m \<Longrightarrow> repo_ok (snd (RegisterObject loc m))"
  by (auto simp: repo_ok_def RegisterObject_def om.ok_set om.find_set split: if_splits)

lemma repo_ok_Remove: "repo_ok m \<Longrightarrow> repo_ok (snd (RemoveObject key m))"
  by (auto simp: repo_ok_def RemoveObject_def om.ok_set om.find_set split: option.splits if_splits)

lemma repo_view_Register:
  "repo_ok m \<Longrightarrow> repo_view (snd (RegisterObject loc m)) = (repo_view m)(ol_key loc := live (Some loc))"
  by (auto simp: repo_ok_def RegisterObject_def om.find_set repo_view_def)

lemma repo_view_Remove:
  "repo_ok m \<Longrightarrow> repo_view (snd (RemoveObject key m)) = (repo_view m)(key := None) \<and>
     (ok (fst (RemoveObject key m)) \<longleftrightarrow> repo_view m key \<noteq> None)"
  by (auto simp: repo_ok_def RemoveObject_def om.find_set repo_view_def live_def fun_eq_iff NotFound_def ok_def
      Status_Ok_def split: option.splits if_splits)

lemma LookupObject_view:
  "LookupObject key m = (case repo_view m key of None \<Rightarrow> Inl (no_metadata key) | Some loc \<Rightarrow> Inr loc)"
  by (simp add: LookupObject_def repo_view_def live_def no_metadata_def split: option.split)

interpretation repo: metadata_view repo_ok repo_view RegisterObject repo_look RemoveObject
proof
  fix s loc st s' assume "repo_ok s" "\<not> ol_deleted loc" "RegisterObject loc s = (st, s')"
  then show "ok st \<and> repo_ok s' \<and> repo_view s' = (repo_view s)(ol_key loc \<mapsto> loc)"
    using repo_ok_Register [of s loc] repo_view_Register [of s loc]
    by (simp add: RegisterObject_def Status_Ok_def ok_def live_def) auto
next
  fix s key r s' assume "repo_ok s" "repo_look key s = (r, s')"
  then show "repo_ok s' \<and> repo_view s' = repo_view s \<and>
      r = (case repo_view s key of None \<Rightarrow> Inl (no_metadata key) | Some loc \<Rightarrow> Inr loc)"
    by (auto simp: repo_look_def LookupObject_def repo_view_def live_def no_metadata_def split: option.splits)
next
  fix s key st s' assume "repo_ok s" "RemoveObject key s = (st, s')"
  then show "repo_ok s' \<and> repo_view s' = (repo_view s)(key := None) \<and> (ok st \<longleftrightarrow> repo_view s key \<noteq> None)"
    using repo_ok_Remove [of s key] repo_view_Remove [of s key] by simp
qed

end
