(* ===== verification/Quorum.thy ===== *)
theory Quorum
  imports Prelude
begin

text \<open>
  Majorities, the one fact about them that every safety argument of the system uses (two of them
  share a member), stated as an interface and provided by the majorities of a member list.
\<close>

locale quorum =
  fixes is_quorum :: "'p set \<Rightarrow> bool"
  assumes intersect: "is_quorum Q \<Longrightarrow> is_quorum Q' \<Longrightarrow> Q \<inter> Q' \<noteq> {}"
begin

lemma common_member:
  assumes "is_quorum Q" and "is_quorum Q'"
  obtains p where "p \<in> Q" and "p \<in> Q'"
  using intersect [OF assms] by blast

text \<open>If every member of a quorum chose \<open>c\<close> and choices are unique, no other value is chosen by a quorum.\<close>

lemma agreement:
  assumes "is_quorum Q" and "is_quorum Q'"
    and "\<And>p. p \<in> Q \<Longrightarrow> choice p c" and "\<And>p. p \<in> Q' \<Longrightarrow> choice p c'"
    and "\<And>p. choice p c \<Longrightarrow> choice p c' \<Longrightarrow> c = c'"
  shows "c = c'"
  using common_member [OF assms(1,2)] assms(3-5) by metis

end

definition majority :: "'p list \<Rightarrow> 'p set \<Rightarrow> bool" where
  "majority M Q \<longleftrightarrow> Q \<subseteq> set M \<and> card (set M) < 2 * card Q"

lemma majority_intersect:
  assumes "majority M Q" and "majority M Q'"
  shows "Q \<inter> Q' \<noteq> {}"
proof
  assume "Q \<inter> Q' = {}"
  moreover have "finite Q" "finite Q'"
    using assms by (auto simp: majority_def intro: finite_subset)
  ultimately have "card (Q \<union> Q') = card Q + card Q'"
    by (simp add: card_Un_disjoint)
  moreover have "card (Q \<union> Q') \<le> card (set M)"
    using assms by (auto simp: majority_def intro: card_mono)
  ultimately show False
    using assms by (simp add: majority_def)
qed

interpretation maj: quorum "majority M" for M :: "'p list"
  by unfold_locales (rule majority_intersect)

text \<open>A majority counted in the code's way: the node itself and the peers that said yes.\<close>

lemma majority_count:
  assumes "distinct M" and "i \<in> set M" and "V \<subseteq> set M - {i}"
    and "length M div 2 + 1 \<le> Suc (card V)"
  shows "majority M (insert i V)"
proof -
  have "finite V" using assms(3) finite_subset by blast
  then have "card (insert i V) = Suc (card V)"
    using assms(3) by (subst card_insert_disjoint) auto
  moreover have "card (set M) = length M" by (rule distinct_card [OF assms(1)])
  ultimately show ?thesis
    using assms by (auto simp: majority_def)
qed

end
