(* ===== verification/Raft_Abstract.thy ===== *)
theory Raft_Abstract
  imports Raft_Node Quorum
begin

text \<open>
  An abstract account of the Raft protocol: what each step of the implementation does to terms,
  votes, logs and commit indices, with the history the safety argument needs (who stood for
  election with which log, who voted for whom, the log of each term's leader, who acknowledged how
  much of it). Messages, threads, clocks and disks are gone; theory \<open>Raft_Refinement\<close> shows that
  the implementation only makes steps of this kind.

  The lemmas of this theory are the classical Raft properties for the abstract protocol: at most one
  leader per term, log matching, leader completeness and agreement on committed entries.
\<close>

section \<open>State and steps\<close>

record abs_raft =
  aterm :: "string \<Rightarrow> nat"
  avote :: "string \<Rightarrow> string"
  arole :: "string \<Rightarrow> Role"
  alog :: "string \<Rightarrow> LogEntry list"
  acommit :: "string \<Rightarrow> nat"
  cands :: "(string \<times> nat \<times> LogEntry list) set"
    \<comment> \<open>\<open>(c, t, l)\<close>: \<open>c\<close> stood for election in term \<open>t\<close> with log \<open>l\<close>\<close>
  grants :: "(string \<times> nat \<times> string) set" \<comment> \<open>\<open>(p, t, c)\<close>: \<open>p\<close> voted for \<open>c\<close> in term \<open>t\<close>\<close>
  vlogs :: "(string \<times> nat \<times> LogEntry list) set"
    \<comment> \<open>\<open>(p, t, l)\<close>: \<open>p\<close> voted in term \<open>t\<close>, before it had a leader, with log \<open>l\<close>\<close>
  elected :: "nat \<rightharpoonup> string"
  tlog :: "nat \<rightharpoonup> LogEntry list" \<comment> \<open>the log of the leader of each term\<close>
  acks :: "(string \<times> nat \<times> nat) set"
    \<comment> \<open>\<open>(p, t, k)\<close>: \<open>p\<close> held the first \<open>k\<close> entries of the leader's log in term \<open>t\<close>\<close>

definition last_term :: "LogEntry list \<Rightarrow> nat" where
  "last_term l = (if l = [] then 0 else le_term (last l))"

definition newer_log :: "LogEntry list \<Rightarrow> LogEntry list \<Rightarrow> bool" where
  "newer_log l l' \<longleftrightarrow>
    last_term l > last_term l' \<or> (last_term l = last_term l' \<and> length l \<ge> length l')"

definition agree :: "nat \<Rightarrow> LogEntry list \<Rightarrow> LogEntry list \<Rightarrow> bool" where
  "agree k l l' \<longleftrightarrow> k \<le> length l \<and> k \<le> length l' \<and> take k l = take k l'"

definition accept_log :: "LogEntry list \<Rightarrow> LogEntry list \<Rightarrow> nat \<Rightarrow> LogEntry list" where
  "accept_log l L m = (if take m l = take m L then l else take m L)"

definition committed :: "string list \<Rightarrow> abs_raft \<Rightarrow> nat \<Rightarrow> nat \<Rightarrow> bool" where
  "committed M a t i \<longleftrightarrow>
    (\<exists>L Q. tlog a t = Some L \<and> 1 \<le> i \<and> i \<le> length L \<and> le_term (L ! (i - 1)) = t \<and>
       majority M Q \<and> (\<forall>p \<in> Q. \<exists>k \<ge> i. (p, t, k) \<in> acks a))"

text \<open>\<open>commit_known a l t\<^sub>0 k\<close>: the first \<open>k\<close> entries of \<open>l\<close> are committed in a term up to \<open>t\<^sub>0\<close>.\<close>

definition commit_known :: "string list \<Rightarrow> abs_raft \<Rightarrow> LogEntry list \<Rightarrow> nat \<Rightarrow> nat \<Rightarrow> bool" where
  "commit_known M a l t0 k \<longleftrightarrow>
    k = 0 \<or> (\<exists>t i L. committed M a t i \<and> t \<le> t0 \<and> k \<le> i \<and> tlog a t = Some L \<and> agree k l L)"

inductive abs_step :: "string list \<Rightarrow> abs_raft \<Rightarrow> abs_raft \<Rightarrow> bool" for M where
  bump: "p \<in> set M \<Longrightarrow> t > aterm a p \<Longrightarrow>
    abs_step M a (a\<lparr>aterm := (aterm a)(p := t), avote := (avote a)(p := ''''),
      arole := (arole a)(p := kFollower)\<rparr>)"
| follow: "p \<in> set M \<Longrightarrow> abs_step M a (a\<lparr>arole := (arole a)(p := kFollower)\<rparr>)"
| restart: "p \<in> set M \<Longrightarrow>
    abs_step M a (a\<lparr>arole := (arole a)(p := kFollower), acommit := (acommit a)(p := 0)\<rparr>)"
| grant: "p \<in> set M \<Longrightarrow> (c, aterm a p, L) \<in> cands a \<Longrightarrow> c \<noteq> '''' \<Longrightarrow>
    avote a p = '''' \<or> avote a p = c \<Longrightarrow> newer_log L (alog a p) \<Longrightarrow>
    abs_step M a (a\<lparr>avote := (avote a)(p := c), grants := insert (p, aterm a p, c) (grants a),
      vlogs := (if tlog a (aterm a p) = None then insert (p, aterm a p, alog a p) (vlogs a) else vlogs a)\<rparr>)"
| candidate: "c \<in> set M \<Longrightarrow> c \<noteq> '''' \<Longrightarrow> t = aterm a c + 1 \<Longrightarrow>
    abs_step M a (a\<lparr>aterm := (aterm a)(c := t), avote := (avote a)(c := c),
      arole := (arole a)(c := kCandidate), cands := insert (c, t, alog a c) (cands a),
      grants := insert (c, t, c) (grants a),
      vlogs := (if tlog a t = None then insert (c, t, alog a c) (vlogs a) else vlogs a)\<rparr>)"
| lead: "c \<in> set M \<Longrightarrow> arole a c = kCandidate \<Longrightarrow> majority M Q \<Longrightarrow>
    (\<forall>p \<in> Q. (p, aterm a c, c) \<in> grants a) \<Longrightarrow>
    abs_step M a (a\<lparr>arole := (arole a)(c := kLeader),
      elected := (elected a)(aterm a c \<mapsto> c), tlog := (tlog a)(aterm a c \<mapsto> alog a c)\<rparr>)"
| append_own: "c \<in> set M \<Longrightarrow> arole a c = kLeader \<Longrightarrow> le_term e = aterm a c \<Longrightarrow>
    abs_step M a (a\<lparr>alog := (alog a)(c := alog a c @ [e]),
      tlog := (tlog a)(aterm a c \<mapsto> alog a c @ [e]),
      acks := insert (c, aterm a c, length (alog a c) + 1) (acks a)\<rparr>)"
| accept: "p \<in> set M \<Longrightarrow> tlog a (aterm a p) = Some L \<Longrightarrow> m \<le> length L \<Longrightarrow>
    abs_step M a (a\<lparr>alog := (alog a)(p := accept_log (alog a p) L m),
      arole := (arole a)(p := kFollower), acks := insert (p, aterm a p, m) (acks a)\<rparr>)"
| commit_own: "c \<in> set M \<Longrightarrow> arole a c = kLeader \<Longrightarrow> 1 \<le> k \<Longrightarrow> k \<le> length (alog a c) \<Longrightarrow>
    le_term (alog a c ! (k - 1)) = aterm a c \<Longrightarrow> majority M Q \<Longrightarrow>
    (\<forall>p \<in> Q. \<exists>j \<ge> k. (p, aterm a c, j) \<in> acks a) \<Longrightarrow>
    abs_step M a (a\<lparr>acommit := (acommit a)(c := k)\<rparr>)"
| commit_told: "p \<in> set M \<Longrightarrow> tlog a (aterm a p) = Some L \<Longrightarrow> agree k (alog a p) L \<Longrightarrow>
    commit_known M a L (aterm a p) k \<Longrightarrow>
    abs_step M a (a\<lparr>acommit := (acommit a)(p := k)\<rparr>)"

section \<open>Agreement of logs\<close>

lemma agree_refl [simp]: "agree k l l \<longleftrightarrow> k \<le> length l"
  by (auto simp: agree_def)

lemma agree_0 [simp]: "agree 0 l l'"
  by (simp add: agree_def)

lemma agree_sym: "agree k l l' \<Longrightarrow> agree k l' l"
  by (simp add: agree_def)

lemma agree_trans: "agree k l l' \<Longrightarrow> agree k l' l'' \<Longrightarrow> agree k l l''"
  by (simp add: agree_def)

lemma agree_mono: "agree k l l' \<Longrightarrow> j \<le> k \<Longrightarrow> agree j l l'"
  by (auto simp: agree_def intro: take_eq_mono)

lemma agree_nth: "agree k l l' \<Longrightarrow> j < k \<Longrightarrow> l ! j = l' ! j"
  by (auto simp: agree_def intro: take_eq_nth)

lemma agree_append: "k \<le> length l \<Longrightarrow> agree k (l @ x) l' \<longleftrightarrow> agree k l l'"
  by (auto simp: agree_def)

lemma agree_take: "m \<le> length l \<Longrightarrow> agree k (take m l) l' \<longleftrightarrow> k \<le> m \<and> agree k l l'"
  by (auto simp: agree_def min_def)

lemma agree_accept:
  assumes "agree i l L" and "m \<le> length L"
  shows "agree i (accept_log l L m) L"
proof (cases "take m l = take m L")
  case True
  then show ?thesis using assms(1) by (simp add: accept_log_def)
next
  case False
  have "i < m"
  proof (rule ccontr)
    assume "\<not> i < m"
    then have "take m l = take m L"
      using assms(1) by (auto simp: agree_def intro: take_eq_mono)
    with False show False ..
  qed
  then show ?thesis
    using False assms by (simp add: accept_log_def agree_take agree_def)
qed

lemma agree_accept_all: "m \<le> length L \<Longrightarrow> agree m (accept_log l L m) L"
proof -
  assume m: "m \<le> length L"
  have "take m l = take m L \<Longrightarrow> m \<le> length l"
    using m by (metis length_take min.absorb2 min.cobounded1)
  with m show ?thesis by (auto simp: accept_log_def agree_def)
qed

lemma set_accept_log: "x \<in> set (accept_log l L m) \<Longrightarrow> x \<in> set l \<or> x \<in> set L"
  by (auto simp: accept_log_def dest: in_set_takeD split: if_splits)

section \<open>Votes and leaders\<close>

definition inv_votes :: "string list \<Rightarrow> abs_raft \<Rightarrow> bool" where
  "inv_votes M a \<longleftrightarrow>
    (\<forall>p t c. (p, t, c) \<in> grants a \<longrightarrow> t \<le> aterm a p \<and> (t = aterm a p \<longrightarrow> avote a p = c) \<and> c \<noteq> '''') \<and>
    (\<forall>p t c c'. (p, t, c) \<in> grants a \<longrightarrow> (p, t, c') \<in> grants a \<longrightarrow> c = c') \<and>
    (\<forall>t c. elected a t = Some c \<longrightarrow>
       t \<le> aterm a c \<and> (\<exists>Q. majority M Q \<and> (\<forall>p \<in> Q. (p, t, c) \<in> grants a)))"

definition inv_roles :: "abs_raft \<Rightarrow> bool" where
  "inv_roles a \<longleftrightarrow>
    (\<forall>p. arole a p = kCandidate \<longrightarrow> elected a (aterm a p) \<noteq> Some p) \<and>
    (\<forall>p. arole a p = kLeader \<longrightarrow>
       elected a (aterm a p) = Some p \<and> tlog a (aterm a p) = Some (alog a p)) \<and>
    (\<forall>t. tlog a t = None \<longleftrightarrow> elected a t = None)"

lemma inv_votesD:
  assumes "inv_votes M a"
  shows "(p, t, c) \<in> grants a \<Longrightarrow> t \<le> aterm a p"
    and "(p, aterm a p, c) \<in> grants a \<Longrightarrow> avote a p = c"
    and "(p, t, c) \<in> grants a \<Longrightarrow> c \<noteq> ''''"
    and "(p, t, c) \<in> grants a \<Longrightarrow> (p, t, c') \<in> grants a \<Longrightarrow> c = c'"
    and "elected a t = Some c \<Longrightarrow> t \<le> aterm a c"
    and "elected a t = Some c \<Longrightarrow> \<exists>Q. majority M Q \<and> (\<forall>p \<in> Q. (p, t, c) \<in> grants a)"
  using assms unfolding inv_votes_def by blast+

lemma inv_rolesD:
  assumes "inv_roles a"
  shows "arole a p = kCandidate \<Longrightarrow> elected a (aterm a p) \<noteq> Some p"
    and "arole a p = kLeader \<Longrightarrow> elected a (aterm a p) = Some p"
    and "arole a p = kLeader \<Longrightarrow> tlog a (aterm a p) = Some (alog a p)"
    and "tlog a t = None \<longleftrightarrow> elected a t = None"
  using assms unfolding inv_roles_def by blast+

lemma one_quorum_per_term:
  assumes "inv_votes M a" and "majority M Q" and "majority M Q'"
    and "\<forall>p \<in> Q. (p, t, c) \<in> grants a" and "\<forall>p \<in> Q'. (p, t, c') \<in> grants a"
  shows "c = c'"
  by (rule maj.agreement [OF assms(2,3), where choice = "\<lambda>p c. (p, t, c) \<in> grants a"])
     (use assms in \<open>auto simp: inv_votes_def\<close>)

lemma no_second_leader:
  assumes "inv_votes M a" and "inv_roles a" and "arole a c = kCandidate" and "majority M Q"
    and "\<forall>p \<in> Q. (p, aterm a c, c) \<in> grants a"
  shows "elected a (aterm a c) = None" and "tlog a (aterm a c) = None"
proof -
  show e: "elected a (aterm a c) = None"
  proof (rule ccontr)
    assume "elected a (aterm a c) \<noteq> None"
    then obtain c' where c': "elected a (aterm a c) = Some c'" by blast
    then obtain Q' where "majority M Q'" and "\<forall>p \<in> Q'. (p, aterm a c, c') \<in> grants a"
      using assms(1) unfolding inv_votes_def by blast
    then have "c = c'"
      using one_quorum_per_term [OF assms(1,4)] assms(5) by blast
    then show False
      using c' assms(2,3) by (auto simp: inv_roles_def)
  qed
  show "tlog a (aterm a c) = None"
    using e assms(2) by (simp add: inv_roles_def)
qed

lemma inv_votes_step:
  assumes "abs_step M a a'" and "inv_votes M a"
  shows "inv_votes M a'"
  using assms
proof (induction a a' rule: abs_step.induct)
  case (bump p t a)
  note D = inv_votesD [OF bump(3)]
  have "ta < t" if "(p, ta, c) \<in> grants a" for ta c
    using D(1) [OF that] bump(2) by simp
  moreover have "ta < t" if "elected a ta = Some p" for ta
    using D(5) [OF that] bump(2) by simp
  ultimately show ?case
    unfolding inv_votes_def by (auto dest: D less_imp_le)
next
  case (grant p c a L)
  note D = inv_votesD [OF grant(6)]
  have "c' = c" if "(p, aterm a p, c') \<in> grants a" for c'
    using D(2,3) [OF that] grant(4) by auto
  then show ?case
    unfolding inv_votes_def using grant(3) by (auto dest: D(1-5)) (use D(6) in blast)
next
  case (candidate c t a)
  note D = inv_votesD [OF candidate(4)]
  have "(c, Suc (aterm a c), c') \<notin> grants a" for c'
    using D(1) by fastforce
  then show ?case
    unfolding inv_votes_def using candidate(2,3) by (auto dest: D(1-5) le_SucI) (use D(6) in blast)+
next
  case (lead c a Q)
  note D = inv_votesD [OF lead(5)]
  show ?case
    unfolding inv_votes_def using lead(3,4) by (auto dest: D)
qed (auto simp: inv_votes_def)

lemma inv_roles_step:
  assumes "abs_step M a a'" and "inv_votes M a" and "inv_roles a"
  shows "inv_roles a'"
  using assms
proof (induction a a' rule: abs_step.induct)
  case (candidate c t a)
  have "elected a (Suc (aterm a c)) \<noteq> Some c"
    using inv_votesD(5) [OF candidate(4)] by fastforce
  then show ?case
    using candidate(3,5) by (auto simp: inv_roles_def)
next
  case (lead c a Q)
  note none = no_second_leader [OF lead(5,6,2,3,4)]
  then have "aterm a p \<noteq> aterm a c" if "arole a p = kLeader" for p
    using inv_rolesD(2) [OF lead(6) that] by auto
  then show ?case
    using lead(6) by (auto simp: inv_roles_def)
next
  case (append_own c a e)
  note R = inv_rolesD [OF append_own(5)]
  have "aterm a p \<noteq> aterm a c" if "arole a p = kLeader" "p \<noteq> c" for p
    using R(2) [OF that(1)] R(2) [OF append_own(2)] that(2) by auto
  then show ?case
    using append_own(2) R by (auto simp: inv_roles_def)
next
  case (accept p a L m)
  then show ?case by (auto simp: inv_roles_def)
qed (auto simp: inv_roles_def)

section \<open>Log matching\<close>

text \<open>\<open>matching a l\<close>: each prefix of \<open>l\<close> is a prefix of the leader's log of its last entry's term.\<close>

definition matching :: "abs_raft \<Rightarrow> LogEntry list \<Rightarrow> bool" where
  "matching a l \<longleftrightarrow>
    (\<forall>k < length l. \<exists>L. tlog a (le_term (l ! k)) = Some L \<and> agree (Suc k) l L)"

definition inv_logs :: "abs_raft \<Rightarrow> bool" where
  "inv_logs a \<longleftrightarrow>
    (\<forall>p. matching a (alog a p)) \<and> (\<forall>t L. tlog a t = Some L \<longrightarrow> matching a L) \<and>
    (\<forall>c t l. (c, t, l) \<in> cands a \<longrightarrow> matching a l) \<and> (\<forall>p t l. (p, t, l) \<in> vlogs a \<longrightarrow> matching a l)"

definition inv_terms :: "abs_raft \<Rightarrow> bool" where
  "inv_terms a \<longleftrightarrow>
    (\<forall>p. \<forall>e \<in> set (alog a p). le_term e \<le> aterm a p) \<and>
    (\<forall>t L. tlog a t = Some L \<longrightarrow> (\<forall>e \<in> set L. le_term e \<le> t)) \<and>
    (\<forall>c t l. (c, t, l) \<in> cands a \<longrightarrow> (\<forall>e \<in> set l. le_term e < t))"

text \<open>A step only ever extends the leaders' logs.\<close>

definition tlog_extends :: "abs_raft \<Rightarrow> abs_raft \<Rightarrow> bool" where
  "tlog_extends a a' \<longleftrightarrow>
    (\<forall>t L. tlog a t = Some L \<longrightarrow> (\<exists>L'. tlog a' t = Some L' \<and> agree (length L) L' L))"

lemma tlog_extends_refl: "tlog a' = tlog a \<Longrightarrow> tlog_extends a a'"
  by (auto simp: tlog_extends_def)

lemma tlog_extendsD:
  assumes "tlog_extends a a'" and "tlog a t = Some L"
  obtains L' where "tlog a' t = Some L'" and "\<And>k l. agree k l L \<Longrightarrow> agree k l L'"
proof -
  obtain L' where L': "tlog a' t = Some L'" "agree (length L) L' L"
    using assms by (auto simp: tlog_extends_def)
  have "agree k l L'" if "agree k l L" for k l
    using agree_trans [OF that] agree_sym [OF agree_mono [OF L'(2), of k]] that
    by (simp add: agree_def)
  with L'(1) show ?thesis by (rule that)
qed

lemma matching_extends: "matching a l \<Longrightarrow> tlog_extends a a' \<Longrightarrow> matching a' l"
  unfolding matching_def by (metis tlog_extendsD)

lemma matching_take: "matching a l \<Longrightarrow> matching a (take m l)"
  unfolding matching_def by (auto simp: agree_def min_def split: if_splits)

lemma matching_accept: "matching a l \<Longrightarrow> matching a L \<Longrightarrow> matching a (accept_log l L m)"
  by (auto simp: accept_log_def matching_take)

lemma step_tlog_extends:
  assumes "abs_step M a a'" and "inv_votes M a" and "inv_roles a"
  shows "tlog_extends a a'"
  using assms
proof (induction a a' rule: abs_step.induct)
  case (lead c a Q)
  then show ?case
    using no_second_leader [OF lead(5,6,2,3,4)] by (auto simp: tlog_extends_def)
next
  case (append_own c a e)
  then show ?case
    using inv_rolesD(3) [OF append_own(5,2)] by (auto simp: tlog_extends_def agree_append)
qed (auto intro: tlog_extends_refl)

lemma inv_logsD:
  assumes "inv_logs a"
  shows "matching a (alog a p)" and "tlog a t = Some L \<Longrightarrow> matching a L"
    and "(c, t, l) \<in> cands a \<Longrightarrow> matching a l" and "(q, t, l) \<in> vlogs a \<Longrightarrow> matching a l"
  using assms unfolding inv_logs_def by blast+

lemma inv_termsD:
  assumes "inv_terms a"
  shows "e \<in> set (alog a p) \<Longrightarrow> le_term e \<le> aterm a p"
    and "tlog a t = Some L \<Longrightarrow> e \<in> set L \<Longrightarrow> le_term e \<le> t"
    and "(c, t, l) \<in> cands a \<Longrightarrow> e \<in> set l \<Longrightarrow> le_term e < t"
  using assms unfolding inv_terms_def by blast+

lemma matching_snoc:
  assumes "matching a l" and "tlog a (le_term e) = Some (l @ [e])"
  shows "matching a (l @ [e])"
  unfolding matching_def
proof (intro allI impI)
  fix k assume k: "k < length (l @ [e])"
  show "\<exists>L. tlog a (le_term ((l @ [e]) ! k)) = Some L \<and> agree (Suc k) (l @ [e]) L"
  proof (cases "k < length l")
    case True
    then show ?thesis
      using assms(1) by (auto simp: matching_def nth_append agree_append)
  next
    case False
    then have "k = length l" using k by simp
    then show ?thesis using assms(2) by simp
  qed
qed

lemma inv_logs_step:
  assumes "abs_step M a a'" and "inv_votes M a" and "inv_roles a" and "inv_logs a"
  shows "inv_logs a'"
proof -
  have X: "matching a' l" if "matching a l" for l
    using matching_extends [OF that step_tlog_extends [OF assms(1-3)]] .
  note D = inv_logsD [OF assms(4)]
  show ?thesis
    using assms(1) X
  proof (cases rule: abs_step.cases)
    case (append_own c e)
    have "matching a' (alog a c @ [e])"
      using append_own X [OF D(1)] by (intro matching_snoc) auto
    then show ?thesis
      unfolding inv_logs_def using append_own(1) X D by auto
  next
    case (accept p L m)
    have "matching a' (accept_log (alog a p) L m)"
      using X [OF matching_accept [OF D(1) D(2)]] accept by blast
    then show ?thesis
      unfolding inv_logs_def using accept(1) X D by auto
  qed (use X D in \<open>auto simp: inv_logs_def\<close>)
qed

lemma inv_terms_step:
  assumes "abs_step M a a'" and "inv_roles a" and "inv_terms a"
  shows "inv_terms a'"
  using assms
proof (induction a a' rule: abs_step.induct)
  case (bump p t a)
  then show ?case unfolding inv_terms_def by fastforce
next
  case (candidate c t a)
  then show ?case unfolding inv_terms_def by (auto intro: le_SucI simp: less_Suc_eq_le)
next
  case (append_own c a e)
  then show ?case unfolding inv_terms_def by auto
next
  case (accept p a L m)
  then show ?case
    using inv_termsD [OF accept(5)] unfolding inv_terms_def by (auto dest: set_accept_log)
qed (auto simp: inv_terms_def)

section \<open>Candidates and the logs they won with\<close>

definition vote_backed :: "abs_raft \<Rightarrow> string \<Rightarrow> nat \<Rightarrow> string \<Rightarrow> bool" where
  "vote_backed a p t c \<longleftrightarrow>
    (\<exists>vl l. (p, t, vl) \<in> vlogs a \<and> (c, t, l) \<in> cands a \<and> newer_log l vl)"

definition inv_cands :: "abs_raft \<Rightarrow> bool" where
  "inv_cands a \<longleftrightarrow>
    (\<forall>c t l l'. (c, t, l) \<in> cands a \<longrightarrow> (c, t, l') \<in> cands a \<longrightarrow> l = l') \<and>
    (\<forall>c t l. (c, t, l) \<in> cands a \<longrightarrow> t \<le> aterm a c) \<and>
    (\<forall>p. arole a p = kCandidate \<longrightarrow> (p, aterm a p, alog a p) \<in> cands a) \<and>
    (\<forall>p t c. (p, t, c) \<in> grants a \<longrightarrow> tlog a t = None \<longrightarrow> vote_backed a p t c)"

definition won_with :: "string list \<Rightarrow> abs_raft \<Rightarrow> nat \<Rightarrow> LogEntry list \<Rightarrow> bool" where
  "won_with M a t L \<longleftrightarrow>
    (\<exists>c l Q. (c, t, l) \<in> cands a \<and> agree (length l) l L \<and> majority M Q \<and>
       (\<forall>p \<in> Q. \<exists>vl. (p, t, vl) \<in> vlogs a \<and> newer_log l vl))"

definition inv_won :: "string list \<Rightarrow> abs_raft \<Rightarrow> bool" where
  "inv_won M a \<longleftrightarrow> (\<forall>t L. tlog a t = Some L \<longrightarrow> won_with M a t L)"

lemma inv_candsD:
  assumes "inv_cands a"
  shows "(c, t, l) \<in> cands a \<Longrightarrow> (c, t, l') \<in> cands a \<Longrightarrow> l = l'"
    and "(c, t, l) \<in> cands a \<Longrightarrow> t \<le> aterm a c"
    and "arole a p = kCandidate \<Longrightarrow> (p, aterm a p, alog a p) \<in> cands a"
    and "(p, t, c) \<in> grants a \<Longrightarrow> tlog a t = None \<Longrightarrow> vote_backed a p t c"
  using assms unfolding inv_cands_def by blast+

lemma newer_log_refl [simp]: "newer_log l l"
  by (simp add: newer_log_def)

lemma history_grows:
  assumes "abs_step M a a'"
  shows "cands a \<subseteq> cands a'" and "grants a \<subseteq> grants a'" and "vlogs a \<subseteq> vlogs a'" and "acks a \<subseteq> acks a'"
  using assms by (cases rule: abs_step.cases; auto)+

lemma won_with_grows:
  assumes "won_with M a t L" and "cands a \<subseteq> cands a'" and "vlogs a \<subseteq> vlogs a'"
    and "agree (length L) L L'"
  shows "won_with M a' t L'"
proof -
  obtain c l Q where *: "(c, t, l) \<in> cands a" "agree (length l) l L" "majority M Q"
    "\<forall>p \<in> Q. \<exists>vl. (p, t, vl) \<in> vlogs a \<and> newer_log l vl"
    using assms(1) by (auto simp: won_with_def)
  have "agree (length l) l L'"
    using * agree_trans [OF *(2) agree_mono [OF assms(4)]] by (simp add: agree_def)
  with * assms(2,3) show ?thesis
    unfolding won_with_def by blast
qed

lemma vote_backed_grows:
  "vote_backed a p t c \<Longrightarrow> cands a \<subseteq> cands a' \<Longrightarrow> vlogs a \<subseteq> vlogs a' \<Longrightarrow> vote_backed a' p t c"
  unfolding vote_backed_def by blast

lemma inv_cands_step:
  assumes "abs_step M a a'" and "inv_votes M a" and "inv_roles a" and "inv_cands a"
  shows "inv_cands a'"
proof -
  note D = inv_candsD [OF assms(4)]
  have keep: "vote_backed a' p t c" if "(p, t, c) \<in> grants a" "tlog a' t = None" for p t c
  proof (rule vote_backed_grows [OF D(4) [OF that(1)] history_grows(1,3) [OF assms(1)]])
    show "tlog a t = None"
      using step_tlog_extends [OF assms(1-3)] that(2) unfolding tlog_extends_def
      by (metis option.exhaust option.distinct(1))
  qed
  show ?thesis
    using assms(1)
  proof (cases rule: abs_step.cases)
    case (bump p t)
    then have "t' \<le> t" if "(p, t', l) \<in> cands a" for t' l
      using D(2) [OF that] by simp
    then show ?thesis
      unfolding inv_cands_def using bump(1) D(1-3) keep by auto
  next
    case (grant p c L)
    have "vote_backed a' p (aterm a p) c" if "tlog a (aterm a p) = None"
      unfolding vote_backed_def using grant that by auto
    then show ?thesis
      unfolding inv_cands_def using grant(1) D(1-3) keep by auto
  next
    case (candidate c t)
    have new: "(c, Suc (aterm a c), l) \<notin> cands a" for l
      using D(2) by fastforce
    have "vote_backed a' c t c" if "tlog a t = None"
      unfolding vote_backed_def using candidate(1) that
      by (intro exI [of _ "alog a c"]) simp
    then show ?thesis
      unfolding inv_cands_def using candidate(1,4) new D(1-3) keep by (auto simp: le_SucI)
  qed (use D(1-3) keep in \<open>auto simp: inv_cands_def\<close>)
qed

lemma inv_won_step:
  assumes "abs_step M a a'" and "inv_votes M a" and "inv_roles a" and "inv_cands a" and "inv_won M a"
  shows "inv_won M a'"
proof -
  note grow = history_grows [OF assms(1)]
  have keep: "won_with M a' t L'" if "tlog a t = Some L" and "agree (length L) L L'" for t L L'
    using won_with_grows [OF _ grow(1,3) that(2)] that(1) assms(5) by (simp add: inv_won_def)
  show ?thesis
    using assms(1)
  proof (cases rule: abs_step.cases)
    case (lead c Q)
    note none = no_second_leader [OF assms(2,3) lead(3-5)]
    have c: "(c, aterm a c, alog a c) \<in> cands a"
      by (rule inv_candsD(3) [OF assms(4) lead(3)])
    have "\<exists>vl. (p, aterm a c, vl) \<in> vlogs a \<and> newer_log (alog a c) vl" if "p \<in> Q" for p
      using inv_candsD(4) [OF assms(4) lead(5) [rule_format, OF that] none(2)] inv_candsD(1) [OF assms(4) c]
      unfolding vote_backed_def by blast
    then have "won_with M a (aterm a c) (alog a c)"
      unfolding won_with_def using c lead(4) by (intro exI [of _ c] exI [of _ "alog a c"] exI [of _ Q]) simp
    then have "won_with M a' (aterm a c) (alog a c)"
      using won_with_grows [OF _ grow(1,3)] by simp
    then show ?thesis
      using lead(1) keep unfolding inv_won_def by auto
  next
    case (append_own c e)
    have "won_with M a' (aterm a c) (alog a c @ [e])"
      using keep [OF inv_rolesD(3) [OF assms(3) append_own(3)]] by (simp add: agree_def)
    then show ?thesis
      using append_own(1) keep unfolding inv_won_def by auto
  qed (use keep in \<open>auto simp: inv_won_def\<close>)
qed

section \<open>Acknowledged prefixes\<close>

text \<open>
  \<open>between_agree a t t' i L\<close>: the leaders of the terms strictly between \<open>t\<close> and \<open>t'\<close> hold the first
  \<open>i\<close> entries of \<open>L\<close>. An acknowledgement lasts as long as this holds.
\<close>

definition between_agree :: "abs_raft \<Rightarrow> nat \<Rightarrow> nat \<Rightarrow> nat \<Rightarrow> LogEntry list \<Rightarrow> bool" where
  "between_agree a t t' i L \<longleftrightarrow>
    (\<forall>u L'. t < u \<longrightarrow> u < t' \<longrightarrow> tlog a u = Some L' \<longrightarrow> agree i L' L)"

definition inv_acks :: "abs_raft \<Rightarrow> bool" where
  "inv_acks a \<longleftrightarrow>
    (\<forall>p t k. (p, t, k) \<in> acks a \<longrightarrow> t \<le> aterm a p \<and> (\<exists>L. tlog a t = Some L \<and> k \<le> length L \<and>
       (\<forall>i \<le> k. between_agree a t (Suc (aterm a p)) i L \<longrightarrow> agree i (alog a p) L)))"

definition inv_vote_acks :: "abs_raft \<Rightarrow> bool" where
  "inv_vote_acks a \<longleftrightarrow>
    (\<forall>p t vl. (p, t, vl) \<in> vlogs a \<longrightarrow> t \<le> aterm a p) \<and>
    (\<forall>p t t' vl k L i. (p, t', vl) \<in> vlogs a \<longrightarrow> (p, t, k) \<in> acks a \<longrightarrow> t < t' \<longrightarrow>
       tlog a t = Some L \<longrightarrow> i \<le> k \<longrightarrow> between_agree a t t' i L \<longrightarrow> agree i vl L)"

lemma step_tlog_cases:
  assumes "abs_step M a a'" and "inv_votes M a" and "inv_roles a"
    and "tlog a u = Some X" and "tlog a' u = Some X'"
  shows "X' = X \<or> (\<exists>e. X' = X @ [e] \<and> le_term e = u)"
  using assms(1)
proof (cases rule: abs_step.cases)
  case (lead c Q)
  show ?thesis
    using no_second_leader(2) [OF assms(2,3) lead(3-5)] lead(1) assms(4,5) by (auto split: if_splits)
next
  case (append_own c e)
  show ?thesis
    using inv_rolesD(3) [OF assms(3) append_own(3)] append_own assms(4,5) by (auto split: if_splits)
qed (use assms(4,5) in auto)

lemma between_agree_back:
  assumes step: "abs_step M a a'" and inv: "inv_votes M a" "inv_roles a" "inv_terms a"
    and L: "tlog a t = Some L" "i \<le> length L" and L': "tlog a' t = Some L'"
    and B: "between_agree a' t t' i L'"
  shows "between_agree a t t' i L"
  unfolding between_agree_def
proof (intro allI impI)
  fix u X assume u: "t < u" "u < t'" and X: "tlog a u = Some X"
  obtain X' where X': "tlog a' u = Some X'"
    using step_tlog_extends [OF step inv(1,2)] X by (auto simp: tlog_extends_def)
  have agr: "agree i X' L'" using B u X' by (auto simp: between_agree_def)
  have "L' = L \<or> (\<exists>e. L' = L @ [e])"
    using step_tlog_cases [OF step inv(1,2) L(1) L'] by blast
  then have agrL: "agree i X' L"
    using agr L(2) by (auto simp: agree_def)
  have "X' = X \<or> (\<exists>e. X' = X @ [e] \<and> le_term e = u)"
    by (rule step_tlog_cases [OF step inv(1,2) X X'])
  then show "agree i X L"
  proof (elim disjE exE conjE)
    fix e assume e: "X' = X @ [e]" "le_term e = u"
    have "i \<le> length X"
    proof (rule ccontr)
      assume "\<not> i \<le> length X"
      then have "i = Suc (length X)" using agrL e by (simp add: agree_def)
      then have "e = L ! length X" and "length X < length L"
        using agree_nth [OF agrL, of "length X"] e L(2) by simp_all
      then have "le_term e \<le> t" using inv_termsD(2) [OF inv(3) L(1)] by simp
      then show False using u e by simp
    qed
    then show ?thesis using agrL e by (simp add: agree_append)
  qed (use agrL in simp)
qed

lemma inv_acksD:
  assumes "inv_acks a" and "(p, t, k) \<in> acks a"
  shows "t \<le> aterm a p"
    and "\<exists>L. tlog a t = Some L \<and> k \<le> length L"
    and "tlog a t = Some L \<Longrightarrow> i \<le> k \<Longrightarrow> between_agree a t (Suc (aterm a p)) i L \<Longrightarrow> agree i (alog a p) L"
proof -
  obtain L0 where L0: "t \<le> aterm a p" "tlog a t = Some L0" "k \<le> length L0"
    "\<forall>i \<le> k. between_agree a t (Suc (aterm a p)) i L0 \<longrightarrow> agree i (alog a p) L0"
    using assms unfolding inv_acks_def by blast
  show "t \<le> aterm a p" and "\<exists>L. tlog a t = Some L \<and> k \<le> length L"
    using L0 by simp_all
  show "agree i (alog a p) L"
    if "tlog a t = Some L" "i \<le> k" "between_agree a t (Suc (aterm a p)) i L"
    using L0 that by simp
qed

lemma between_agree_anti: "between_agree a t t' i L \<Longrightarrow> t'' \<le> t' \<Longrightarrow> between_agree a t t'' i L"
  by (auto simp: between_agree_def)

text \<open>What a step does to the log of a node that had acknowledged entries.\<close>

lemma step_keeps_acked:
  assumes step: "abs_step M a a'" and inv: "inv_votes M a" "inv_roles a" "inv_terms a" "inv_acks a"
    and ack: "(p, t, k) \<in> acks a" and L': "tlog a' t = Some L'" "i \<le> k"
    and B: "between_agree a' t (Suc (aterm a' p)) i L'"
  shows "agree i (alog a' p) L'"
proof -
  obtain L where L: "tlog a t = Some L" "k \<le> length L" using inv_acksD(2) [OF inv(4) ack] by blast
  have le: "aterm a p \<le> aterm a' p" using step by (cases rule: abs_step.cases) simp_all
  have Ba: "between_agree a t (Suc (aterm a p)) i L"
    by (rule between_agree_anti [OF between_agree_back [OF step inv(1-3) L(1) _ L'(1) B]])
       (use L(2) L'(2) le in simp_all)
  have ag: "agree i (alog a p) L"
    by (rule inv_acksD(3) [OF inv(4) ack L(1) L'(2) Ba])
  have agL': "agree i l L'" if "agree i l L" for l
    by (rule tlog_extendsD [OF step_tlog_extends [OF step inv(1,2)] L(1)]) (use L'(1) that in simp)
  show ?thesis
    using step
  proof (cases rule: abs_step.cases)
    case (append_own c e)
    have "agree i (alog a p @ [e]) L'"
      using agL' [OF ag] by (simp add: agree_def)
    then show ?thesis using agL' [OF ag] append_own(1) by (cases "p = c") simp_all
  next
    case (accept q X m)
    have "agree i (accept_log (alog a p) X m) L" if "q = p"
    proof -
      have "t \<le> aterm a p" by (rule inv_acksD(1) [OF inv(4) ack])
      then have "agree i X L"
        using Ba [unfolded between_agree_def, rule_format, of "aterm a p" X] accept(3) L L'(2) that
        by (cases "t = aterm a p") auto
      from agree_trans [OF agree_accept [OF agree_trans [OF ag agree_sym [OF this]] accept(4)] this]
      show ?thesis .
    qed
    then show ?thesis using agL' [OF ag] agL' accept(1) by (cases "q = p") simp_all
  qed (use agL' [OF ag] in simp_all)
qed

lemma acks_cases:
  assumes "abs_step M a a'" and "inv_roles a" and "(p, t, k) \<in> acks a'" and "(p, t, k) \<notin> acks a"
  obtains L where "t = aterm a p" and "aterm a' p = t" and "tlog a' t = Some L" and "k \<le> length L"
    and "agree k (alog a' p) L" and "vlogs a' = vlogs a"
  using assms(1)
proof (cases rule: abs_step.cases)
  case (append_own c e)
  then show ?thesis
    using assms(3,4) that [of "alog a p @ [e]"] by auto
next
  case (accept q L m)
  then show ?thesis
    using assms(3,4) that [of L] agree_accept_all by auto
qed (use assms(3,4) in auto)

lemma inv_acks_step:
  assumes step: "abs_step M a a'" and inv: "inv_votes M a" "inv_roles a" "inv_terms a" "inv_acks a"
  shows "inv_acks a'"
  unfolding inv_acks_def
proof (intro allI impI)
  fix p t k assume ack': "(p, t, k) \<in> acks a'"
  show "t \<le> aterm a' p \<and> (\<exists>L. tlog a' t = Some L \<and> k \<le> length L \<and>
      (\<forall>i \<le> k. between_agree a' t (Suc (aterm a' p)) i L \<longrightarrow> agree i (alog a' p) L))"
  proof (cases "(p, t, k) \<in> acks a")
    case True
    obtain L where L: "tlog a t = Some L" "k \<le> length L" using inv_acksD(2) [OF inv(4) True] by blast
    obtain L' where L': "tlog a' t = Some L'" "agree (length L) L' L"
      using step_tlog_extends [OF step inv(1,2)] L(1) unfolding tlog_extends_def by blast
    have "aterm a p \<le> aterm a' p" using step by (cases rule: abs_step.cases) simp_all
    then have "t \<le> aterm a' p" using inv_acksD(1) [OF inv(4) True] by simp
    moreover have "k \<le> length L'" using L' L by (simp add: agree_def)
    ultimately show ?thesis
      using step_keeps_acked [OF step inv True L'(1)] L'(1) by simp
  next
    case False
    then obtain L where "t = aterm a p" "aterm a' p = t" "tlog a' t = Some L" "k \<le> length L"
      "agree k (alog a' p) L"
      using acks_cases [OF step inv(2) ack'] by blast
    then show ?thesis using agree_mono by auto
  qed
qed

lemma inv_vote_acksD:
  assumes "inv_vote_acks a"
  shows "(p, t, vl) \<in> vlogs a \<Longrightarrow> t \<le> aterm a p"
    and "(p, t', vl) \<in> vlogs a \<Longrightarrow> (p, t, k) \<in> acks a \<Longrightarrow> t < t' \<Longrightarrow> tlog a t = Some L \<Longrightarrow>
      i \<le> k \<Longrightarrow> between_agree a t t' i L \<Longrightarrow> agree i vl L"
  using assms unfolding inv_vote_acks_def by blast+

text \<open>A vote recorded before the term had a leader is the voter's log of that moment.\<close>

lemma vlogs_cases:
  assumes "abs_step M a a'" and "(p, t, vl) \<in> vlogs a'" and "(p, t, vl) \<notin> vlogs a"
  shows "vl = alog a p" and "tlog a t = None" and "t = aterm a' p" and "aterm a p \<le> t"
    and "tlog a' = tlog a" and "alog a' = alog a" and "acks a' = acks a"
  using assms by (cases rule: abs_step.cases; auto split: if_splits)+

lemma inv_vote_acks_step:
  assumes step: "abs_step M a a'"
    and inv: "inv_votes M a" "inv_roles a" "inv_terms a" "inv_acks a" "inv_vote_acks a"
  shows "inv_vote_acks a'"
  unfolding inv_vote_acks_def
proof (intro conjI allI impI)
  have le: "aterm a p \<le> aterm a' p" for p using step by (cases rule: abs_step.cases) simp_all
  show "t \<le> aterm a' p" if "(p, t, vl) \<in> vlogs a'" for p t vl
    using inv_vote_acksD(1) [OF inv(5)] vlogs_cases(3) [OF step that] le [of p] that
    by (cases "(p, t, vl) \<in> vlogs a") (auto intro: order.trans)
  fix p t t' vl k L' i
  assume *: "(p, t', vl) \<in> vlogs a'" "(p, t, k) \<in> acks a'" "t < t'" "tlog a' t = Some L'" "i \<le> k"
    "between_agree a' t t' i L'"
  show "agree i vl L'"
  proof (cases "(p, t', vl) \<in> vlogs a")
    case True
    have "(p, t, k) \<in> acks a"
      using acks_cases [OF step inv(2) *(2)] inv_vote_acksD(1) [OF inv(5) True] *(3) by fastforce
    moreover obtain L where L: "tlog a t = Some L" "k \<le> length L"
      using inv_acksD(2) [OF inv(4) calculation] by blast
    moreover have "between_agree a t t' i L"
      by (rule between_agree_back [OF step inv(1-3) L(1) _ *(4,6)]) (use L *(5) in simp)
    ultimately have "agree i vl L"
      using inv_vote_acksD(2) [OF inv(5) True] *(3,5) by blast
    moreover obtain L'' where "tlog a' t = Some L''" "\<And>k l. agree k l L \<Longrightarrow> agree k l L''"
      using tlog_extendsD [OF step_tlog_extends [OF step inv(1,2)] L(1)] by blast
    ultimately show ?thesis using *(4) by simp
  next
    case False
    note C = vlogs_cases [OF step *(1) False]
    have ack: "(p, t, k) \<in> acks a" using *(2) C(7) by simp
    have "between_agree a t (Suc (aterm a p)) i L'"
      using *(6) C(2,4,5) unfolding between_agree_def by (auto simp: less_Suc_eq_le le_less)
    then show ?thesis
      using inv_acksD(3) [OF inv(4) ack _ *(5)] *(4) C(1,5) by simp
  qed
qed

section \<open>Leader completeness\<close>

text \<open>A log that agrees with \<open>tlog a t\<close> on a committed index, seen from its own last term.\<close>

lemma last_term_matching:
  assumes "matching a l" and "l \<noteq> []"
  obtains L where "tlog a (last_term l) = Some L" and "agree (length l) l L"
  using assms(1) [unfolded matching_def, rule_format, of "length l - 1"] assms(2)
  by (auto simp: last_term_def last_conv_nth)

lemma committed_last_term:
  assumes terms: "inv_terms a" and m: "matching a l" and ag: "agree i l L"
    and i: "1 \<le> i" and t: "le_term (L ! (i - 1)) = t"
  shows "t \<le> last_term l"
proof -
  have ne: "l \<noteq> []" using ag i by (auto simp: agree_def)
  obtain X where X: "tlog a (last_term l) = Some X" "agree (length l) l X"
    using last_term_matching [OF m ne] .
  have lt: "i - 1 < i" "i \<le> length l" using i ag by (auto simp: agree_def)
  then have "X ! (i - 1) = L ! (i - 1)"
    using agree_nth [OF ag, of "i - 1"] agree_nth [OF X(2), of "i - 1"] by simp
  moreover have "X ! (i - 1) \<in> set X"
    using lt X(2) by (simp add: agree_def)
  ultimately show ?thesis
    using inv_termsD(2) [OF terms X(1)] t by metis
qed

lemma candidate_complete:
  assumes inv: "inv_terms a" "inv_logs a"
    and l: "(c, u, l) \<in> cands a" and vl: "(p, u, vl) \<in> vlogs a" and newer: "newer_log l vl"
    and L: "tlog a t = Some L" and i: "1 \<le> i" "le_term (L ! (i - 1)) = t" and ag: "agree i vl L"
    and IH: "\<And>w X. t < w \<Longrightarrow> w < u \<Longrightarrow> tlog a w = Some X \<Longrightarrow> agree i X L"
  shows "agree i l L"
proof -
  have ml: "matching a l" and mvl: "matching a vl" using inv_logsD [OF inv(2)] l vl by blast+
  have vne: "vl \<noteq> []" and vi: "i \<le> length vl" using ag i by (auto simp: agree_def)
  have tv: "t \<le> last_term vl" by (rule committed_last_term [OF inv(1) mvl ag i])
  have lne: "l \<noteq> []"
    using newer vne tv by (auto simp: newer_log_def last_term_def split: if_splits)
  obtain X where X: "tlog a (last_term l) = Some X" "agree (length l) l X"
    using last_term_matching [OF ml lne] .
  show ?thesis
  proof (cases "last_term l = last_term vl")
    case True
    obtain Y where Y: "tlog a (last_term vl) = Some Y" "agree (length vl) vl Y"
      using last_term_matching [OF mvl vne] .
    have "length vl \<le> length l" using newer True by (auto simp: newer_log_def)
    then have "agree i l X" using agree_mono [OF X(2), of i] vi by simp
    moreover have "agree i vl X" using agree_mono [OF Y(2) vi] X(1) Y(1) True by simp
    ultimately show ?thesis
      using agree_trans [OF agree_trans [OF _ agree_sym] ag] by blast
  next
    case False
    then have gt: "last_term vl < last_term l" using newer by (auto simp: newer_log_def)
    have "last_term l < u"
      using inv_termsD(3) [OF inv(1) l] lne by (simp add: last_term_def)
    then have aX: "agree i X L" using IH [OF _ _ X(1)] gt tv by simp
    have "i \<le> length l"
    proof (rule ccontr)
      assume "\<not> i \<le> length l"
      then have k: "length l - 1 < i" "length l - 1 < length L"
        using lne aX by (auto simp: agree_def)
      have "last l = X ! (length l - 1)"
        using agree_nth [OF X(2), of "length l - 1"] lne by (simp add: last_conv_nth)
      also have "\<dots> = L ! (length l - 1)" by (rule agree_nth [OF aX k(1)])
      finally have "last_term l \<le> t"
        using inv_termsD(2) [OF inv(1) L] k(2) lne by (simp add: last_term_def)
      then show False using gt tv by simp
    qed
    then show ?thesis
      using agree_trans [OF agree_mono [OF X(2)] aX] by simp
  qed
qed

lemma leader_complete:
  assumes inv: "inv_terms a" "inv_logs a" "inv_won M a" "inv_acks a" "inv_vote_acks a"
    and com: "committed M a t i" and L: "tlog a t = Some L"
  shows "t < u \<Longrightarrow> tlog a u = Some X \<Longrightarrow> agree i X L"
proof (induction u arbitrary: X rule: less_induct)
  case (less u)
  obtain Q where Q: "1 \<le> i" "le_term (L ! (i - 1)) = t" "majority M Q" "\<forall>p \<in> Q. \<exists>k \<ge> i. (p, t, k) \<in> acks a"
    using com L by (auto simp: committed_def)
  obtain c l Q' where W: "(c, u, l) \<in> cands a" "agree (length l) l X" "majority M Q'"
    "\<forall>p \<in> Q'. \<exists>vl. (p, u, vl) \<in> vlogs a \<and> newer_log l vl"
    using inv(3) less.prems(2) unfolding inv_won_def won_with_def by blast
  obtain p where p: "p \<in> Q" "p \<in> Q'" by (rule maj.common_member [OF Q(3) W(3)])
  obtain k where k: "(p, t, k) \<in> acks a" "i \<le> k" using Q(4) p(1) by blast
  obtain vl where vl: "(p, u, vl) \<in> vlogs a" "newer_log l vl" using W(4) p(2) by blast
  have IH: "agree i Y L" if "t < w" "w < u" "tlog a w = Some Y" for w Y
    using less.IH [OF that(2,1,3)] .
  then have "between_agree a t u i L" by (auto simp: between_agree_def)
  then have "agree i vl L"
    using inv_vote_acksD(2) [OF inv(5) vl(1) k(1) less.prems(1) L k(2)] by blast
  then have ag: "agree i l L"
    by (rule candidate_complete [OF inv(1,2) W(1) vl(1,2) L Q(1,2)]) (rule IH)
  then have "i \<le> length l" by (simp add: agree_def)
  then show ?case
    using agree_trans [OF agree_sym [OF agree_mono [OF W(2)]] ag] by blast
qed

section \<open>Committed entries\<close>

definition abs_inv :: "string list \<Rightarrow> abs_raft \<Rightarrow> bool" where
  "abs_inv M a \<longleftrightarrow> inv_votes M a \<and> inv_roles a \<and> inv_logs a \<and> inv_terms a \<and> inv_cands a \<and>
    inv_won M a \<and> inv_acks a \<and> inv_vote_acks a \<and>
    (\<forall>p. commit_known M a (alog a p) (aterm a p) (acommit a p))"

lemma abs_invD:
  assumes "abs_inv M a"
  shows "inv_votes M a" "inv_roles a" "inv_logs a" "inv_terms a" "inv_cands a"
    "inv_won M a" "inv_acks a" "inv_vote_acks a"
    "commit_known M a (alog a p) (aterm a p) (acommit a p)"
  using assms unfolding abs_inv_def by blast+

lemma committed_step:
  assumes "abs_step M a a'" and "inv_votes M a" and "inv_roles a" and "committed M a t i"
  shows "committed M a' t i"
proof -
  obtain L Q where *: "tlog a t = Some L" "1 \<le> i" "i \<le> length L" "le_term (L ! (i - 1)) = t"
    "majority M Q" "\<forall>p \<in> Q. \<exists>k \<ge> i. (p, t, k) \<in> acks a"
    using assms(4) unfolding committed_def by blast
  obtain L' where L': "tlog a' t = Some L'" "agree (length L) L' L"
    using step_tlog_extends [OF assms(1-3)] *(1) unfolding tlog_extends_def by blast
  have "L' ! (i - 1) = L ! (i - 1)" "i \<le> length L'"
    using agree_nth [OF L'(2), of "i - 1"] L'(2) *(2,3) by (auto simp: agree_def)
  with * L'(1) history_grows(4) [OF assms(1)] show ?thesis
    unfolding committed_def by (intro exI [of _ L'] exI [of _ Q]) auto
qed

lemma commit_known_step:
  assumes "abs_step M a a'" and "abs_inv M a" and "commit_known M a l t0 k" and "t0 \<le> t1"
  shows "commit_known M a' l t1 k"
proof (cases "k = 0")
  case False
  then obtain t i L where *: "committed M a t i" "t \<le> t0" "k \<le> i" "tlog a t = Some L" "agree k l L"
    using assms(3) unfolding commit_known_def by blast
  note inv = abs_invD(1,2) [OF assms(2)]
  obtain L' where "tlog a' t = Some L'" "agree k l L'"
    using tlog_extendsD [OF step_tlog_extends [OF assms(1) inv] *(4)] *(5) by metis
  with * assms(4) committed_step [OF assms(1) inv *(1)] show ?thesis
    unfolding commit_known_def using order.trans by blast
qed (simp add: commit_known_def)

lemma commit_known_agree: "commit_known M a l t0 k \<Longrightarrow> agree k l' l \<Longrightarrow> commit_known M a l' t0 k"
  unfolding commit_known_def using agree_trans by blast

text \<open>The log of the leader of a later term holds what was known committed.\<close>

lemma commit_known_leader:
  assumes "abs_inv M a" and "commit_known M a l t0 k" and "tlog a u = Some X" and "t0 \<le> u"
  shows "agree k l X"
proof (cases "k = 0")
  case False
  then obtain t i L where *: "committed M a t i" "t \<le> t0" "k \<le> i" "tlog a t = Some L" "agree k l L"
    using assms(2) unfolding commit_known_def by blast
  have "agree k X L"
  proof (cases "t = u")
    case True
    then show ?thesis using * assms(3) by (simp add: agree_def)
  next
    case False
    then have "agree i X L"
      using leader_complete [OF abs_invD(4,3,6,7,8) [OF assms(1)] *(1,4) _ assms(3)] *(2) assms(4) by simp
    then show ?thesis using agree_mono *(3) by blast
  qed
  then show ?thesis using agree_trans [OF *(5) agree_sym] by blast
qed simp

lemma commit_known_same:
  assumes "abs_inv M a" and "commit_known M a l t0 k" and "commit_known M a l' t0' k'"
  shows "agree (min k k') l l'"
proof (cases "k = 0 \<or> k' = 0")
  case False
  then obtain t i L t' i' L' where
      *: "committed M a t i" "k \<le> i" "tlog a t = Some L" "agree k l L" and
      **: "committed M a t' i'" "k' \<le> i'" "tlog a t' = Some L'" "agree k' l' L'"
    using assms(2,3) unfolding commit_known_def by blast
  have kn: "commit_known M a l t k" "commit_known M a l' t' k'"
    unfolding commit_known_def using * ** by blast+
  have "agree (min k k') l l'"  if "t \<le> t'"
    using agree_trans [OF agree_mono [OF commit_known_leader [OF assms(1) kn(1) **(3) that]]
        agree_sym [OF agree_mono [OF **(4)]]] by simp
  moreover have "agree (min k k') l l'"  if "t' \<le> t"
    using agree_trans [OF agree_mono [OF *(4)]
        agree_sym [OF agree_mono [OF commit_known_leader [OF assms(1) kn(2) *(3) that]]]] by simp
  ultimately show ?thesis using nat_le_linear by blast
qed auto

lemma commit_step:
  assumes step: "abs_step M a a'" and inv: "abs_inv M a"
  shows "commit_known M a' (alog a' p) (aterm a' p) (acommit a' p)"
proof -
  have le: "aterm a p \<le> aterm a' p" using step by (cases rule: abs_step.cases) simp_all
  note kn = abs_invD(9) [OF inv, of p]
  have keep: "commit_known M a' l (aterm a' p) k"
    if "commit_known M a (alog a p) (aterm a p) k" "agree k l (alog a p)" for k l
    by (rule commit_known_agree [OF commit_known_step [OF step inv that(1) le] that(2)])
  have len: "acommit a p \<le> length (alog a p)" using kn by (auto simp: commit_known_def agree_def)
  show ?thesis
    using step
  proof (cases rule: abs_step.cases)
    case (append_own c e)
    then show ?thesis using keep [OF kn] len by (auto simp: agree_append)
  next
    case (accept q L m)
    have "agree (acommit a p) (accept_log (alog a p) L m) (alog a p)" if "q = p"
    proof -
      have "agree (acommit a p) (alog a p) L"
        using commit_known_leader [OF inv kn] accept(3) that by blast
      from agree_trans [OF agree_accept [OF this accept(4)] agree_sym [OF this]] show ?thesis .
    qed
    then show ?thesis using keep [OF kn] len accept(1) by auto
  next
    case (commit_own c k Q)
    have "commit_known M a (alog a c) (aterm a c) k"
      unfolding commit_known_def committed_def
      using commit_own inv_rolesD(3) [OF abs_invD(2) [OF inv] commit_own(3)]
      by (intro disjI2 exI [of _ "aterm a c"] exI [of _ k] exI [of _ "alog a c"]) auto
    then show ?thesis
      using keep [OF kn] keep [of k "alog a p"] len commit_own(1,5) by auto
  next
    case (commit_told q L k)
    have "commit_known M a (alog a q) (aterm a q) k"
      by (rule commit_known_agree [OF commit_told(5,4)])
    then show ?thesis
      using keep [OF kn] keep [of k "alog a p"] len commit_told(1,4) by (auto simp: agree_def)
  next
    case (restart q)
    then show ?thesis using keep [OF kn] len by (auto simp: commit_known_def)
  qed (use keep [OF kn] len in auto)
qed

lemma abs_inv_step:
  assumes "abs_step M a a'" and "abs_inv M a"
  shows "abs_inv M a'"
  using commit_step [OF assms] inv_votes_step [OF assms(1)] inv_roles_step [OF assms(1)]
    inv_logs_step [OF assms(1)] inv_terms_step [OF assms(1)] inv_cands_step [OF assms(1)]
    inv_won_step [OF assms(1)] inv_acks_step [OF assms(1)] inv_vote_acks_step [OF assms(1)]
    abs_invD [OF assms(2)]
  unfolding abs_inv_def by blast

definition abs_init :: abs_raft where
  "abs_init = \<lparr>aterm = (\<lambda>_. 0), avote = (\<lambda>_. ''''), arole = (\<lambda>_. kFollower), alog = (\<lambda>_. []),
     acommit = (\<lambda>_. 0), cands = {}, grants = {}, vlogs = {}, elected = Map.empty, tlog = Map.empty,
     acks = {}\<rparr>"

lemma abs_inv_init: "abs_inv M abs_init"
  by (simp add: abs_inv_def abs_init_def inv_votes_def inv_roles_def inv_logs_def inv_terms_def
      inv_cands_def inv_won_def inv_acks_def inv_vote_acks_def commit_known_def matching_def)

abbreviation abs_steps :: "string list \<Rightarrow> abs_raft \<Rightarrow> abs_raft \<Rightarrow> bool" where
  "abs_steps M \<equiv> (abs_step M)\<^sup>*\<^sup>*"

lemma abs_inv_steps: "abs_steps M a a' \<Longrightarrow> abs_inv M a \<Longrightarrow> abs_inv M a'"
  by (induction rule: rtranclp_induct) (auto intro: abs_inv_step)

lemma commit_known_steps:
  assumes "abs_steps M a a'" and "abs_inv M a" and "commit_known M a l t0 k"
  shows "commit_known M a' l t0 k"
  using assms
proof (induction rule: rtranclp_induct)
  case (step b c)
  then show ?case using commit_known_step [OF step(2) abs_inv_steps [OF step(1)]] by blast
qed

lemma abs_mono:
  assumes "abs_steps M a a'"
  shows "cands a \<subseteq> cands a'" and "grants a \<subseteq> grants a'" and "acks a \<subseteq> acks a'" and "aterm a p \<le> aterm a' p"
proof -
  have 1: "cands a \<subseteq> cands a' \<and> grants a \<subseteq> grants a' \<and> acks a \<subseteq> acks a'"
    using assms by (induction rule: rtranclp_induct) (use history_grows in blast)+
  then show "cands a \<subseteq> cands a'" and "grants a \<subseteq> grants a'" and "acks a \<subseteq> acks a'" by blast+
  have le: "aterm b p \<le> aterm c p" if "abs_step M b c" for b c
    using that by (cases rule: abs_step.cases) simp_all
  show "aterm a p \<le> aterm a' p"
    using assms by (induction rule: rtranclp_induct) (auto dest: le intro: order.trans)
qed

lemma tlog_extends_trans: "tlog_extends a b \<Longrightarrow> tlog_extends b c \<Longrightarrow> tlog_extends a c"
  unfolding tlog_extends_def
proof (intro allI impI)
  fix t L
  assume ab: "\<forall>t L. tlog a t = Some L \<longrightarrow> (\<exists>L'. tlog b t = Some L' \<and> agree (length L) L' L)"
    and bc: "\<forall>t L. tlog b t = Some L \<longrightarrow> (\<exists>L'. tlog c t = Some L' \<and> agree (length L) L' L)"
    and "tlog a t = Some L"
  then obtain L1 L2 where *: "agree (length L) L1 L" "tlog c t = Some L2" "agree (length L1) L2 L1"
    by blast
  then have "length L \<le> length L1" by (simp add: agree_def)
  from agree_trans [OF agree_mono [OF *(3) this] *(1)] *(2)
  show "\<exists>L'. tlog c t = Some L' \<and> agree (length L) L' L" by blast
qed

lemma abs_steps_tlog_extends:
  assumes "abs_steps M a a'" and "abs_inv M a"
  shows "tlog_extends a a'"
  using assms
proof (induction rule: rtranclp_induct)
  case (step b c)
  then show ?case
    using tlog_extends_trans step_tlog_extends [OF step(2)] abs_invD(1,2) [OF abs_inv_steps [OF step(1)]]
    by blast
qed (simp add: tlog_extends_refl)

end
