(* ===== verification/Raft_Refinement.thy ===== *)
theory Raft_Refinement
  imports Raft_Cluster Raft_Abstract
begin

text \<open>
  The implementation refines the abstract protocol: every step of \<open>Raft_Cluster\<close> is a sequence of
  steps of \<open>Raft_Abstract\<close>. The simulation relation \<open>sim\<close> says that each node has the term, vote,
  role, log and commit index of its abstract counterpart, that its disk holds them, and that every
  message and thread carries only what the history of the abstract run backs.
\<close>

section \<open>The append loop computes \<open>accept_log\<close>\<close>

definition coherent :: "LogEntry list \<Rightarrow> LogEntry list \<Rightarrow> bool" where
  "coherent l L \<longleftrightarrow>
    (\<forall>k < length l. k < length L \<longrightarrow> le_term (l ! k) = le_term (L ! k) \<longrightarrow> take (Suc k) l = take (Suc k) L)"

lemma matching_coherent:
  assumes "matching a l" and "matching a L"
  shows "coherent l L"
  unfolding coherent_def
proof (intro allI impI)
  fix k assume k: "k < length l" "k < length L" "le_term (l ! k) = le_term (L ! k)"
  obtain X where "tlog a (le_term (l ! k)) = Some X" "agree (Suc k) l X"
    using assms(1) k(1) by (auto simp: matching_def)
  moreover obtain Y where "tlog a (le_term (L ! k)) = Some Y" "agree (Suc k) L Y"
    using assms(2) k(2) by (auto simp: matching_def)
  ultimately show "take (Suc k) l = take (Suc k) L"
    using k(3) by (simp add: agree_def)
qed

lemma coherent_take: "coherent (take m L) L"
  by (auto simp: coherent_def min_def)

lemma accept_log_take: "m \<le> m' \<Longrightarrow> accept_log (take m L) L m' = take m' L"
  by (auto simp: accept_log_def min_def)

lemma accept_log_differs:
  assumes "k < m" and "m \<le> length L" and "k < length l \<Longrightarrow> l ! k \<noteq> L ! k"
  shows "accept_log l L m = take m L"
proof (cases "take m l = take m L")
  case True
  then have "m \<le> length l" using assms(2) by (metis length_take min.absorb2 min.cobounded1)
  then show ?thesis using take_eq_nth [OF True] assms by auto
qed (simp add: accept_log_def)

lemma append_loop_accept:
  assumes "log_wf L" and "log_wf l" and "coherent l L" and "prev \<le> length l"
    and "take prev l = take prev L" and "prev + length es \<le> length L"
    and "es = take (length es) (drop prev L)"
  shows "\<exists>ch'. append_loop es (l, ch) = Some (accept_log l L (prev + length es), ch') \<and>
    (\<not> ch' \<longrightarrow> accept_log l L (prev + length es) = l)"
  using assms
proof (induction es arbitrary: l prev ch)
  case Nil
  then show ?case by (simp add: accept_log_def)
next
  case (Cons e es)
  have lt: "prev < length L" using Cons.prems(6) by simp
  have e: "e = L ! prev" and es: "es = take (length es) (drop (Suc prev) L)"
    using Cons.prems(7) lt by (simp_all add: Cons_nth_drop_Suc [symmetric])
  have idx: "le_index e = Suc prev" using Cons.prems(1) e lt by (simp add: log_wf_def)
  have m: "prev + length (e # es) = Suc prev + length es" by simp
  have new: "\<exists>ch'. append_loop es (take (Suc prev) L, True) = Some (accept_log l L (Suc prev + length es), ch') \<and>
      (\<not> ch' \<longrightarrow> accept_log l L (Suc prev + length es) = l)"
    if "prev < length l \<Longrightarrow> l ! prev \<noteq> L ! prev"
  proof -
    have acc: "accept_log l L (Suc prev + length es) = take (Suc prev + length es) L"
      by (rule accept_log_differs [of prev]) (use that Cons.prems(6) in simp_all)
    obtain ch' where "append_loop es (take (Suc prev) L, True) = Some (take (Suc prev + length es) L, ch')"
      using Cons.IH [of "take (Suc prev) L" "Suc prev" True] Cons.prems(1,6) es lt
      by (auto simp: log_wf_take coherent_take accept_log_take)
    moreover have "ch'" if "append_loop es (l, True) = Some (l', ch')" for l l' ch'
      using that by (induction es "(l, True)" arbitrary: l rule: append_loop.induct) (auto split: if_splits)
    ultimately show ?thesis unfolding acc by blast
  qed
  show ?case
  proof (cases "prev < length l")
    case True
    show ?thesis
    proof (cases "le_term (l ! prev) = le_term e")
      case True
      then have "take (Suc prev) l = take (Suc prev) L"
        using Cons.prems(3) \<open>prev < length l\<close> lt e by (auto simp: coherent_def)
      then show ?thesis
        using Cons.IH [of l "Suc prev" ch] Cons.prems(1,2,3,6) es True \<open>prev < length l\<close>
        by (simp add: idx last_index_wf term_at_nth)
    next
      case False
      then have "l ! prev \<noteq> L ! prev" using e by auto
      moreover have "vector_resize prev l @ [e] = take (Suc prev) L"
        using Cons.prems(4,5) lt e by (simp add: vector_resize_def take_Suc_conv_app_nth)
      ultimately show ?thesis
        using new False \<open>prev < length l\<close> Cons.prems(2)
        by (simp add: idx last_index_wf term_at_nth)
    qed
  next
    case False
    then have "length l = prev" using Cons.prems(4) by simp
    moreover from this have "l @ [e] = take (Suc prev) L"
      using Cons.prems(5) lt e by (simp add: take_Suc_conv_app_nth)
    ultimately show ?thesis
      using new Cons.prems(2) by (simp add: idx last_index_wf)
  qed
qed

section \<open>The simulation relation\<close>

definition sync :: "abs_raft \<Rightarrow> string \<Rightarrow> RaftNode \<Rightarrow> bool" where
  "sync a p n \<longleftrightarrow> aterm a p = current_term n \<and> avote a p = voted_for n \<and> arole a p = role n \<and>
    alog a p = log n \<and> acommit a p = commit_index n"

definition tlogs_ok :: "abs_raft \<Rightarrow> bool" where
  "tlogs_ok a \<longleftrightarrow>
    (\<forall>t L. tlog a t = Some L \<longrightarrow> t < u64_size \<and> log_wf L \<and> (\<forall>e \<in> set L. entry_ok e))"

text \<open>The tables of a leader: acknowledged indices, and next indices inside the log.\<close>

definition leader_ok :: "abs_raft \<Rightarrow> string \<Rightarrow> RaftNode \<Rightarrow> bool" where
  "leader_ok a p n \<longleftrightarrow> (role n = kLeader \<longrightarrow>
    (\<forall>q \<in> set (cfg_peers (config n)).
       (\<forall>m. match_index n q = Some m \<longrightarrow> m = 0 \<or> (\<exists>k \<ge> m. (q, current_term n, k) \<in> acks a)) \<and>
       (\<forall>k. next_index n q = Some k \<longrightarrow> 1 \<le> k \<and> k \<le> length (log n) + 1)) \<and>
    (\<forall>k < length (log n). le_term (log n ! k) = current_term n \<longrightarrow>
       (\<exists>j > k. (p, current_term n, j) \<in> acks a)))"

text \<open>The votes a running election has counted come from distinct peers that voted.\<close>

definition thread_ok :: "abs_raft \<Rightarrow> string list \<Rightarrow> string \<Rightarrow> vote_thread \<Rightarrow> bool" where
  "thread_ok a peers p th \<longleftrightarrow>
    (case th of VIdle \<Rightarrow> True
     | VRound req pend votes \<Rightarrow> distinct pend \<and> set pend \<subseteq> set peers \<and>
         (\<not> rv_pre_vote req \<longrightarrow> (p, rv_term req, p) \<in> grants a \<and>
            (\<exists>V. V \<subseteq> set peers - set pend \<and> votes \<le> Suc (card V) \<and>
               (\<forall>q \<in> V. (q, rv_term req, p) \<in> grants a))))"

definition vreq_ok :: "abs_raft \<Rightarrow> string \<Rightarrow> RequestVoteRequest \<Rightarrow> bool" where
  "vreq_ok a c req \<longleftrightarrow> (\<not> rv_pre_vote req \<longrightarrow>
    rv_candidate_id req = c \<and> c \<noteq> '''' \<and> length c + 12 < 2 ^ 32 \<and> rv_term req < u64_size \<and>
    (\<exists>l. (c, rv_term req, l) \<in> cands a \<and> rv_last_log_term req = last_term l \<and>
       rv_last_log_index req = length l))"

definition vresp_ok :: "abs_raft \<Rightarrow> string \<Rightarrow> string \<Rightarrow> RequestVoteRequest \<Rightarrow> RequestVoteResponse \<Rightarrow> bool" where
  "vresp_ok a p c req resp \<longleftrightarrow> rvr_term resp < u64_size \<and>
    (\<not> rv_pre_vote req \<longrightarrow> rvr_vote_granted resp \<longrightarrow> (p, rv_term req, c) \<in> grants a)"

text \<open>The last index a request for \<open>AppendEntries\<close> brings.\<close>

definition ae_end :: "AppendEntriesRequest \<Rightarrow> nat" where
  "ae_end req = ae_prev_log_index req + length (ae_entries req)"

definition areq_ok :: "string list \<Rightarrow> abs_raft \<Rightarrow> AppendEntriesRequest \<Rightarrow> bool" where
  "areq_ok M a req \<longleftrightarrow>
    (\<exists>L. tlog a (ae_term req) = Some L \<and> ae_end req \<le> length L \<and>
       ae_entries req = take (length (ae_entries req)) (drop (ae_prev_log_index req) L) \<and>
       ae_prev_log_term req = term_at L (ae_prev_log_index req) \<and>
       ae_leader_commit req \<le> ae_end req \<and> commit_known M a L (ae_term req) (ae_leader_commit req))"

definition aresp_ok :: "abs_raft \<Rightarrow> string \<Rightarrow> AppendEntriesRequest \<Rightarrow> AppendEntriesResponse \<Rightarrow> bool" where
  "aresp_ok a p req resp \<longleftrightarrow> aer_term resp < u64_size \<and>
    (if aer_success resp then (p, ae_term req, ae_end req) \<in> acks a
     else aer_conflict_index resp \<le> ae_prev_log_index req)"

definition node_sim :: "string list \<Rightarrow> (string \<Rightarrow> RaftConfig) \<Rightarrow> abs_raft \<Rightarrow> string \<Rightarrow> RaftNode \<Rightarrow> bool" where
  "node_sim M cfg a p n \<longleftrightarrow> sync a p n \<and> node_ok n \<and> config n = cfg p \<and> leader_ok a p n"

definition msgs_ok :: "string list \<Rightarrow> abs_raft \<Rightarrow> cluster \<Rightarrow> bool" where
  "msgs_ok M a s \<longleftrightarrow>
    (\<forall>(c, p, req) \<in> vote_reqs s. vreq_ok a c req) \<and>
    (\<forall>(p, c, req, resp) \<in> vote_resps s. vresp_ok a p c req resp) \<and>
    (\<forall>(c, p, req) \<in> append_reqs s. areq_ok M a req) \<and>
    (\<forall>(p, c, req, resp) \<in> append_resps s. areq_ok M a req \<and> aresp_ok a p req resp) \<and>
    (\<forall>p q req. rthreads s p q = Some req \<longrightarrow> areq_ok M a req)"

definition sim :: "string list \<Rightarrow> (string \<Rightarrow> RaftConfig) \<Rightarrow> cluster \<Rightarrow> abs_raft \<Rightarrow> bool" where
  "sim M cfg s a \<longleftrightarrow> abs_inv M a \<and> tlogs_ok a \<and>
    (\<forall>p \<in> set M. node_sim M cfg a p (nodes s p) \<and> thread_ok a (cfg_peers (cfg p)) p (vthreads s p)) \<and>
    msgs_ok M a s"

section \<open>Stability along abstract runs\<close>

lemma leader_ok_mono: "leader_ok a p n \<Longrightarrow> acks a \<subseteq> acks a' \<Longrightarrow> leader_ok a' p n"
  unfolding leader_ok_def by blast

lemma thread_ok_mono:
  assumes "thread_ok a peers p th" and "grants a \<subseteq> grants a'"
  shows "thread_ok a' peers p th"
proof (cases th)
  case (VRound req pend votes)
  have "\<exists>V. V \<subseteq> set peers - set pend \<and> votes \<le> Suc (card V) \<and> (\<forall>q \<in> V. (q, rv_term req, p) \<in> grants a')"
    if np: "\<not> rv_pre_vote req"
  proof -
    obtain V where "V \<subseteq> set peers - set pend" "votes \<le> Suc (card V)" "\<forall>q \<in> V. (q, rv_term req, p) \<in> grants a"
      using assms(1) np by (auto simp: thread_ok_def VRound)
    then show ?thesis using assms(2) by (intro exI [of _ V]) auto
  qed
  then show ?thesis using assms by (auto simp: thread_ok_def VRound)
qed (simp add: thread_ok_def)

lemma areq_ok_mono:
  assumes "abs_steps M a a'" and "abs_inv M a" and "areq_ok M a req"
  shows "areq_ok M a' req"
proof -
  let ?es = "ae_entries req" and ?k = "ae_prev_log_index req"
  obtain L where L: "tlog a (ae_term req) = Some L" "ae_end req \<le> length L" "?es = take (length ?es) (drop ?k L)"
    "ae_prev_log_term req = term_at L ?k" "ae_leader_commit req \<le> ae_end req"
    "commit_known M a L (ae_term req) (ae_leader_commit req)"
    using assms(3) unfolding areq_ok_def by blast
  obtain L' where L': "tlog a' (ae_term req) = Some L'" "agree (length L) L' L"
    using abs_steps_tlog_extends [OF assms(1,2)] L(1) unfolding tlog_extends_def by blast
  have "L' = L @ drop (length L) L'"
    using L'(2) append_take_drop_id [of "length L" L'] by (simp add: agree_def)
  then obtain X where X: "L' = L @ X" ..
  have "ae_prev_log_term req = term_at L' ?k"
    using L(2,4) by (auto simp: term_at_def X nth_append ae_end_def)
  moreover have "?es = take (length ?es) (drop ?k L')"
    using L(2,3) by (simp add: X ae_end_def)
  moreover have "commit_known M a' L' (ae_term req) (ae_leader_commit req)"
    by (rule commit_known_agree [OF commit_known_steps [OF assms(1,2) L(6)]])
       (use L(2,5) in \<open>simp add: X agree_append\<close>)
  ultimately show ?thesis
    unfolding areq_ok_def using L'(1) L(2,5) by (intro exI [of _ L']) (simp add: X)
qed

lemma msgs_ok_mono:
  assumes "abs_steps M a a'" and "abs_inv M a" and "msgs_ok M a s"
  shows "msgs_ok M a' s"
proof -
  note mono = abs_mono(1-3) [OF assms(1)]
  have "vreq_ok a c req \<Longrightarrow> vreq_ok a' c req" for c req
    unfolding vreq_ok_def using mono by blast
  moreover have "vresp_ok a p c req resp \<Longrightarrow> vresp_ok a' p c req resp" for p c req resp
    unfolding vresp_ok_def using mono by blast
  moreover have "aresp_ok a p req resp \<Longrightarrow> aresp_ok a' p req resp" for p req resp
    unfolding aresp_ok_def using mono by (auto split: if_splits)
  ultimately show ?thesis
    using assms(3) areq_ok_mono [OF assms(1,2)] unfolding msgs_ok_def by fast
qed

section \<open>One node moves\<close>

text \<open>\<open>moves M p a a'\<close>: an abstract run in which only node \<open>p\<close> changes.\<close>

definition moves :: "string list \<Rightarrow> string \<Rightarrow> abs_raft \<Rightarrow> abs_raft \<Rightarrow> bool" where
  "moves M p a a' \<longleftrightarrow> abs_steps M a a' \<and>
    (\<forall>q. q \<noteq> p \<longrightarrow> aterm a' q = aterm a q \<and> avote a' q = avote a q \<and> arole a' q = arole a q \<and>
       alog a' q = alog a q \<and> acommit a' q = acommit a q)"

lemma moves_refl [simp]: "moves M p a a"
  by (simp add: moves_def)

lemma moves_trans: "moves M p a b \<Longrightarrow> moves M p b c \<Longrightarrow> moves M p a c"
  unfolding moves_def by (metis rtranclp_trans)

lemma moves_step:
  assumes "abs_step M a a'"
    and "\<forall>q. q \<noteq> p \<longrightarrow> aterm a' q = aterm a q \<and> avote a' q = avote a q \<and> arole a' q = arole a q \<and>
       alog a' q = alog a q \<and> acommit a' q = acommit a q"
  shows "moves M p a a'"
  unfolding moves_def using assms by blast

lemma StepDown_moves:
  assumes "disk_ok env" and "p \<in> set M" and "node_ok n" and "t < u64_size" and "sync a p n"
  obtains a' where "moves M p a a'" and "sync a' p (StepDownIfStaleLocked env t n)"
    and "tlog a' = tlog a" and "acks a' = acks a" and "cands a' = cands a"
proof (cases "t > current_term n")
  case True
  obtain st where st: "StepDownIfStaleLocked env t n =
      n\<lparr>current_term := t, voted_for := '''', role := kFollower, storage := st\<rparr>"
    using StepDown_ok [OF assms(1,3,4)] True by metis
  let ?a = "a\<lparr>aterm := (aterm a)(p := t), avote := (avote a)(p := ''''), arole := (arole a)(p := kFollower)\<rparr>"
  have "abs_step M a ?a"
    using abs_step.bump [OF assms(2), of a t] True assms(5) by (simp add: sync_def)
  then have "moves M p a ?a" by (rule moves_step) simp
  then show ?thesis
    by (rule that) (use assms(5) in \<open>simp_all add: st sync_def\<close>)
next
  case False
  then show ?thesis using that [of a] assms(5) by (simp add: StepDownIfStaleLocked_def)
qed

lemma StepDown_frame:
  assumes "disk_ok env" and "node_ok n" and "t < u64_size"
  shows "node_ok (StepDownIfStaleLocked env t n)"
    and "config (StepDownIfStaleLocked env t n) = config n"
    and "log (StepDownIfStaleLocked env t n) = log n"
    and "commit_index (StepDownIfStaleLocked env t n) = commit_index n"
    and "current_term (StepDownIfStaleLocked env t n) = max t (current_term n)"
    and "role (StepDownIfStaleLocked env t n) = (if t > current_term n then kFollower else role n)"
    and "match_index (StepDownIfStaleLocked env t n) = match_index n"
    and "next_index (StepDownIfStaleLocked env t n) = next_index n"
  by (rule StepDown_ok [OF assms]; simp)+

lemma leader_ok_cong:
  assumes "leader_ok a p n" and "acks a \<subseteq> acks a'"
    and "role n' = kLeader \<Longrightarrow> role n = kLeader \<and> current_term n' = current_term n \<and> log n' = log n \<and>
      match_index n' = match_index n \<and> next_index n' = next_index n \<and> config n' = config n"
  shows "leader_ok a' p n'"
  using assms unfolding leader_ok_def by (cases "role n' = kLeader") (simp, blast, simp)

lemma LastLogTerm_last_term: "LastLogTermLocked n = last_term (log n)"
  by (simp add: LastLogTermLocked_def last_term_def)

lemma up_to_date_newer:
  assumes "log_wf (log n)" and "rv_last_log_term req = last_term l" and "rv_last_log_index req = length l"
  shows "up_to_date req n \<longleftrightarrow> newer_log l (log n)"
  using assms by (simp add: up_to_date_def newer_log_def LastLogTerm_last_term)

lemma HandleRequestVote_moves:
  assumes io: "disk_ok env" and p: "p \<in> set M" and n: "node_ok n" "sync a p n" "leader_ok a p n"
    and req: "vreq_ok a c req" and h: "HandleRequestVote env req n = (n', resp)"
  obtains a' where "moves M p a a'" and "sync a' p n'" and "node_ok n'" and "config n' = config n"
    and "leader_ok a' p n'" and "vresp_ok a' p c req resp" and "tlog a' = tlog a"
proof (cases "rv_pre_vote req")
  case True
  with h have "n' = n" "rvr_term resp = current_term n" by (auto simp: HandleRequestVote_def)
  with True n show ?thesis by (intro that [of a]) (simp_all add: vresp_ok_def node_ok_def)
next
  case False
  let ?s = "StepDownIfStaleLocked env (rv_term req) n"
  obtain l where r: "rv_candidate_id req = c" "c \<noteq> ''''" "length c + 12 < 2 ^ 32" "rv_term req < u64_size"
    and l: "(c, rv_term req, l) \<in> cands a" "rv_last_log_term req = last_term l" "rv_last_log_index req = length l"
    using req False by (auto simp: vreq_ok_def)
  note F = StepDown_frame [OF io n(1) r(4)]
  obtain a1 where a1: "moves M p a a1" "sync a1 p ?s" "tlog a1 = tlog a" "acks a1 = acks a" "cands a1 = cands a"
    using StepDown_moves [OF io p n(1) r(4) n(2)] .
  have wf: "log_wf (log ?s)" using F(1) by (simp add: node_ok_def)
  show ?thesis
  proof (cases "rv_term req = current_term ?s \<and> (voted_for ?s = '''' \<or> voted_for ?s = c) \<and> up_to_date req ?s")
    case True
    let ?v = "?s\<lparr>voted_for := c\<rparr>"
    have W: "WriteFileAtomic (io_save env) (meta_file (storage ?v)) = (\<lambda>new. (Status_Ok, new))"
      using disk_okD(2) [OF io] by blast
    have h': "n' = PersistHardStateLocked (io_save env) ?v
        \<lparr>last_activity := now env, election_timeout := RandomElectionTimeout env (config ?s)\<rparr>"
      "resp = \<lparr>rvr_term = current_term n', rvr_vote_granted = True\<rparr>"
      using h False True r(1) by (auto simp: HandleRequestVote_def Let_def)
    have "durable (PersistHardStateLocked (io_save env) ?v)"
      and "\<exists>st. PersistHardStateLocked (io_save env) ?v = ?v\<lparr>storage := st\<rparr>"
      using Persist_ok [OF W] F(1) r(3) by (auto simp: node_ok_def durable_def)
    then obtain st where st: "PersistHardStateLocked (io_save env) ?v = ?v\<lparr>storage := st\<rparr>"
      and dur: "durable (?v\<lparr>storage := st\<rparr>)" by auto
    have ok': "node_ok n'"
      using F(1) dur r(3) unfolding h' st by (simp add: node_ok_def durable_def)
    let ?a = "a1\<lparr>avote := (avote a1)(p := c), grants := insert (p, aterm a1 p, c) (grants a1),
      vlogs := (if tlog a1 (aterm a1 p) = None then insert (p, aterm a1 p, alog a1 p) (vlogs a1) else vlogs a1)\<rparr>"
    have "abs_step M a1 ?a"
      by (rule abs_step.grant [OF p, of c _ l])
         (use True a1 l r up_to_date_newer [OF wf l(2,3)] in \<open>auto simp: sync_def\<close>)
    then have "moves M p a1 ?a" by (rule moves_step) simp
    from moves_trans [OF a1(1) this] show ?thesis
    proof (rule that)
      show "sync ?a p n'" using a1(2) by (simp add: h' st sync_def)
      show "config n' = config n" using F by (simp add: h' st)
      show "leader_ok ?a p n'"
        by (rule leader_ok_cong [OF n(3)]) (use F a1(4) in \<open>auto simp: h' st max_def split: if_splits\<close>)
      show "vresp_ok ?a p c req resp"
        using True a1(2) ok' by (simp add: vresp_ok_def h'(2) sync_def node_ok_def)
    qed (use ok' a1(3) in auto)
  next
    case no: False
    then have h': "n' = ?s" "resp = \<lparr>rvr_term = current_term ?s, rvr_vote_granted = False\<rparr>"
      using h False r(1) by (auto simp: HandleRequestVote_def Let_def)
    show ?thesis
    proof (rule that [OF a1(1)])
      show "leader_ok a1 p n'"
        by (rule leader_ok_cong [OF n(3)]) (use F a1(4) in \<open>auto simp: h' max_def split: if_splits\<close>)
    qed (use a1 F in \<open>simp_all add: h' vresp_ok_def node_ok_def\<close>)
  qed
qed

lemma RewriteLog_ok:
  assumes "disk_ok env" and "\<forall>e \<in> set l. entry_ok e"
  shows "holds_log (snd (RewriteLog (io_rewrite env) (io_reopen env) l st)) l"
    and "meta_file (snd (RewriteLog (io_rewrite env) (io_reopen env) l st)) = meta_file st"
  using disk_okD(3,5) [OF assms(1)] assms(2) by (simp_all add: RewriteLog_def holds_log_def fold_frames)

lemma stored_hard_cong: "meta_file st' = meta_file st \<Longrightarrow> stored_hard st' = stored_hard st"
  by (simp add: stored_hard_def)

text \<open>The consistency check of \<open>AppendEntries\<close>: the follower holds the leader's first \<open>prev\<close> entries.\<close>

lemma prev_check:
  assumes "coherent l L" and "k \<le> length l" and "k \<le> length L" and "k = 0 \<or> term_at l k = term_at L k"
  shows "take k l = take k L"
proof (cases k)
  case (Suc j)
  then show ?thesis using assms by (auto simp: coherent_def term_at_def)
qed simp

lemma node_ok_new_log:
  assumes "node_ok n" and "log_wf l" and "agree (commit_index n) l (log n)"
    and "holds_log st l" and "meta_file st = meta_file (storage n)"
  shows "node_ok (n\<lparr>log := l, storage := st\<rparr>)"
  using assms stored_hard_cong [OF assms(5)] by (auto simp: node_ok_def durable_def agree_def)

lemma node_ok_new_commit:
  assumes "node_ok n" and "commit_index n \<le> k" and "k \<le> length (log n)"
  shows "ApplyCommittedLocked (n\<lparr>commit_index := k\<rparr>) =
      Some (n\<lparr>commit_index := k, last_applied := k, applied := take k (log n)\<rparr>)"
    and "node_ok (n\<lparr>commit_index := k, last_applied := k, applied := take k (log n)\<rparr>)"
  using assms ApplyCommitted_all [of "n\<lparr>commit_index := k\<rparr>"]
  by (simp_all add: node_ok_def durable_def)

text \<open>The accepting branch, from the node after its timers were reset to the reply.\<close>

lemma append_accepted:
  assumes io: "disk_ok env" and p: "p \<in> set M" and n: "node_ok n" "sync a p n" "role n = kFollower"
    and inv: "abs_inv M a" and L: "tlog a (current_term n) = Some L" "log_wf L" "\<forall>e \<in> set L. entry_ok e"
    and m: "m \<le> length L" and k: "k \<le> m" "commit_known M a L (current_term n) k"
    and l: "l = accept_log (log n) L m" and st: "st = storage n \<and> l = log n \<or>
      st = snd (RewriteLog (io_rewrite env) (io_reopen env) l (storage n))"
    and n1: "n1 = n\<lparr>log := l, storage := st\<rparr>"
    and n': "n' = (if k > commit_index n
      then n1\<lparr>commit_index := k, last_applied := k, applied := take k l\<rparr> else n1)"
  obtains a' where "moves M p a a'" and "sync a' p n'" and "node_ok n'" and "tlog a' = tlog a"
    and "(p, current_term n, m) \<in> acks a'" and "LastLogIndexLocked n1 \<ge> m" and "node_ok n1"
proof -
  have ents: "\<forall>e \<in> set (log n). entry_ok e" and wf: "log_wf (log n)"
    using n(1) by (auto simp: node_ok_def durable_def holds_log_def)
  have el: "\<forall>e \<in> set l. entry_ok e" using ents L(3) by (auto simp: l dest: set_accept_log)
  have wl: "log_wf l" using wf L(2) by (simp add: l accept_log_def log_wf_take)
  have kn: "commit_known M a (log n) (current_term n) (commit_index n)"
    using abs_invD(9) [OF inv, of p] n(2) by (simp add: sync_def)
  have cL: "agree (commit_index n) (log n) L"
    using commit_known_leader [OF inv kn L(1)] by simp
  have cl: "agree (commit_index n) l (log n)"
    unfolding l by (rule agree_trans [OF agree_accept [OF cL m] agree_sym [OF cL]])
  have "holds_log st l" "meta_file st = meta_file (storage n)"
    using st RewriteLog_ok [OF io el] n(1) by (auto simp: node_ok_def durable_def)
  then have ok1: "node_ok n1"
    unfolding n1 by (rule node_ok_new_log [OF n(1) wl cl])
  have ml: "agree m l L" unfolding l by (rule agree_accept_all [OF m])
  then have len: "m \<le> length l" by (simp add: agree_def)
  let ?a = "a\<lparr>alog := (alog a)(p := l), arole := (arole a)(p := kFollower),
    acks := insert (p, aterm a p, m) (acks a)\<rparr>"
  have step: "abs_step M a ?a"
    using abs_step.accept [OF p, of a L m] n(2) L(1) m by (simp add: sync_def l)
  then have mv: "moves M p a ?a" by (rule moves_step) simp
  have sy: "sync ?a p n1" using n(2,3) by (simp add: sync_def n1)
  have last: "LastLogIndexLocked n1 \<ge> m" using wl len by (simp add: n1)
  show ?thesis
  proof (cases "k > commit_index n")
    case False
    then show ?thesis
      using that [OF mv _ _ _ _ last ok1] sy ok1 n(2) by (simp add: n' sync_def)
  next
    case True
    let ?b = "?a\<lparr>acommit := (acommit ?a)(p := k)\<rparr>"
    have "commit_known M ?a L (aterm ?a p) k"
      using commit_known_step [OF step inv k(2)] n(2) by (simp add: sync_def)
    then have "abs_step M ?a ?b"
      by (intro abs_step.commit_told [OF p, of _ L]) (use n(2) L(1) agree_mono [OF ml k(1)] in \<open>simp_all add: sync_def\<close>)
    then have "moves M p ?a ?b" by (rule moves_step) simp
    note mv' = moves_trans [OF mv this]
    have "node_ok n'"
      using node_ok_new_commit(2) [OF ok1, of k] True k(1) len by (simp add: n' n1)
    then show ?thesis
      using that [OF mv' _ _ _ _ last ok1] sy n(2) True by (simp add: n' n1 sync_def)
  qed
qed

lemma HandleAppendEntries_moves:
  assumes io: "disk_ok env" and p: "p \<in> set M" and n: "node_ok n" "sync a p n" "leader_ok a p n"
    and inv: "abs_inv M a" "tlogs_ok a" and req: "areq_ok M a req"
  obtains n' resp a' where "HandleAppendEntries env req n = Some (n', resp)"
    and "moves M p a a'" and "sync a' p n'" and "node_ok n'" and "config n' = config n"
    and "leader_ok a' p n'" and "aresp_ok a' p req resp" and "tlog a' = tlog a"
proof (cases "ae_term req < current_term n")
  case True
  then have "HandleAppendEntries env req n =
      Some (n, \<lparr>aer_term = current_term n, aer_success = False, aer_conflict_index = 0\<rparr>)"
    by (simp add: HandleAppendEntries_def)
  then show ?thesis
    by (rule that [of _ _ a]) (use n in \<open>simp_all add: aresp_ok_def node_ok_def\<close>)
next
  case False
  let ?es = "ae_entries req" and ?k = "ae_prev_log_index req" and ?c = "ae_leader_commit req"
  obtain L where L: "tlog a (ae_term req) = Some L" "ae_end req \<le> length L" "?es = take (length ?es) (drop ?k L)"
    "ae_prev_log_term req = term_at L ?k" "?c \<le> ae_end req" "commit_known M a L (ae_term req) ?c"
    using req unfolding areq_ok_def by blast
  have tl: "ae_term req < u64_size" "log_wf L" "\<forall>e \<in> set L. entry_ok e"
    using inv(2) L(1) by (auto simp: tlogs_ok_def)
  let ?s = "StepDownIfStaleLocked env (ae_term req) n"
  note F = StepDown_frame [OF io n(1) tl(1)]
  obtain a1 where a1: "moves M p a a1" "sync a1 p ?s" "tlog a1 = tlog a" "acks a1 = acks a"
    using StepDown_moves [OF io p n(1) tl(1) n(2)] .
  let ?a2 = "a1\<lparr>arole := (arole a1)(p := kFollower)\<rparr>"
  define n2 where "n2 = ?s\<lparr>role := kFollower, leader_id := ae_leader_id req, last_activity := now env,
    last_leader_contact := now env, election_timeout := RandomElectionTimeout env (config ?s)\<rparr>"
  have "moves M p a1 ?a2" by (rule moves_step [OF abs_step.follow [OF p]]) simp
  note mv2 = moves_trans [OF a1(1) this]
  have n2: "sync ?a2 p n2" "node_ok n2" "config n2 = config n" "log n2 = log n" "role n2 = kFollower"
      "current_term n2 = ae_term req" "commit_index n2 = commit_index n"
    using a1(2) F False by (simp_all add: n2_def sync_def node_ok_def durable_def)
  have wf: "log_wf (log n)" using n(1) by (simp add: node_ok_def)
  have inv2: "abs_inv M ?a2"
    using mv2 abs_inv_steps inv(1) unfolding moves_def by blast
  show ?thesis
  proof (cases "?k > length (log n) \<or> (?k > 0 \<and> term_at (log n) ?k \<noteq> term_at L ?k)")
    case True
    define c where "c = (if ?k > length (log n) then u64_add (length (log n)) 1 else ?k)"
    have h: "HandleAppendEntries env req n =
        Some (n2, \<lparr>aer_term = ae_term req, aer_success = False, aer_conflict_index = c\<rparr>)"
      using False True F wf L(4) n2 by (auto simp: HandleAppendEntries_def Let_def n2_def c_def TermAtLocked_def)
    have "c \<le> ?k"
      using wf by (simp add: c_def log_wf_def u64_add_exact)
    then show ?thesis
      by (intro that [OF h mv2 n2(1,2,3)]) (use n2 tl a1 in \<open>simp_all add: leader_ok_def aresp_ok_def\<close>)
  next
    case ok: False
    let ?l = "accept_log (log n) L (ae_end req)"
    have "coherent (log n) L"
      using matching_coherent inv_logsD(1,2) [OF abs_invD(3) [OF inv(1)]] L(1) n(2) by (metis sync_def)
    moreover have "take ?k (log n) = take ?k L"
      using prev_check [OF calculation, of ?k] ok L(2) by (auto simp: ae_end_def)
    ultimately obtain ch where ch: "append_loop ?es (log n, False) = Some (?l, ch)" "\<not> ch \<longrightarrow> ?l = log n"
      using append_loop_accept [OF tl(2) wf _ _ _ _ L(3), of False] ok L(2) by (auto simp: ae_end_def)
    define st where "st = (if ch then snd (RewriteLog (io_rewrite env) (io_reopen env) ?l (storage n2)) else storage n2)"
    define n3 where "n3 = n2\<lparr>log := ?l, storage := st\<rparr>"
    define n' where "n' = (if ?c > commit_index n2
      then n3\<lparr>commit_index := ?c, last_applied := ?c, applied := take ?c ?l\<rparr> else n3)"
    have kn2: "commit_known M ?a2 L (current_term n2) ?c"
      using commit_known_steps [OF _ inv(1) L(6)] mv2 n2(6) unfolding moves_def by simp
    obtain a' where a': "moves M p ?a2 a'" "sync a' p n'" "node_ok n'" "tlog a' = tlog ?a2"
      "(p, current_term n2, ae_end req) \<in> acks a'" "LastLogIndexLocked n3 \<ge> ae_end req" "node_ok n3"
      by (rule append_accepted [OF io p n2(2,1,5) inv2, of L "ae_end req" ?c ?l st n3 n'])
         (use L n2 tl a1(3) kn2 ch(2) in \<open>auto simp: st_def n3_def n'_def\<close>)
    have app: "ApplyCommittedLocked (n3\<lparr>commit_index := min ?c (LastLogIndexLocked n3)\<rparr>) = Some n'" if "?c > commit_index n2"
      using node_ok_new_commit(1) [OF a'(7), of ?c] a'(6,7) L(5) that n2(7)
      by (simp add: n'_def n3_def node_ok_def min_absorb1)
    have h: "HandleAppendEntries env req n =
        Some (n', \<lparr>aer_term = ae_term req, aer_success = True, aer_conflict_index = 0\<rparr>)"
    proof -
      have step2: "HandleAppendEntries env req n =
        (let n = n3; resp = \<lparr>aer_term = ae_term req, aer_success = True, aer_conflict_index = 0\<rparr>
         in if ?c > commit_index n then
              case ApplyCommittedLocked (n\<lparr>commit_index := min ?c (LastLogIndexLocked n)\<rparr>) of
                None \<Rightarrow> None | Some n \<Rightarrow> Some (n, resp)
            else Some (n, resp))"
        using False ok F wf L(4) ch(1) n2(6)
        by (auto simp: HandleAppendEntries_def Let_def n2_def n3_def st_def TermAtLocked_def)
      show ?thesis
        unfolding step2 using app by (simp add: Let_def n3_def n'_def)
    qed
    have "role n' = kFollower" "config n' = config n"
      using n2 by (simp_all add: n'_def n3_def)
    then show ?thesis
      using that [OF h moves_trans [OF mv2 a'(1)] a'(2,3)] a'(4,5) a1(3) tl(1) n2(6)
      by (simp add: leader_ok_def aresp_ok_def)
  qed
qed

lemma commit_scan_Some:
  "commit_scan n k = Some j \<Longrightarrow> commit_index n < j \<and> j \<le> k \<and> TermAtLocked n j = current_term n \<and>
     MajorityLocked n \<le> replica_count n j"
  by (induction k) (auto split: if_splits)

lemma wf_configD:
  assumes "wf_config M cfg" and "p \<in> set M"
  shows "cfg_id (cfg p) = p" and "distinct (cfg_peers (cfg p))" and "set (cfg_peers (cfg p)) = set M - {p}"
    and "p \<noteq> ''''" and "length p + 12 < 2 ^ 32" and "distinct M"
    and "length (cfg_peers (cfg p)) + 1 = length M"
proof -
  show 1: "cfg_id (cfg p) = p" "distinct (cfg_peers (cfg p))" "set (cfg_peers (cfg p)) = set M - {p}"
    "p \<noteq> ''''" "length p + 12 < 2 ^ 32" "distinct M"
    using assms by (auto simp: wf_config_def)
  have "length (cfg_peers (cfg p)) = card (set M - {p})"
    using distinct_card [OF 1(2)] 1(3) by simp
  moreover have "0 < card (set M)" using assms(2) by (auto simp: card_gt_0_iff)
  ultimately show "length (cfg_peers (cfg p)) + 1 = length M"
    using assms(2) distinct_card [OF 1(6)] by (simp add: card_Diff_singleton)
qed

text \<open>Counting peers as the code does gives a majority of the group.\<close>

lemma peers_majority:
  assumes "wf_config M cfg" and "p \<in> set M" and "config n = cfg p"
    and "V \<subseteq> set (cfg_peers (cfg p))" and "MajorityLocked n \<le> Suc (card V)"
  shows "majority M (insert p V)"
proof (rule majority_count)
  note W = wf_configD [OF assms(1,2)]
  show "distinct M" "p \<in> set M" "V \<subseteq> set M - {p}" using W assms by auto
  show "length M div 2 + 1 \<le> Suc (card V)"
    using assms(3,5) W(7) by (simp add: MajorityLocked_def)
qed

lemma AdvanceCommit_moves:
  assumes cfg: "wf_config M cfg" and p: "p \<in> set M" and n: "node_ok n" "sync a p n" "leader_ok a p n"
    and c: "config n = cfg p" and lead: "role n = kLeader"
  obtains n' a' where "AdvanceCommitLocked n = Some n'" and "moves M p a a'" and "sync a' p n'"
    and "node_ok n'" and "config n' = config n" and "leader_ok a' p n'" and "tlog a' = tlog a"
proof (cases "commit_scan n (length (log n))")
  case None
  have "AdvanceCommitLocked n = Some n"
    using None n(1) by (simp add: AdvanceCommitLocked_def node_ok_def)
  then show ?thesis by (rule that [OF _ moves_refl n(2,1) _ n(3)]) simp_all
next
  case (Some j)
  note S = commit_scan_Some [OF Some]
  then have j: "1 \<le> j" "j \<le> length (log n)" "commit_index n \<le> j" by auto
  have tj: "le_term (log n ! (j - 1)) = current_term n"
    using S j by (simp add: TermAtLocked_def term_at_def)
  let ?peers = "cfg_peers (config n)"
  let ?V = "{q \<in> set ?peers. case match_index n q of None \<Rightarrow> False | Some m \<Rightarrow> m \<ge> j}"
  have "card ?V = length (filter (\<lambda>q. case match_index n q of None \<Rightarrow> False | Some m \<Rightarrow> m \<ge> j) ?peers)"
    using distinct_card [OF distinct_filter [OF wf_configD(2) [OF cfg p]]] c by simp
  then have "MajorityLocked n \<le> Suc (card ?V)"
    using S by (simp add: replica_count_def)
  then have maj: "majority M (insert p ?V)"
    by (intro peers_majority [OF cfg p c]) (auto simp: c)
  have acked: "\<forall>q \<in> insert p ?V. \<exists>i \<ge> j. (q, current_term n, i) \<in> acks a"
  proof (intro ballI, elim insertE)
    fix q assume "q = p"
    then show "\<exists>i \<ge> j. (q, current_term n, i) \<in> acks a"
      using n(3) lead j(1,2) tj unfolding leader_ok_def
      by (metis Suc_pred' less_eq_Suc_le less_le_trans zero_less_one Suc_leI)
  next
    fix q assume "q \<in> ?V"
    then obtain m where "q \<in> set ?peers" "match_index n q = Some m" "j \<le> m" by (auto split: option.splits)
    then show "\<exists>i \<ge> j. (q, current_term n, i) \<in> acks a"
      using n(3) lead j(1) unfolding leader_ok_def by (metis le_trans le_zero_eq not_one_le_zero)
  qed
  let ?a = "a\<lparr>acommit := (acommit a)(p := j)\<rparr>"
  let ?n = "n\<lparr>commit_index := j, last_applied := j, applied := take j (log n)\<rparr>"
  have "abs_step M a ?a"
    by (rule abs_step.commit_own [OF p _ _ _ _ maj]) (use n(2) lead j tj acked in \<open>simp_all add: sync_def\<close>)
  then have mv: "moves M p a ?a" by (rule moves_step) simp
  have "AdvanceCommitLocked n = Some ?n"
    using Some node_ok_new_commit(1) [OF n(1) j(3,2)] n(1) by (simp add: AdvanceCommitLocked_def node_ok_def)
  then show ?thesis
  proof (rule that [OF _ mv])
    show "sync ?a p ?n" using n(2) by (simp add: sync_def)
    show "node_ok ?n" by (rule node_ok_new_commit(2) [OF n(1) j(3,2)])
    show "leader_ok ?a p ?n" using n(3) by (simp add: leader_ok_def)
  qed simp_all
qed

lemma AppendEntry_ok:
  assumes "disk_ok env" and "holds_log st l" and "entry_ok e"
  shows "holds_log (snd (AppendEntry (io_append env) e st)) (l @ [e])"
    and "meta_file (snd (AppendEntry (io_append env) e st)) = meta_file st"
  using assms disk_okD(4) [OF assms(1), of st]
  by (simp_all add: AppendEntry_def holds_log_def log_bytes_append) (simp add: log_bytes_def)

lemma Propose_moves:
  assumes io: "disk_ok env" and cfg: "wf_config M cfg" and p: "p \<in> set M"
    and n: "node_ok n" "sync a p n" "leader_ok a p n" and c: "config n = cfg p"
    and inv: "abs_inv M a" "tlogs_ok a"
    and cmd: "length cmd + 20 < 2 ^ 32" "length (log n) + 2 < u64_size"
  obtains n' r a' where "Propose env cmd n = Some (n', r)" and "moves M p a a'" and "sync a' p n'"
    and "node_ok n'" and "config n' = config n" and "leader_ok a' p n'" and "tlogs_ok a'"
proof (cases "role n = kLeader")
  case False
  then have "Propose env cmd n = Some (n, Inl (Unavailable (''not leader (leader='' @ leader_id n @ '')'')))"
    by (simp add: Propose_def)
  then show ?thesis by (rule that [OF _ moves_refl n(2,1) _ n(3) inv(2)]) simp
next
  case True
  define e where "e = \<lparr>le_term = current_term n, le_index = u64_add (LastLogIndexLocked n) 1, le_command = cmd\<rparr>"
  define n1 where "n1 = n\<lparr>log := log n @ [e], storage := snd (AppendEntry (io_append env) e (storage n))\<rparr>"
  have wf: "log_wf (log n)" using n(1) by (simp add: node_ok_def)
  then have idx: "le_index e = length (log n) + 1"
    using cmd(2) by (simp add: e_def u64_add_exact)
  have eok: "entry_ok e"
    using idx cmd n(1) by (simp add: entry_ok_def node_ok_def) (simp add: e_def)
  have wf1: "log_wf (log n @ [e])" by (rule log_wf_snoc [OF wf idx cmd(2)])
  have h: "holds_log (storage n) (log n)" using n(1) by (simp add: node_ok_def durable_def)
  have ok1: "node_ok n1"
    unfolding n1_def
    by (rule node_ok_new_log [OF n(1) wf1 _ AppendEntry_ok [OF io h eok]])
       (use n(1) in \<open>simp add: node_ok_def agree_append\<close>)
  let ?a = "a\<lparr>alog := (alog a)(p := alog a p @ [e]), tlog := (tlog a)(aterm a p \<mapsto> alog a p @ [e]),
    acks := insert (p, aterm a p, length (alog a p) + 1) (acks a)\<rparr>"
  have "abs_step M a ?a"
    by (rule abs_step.append_own [OF p]) (use n(2) True in \<open>simp_all add: sync_def e_def\<close>)
  then have mv: "moves M p a ?a" by (rule moves_step) simp
  have sy: "sync ?a p n1" using n(2) by (simp add: sync_def n1_def)
  have tl: "tlogs_ok ?a"
    using inv(2) n(1,2) wf1 eok h by (auto simp: tlogs_ok_def sync_def node_ok_def holds_log_def)
  have "\<exists>j > k. (p, current_term n, j) \<in> acks ?a" if "k < length (log n @ [e])" for k
    using that n(2) by (intro exI [of _ "length (log n) + 1"]) (simp add: sync_def)
  then have lk: "leader_ok ?a p n1"
    using n(3) True unfolding leader_ok_def n1_def by (simp add: le_SucI) blast
  obtain n2 a2 where r: "AdvanceCommitLocked n1 = Some n2" "moves M p ?a a2" "sync a2 p n2"
    "node_ok n2" "config n2 = config n1" "leader_ok a2 p n2" "tlog a2 = tlog ?a"
    by (rule AdvanceCommit_moves [OF cfg p ok1 sy lk]) (use c True in \<open>simp_all add: n1_def\<close>)
  have "Propose env cmd n = Some (n2, Inr (le_index e))"
    using True r(1) by (simp add: Propose_def Let_def e_def n1_def)
  then show ?thesis
  proof (rule that [OF _ moves_trans [OF mv r(2)] r(3,4) _ r(6)])
    show "config n2 = config n" using r(5) by (simp add: n1_def)
    show "tlogs_ok a2" using tl r(7) by (simp add: tlogs_ok_def)
  qed
qed

lemma fold_tables:
  "fold (\<lambda>q n. n\<lparr>next_index := (next_index n)(q \<mapsto> k), match_index := (match_index n)(q \<mapsto> 0)\<rparr>) qs n =
    n\<lparr>next_index := (\<lambda>q. if q \<in> set qs then Some k else next_index n q),
       match_index := (\<lambda>q. if q \<in> set qs then Some 0 else match_index n q)\<rparr>"
proof (induction qs arbitrary: n)
  case (Cons q qs)
  have "(\<lambda>x. if x \<in> set qs then Some v else (m(q \<mapsto> v)) x) = (\<lambda>x. if x = q \<or> x \<in> set qs then Some v else m x)"
    for m :: "string \<rightharpoonup> nat" and v
    by auto
  then show ?case by (simp add: Cons.IH cong: if_cong del: fun_upd_apply)
qed simp

lemma BecomeLeader_fields:
  assumes "log_wf (log n)"
  shows "BecomeLeaderLocked n = n\<lparr>role := kLeader, leader_id := cfg_id (config n),
    next_index := (\<lambda>q. if q \<in> set (cfg_peers (config n)) then Some (length (log n) + 1) else next_index n q),
    match_index := (\<lambda>q. if q \<in> set (cfg_peers (config n)) then Some 0 else match_index n q)\<rparr>"
  using assms by (simp add: BecomeLeaderLocked_def Let_def fold_tables log_wf_def u64_add_exact cong: if_cong)

lemma StartElection_finish_moves:
  assumes cfg: "wf_config M cfg" and p: "p \<in> set M" and n: "node_ok n" "sync a p n" "leader_ok a p n"
    and c: "config n = cfg p" and inv: "abs_inv M a" "tlogs_ok a"
    and th: "thread_ok a (cfg_peers (cfg p)) p (VRound req [] votes)" "\<not> rv_pre_vote req"
    and won: "WinVoteRound_result n votes"
  obtains a' where "moves M p a a'" and "sync a' p (StartElection_finish (rv_term req) n)"
    and "node_ok (StartElection_finish (rv_term req) n)"
    and "config (StartElection_finish (rv_term req) n) = config n"
    and "leader_ok a' p (StartElection_finish (rv_term req) n)" and "tlogs_ok a'"
proof (cases "role n = kCandidate \<and> current_term n = rv_term req")
  case False
  then have "StartElection_finish (rv_term req) n = n" by (auto simp: StartElection_finish_def)
  then show ?thesis using that [OF moves_refl] n inv(2) by simp
next
  case True
  have wf: "log_wf (log n)" using n(1) by (simp add: node_ok_def)
  note B = BecomeLeader_fields [OF wf]
  have fin: "StartElection_finish (rv_term req) n = BecomeLeaderLocked n"
    using True by (simp add: StartElection_finish_def)
  obtain V where V: "V \<subseteq> set (cfg_peers (cfg p))" "votes \<le> Suc (card V)" "\<forall>q \<in> V. (q, rv_term req, p) \<in> grants a"
      and self: "(p, rv_term req, p) \<in> grants a"
    using th by (auto simp: thread_ok_def)
  have maj: "majority M (insert p V)"
    using won V(2) by (intro peers_majority [OF cfg p c V(1)]) (simp add: WinVoteRound_result_def)
  let ?a = "a\<lparr>arole := (arole a)(p := kLeader), elected := (elected a)(aterm a p \<mapsto> p),
    tlog := (tlog a)(aterm a p \<mapsto> alog a p)\<rparr>"
  have "abs_step M a ?a"
    by (rule abs_step.lead [OF p _ maj]) (use n(2) True V(3) self in \<open>simp_all add: sync_def\<close>)
  then have "moves M p a ?a" by (rule moves_step) simp
  then show ?thesis
  proof (rule that, unfold fin B)
    have "(p, current_term n, log n) \<in> cands a"
      using inv_candsD(3) [OF abs_invD(5) [OF inv(1)], of p] n(2) True by (simp add: sync_def)
    then have "le_term (log n ! k) \<noteq> current_term n" if "k < length (log n)" for k
      using inv_termsD(3) [OF abs_invD(4) [OF inv(1)]] nth_mem [OF that] by fastforce
    then show "leader_ok ?a p (n\<lparr>role := kLeader, leader_id := cfg_id (config n),
      next_index := (\<lambda>q. if q \<in> set (cfg_peers (config n)) then Some (length (log n) + 1) else next_index n q),
      match_index := (\<lambda>q. if q \<in> set (cfg_peers (config n)) then Some 0 else match_index n q)\<rparr>)"
      by (simp add: leader_ok_def)
    show "tlogs_ok ?a"
      using inv(2) n(1,2) wf by (auto simp: tlogs_ok_def sync_def node_ok_def durable_def holds_log_def)
  qed (use n in \<open>simp_all add: sync_def node_ok_def durable_def\<close>)
qed

lemma StartElection_begin_moves:
  assumes io: "disk_ok env" and cfg: "wf_config M cfg" and p: "p \<in> set M"
    and n: "node_ok n" "sync a p n" and c: "config n = cfg p" and t: "current_term n + 1 < u64_size"
    and b: "StartElection_begin env w n = Some (n', req)"
  obtains a' where "moves M p a a'" and "sync a' p n'" and "node_ok n'" and "config n' = config n"
    and "leader_ok a' p n'" and "tlog a' = tlog a" and "vreq_ok a' p req"
    and "thread_ok a' (cfg_peers (cfg p)) p (VRound req (cfg_peers (cfg p)) 1)"
proof -
  note W = wf_configD [OF cfg p]
  let ?v = "n\<lparr>current_term := current_term n + 1, role := kCandidate, voted_for := p, leader_id := ''''\<rparr>"
  have S: "WriteFileAtomic (io_save env) (meta_file (storage ?v)) = (\<lambda>new. (Status_Ok, new))"
    using disk_okD(2) [OF io] by blast
  have "durable (PersistHardStateLocked (io_save env) ?v)"
    and "\<exists>st. PersistHardStateLocked (io_save env) ?v = ?v\<lparr>storage := st\<rparr>"
    using Persist_ok [OF S] n(1) t W(5) by (auto simp: node_ok_def durable_def)
  then obtain st where st: "PersistHardStateLocked (io_save env) ?v = ?v\<lparr>storage := st\<rparr>"
    and dur: "durable (?v\<lparr>storage := st\<rparr>)" by auto
  have n': "n' = ?v\<lparr>storage := st, last_activity := now env,
      election_timeout := RandomElectionTimeout env (config n)\<rparr>"
    and req: "req = \<lparr>rv_term = current_term n + 1, rv_candidate_id = p, rv_last_log_index = length (log n),
      rv_last_log_term = last_term (log n), rv_pre_vote = False\<rparr>"
    using b t st n(1) W(1) c
    by (auto simp: StartElection_begin_def Let_def u64_add_exact node_ok_def LastLogIndexLocked_def
        last_index_wf LastLogTermLocked_def last_term_def split: if_splits)
  let ?t = "aterm a p + 1"
  let ?a = "a\<lparr>aterm := (aterm a)(p := ?t), avote := (avote a)(p := p),
      arole := (arole a)(p := kCandidate), cands := insert (p, ?t, alog a p) (cands a),
      grants := insert (p, ?t, p) (grants a),
      vlogs := (if tlog a ?t = None then insert (p, ?t, alog a p) (vlogs a) else vlogs a)\<rparr>"
  have "abs_step M a ?a" by (rule abs_step.candidate [OF p W(4) refl])
  then have "moves M p a ?a" by (rule moves_step) simp
  then show ?thesis
  proof (rule that)
    show "sync ?a p n'" using n(2) by (simp add: n' sync_def)
    show "node_ok n'" using n(1) dur t W(5) by (simp add: n' node_ok_def durable_def)
    show "vreq_ok ?a p req" using W(4,5) t n(2) by (auto simp: vreq_ok_def req sync_def)
    show "thread_ok ?a (cfg_peers (cfg p)) p (VRound req (cfg_peers (cfg p)) 1)"
      using W(2) n(2) by (auto simp: thread_ok_def req sync_def intro: exI [of _ "{}"])
  qed (simp_all add: n' leader_ok_def)
qed

lemma StepDown_leader_ok:
  assumes "disk_ok env" and "node_ok n" and "t < u64_size" and "leader_ok a p n" and "acks a \<subseteq> acks a'"
  shows "leader_ok a' p (StepDownIfStaleLocked env t n)"
  by (rule leader_ok_cong [OF assms(4,5)])
     (use StepDown_frame [OF assms(1-3)] in \<open>auto simp: max_def split: if_splits\<close>)

lemma WinVoteRound_reply_moves:
  assumes io: "disk_ok env" and p: "p \<in> set M" and n: "node_ok n" "sync a p n" "leader_ok a p n"
    and th: "thread_ok a peers p (VRound req pend votes)" and q: "q \<in> set pend"
    and resp: "vresp_ok a q p req resp"
    and r: "WinVoteRound_reply env resp (rv_pre_vote req) (rv_term req) (n, votes) = (n', votes')"
  obtains a' where "moves M p a a'" and "sync a' p n'" and "node_ok n'" and "config n' = config n"
    and "leader_ok a' p n'" and "tlog a' = tlog a"
    and "thread_ok a' peers p (VRound req (remove1 q pend) votes')"
proof -
  have t: "rvr_term resp < u64_size" using resp by (simp add: vresp_ok_def)
  have less: "thread_ok b peers p (VRound req (remove1 q pend) votes)" if "grants a \<subseteq> grants b" for b
    using thread_ok_mono [OF th that] by (auto simp: thread_ok_def)
  show ?thesis
  proof (cases "rvr_term resp > current_term n")
    case True
    then have "n' = StepDownIfStaleLocked env (rvr_term resp) n" "votes' = votes"
      using r by (auto simp: WinVoteRound_reply_def)
    moreover obtain a1 where a1: "moves M p a a1" "sync a1 p (StepDownIfStaleLocked env (rvr_term resp) n)"
        "tlog a1 = tlog a" "acks a1 = acks a"
      using StepDown_moves [OF io p n(1) t n(2)] .
    moreover have "grants a \<subseteq> grants a1"
      using abs_mono(2) a1(1) unfolding moves_def by blast
    ultimately show ?thesis
      using that [OF a1(1)] StepDown_frame [OF io n(1) t] StepDown_leader_ok [OF io n(1) t n(3)] less by simp
  next
    case False
    then have n': "n' = n" and v: "votes' = votes \<or> (votes' = votes + 1 \<and> rvr_vote_granted resp)"
      using r by (auto simp: WinVoteRound_reply_def split: if_splits)
    have "thread_ok a peers p (VRound req (remove1 q pend) (votes + 1))" if g: "rvr_vote_granted resp"
    proof (cases "rv_pre_vote req")
      case False
      obtain V where V: "V \<subseteq> set peers - set pend" "votes \<le> Suc (card V)"
          "\<forall>q \<in> V. (q, rv_term req, p) \<in> grants a"
        using th False by (auto simp: thread_ok_def)
      have "finite V" using V(1) finite_subset by blast
      moreover have "q \<notin> V" using V(1) q by auto
      ultimately have "votes + 1 \<le> Suc (card (insert q V))" using V(2) by simp
      moreover have "insert q V \<subseteq> set peers - set (remove1 q pend)"
        using V(1) q th by (auto simp: thread_ok_def)
      moreover have "\<forall>q \<in> insert q V. (q, rv_term req, p) \<in> grants a"
        using V(3) resp g False by (simp add: vresp_ok_def)
      ultimately show ?thesis
        using th unfolding thread_ok_def vote_thread.case by (auto intro!: exI [of _ "insert q V"])
    qed (use th in \<open>auto simp: thread_ok_def\<close>)
    then show ?thesis
      using that [OF moves_refl] n v less [of a] by (auto simp: n')
  qed
qed

lemma reboot_moves:
  assumes io: "disk_ok env" and p: "p \<in> set M" and n: "node_ok n" "sync a p n" and t: "t < u64_size"
    and b: "reboot env env' t n = Some n'"
  obtains a' where "moves M p a a'" and "sync a' p n'" and "node_ok n'" and "config n' = config n"
    and "leader_ok a' p n'" and "tlog a' = tlog a"
proof -
  let ?s = "StepDownIfStaleLocked env t n"
  obtain a1 where a1: "moves M p a a1" "sync a1 p ?s" "tlog a1 = tlog a"
    using StepDown_moves [OF io p n(1) t n(2)] .
  have ok: "node_ok ?s" by (rule StepDown_frame(1) [OF io n(1) t])
  have n': "n' = RaftNode_new env' (config n)
      ((storage ?s)\<lparr>log_fd_open := True, loaded_hard := stored_hard (storage ?s), loaded_log := log ?s\<rparr>)"
    using b ok holds_log_stored [of "storage ?s" "log ?s"]
    by (simp add: reboot_def Let_def Open_loads node_ok_def durable_def)
  let ?a = "a1\<lparr>arole := (arole a1)(p := kFollower), acommit := (acommit a1)(p := 0)\<rparr>"
  have "moves M p a1 ?a" by (rule moves_step [OF abs_step.restart [OF p]]) simp
  from moves_trans [OF a1(1) this] show ?thesis
  proof (rule that)
    show "sync ?a p n'"
      using a1(2) ok by (simp add: n' RaftNode_new_def sync_def node_ok_def durable_def)
    show "node_ok n'"
      using ok by (simp add: n' RaftNode_new_def node_ok_def durable_def holds_log_def stored_hard_def)
  qed (use a1(3) in \<open>simp_all add: n' RaftNode_new_def leader_ok_def\<close>)
qed

text \<open>The entries a leader sends: everything from the peer's next index on, read inside the log.\<close>

lemma ReplicateTo_in_range:
  assumes "log_wf (log n)" and "1 \<le> k"
  shows "map (\<lambda>i. log n ! (i - 1)) [k ..< LastLogIndexLocked n + 1] = drop (k - 1) (log n)"
  using assms by (intro nth_equalityI) (auto simp del: upt_Suc)

lemma ReplicateTo_request_ok:
  assumes n: "node_ok n" "sync a p n" "leader_ok a p n" and q: "q \<in> set (cfg_peers (config n))"
    and inv: "abs_inv M a" and r: "ReplicateTo_request q (current_term n) n = Some req"
  shows "areq_ok M a req"
proof -
  have wf: "log_wf (log n)" using n(1) by (simp add: node_ok_def)
  have lead: "role n = kLeader" using r by (auto simp: ReplicateTo_request_def split: if_splits)
  have L: "tlog a (current_term n) = Some (log n)"
    using inv_rolesD(3) [OF abs_invD(2) [OF inv], of p] n(2) lead by (simp add: sync_def)
  define k where "k = (case next_index n q of Some i \<Rightarrow> i | None \<Rightarrow> u64_add (LastLogIndexLocked n) 1)"
  have k: "1 \<le> k" "k \<le> length (log n) + 1"
    using n(3) lead q wf
    by (auto simp: k_def leader_ok_def log_wf_def u64_add_exact split: option.splits)
  have kn: "commit_known M a (log n) (current_term n) (commit_index n)"
    using abs_invD(9) [OF inv, of p] n(2) by (simp add: sync_def)
  have "k < u64_size" using k(2) wf by (simp add: log_wf_def)
  then have "req = \<lparr>ae_term = current_term n, ae_leader_id = cfg_id (config n), ae_prev_log_index = k - 1,
      ae_prev_log_term = term_at (log n) (k - 1), ae_entries = drop (k - 1) (log n),
      ae_leader_commit = commit_index n\<rparr>"
    using r lead k ReplicateTo_in_range [OF wf k(1)]
    by (auto simp: ReplicateTo_request_def Let_def k_def [symmetric] u64_sub_exact TermAtLocked_def)
  then show ?thesis
    unfolding areq_ok_def using L k kn n(1) by (intro exI [of _ "log n"]) (simp add: ae_end_def node_ok_def)
qed

lemma ReplicateTo_response_moves:
  assumes io: "disk_ok env" and cfg: "wf_config M cfg" and p: "p \<in> set M"
    and n: "node_ok n" "sync a p n" "leader_ok a p n" and c: "config n = cfg p" and inv: "abs_inv M a"
    and req: "areq_ok M a req" and resp: "aresp_ok a q req resp"
  obtains n' a' where "ReplicateTo_response env q (ae_term req) req resp n = Some n'"
    and "moves M p a a'" and "sync a' p n'" and "node_ok n'" and "config n' = config n"
    and "leader_ok a' p n'" and "tlog a' = tlog a"
proof -
  let ?r = "ReplicateTo_response env q (ae_term req) req resp n"
  have t: "aer_term resp < u64_size" using resp by (simp add: aresp_ok_def)
  consider (stale) "current_term n \<noteq> ae_term req \<or> role n \<noteq> kLeader"
    | (behind) "current_term n = ae_term req" "role n = kLeader" "aer_term resp > current_term n"
    | (refused) "current_term n = ae_term req" "role n = kLeader" "\<not> aer_term resp > current_term n"
        "\<not> aer_success resp"
    | (accepted) "current_term n = ae_term req" "role n = kLeader" "\<not> aer_term resp > current_term n"
        "aer_success resp" by blast
  then show ?thesis
  proof cases
    case stale
    then have "?r = Some n" by (simp add: ReplicateTo_response_def)
    then show ?thesis by (rule that [OF _ moves_refl n(2,1) _ n(3)]) simp_all
  next
    case behind
    then have r: "?r = Some (StepDownIfStaleLocked env (aer_term resp) n)"
      by (simp add: ReplicateTo_response_def)
    obtain a1 where a1: "moves M p a a1" "sync a1 p (StepDownIfStaleLocked env (aer_term resp) n)"
        "tlog a1 = tlog a" "acks a1 = acks a"
      using StepDown_moves [OF io p n(1) t n(2)] .
    show ?thesis
      using that [OF r a1(1,2)] StepDown_frame [OF io n(1) t] StepDown_leader_ok [OF io n(1) t n(3)] a1(3,4)
      by simp
  next
    case refused
    have lead: "tlog a (ae_term req) = Some (log n)"
      using inv_rolesD(3) [OF abs_invD(2) [OF inv], of p] n(2) refused by (simp add: sync_def)
    let ?k = "if aer_conflict_index resp = 0 then 1 else aer_conflict_index resp"
    let ?n = "n\<lparr>next_index := (next_index n)(q \<mapsto> ?k)\<rparr>"
    have "?r = Some ?n" using refused by (simp add: ReplicateTo_response_def)
    moreover have "1 \<le> ?k \<and> ?k \<le> length (log n) + 1"
      using refused resp req lead by (auto simp: aresp_ok_def areq_ok_def ae_end_def)
    then have "leader_ok a p ?n" using n(3) by (auto simp: leader_ok_def split: if_splits)
    ultimately show ?thesis
      using that [OF _ moves_refl, of ?n] n(1,2) by (simp add: sync_def node_ok_def durable_def)
  next
    case accepted
    have lead: "tlog a (ae_term req) = Some (log n)"
      using inv_rolesD(3) [OF abs_invD(2) [OF inv], of p] n(2) accepted by (simp add: sync_def)
    have ack: "(q, current_term n, ae_end req) \<in> acks a" and len: "ae_end req \<le> length (log n)"
      using accepted resp req lead by (auto simp: aresp_ok_def areq_ok_def)
    have wf: "length (log n) + 1 < u64_size" using n(1) by (simp add: node_ok_def log_wf_def)
    let ?o = "case match_index n q of Some i \<Rightarrow> i | None \<Rightarrow> 0"
    let ?m = "max ?o (ae_end req)"
    let ?n = "n\<lparr>match_index := (match_index n)(q \<mapsto> ?m), next_index := (next_index n)(q \<mapsto> u64_add ?m 1)\<rparr>"
    have m: "\<exists>k \<ge> ?m. (q, current_term n, k) \<in> acks a" if "q \<in> set (cfg_peers (config n))"
      using n(3) accepted(2) that ack unfolding leader_ok_def
      by (cases "match_index n q") (auto simp: max_def)
    have ml: "?m \<le> length (log n)" if "q \<in> set (cfg_peers (config n))"
      using m [OF that] inv_acksD(2) [OF abs_invD(7) [OF inv]] lead accepted(1)
      by (metis le_trans option.inject)
    have lk: "leader_ok a p ?n"
      using n(3) m ml wf unfolding leader_ok_def by (auto simp: u64_add_exact)
    obtain n2 a2 where r: "AdvanceCommitLocked ?n = Some n2" "moves M p a a2" "sync a2 p n2"
      "node_ok n2" "config n2 = config ?n" "leader_ok a2 p n2" "tlog a2 = tlog a"
      by (rule AdvanceCommit_moves [OF cfg p _ _ lk])
         (use n(1,2) c accepted(2) in \<open>simp_all add: sync_def node_ok_def durable_def\<close>)
    have "u64_add (ae_prev_log_index req) (length (ae_entries req)) = ae_end req"
      using len wf by (simp add: ae_end_def u64_add_exact)
    then have "?r = Some n2"
      using accepted r(1) by (simp add: ReplicateTo_response_def Let_def)
    then show ?thesis by (rule that [OF _ r(2-4) _ r(6,7)]) (use r(5) in simp)
  qed
qed

section \<open>Every cluster step is an abstract run\<close>

lemma simD:
  assumes "sim M cfg s a"
  shows "abs_inv M a" and "tlogs_ok a" and "msgs_ok M a s"
    and "p \<in> set M \<Longrightarrow> sync a p (nodes s p)" and "p \<in> set M \<Longrightarrow> node_ok (nodes s p)"
    and "p \<in> set M \<Longrightarrow> config (nodes s p) = cfg p" and "p \<in> set M \<Longrightarrow> leader_ok a p (nodes s p)"
    and "p \<in> set M \<Longrightarrow> thread_ok a (cfg_peers (cfg p)) p (vthreads s p)"
  using assms unfolding sim_def node_sim_def by blast+

lemma msgs_okD:
  assumes "msgs_ok M a s"
  shows "(c, p, vreq) \<in> vote_reqs s \<Longrightarrow> vreq_ok a c vreq"
    and "(p, c, vreq, vresp) \<in> vote_resps s \<Longrightarrow> vresp_ok a p c vreq vresp"
    and "(c, p, req) \<in> append_reqs s \<Longrightarrow> areq_ok M a req"
    and "(p, c, req, resp) \<in> append_resps s \<Longrightarrow> areq_ok M a req"
    and "(p, c, req, resp) \<in> append_resps s \<Longrightarrow> aresp_ok a p req resp"
    and "rthreads s p c = Some req \<Longrightarrow> areq_ok M a req"
  using assms unfolding msgs_ok_def by blast+

lemma sync_frame:
  assumes "moves M p a a'" and "q \<noteq> p" and "sync a q n"
  shows "sync a' q n"
  using assms unfolding moves_def sync_def by simp

lemma moves_thread:
  assumes "moves M p a a'" and "thread_ok a peers q th"
  shows "thread_ok a' peers q th"
  using thread_ok_mono [OF assms(2) abs_mono(2)] assms(1) unfolding moves_def by blast

lemma sim_move:
  assumes sim: "sim M cfg s a" and p: "p \<in> set M" and mv: "moves M p a a'" and tl: "tlogs_ok a'"
    and n: "sync a' p n" "node_ok n" "config n = cfg p" "leader_ok a' p n"
    and th: "thread_ok a' (cfg_peers (cfg p)) p th"
    and s': "nodes s' = (nodes s)(p := n)" "vthreads s' = (vthreads s)(p := th)"
    and msgs: "msgs_ok M a' s \<Longrightarrow> msgs_ok M a' s'"
  shows "\<exists>a'. abs_steps M a a' \<and> sim M cfg s' a'"
proof (intro exI conjI)
  show steps: "abs_steps M a a'" using mv by (simp add: moves_def)
  note mono = abs_mono [OF steps]
  have "node_sim M cfg a' q (nodes s' q) \<and> thread_ok a' (cfg_peers (cfg q)) q (vthreads s' q)"
    if "q \<in> set M" for q
  proof (cases "q = p")
    case True
    then show ?thesis using n th s' by (simp add: node_sim_def)
  next
    case False
    then show ?thesis
      using simD(4-8) [OF sim that] sync_frame [OF mv False] leader_ok_mono [OF _ mono(3)]
        thread_ok_mono [OF _ mono(2)] s' by (simp add: node_sim_def)
  qed
  then show "sim M cfg s' a'"
    unfolding sim_def
    using abs_inv_steps [OF steps simD(1) [OF sim]] tl
      msgs [OF msgs_ok_mono [OF steps simD(1,3) [OF sim]]] by blast
qed

lemma sim_node_step:
  assumes "node_step M s s'" and cfg: "wf_config M cfg" and sim: "sim M cfg s a"
  shows "\<exists>a'. abs_steps M a a' \<and> sim M cfg s' a'"
  using assms(1)
proof (cases rule: node_step.cases)
  case (prevote p env req)
  note D = simD(1-3) [OF sim] simD(4-8) [OF sim prevote(2)]
  have "rv_pre_vote req" using prevote(5) by (auto simp: StartElection_prevote_def split: if_splits)
  then show ?thesis
    by (intro sim_move [OF sim prevote(2) moves_refl D(2,4-7)])
       (use prevote(1) D(6) wf_configD(2) [OF cfg prevote(2)] in
        \<open>auto simp: thread_ok_def msgs_ok_def fan_out_def vreq_ok_def\<close>)
next
  case (vote_reply p env req pend votes q resp n votes')
  note D = simD(1-3) [OF sim] simD(4-8) [OF sim vote_reply(2)] and m = msgs_okD [OF simD(3) [OF sim]]
  obtain a' where a': "moves M p a a'" "sync a' p n" "node_ok n" "config n = config (nodes s p)"
      "leader_ok a' p n" "tlog a' = tlog a" "thread_ok a' (cfg_peers (cfg p)) p (VRound req (remove1 q pend) votes')"
    using WinVoteRound_reply_moves [OF vote_reply(3,2) D(5,4,7) _ vote_reply(5) m(2) [OF vote_reply(6)] vote_reply(7)]
      D(8) vote_reply(4) by metis
  show ?thesis
    by (rule sim_move [OF sim vote_reply(2) a'(1) _ a'(2,3) _ a'(5,7)])
       (use a' D vote_reply in \<open>auto simp: tlogs_ok_def msgs_ok_def\<close>)
next
  case (vote_unreachable p req pend votes q)
  note D = simD(1-3) [OF sim] simD(4-8) [OF sim vote_unreachable(2)]
  show ?thesis
    by (rule sim_move [OF sim vote_unreachable(2) moves_refl D(2,4-7), of "VRound req (remove1 q pend) votes"])
       (use D(8) vote_unreachable in \<open>auto simp: msgs_ok_def thread_ok_def\<close>)
next
  case (round_lost p req votes)
  note D = simD(1-3) [OF sim] simD(4-8) [OF sim round_lost(2)]
  show ?thesis
    by (rule sim_move [OF sim round_lost(2) moves_refl D(2,4-7), of VIdle])
       (use round_lost in \<open>auto simp: msgs_ok_def thread_ok_def\<close>)
next
  case (election_aborted p req votes env)
  note D = simD(1-3) [OF sim] simD(4-8) [OF sim election_aborted(2)]
  show ?thesis
    by (rule sim_move [OF sim election_aborted(2) moves_refl D(2,4-7), of VIdle])
       (use election_aborted in \<open>auto simp: msgs_ok_def thread_ok_def\<close>)
next
  case (election_begun p env req votes n req')
  note D = simD(1-3) [OF sim] simD(4-8) [OF sim election_begun(2)]
  obtain a' where a': "moves M p a a'" "sync a' p n" "node_ok n" "config n = config (nodes s p)"
      "leader_ok a' p n" "tlog a' = tlog a" "vreq_ok a' p req'"
      "thread_ok a' (cfg_peers (cfg p)) p (VRound req' (cfg_peers (cfg p)) 1)"
    using StartElection_begin_moves [OF election_begun(3) cfg election_begun(2) D(5,4,6) election_begun(7,8)] .
  show ?thesis
    by (rule sim_move [OF sim election_begun(2) a'(1) _ a'(2,3) _ a'(5,8)])
       (use a' D election_begun(1) wf_configD(1) [OF cfg election_begun(2)] in
        \<open>auto simp: tlogs_ok_def msgs_ok_def fan_out_def\<close>)
next
  case (election_won p req votes)
  note D = simD(1-3) [OF sim] simD(4-8) [OF sim election_won(2)]
  let ?n = "StartElection_finish (rv_term req) (nodes s p)"
  obtain a' where a': "moves M p a a'" "sync a' p ?n" "node_ok ?n" "config ?n = config (nodes s p)"
      "leader_ok a' p ?n" "tlogs_ok a'"
    using StartElection_finish_moves [OF cfg election_won(2) D(5,4,7,6,1,2) _ election_won(4,5)] D(8) election_won(3)
    by metis
  show ?thesis
    by (rule sim_move [OF sim election_won(2) a'(1,6,2,3) _ a'(5), of VIdle])
       (use a' D election_won in \<open>auto simp: msgs_ok_def thread_ok_def\<close>)
next
  case (propose p env cmd n r)
  note D = simD(1-3) [OF sim] simD(4-8) [OF sim propose(2)]
  obtain a' where a': "moves M p a a'" "sync a' p n" "node_ok n" "config n = config (nodes s p)"
      "leader_ok a' p n" "tlogs_ok a'"
    using Propose_moves [OF propose(3) cfg propose(2) D(5,4,7,6,1,2) propose(4,5)] propose(6)
    by (metis option.inject prod.inject)
  show ?thesis
    by (rule sim_move [OF sim propose(2) a'(1,6,2,3) _ a'(5) moves_thread [OF a'(1) D(8)]])
       (use a' D propose in \<open>auto simp: msgs_ok_def\<close>)
next
  case (replicate p q req)
  note D = simD(1-3) [OF sim] simD(4-8) [OF sim replicate(2)]
  have "areq_ok M a req"
    by (rule ReplicateTo_request_ok [OF D(5,4,7) replicate(3) D(1) replicate(5)])
  then show ?thesis
    by (intro sim_move [OF sim replicate(2) moves_refl D(2,4-8)])
       (use replicate(1) in \<open>auto simp: msgs_ok_def split: if_splits\<close>)
next
  case (replicate_reply p env q req resp n)
  note D = simD(1-3) [OF sim] simD(4-8) [OF sim replicate_reply(2)] and m = msgs_okD [OF simD(3) [OF sim]]
  obtain a' where a': "moves M p a a'" "sync a' p n" "node_ok n" "config n = config (nodes s p)"
      "leader_ok a' p n" "tlog a' = tlog a"
    using ReplicateTo_response_moves [OF replicate_reply(3) cfg replicate_reply(2) D(5,4,7,6,1)
        m(4,5) [OF replicate_reply(5)]] replicate_reply(6) by (metis option.inject)
  show ?thesis
    by (rule sim_move [OF sim replicate_reply(2) a'(1) _ a'(2,3) _ a'(5) moves_thread [OF a'(1) D(8)]])
       (use a' D replicate_reply in \<open>auto simp: tlogs_ok_def msgs_ok_def split: if_splits\<close>)
next
  case (replicate_unreachable p q)
  note D = simD(1-3) [OF sim] simD(4-8) [OF sim replicate_unreachable(2)]
  show ?thesis
    by (intro sim_move [OF sim replicate_unreachable(2) moves_refl D(2,4-8)])
       (use replicate_unreachable(1) in \<open>auto simp: msgs_ok_def split: if_splits\<close>)
next
  case (restart p env t env' n)
  note D = simD(1-3) [OF sim] simD(4-8) [OF sim restart(2)]
  obtain a' where a': "moves M p a a'" "sync a' p n" "node_ok n" "config n = config (nodes s p)"
      "leader_ok a' p n" "tlog a' = tlog a"
    using reboot_moves [OF restart(3,2) D(5,4) restart(4,5)] .
  show ?thesis
    by (rule sim_move [OF sim restart(2) a'(1) _ a'(2,3) _ a'(5), of VIdle])
       (use a' D restart(1) in \<open>auto simp: tlogs_ok_def thread_ok_def msgs_ok_def split: if_splits\<close>)
qed

lemma sim_step:
  assumes "cluster_step M s s'" and cfg: "wf_config M cfg" and sim: "sim M cfg s a"
  shows "\<exists>a'. abs_steps M a a' \<and> sim M cfg s' a'"
  using assms(1)
proof (cases rule: cluster_step.cases)
  case (handle_vote p env c req n resp)
  note D = simD(1-3) [OF sim] simD(4-8) [OF sim handle_vote(2)] and m = msgs_okD [OF simD(3) [OF sim]]
  obtain a' where a': "moves M p a a'" "sync a' p n" "node_ok n" "config n = config (nodes s p)"
      "leader_ok a' p n" "vresp_ok a' p c req resp" "tlog a' = tlog a"
    using HandleRequestVote_moves [OF handle_vote(3,2) D(5,4,7) m(1) [OF handle_vote(4)] handle_vote(5)] .
  show ?thesis
    by (rule sim_move [OF sim handle_vote(2) a'(1) _ a'(2,3) _ a'(5) moves_thread [OF a'(1) D(8)]])
       (use a' D handle_vote in \<open>auto simp: tlogs_ok_def msgs_ok_def\<close>)
next
  case (handle_append p env c req n resp)
  note D = simD(1-3) [OF sim] simD(4-8) [OF sim handle_append(2)] and m = msgs_okD [OF simD(3) [OF sim]]
  obtain a' where a': "moves M p a a'" "sync a' p n" "node_ok n" "config n = config (nodes s p)"
      "leader_ok a' p n" "aresp_ok a' p req resp" "tlog a' = tlog a"
    using HandleAppendEntries_moves [OF handle_append(3,2) D(5,4,7,1,2) m(3) [OF handle_append(4)]]
      handle_append(5) by (metis option.inject prod.inject)
  have "areq_ok M a' req"
    using areq_ok_mono [OF _ D(1) m(3) [OF handle_append(4)]] a'(1) by (simp add: moves_def)
  then show ?thesis
    by (intro sim_move [OF sim handle_append(2) a'(1) _ a'(2,3) _ a'(5) moves_thread [OF a'(1) D(8)]])
       (use a' D handle_append in \<open>auto simp: tlogs_ok_def msgs_ok_def\<close>)
next
  case own
  then show ?thesis by (rule sim_node_step [OF _ cfg sim])
qed

end
