(* ===== verification/Raft_Safety.thy ===== *)
theory Raft_Safety
  imports Raft_Refinement Raft_Example
begin

text \<open>
  Safety of the Raft implementation, for every run of \<open>Raft_Cluster\<close>: any number of nodes, any
  interleaving, loss, delay and duplication of messages, any clocks, and crashes with restart from
  disk. Each theorem is read off the abstract protocol through the simulation of \<open>Raft_Refinement\<close>.
\<close>

section \<open>Reachable states are simulated\<close>

lemma sim_init:
  assumes "wf_config M cfg"
  shows "sim M cfg (cluster_init env cfg) abs_init"
proof -
  have "node_sim M cfg abs_init p (RaftNode_new (env p) (cfg p) empty_storage)" for p
    using Open_loads [of empty_storage] Open_empty
    by (simp add: node_sim_def sync_def abs_init_def RaftNode_new_def empty_storage_def HardState_default_def
        node_ok_def log_wf_def durable_def holds_log_def log_bytes_def leader_ok_def)
  moreover have "tlogs_ok abs_init" by (simp add: tlogs_ok_def abs_init_def)
  ultimately show ?thesis
    using abs_inv_init by (simp add: sim_def cluster_init_def thread_ok_def msgs_ok_def)
qed

lemma sim_steps:
  assumes "(cluster_step M)\<^sup>*\<^sup>* s s'" and "wf_config M cfg" and "sim M cfg s a"
  shows "\<exists>a'. abs_steps M a a' \<and> sim M cfg s' a'"
  using assms
proof (induction rule: rtranclp_induct)
  case (step s1 s2)
  then obtain b where b: "abs_steps M a b" "sim M cfg s1 b" by blast
  then obtain c where "abs_steps M b c" "sim M cfg s2 c"
    using sim_step [OF step(2) step(4) b(2)] by blast
  with b(1) show ?case by (meson rtranclp_trans)
qed blast

lemma sim_reachable:
  assumes "wf_config M cfg" and "reachable M cfg s"
  obtains a where "sim M cfg s a" and "abs_steps M abs_init a"
  using assms sim_steps [OF _ assms(1) sim_init [OF assms(1)]] unfolding reachable_def by blast

lemma reachable_steps: "reachable M cfg s \<Longrightarrow> (cluster_step M)\<^sup>*\<^sup>* s s' \<Longrightarrow> reachable M cfg s'"
  unfolding reachable_def by (meson rtranclp_trans)

lemma sim_node:
  assumes "sim M cfg s a" and "p \<in> set M"
  shows "alog a p = log (nodes s p)" and "aterm a p = current_term (nodes s p)"
    and "arole a p = role (nodes s p)" and "acommit a p = commit_index (nodes s p)"
    and "avote a p = voted_for (nodes s p)"
  using simD(4) [OF assms] by (simp_all add: sync_def)

lemma sim_leader:
  assumes "sim M cfg s a" and "p \<in> set M" and "role (nodes s p) = kLeader"
  shows "elected a (current_term (nodes s p)) = Some p"
    and "tlog a (current_term (nodes s p)) = Some (log (nodes s p))"
  using inv_rolesD(2,3) [OF abs_invD(2) [OF simD(1) [OF assms(1)]], of p] sim_node [OF assms(1,2)] assms(3)
  by simp_all

lemma sim_commit_known:
  assumes "sim M cfg s a" and "p \<in> set M"
  shows "commit_known M a (log (nodes s p)) (current_term (nodes s p)) (commit_index (nodes s p))"
  using abs_invD(9) [OF simD(1) [OF assms(1)], of p] sim_node [OF assms] by simp

lemma sim_applied:
  assumes "sim M cfg s a" and "p \<in> set M"
  shows "applied (nodes s p) = take (commit_index (nodes s p)) (log (nodes s p))"
    and "commit_index (nodes s p) \<le> length (log (nodes s p))"
    and "last_applied (nodes s p) = commit_index (nodes s p)"
  using simD(5) [OF assms] by (simp_all add: node_ok_def)

lemma applied_prefix:
  assumes "wf_config M cfg" and "reachable M cfg s" and "p \<in> set M" and "q \<in> set M"
    and "length (applied (nodes s p)) \<le> length (applied (nodes s q))"
  shows "applied (nodes s p) = take (length (applied (nodes s p))) (applied (nodes s q))"
proof -
  obtain a where a: "sim M cfg s a" using sim_reachable [OF assms(1,2)] .
  note A = sim_applied [OF a assms(3)] and B = sim_applied [OF a assms(4)]
  have "commit_index (nodes s p) \<le> commit_index (nodes s q)"
    using assms(5) A B by simp
  moreover have "agree (min (commit_index (nodes s p)) (commit_index (nodes s q)))
      (log (nodes s p)) (log (nodes s q))"
    by (rule commit_known_same [OF simD(1) [OF a] sim_commit_known [OF a assms(3)] sim_commit_known [OF a assms(4)]])
  ultimately show ?thesis
    using A B by (simp add: agree_def min_absorb1)
qed

section \<open>Properties\<close>

text \<open>
  C1. Election safety: in every reachable state of a Raft group, two leaders of the same term are
  the same node.
\<close>

theorem election_safety:
  assumes "wf_config M cfg" and "reachable M cfg s" and "p \<in> set M" and "q \<in> set M"
    and "role (nodes s p) = kLeader" and "role (nodes s q) = kLeader"
    and "current_term (nodes s p) = current_term (nodes s q)"
  shows "p = q"
proof -
  obtain a where "sim M cfg s a" using sim_reachable [OF assms(1,2)] .
  from sim_leader(1) [OF this assms(3,5)] sim_leader(1) [OF this assms(4,6)] assms(7)
  show ?thesis by (metis option.inject)
qed

theorem election_safety_witness:
  "reachable duo duo_cfg run7 \<and> role (nodes run7 ''a'') = kLeader \<and> current_term (nodes run7 ''a'') = 1 \<and>
   \<not> (role (nodes run7 ''b'') = kLeader \<and> current_term (nodes run7 ''b'') = 1)"
proof -
  have "role (nodes run7 ''b'') = kLeader \<Longrightarrow> current_term (nodes run7 ''b'') = 1 \<Longrightarrow> ''a'' = ''b''"
    using election_safety [OF wf_duo reach_leader, of "''a''" "''b''"] by (simp add: run_nodes lead_a)
  then show ?thesis using reach_leader by (auto simp: run_nodes lead_a)
qed

text \<open>
  C14. Log matching: if the logs of two nodes hold an entry of the same term at the same index, they
  are identical up to and including that index.
\<close>

theorem log_matching:
  assumes "wf_config M cfg" and "reachable M cfg s" and "p \<in> set M" and "q \<in> set M"
    and "k < length (log (nodes s p))" and "k < length (log (nodes s q))"
    and "le_term (log (nodes s p) ! k) = le_term (log (nodes s q) ! k)"
  shows "take (Suc k) (log (nodes s p)) = take (Suc k) (log (nodes s q))"
proof -
  obtain a where a: "sim M cfg s a" using sim_reachable [OF assms(1,2)] .
  have "matching a (log (nodes s p))" "matching a (log (nodes s q))"
    using inv_logsD(1) [OF abs_invD(3) [OF simD(1) [OF a]]] sim_node(1) [OF a] assms(3,4) by metis+
  from matching_coherent [OF this] assms(5-7) show ?thesis by (simp add: coherent_def)
qed

theorem log_matching_witness:
  "reachable duo duo_cfg run11 \<and>
   take 1 (log (nodes run11 ''a'')) = take 1 (log (nodes run11 ''b'')) \<and> log (nodes run11 ''b'') = [entry_x]"
  using log_matching [OF wf_duo reach_commit, of "''a''" "''b''" 0] reach_commit
  by (simp add: run_nodes2 comm_a stored_b)

text \<open>
  C2. State machine safety: the sequences of commands that any two nodes have applied are prefixes of
  one another, so no two replicas ever apply different commands at the same index.
\<close>

theorem state_machine_safety:
  assumes "wf_config M cfg" and "reachable M cfg s" and "p \<in> set M" and "q \<in> set M"
    and "length (applied (nodes s p)) \<le> length (applied (nodes s q))"
  shows "applied (nodes s p) = take (length (applied (nodes s p))) (applied (nodes s q))"
  by (rule applied_prefix [OF assms])

theorem state_machine_safety_witness:
  "applied (nodes run11 ''a'') = [entry_x] \<and>
   applied (nodes run11 ''b'') = take (length (applied (nodes run11 ''b''))) (applied (nodes run11 ''a''))"
  using state_machine_safety [OF wf_duo reach_commit, of "''b''" "''a''"]
  by (simp add: run_nodes2 comm_a stored_b)

text \<open>
  C4. No committed command is lost: what a node has applied stays, in every later state and through
  crashes, restarts and changes of leadership, the beginning of the log of each leader whose term is
  at least the node's term at that time.
\<close>

theorem committed_never_lost:
  assumes "wf_config M cfg" and "reachable M cfg s" and "(cluster_step M)\<^sup>*\<^sup>* s s'"
    and "p \<in> set M" and "q \<in> set M" and "role (nodes s' q) = kLeader"
    and "current_term (nodes s p) \<le> current_term (nodes s' q)"
  shows "take (length (applied (nodes s p))) (log (nodes s' q)) = applied (nodes s p)"
proof -
  obtain a where a: "sim M cfg s a" using sim_reachable [OF assms(1,2)] .
  obtain b where b: "abs_steps M a b" "sim M cfg s' b"
    using sim_steps [OF assms(3,1) a] by blast
  have "commit_known M b (log (nodes s p)) (current_term (nodes s p)) (commit_index (nodes s p))"
    by (rule commit_known_steps [OF b(1) simD(1) [OF a] sim_commit_known [OF a assms(4)]])
  from commit_known_leader [OF simD(1) [OF b(2)] this sim_leader(2) [OF b(2) assms(5,6)] assms(7)]
  show ?thesis using sim_applied [OF a assms(4)] by (simp add: agree_def)
qed

theorem committed_never_lost_witness:
  "(cluster_step duo)\<^sup>*\<^sup>* run11 run12 \<and> role (nodes run12 ''a'') = kLeader \<and> applied (nodes run11 ''a'') = [entry_x] \<and>
   take (length (applied (nodes run11 ''a''))) (log (nodes run12 ''a'')) = applied (nodes run11 ''a'') \<and> log (nodes run12 ''a'') = [entry_x, entry_y]"
proof -
  have s: "(cluster_step duo)\<^sup>*\<^sup>* run11 run12" using step12 by (rule r_into_rtranclp)
  have a: "nodes run12 ''a'' = next_a" by (simp add: run12_def)
  show ?thesis
    using committed_never_lost [OF wf_duo reach_commit s, of "''a''" "''a''"] s
    by (simp add: a next_a run_nodes2 comm_a)
qed

text \<open>
  C13. Refinement: every reachable state of the implementation is the image of a state the abstract
  protocol reaches, with the same terms, votes, roles, logs and commit indices on every node.
\<close>

theorem raft_refines_protocol:
  assumes "wf_config M cfg" and "reachable M cfg s"
  shows "\<exists>a. abs_steps M abs_init a \<and> (\<forall>p \<in> set M.
    aterm a p = current_term (nodes s p) \<and> avote a p = voted_for (nodes s p) \<and>
    arole a p = role (nodes s p) \<and> alog a p = log (nodes s p) \<and> acommit a p = commit_index (nodes s p))"
proof -
  obtain a where "sim M cfg s a" "abs_steps M abs_init a" using sim_reachable [OF assms] .
  then show ?thesis using sim_node [of M cfg s a] by (intro exI [of _ a]) simp
qed

theorem raft_refines_protocol_witness:
  "\<exists>a. abs_steps duo abs_init a \<and> arole a ''a'' = kLeader \<and> alog a ''a'' = [entry_x] \<and> acommit a ''a'' = 1"
proof -
  obtain a where "abs_steps duo abs_init a" "\<forall>p \<in> set duo. arole a p = role (nodes run11 p) \<and>
      alog a p = log (nodes run11 p) \<and> acommit a p = commit_index (nodes run11 p)"
    using raft_refines_protocol [OF wf_duo reach_commit] by blast
  then show ?thesis by (intro exI [of _ a]) (simp add: run_nodes2 comm_a)
qed

text \<open>
  C21. Persistence before reply: in every reachable state, in particular whenever a reply has been
  sent, opening the files of a node loads exactly the term, the vote and the log it has in memory.
\<close>

theorem disk_matches_memory:
  assumes "wf_config M cfg" and "reachable M cfg s" and "p \<in> set M" and "st = storage (nodes s p)"
  shows "\<exists>st'. RaftStorage_Open open_good (log_file st) (meta_file st) = Inr st' \<and>
    loaded_hard st' = \<lparr>hs_current_term = current_term (nodes s p), hs_voted_for = voted_for (nodes s p)\<rparr> \<and>
    loaded_log st' = log (nodes s p)"
proof -
  obtain a where a: "sim M cfg s a" using sim_reachable [OF assms(1,2)] .
  have "durable (nodes s p)" using simD(5) [OF a assms(3)] by (simp add: node_ok_def)
  then show ?thesis
    by (simp add: assms(4) Open_loads durable_def holds_log_stored)
qed

theorem disk_matches_memory_witness:
  "\<exists>st'. RaftStorage_Open open_good (log_file (storage stored_b)) (meta_file (storage stored_b)) = Inr st' \<and>
    hs_current_term (loaded_hard st') = 1 \<and> loaded_log st' = [entry_x]"
  using disk_matches_memory [OF wf_duo reach_commit, of "''b''" "storage stored_b"]
  by (auto simp: run_nodes2 stored_b)

text \<open>
  C22. The handlers never fail: in a reachable state, handling any request in flight, proposing a
  command and taking up any reply return a result. \<open>log_\<close> is never read past its end and
  \<open>resize\<close> is never called with a wrapped size.
\<close>

theorem handlers_total:
  assumes "wf_config M cfg" and "reachable M cfg s" and "disk_ok env" and "p \<in> set M"
  shows "((c, p, req) \<in> append_reqs s \<longrightarrow> HandleAppendEntries env req (nodes s p) \<noteq> None) \<and>
    ((q, p, req, resp) \<in> append_resps s \<longrightarrow>
       ReplicateTo_response env q (ae_term req) req resp (nodes s p) \<noteq> None) \<and>
    (length cmd + 20 < 2 ^ 32 \<longrightarrow> length (log (nodes s p)) + 2 < u64_size \<longrightarrow>
       Propose env cmd (nodes s p) \<noteq> None)"
proof (intro conjI)
  obtain a where a: "sim M cfg s a" using sim_reachable [OF assms(1,2)] .
  note D = simD(1-3) [OF a] simD(4-7) [OF a assms(4)] and m = msgs_okD [OF simD(3) [OF a]]
  show "(c, p, req) \<in> append_reqs s \<longrightarrow> HandleAppendEntries env req (nodes s p) \<noteq> None"
    using HandleAppendEntries_moves [OF assms(3,4) D(5,4,7,1,2) m(3)] by (metis option.distinct(1))
  show "(q, p, req, resp) \<in> append_resps s \<longrightarrow>
      ReplicateTo_response env q (ae_term req) req resp (nodes s p) \<noteq> None"
    using ReplicateTo_response_moves [OF assms(3,1,4) D(5,4,7,6,1) m(4,5)] by (metis option.distinct(1))
  show "length cmd + 20 < 2 ^ 32 \<longrightarrow> length (log (nodes s p)) + 2 < u64_size \<longrightarrow> Propose env cmd (nodes s p) \<noteq> None"
    using Propose_moves [OF assms(3,1,4) D(5,4,7,6,1,2)] by (metis option.distinct(1))
qed

theorem handlers_total_witness:
  "HandleAppendEntries (env_at 500) append_b (nodes run9 ''b'') \<noteq> None"
proof -
  have "reachable duo duo_cfg run9"
    using step8 step9 by (intro reachable_steps [OF reach_leader]) (rule converse_rtranclp_into_rtranclp, assumption, rule r_into_rtranclp)
  then show ?thesis
    using handlers_total [OF wf_duo _ disk_ok_env_at, of run9 "''b''"] run_rest(3) by simp
qed

lemma WaitApplied_Ok:
  "WaitApplied i t ns = Status_Ok \<Longrightarrow> \<exists>n \<in> set ns. i \<le> last_applied n \<and> TermAtLocked n i = t"
  by (induction i t ns rule: WaitApplied.induct)
     (auto simp: Status_Ok_def Unavailable_def split: if_splits)

lemma ApplyCommitted_frame:
  "ApplyCommittedLocked n = Some n' \<Longrightarrow> log n' = log n \<and> role n' = role n \<and> current_term n' = current_term n"
proof (induction n rule: ApplyCommittedLocked.induct)
  case (1 n)
  from "1.prems" show ?case
    by (auto simp: ApplyCommittedLocked.simps [of n] Let_def dest!: "1.IH" split: if_splits)
qed

lemma Propose_entry:
  assumes "Propose env cmd n = Some (n', Inr i)" and "node_ok n" and "length (log n) + 2 < u64_size"
  shows "i = length (log n) + 1" and "role n' = kLeader" and "current_term n' = current_term n"
    and "log n' = log n @ [\<lparr>le_term = current_term n, le_index = i, le_command = cmd\<rparr>]"
proof -
  have lead: "role n = kLeader" using assms(1) by (auto simp: Propose_def split: if_splits)
  show i: "i = length (log n) + 1"
    using assms by (auto simp: Propose_def Let_def node_ok_def u64_add_exact split: if_splits option.splits)
  obtain n1 where n1: "AdvanceCommitLocked n1 = Some n'" "role n1 = kLeader" "current_term n1 = current_term n"
      "log n1 = log n @ [\<lparr>le_term = current_term n, le_index = i, le_command = cmd\<rparr>]"
    using assms lead i by (auto simp: Propose_def Let_def node_ok_def u64_add_exact split: option.splits)
  have "log n' = log n1 \<and> role n' = role n1 \<and> current_term n' = current_term n1"
    using n1(1) by (auto simp: AdvanceCommitLocked_def dest!: ApplyCommitted_frame split: option.splits)
  with n1 show "role n' = kLeader" and "current_term n' = current_term n"
    and "log n' = log n @ [\<lparr>le_term = current_term n, le_index = i, le_command = cmd\<rparr>]" by simp_all
qed

text \<open>An entry of the leader's log, met later in the same term's position of any log, is that entry.\<close>

lemma entry_by_term:
  assumes "sim M cfg s a" and "tlog a t = Some L" and "k < length L"
    and steps: "abs_steps M a b" and sim: "sim M cfg s' b" "p \<in> set M"
    and k: "k < length (log (nodes s' p))" "le_term (log (nodes s' p) ! k) = t"
  shows "log (nodes s' p) ! k = L ! k"
proof -
  obtain L' where L': "tlog b t = Some L'" "agree (length L) L' L"
    using abs_steps_tlog_extends [OF steps simD(1) [OF assms(1)]] assms(2) unfolding tlog_extends_def by blast
  have "matching b (log (nodes s' p))"
    using inv_logsD(1) [OF abs_invD(3) [OF simD(1) [OF sim(1)]]] sim_node(1) [OF sim] by metis
  then have "agree (Suc k) (log (nodes s' p)) L'"
    using k L'(1) by (auto simp: matching_def)
  then show ?thesis
    using agree_nth [OF _ lessI] agree_nth [OF L'(2) assms(3)] by metis
qed

lemma proposal_applied:
  assumes "wf_config M cfg" and "reachable M cfg s" and "p \<in> set M" and "disk_ok env"
    and "length cmd + 20 < 2 ^ 32" and "length (log (nodes s p)) + 2 < u64_size"
    and "Propose env cmd (nodes s p) = Some (n1, Inr i)" and "t = current_term (nodes s p)"
    and "\<forall>n \<in> set ns. \<exists>s'. (cluster_step M)\<^sup>*\<^sup>* (s\<lparr>nodes := (nodes s)(p := n1)\<rparr>) s' \<and> n = nodes s' p"
    and "WaitApplied i t ns = Status_Ok"
  shows "\<exists>n \<in> set ns. i \<le> length (applied n) \<and>
    applied n ! (i - 1) = \<lparr>le_term = t, le_index = i, le_command = cmd\<rparr>"
proof -
  let ?s1 = "s\<lparr>nodes := (nodes s)(p := n1)\<rparr>" and ?e = "\<lparr>le_term = t, le_index = i, le_command = cmd\<rparr>"
  have step: "cluster_step M s ?s1" by (rule cluster_propose [OF assms(3-7)])
  obtain a0 where a0: "sim M cfg s a0" using sim_reachable [OF assms(1,2)] .
  obtain a where a: "sim M cfg ?s1 a" using sim_step [OF step assms(1) a0] by blast
  note P = Propose_entry [OF assms(7) simD(5) [OF a0 assms(3)] assms(6)]
  have L: "tlog a t = Some (log (nodes s p) @ [?e])"
    using sim_leader(2) [OF a assms(3)] P assms(8) by simp
  obtain n where n: "n \<in> set ns" "i \<le> last_applied n" "TermAtLocked n i = t"
    using WaitApplied_Ok [OF assms(10)] by blast
  obtain s' where s': "(cluster_step M)\<^sup>*\<^sup>* ?s1 s'" "n = nodes s' p" using assms(9) n(1) by blast
  obtain b where b: "abs_steps M a b" "sim M cfg s' b" using sim_steps [OF s'(1) assms(1) a] by blast
  note A = sim_applied [OF b(2) assms(3), folded s'(2)]
  have k: "i - 1 < length (log n)" "le_term (log n ! (i - 1)) = t"
    using n(2,3) A P(1) by (auto simp: TermAtLocked_def term_at_def)
  have "log n ! (i - 1) = ?e"
    using entry_by_term [OF a L _ b assms(3), of "i - 1"] k s'(2) P(1) by simp
  then show ?thesis
    using n(1,2) A P(1) by (intro bexI [of _ n]) auto
qed

text \<open>
  Acknowledged proposals are applied: if \<open>Propose\<close> accepted a command at index \<open>i\<close> and
  \<open>WaitApplied\<close> for that index and the proposer's term later returns Ok, having looked at the node in
  any states that followed, then the node has applied exactly that command at that index.
\<close>

theorem acknowledged_is_applied:
  assumes "wf_config M cfg" and "reachable M cfg s" and "p \<in> set M" and "disk_ok env"
    and "length cmd + 20 < 2 ^ 32" and "length (log (nodes s p)) + 2 < u64_size"
    and "Propose env cmd (nodes s p) = Some (n1, Inr i)" and "t = current_term (nodes s p)"
    and "\<forall>n \<in> set ns. \<exists>s'. (cluster_step M)\<^sup>*\<^sup>* (s\<lparr>nodes := (nodes s)(p := n1)\<rparr>) s' \<and> n = nodes s' p"
    and "WaitApplied i t ns = Status_Ok"
  shows "\<exists>n \<in> set ns. i \<le> length (applied n) \<and>
    applied n ! (i - 1) = \<lparr>le_term = t, le_index = i, le_command = cmd\<rparr>"
  by (rule proposal_applied [OF assms])

theorem acknowledged_is_applied_witness:
  "Propose (env_at 300) ''x'' (nodes run7 ''a'') = Some (prop_a, Inr 1) \<and>
   WaitApplied 1 1 [prop_a, comm_a] = Status_Ok \<and>
   (\<exists>n \<in> {prop_a, comm_a}. 1 \<le> length (applied n) \<and>
     applied n ! 0 = \<lparr>le_term = 1, le_index = 1, le_command = ''x''\<rparr>)"
proof -
  have "(cluster_step duo)\<^sup>*\<^sup>* run8 run11"
    using step9 step10 step11 by (meson converse_rtranclp_into_rtranclp rtranclp.rtrancl_refl)
  then have later: "\<forall>n \<in> set [prop_a, comm_a]. \<exists>s'. (cluster_step duo)\<^sup>*\<^sup>* run8 s' \<and> n = nodes s' ''a''"
    using run_nodes2(1,7) by (auto intro: exI [of _ run8] exI [of _ run11])
  have w: "WaitApplied 1 1 [prop_a, comm_a] = Status_Ok"
    by (simp add: comm_a prop_a LastLogIndexLocked_def last_index_def TermAtLocked_def term_at_def entry_x_def)
  have p: "Propose (env_at 300) ''x'' (nodes run7 ''a'') = Some (prop_a, Inr 1)"
    using prop_a(1) by (simp add: run_nodes)
  show ?thesis
    using acknowledged_is_applied [OF wf_duo reach_leader _ disk_ok_env_at _ _ p refl, of "[prop_a, comm_a]"]
      later w p by (simp add: run_nodes lead_a run8_def [symmetric])
qed

end
