(* ===== verification/Raft_Metadata_Repository.thy ===== *)
theory Raft_Metadata_Repository
  imports Metadata_Repository Raft_Safety
begin

text \<open>
  The replicated control plane, \<open>src/cluster/raft_metadata_repository.cc\<close>: mutations are encoded as
  \<open>MetadataCommand\<close> messages, proposed to the Raft group and applied in log order to a local
  \<open>MetadataRepository\<close>.

  Protobuf's \<open>SerializeAsString\<close> and \<open>ParseFromString\<close> are the parameters \<open>serialize\<close> and \<open>parse\<close>.
  The theorems that need it assume that the one command in question is read back as written.
\<close>

section \<open>Commands\<close>

record rpc_ObjectLocation =
  pb_key :: string
  pb_version :: nat
  pb_checksum :: string
  pb_size :: nat
  pb_deleted :: bool
  pb_replicas :: "string list"

record NodeDesc =
  nd_id :: string
  nd_address :: string

datatype MetadataCommand = register_object rpc_ObjectLocation | remove_object string | add_node NodeDesc | OP_NOT_SET

definition ToProtoLocation :: "ObjectLocation \<Rightarrow> rpc_ObjectLocation" where
  "ToProtoLocation loc =
    \<lparr>pb_key = ol_key loc, pb_version = ol_version loc, pb_checksum = ol_checksum loc, pb_size = ol_size loc,
     pb_deleted = ol_deleted loc, pb_replicas = ol_replicas loc\<rparr>"

definition FromProtoLocation :: "rpc_ObjectLocation \<Rightarrow> ObjectLocation" where
  "FromProtoLocation pb =
    \<lparr>ol_key = pb_key pb, ol_version = pb_version pb, ol_checksum = pb_checksum pb, ol_size = pb_size pb,
     ol_deleted = pb_deleted pb, ol_replicas = pb_replicas pb\<rparr>"

lemma From_To_ProtoLocation [simp]: "FromProtoLocation (ToProtoLocation loc) = loc"
  by (simp add: FromProtoLocation_def ToProtoLocation_def)

section \<open>The state machine\<close>

record RaftMetadataRepository =
  rmr_inner :: MetadataRepository
  rmr_attached :: bool
  rmr_peer_meta_addr :: "string \<rightharpoonup> string"

definition RaftMetadataRepository_new :: "nat \<Rightarrow> RaftMetadataRepository" where
  "RaftMetadataRepository_new vn = \<lparr>rmr_inner = MetadataRepository_new vn, rmr_attached = False, rmr_peer_meta_addr = Map.empty\<rparr>"

definition AttachRaft :: "RaftMetadataRepository \<Rightarrow> RaftMetadataRepository" where
  "AttachRaft r = r\<lparr>rmr_attached := True\<rparr>"

definition AddBootstrapNode :: "NodeInfo \<Rightarrow> RaftMetadataRepository \<Rightarrow> RaftMetadataRepository" where
  "AddBootstrapNode node r = r\<lparr>rmr_inner := Repo_AddNode node (rmr_inner r)\<rparr>"

definition SetPeerMetadataAddress :: "string \<Rightarrow> string \<Rightarrow> RaftMetadataRepository \<Rightarrow> RaftMetadataRepository" where
  "SetPeerMetadataAddress peer address r = r\<lparr>rmr_peer_meta_addr := (rmr_peer_meta_addr r)(peer \<mapsto> address)\<rparr>"

definition Apply_command :: "MetadataCommand \<Rightarrow> MetadataRepository \<Rightarrow> MetadataRepository" where
  "Apply_command cmd inner =
    (case cmd of
       register_object pb \<Rightarrow> snd (RegisterObject (FromProtoLocation pb) inner)
     | remove_object key \<Rightarrow> snd (RemoveObject key inner)
     | add_node d \<Rightarrow> Repo_AddNode (NodeInfo_default\<lparr>ni_id := nd_id d, ni_address := nd_address d\<rparr>) inner
     | OP_NOT_SET \<Rightarrow> inner)"

definition Apply :: "(string \<Rightarrow> MetadataCommand option) \<Rightarrow> LogEntry \<Rightarrow> RaftMetadataRepository \<Rightarrow> RaftMetadataRepository" where
  "Apply parse entry r =
    (case parse (le_command entry) of
       None \<Rightarrow> r
     | Some cmd \<Rightarrow> r\<lparr>rmr_inner := Apply_command cmd (rmr_inner r)\<rparr>)"

text \<open>The repository of a replica that started from \<open>r\<close> and was handed these entries.\<close>

definition replay :: "(string \<Rightarrow> MetadataCommand option) \<Rightarrow> RaftMetadataRepository \<Rightarrow> LogEntry list \<Rightarrow> RaftMetadataRepository" where
  "replay parse r entries = fold (Apply parse) entries r"

section \<open>Mutations and reads\<close>

text \<open>
  \<open>n0\<close> is the node when its term is read, \<open>n\<close> when \<open>Propose\<close> takes the lock, \<open>ns\<close> as the wait finds it.
\<close>

definition ProposeAndWait ::
  "raft_env \<Rightarrow> RaftMetadataRepository \<Rightarrow> RaftNode \<Rightarrow> RaftNode \<Rightarrow> RaftNode list \<Rightarrow> string \<Rightarrow> (RaftNode \<times> Status) option" where
  "ProposeAndWait env r n0 n ns command =
    (if \<not> rmr_attached r then Some (n, Unavailable ''raft not attached'')
     else let trm = current_term n0 in
       case Propose env command n of
         None \<Rightarrow> None
       | Some (n', Inl st) \<Rightarrow> Some (n', st)
       | Some (n', Inr index) \<Rightarrow> Some (n', WaitApplied index trm ns))"

definition Raft_AddNode ::
  "(MetadataCommand \<Rightarrow> string) \<Rightarrow> raft_env \<Rightarrow> RaftMetadataRepository \<Rightarrow> RaftNode \<Rightarrow> RaftNode \<Rightarrow> RaftNode list \<Rightarrow> NodeInfo
    \<Rightarrow> RaftNode option" where
  "Raft_AddNode serialize env r n0 n ns node =
    map_option fst (ProposeAndWait env r n0 n ns
      (serialize (add_node \<lparr>nd_id = ni_id node, nd_address = ni_address node\<rparr>)))"

definition Raft_RegisterObject ::
  "(MetadataCommand \<Rightarrow> string) \<Rightarrow> raft_env \<Rightarrow> RaftMetadataRepository \<Rightarrow> RaftNode \<Rightarrow> RaftNode \<Rightarrow> RaftNode list
    \<Rightarrow> ObjectLocation \<Rightarrow> (RaftNode \<times> Status) option" where
  "Raft_RegisterObject serialize env r n0 n ns loc =
    ProposeAndWait env r n0 n ns (serialize (register_object (ToProtoLocation loc)))"

definition Raft_RemoveObject ::
  "(MetadataCommand \<Rightarrow> string) \<Rightarrow> raft_env \<Rightarrow> RaftMetadataRepository \<Rightarrow> RaftNode \<Rightarrow> RaftNode \<Rightarrow> RaftNode list
    \<Rightarrow> string \<Rightarrow> (RaftNode \<times> Status) option" where
  "Raft_RemoveObject serialize env r n0 n ns key = ProposeAndWait env r n0 n ns (serialize (remove_object key))"

datatype Leadership = kLeaderHere | kFollowerHere | kNoLeader

definition leadership :: "RaftMetadataRepository \<Rightarrow> RaftNode \<Rightarrow> Leadership" where
  "leadership r n =
    (if \<not> rmr_attached r \<or> role n = kLeader then kLeaderHere
     else if leader_id n = '''' then kNoLeader else kFollowerHere)"

definition leader_forward_address :: "RaftMetadataRepository \<Rightarrow> RaftNode \<Rightarrow> string" where
  "leader_forward_address r n =
    (if \<not> rmr_attached r then ''''
     else case rmr_peer_meta_addr r (leader_id n) of None \<Rightarrow> '''' | Some a \<Rightarrow> a)"

definition Raft_Nodes :: "RaftMetadataRepository \<Rightarrow> NodeInfo list" where
  "Raft_Nodes r = Repo_Nodes (rmr_inner r)"

definition Raft_PlacementFor :: "string \<Rightarrow> nat \<Rightarrow> RaftMetadataRepository \<Rightarrow> string list" where
  "Raft_PlacementFor key rf r = Repo_PlacementFor key rf (rmr_inner r)"

definition Raft_LookupObject :: "string \<Rightarrow> RaftMetadataRepository \<Rightarrow> ObjectLocation StatusOr" where
  "Raft_LookupObject key r = LookupObject key (rmr_inner r)"

definition Raft_ListObjects :: "string \<Rightarrow> RaftMetadataRepository \<Rightarrow> ObjectLocation list StatusOr" where
  "Raft_ListObjects prefix r = ListObjects prefix (rmr_inner r)"

section \<open>Lemmas\<close>

text \<open>The key a command registers or removes.\<close>

definition touches :: "(string \<Rightarrow> MetadataCommand option) \<Rightarrow> string \<Rightarrow> LogEntry \<Rightarrow> bool" where
  "touches parse key e =
    (case parse (le_command e) of
       Some (register_object pb) \<Rightarrow> pb_key pb = key
     | Some (remove_object k) \<Rightarrow> k = key
     | _ \<Rightarrow> False)"

lemma replay_append: "replay parse r (xs @ ys) = replay parse (replay parse r xs) ys"
  by (simp add: replay_def)

lemma Apply_ok: "repo_ok (rmr_inner r) \<Longrightarrow> repo_ok (rmr_inner (Apply parse e r))"
  by (simp add: Apply_def Apply_command_def repo_ok_Register repo_ok_Remove repo_ok_AddNode
      split: option.split MetadataCommand.split)

lemma replay_ok: "repo_ok (rmr_inner r) \<Longrightarrow> repo_ok (rmr_inner (replay parse r es))"
  by (induction es arbitrary: r) (simp_all add: replay_def Apply_ok)

lemma Apply_untouched:
  "repo_ok (rmr_inner r) \<Longrightarrow> \<not> touches parse key e \<Longrightarrow>
    repo_view (rmr_inner (Apply parse e r)) key = repo_view (rmr_inner r) key"
  by (auto simp: Apply_def Apply_command_def touches_def repo_view_Register repo_view_Remove FromProtoLocation_def
      split: option.splits MetadataCommand.splits)
     (simp add: repo_view_def Repo_AddNode_def)

lemma replay_untouched:
  "repo_ok (rmr_inner r) \<Longrightarrow> \<forall>e \<in> set es. \<not> touches parse key e \<Longrightarrow>
    repo_view (rmr_inner (replay parse r es)) key = repo_view (rmr_inner r) key"
  by (induction es arbitrary: r) (simp_all add: replay_def Apply_ok Apply_untouched)

section \<open>Properties\<close>

text \<open>
  Replicas agree: started from the same bootstrap state, a replica that has applied at least as many
  entries as another one is exactly the other one's state with the further entries applied. In
  particular two replicas that have applied equally many entries hold the same membership and the same
  object locations.
\<close>

theorem replica_determinism:
  assumes "wf_config M cfg" and "reachable M cfg s" and "p \<in> set M" and "q \<in> set M"
    and "length (applied (nodes s p)) \<le> length (applied (nodes s q))"
  shows "replay parse r (applied (nodes s q)) =
      replay parse (replay parse r (applied (nodes s p))) (drop (length (applied (nodes s p))) (applied (nodes s q)))"
  using applied_prefix [OF assms] by (metis append_take_drop_id replay_append)

theorem replica_determinism_witness:
  "reachable duo duo_cfg run11 \<and>
   replay (\<lambda>b. Some (remove_object b)) (RaftMetadataRepository_new 1) (applied (nodes run11 ''a'')) =
   replay (\<lambda>b. Some (remove_object b)) (replay (\<lambda>b. Some (remove_object b)) (RaftMetadataRepository_new 1) (applied (nodes run11 ''b'')))
     (drop (length (applied (nodes run11 ''b''))) (applied (nodes run11 ''a'')))"
  using replica_determinism [OF wf_duo reach_commit, of "''b''" "''a''" "\<lambda>b. Some (remove_object b)" "RaftMetadataRepository_new 1"] reach_commit
  by (simp add: run_nodes2 comm_a stored_b)

text \<open>
  C15. Acknowledged registrations are visible: if \<open>RegisterObject\<close> of the replicated control plane returns
  Ok, and the term it read is still the node's term when it proposed, then the node has applied the
  registration, and as long as it has applied no later command on that key, a lookup on the node
  returns the registered location.
\<close>

theorem acknowledged_register_visible:
  assumes "wf_config M cfg" and "reachable M cfg s" and "p \<in> set M" and "disk_ok env"
    and "length (serialize (register_object (ToProtoLocation loc))) + 20 < 2 ^ 32"
    and "length (log (nodes s p)) + 2 < u64_size"
    and "rmr_attached r" and "repo_ok (rmr_inner r)" and "\<not> ol_deleted loc"
    and "Raft_RegisterObject serialize env r n0 (nodes s p) ns loc = Some (n1, Status_Ok)"
    and "current_term n0 = current_term (nodes s p)"
    and "parse (serialize (register_object (ToProtoLocation loc))) = Some (register_object (ToProtoLocation loc))"
    and "\<forall>n \<in> set ns. \<exists>s'. (cluster_step M)\<^sup>*\<^sup>* (s\<lparr>nodes := (nodes s)(p := n1)\<rparr>) s' \<and> n = nodes s' p"
  shows "\<exists>n \<in> set ns. \<exists>i. 0 < i \<and> i \<le> length (applied n) \<and>
    le_command (applied n ! (i - 1)) = serialize (register_object (ToProtoLocation loc)) \<and>
    Raft_LookupObject (ol_key loc) (replay parse r (take i (applied n))) = Inr loc \<and>
    ((\<forall>e \<in> set (drop i (applied n)). \<not> touches parse (ol_key loc) e) \<longrightarrow>
      Raft_LookupObject (ol_key loc) (replay parse r (applied n)) = Inr loc)"
proof -
  let ?cmd = "serialize (register_object (ToProtoLocation loc))"
  obtain i where i: "Propose env ?cmd (nodes s p) = Some (n1, Inr i)" "WaitApplied i (current_term (nodes s p)) ns = Status_Ok"
    using assms(7,10,11)
    by (auto simp: Raft_RegisterObject_def ProposeAndWait_def Propose_def Unavailable_def Status_Ok_def Let_def
        split: option.splits sum.splits if_splits)
  obtain a where a: "sim M cfg s a" using sim_reachable [OF assms(1,2)] .
  have pos: "0 < i" using Propose_entry(1) [OF i(1) simD(5) [OF a assms(3)] assms(6)] by simp
  obtain n where n: "n \<in> set ns" "i \<le> length (applied n)"
      "applied n ! (i - 1) = \<lparr>le_term = current_term (nodes s p), le_index = i, le_command = ?cmd\<rparr>"
    using proposal_applied [OF assms(1-6) i(1) refl assms(13) i(2)] by blast
  let ?e = "applied n ! (i - 1)" and ?r = "replay parse r (take (i - 1) (applied n))"
  have split: "applied n = take (i - 1) (applied n) @ ?e # drop i (applied n)"
    using n(2) pos id_take_nth_drop [of "i - 1" "applied n"] by simp
  have ok: "repo_ok (rmr_inner ?r)" by (rule replay_ok [OF assms(8)])
  have reg: "repo_view (rmr_inner (Apply parse ?e ?r)) (ol_key loc) = Some loc"
    using repo_view_Register [OF ok, of loc] assms(9,12) n(3) by (simp add: Apply_def Apply_command_def live_def)
  have "replay parse r (applied n) = replay parse (Apply parse ?e ?r) (drop i (applied n))"
    by (subst split) (simp add: replay_def)
  then have "(\<forall>e \<in> set (drop i (applied n)). \<not> touches parse (ol_key loc) e) \<Longrightarrow>
      repo_view (rmr_inner (replay parse r (applied n))) (ol_key loc) = Some loc"
    using replay_untouched [OF Apply_ok [OF ok], of "drop i (applied n)" parse "ol_key loc" parse ?e] reg by simp
  then have later: "(\<forall>e \<in> set (drop i (applied n)). \<not> touches parse (ol_key loc) e) \<longrightarrow>
      Raft_LookupObject (ol_key loc) (replay parse r (applied n)) = Inr loc"
    by (simp add: Raft_LookupObject_def LookupObject_view)
  have "take i (applied n) = take (i - 1) (applied n) @ [?e]"
    using take_Suc_conv_app_nth [of "i - 1" "applied n"] n(2) pos by simp
  then have "Raft_LookupObject (ol_key loc) (replay parse r (take i (applied n))) = Inr loc"
    using reg by (simp add: Raft_LookupObject_def LookupObject_view replay_def)
  with n pos later show ?thesis by (intro bexI [of _ n] exI [of _ i]) simp_all
qed

definition loc_x :: ObjectLocation where
  "loc_x = \<lparr>ol_key = ''x'', ol_version = 1, ol_checksum = '''', ol_size = 0, ol_deleted = False, ol_replicas = []\<rparr>"

definition key_of_register :: "MetadataCommand \<Rightarrow> string" where
  "key_of_register cmd = (case cmd of register_object pb \<Rightarrow> pb_key pb | _ \<Rightarrow> '''')"

definition register_of_key :: "string \<Rightarrow> MetadataCommand option" where
  "register_of_key b = Some (register_object (ToProtoLocation (loc_x\<lparr>ol_key := b\<rparr>)))"

theorem acknowledged_register_visible_witness:
  "Raft_RegisterObject key_of_register (env_at 300) (AttachRaft (RaftMetadataRepository_new 1)) lead_a (nodes run7 ''a'')
     [prop_a, comm_a] loc_x = Some (prop_a, Status_Ok) \<and>
   (\<exists>n \<in> {prop_a, comm_a}. \<exists>i. 0 < i \<and> i \<le> length (applied n) \<and>
     Raft_LookupObject ''x'' (replay register_of_key (AttachRaft (RaftMetadataRepository_new 1)) (take i (applied n))) = Inr loc_x)"
proof -
  let ?r = "AttachRaft (RaftMetadataRepository_new 1)"
  have "(cluster_step duo)\<^sup>*\<^sup>* run8 run11"
    using step9 step10 step11 by (meson converse_rtranclp_into_rtranclp rtranclp.rtrancl_refl)
  then have later: "\<forall>n \<in> set [prop_a, comm_a]. \<exists>s'. (cluster_step duo)\<^sup>*\<^sup>* run8 s' \<and> n = nodes s' ''a''"
    using run_nodes2(1,7) by (auto intro: exI [of _ run8] exI [of _ run11])
  have cmd: "key_of_register (register_object (ToProtoLocation loc_x)) = ''x''"
    by (simp add: key_of_register_def ToProtoLocation_def loc_x_def)
  have att: "rmr_attached ?r" "repo_ok (rmr_inner ?r)"
    by (simp_all add: AttachRaft_def RaftMetadataRepository_new_def repo_ok_new)
  have w: "WaitApplied 1 1 [prop_a, comm_a] = Status_Ok"
    by (simp add: comm_a prop_a LastLogIndexLocked_def last_index_def TermAtLocked_def term_at_def entry_x_def)
  have reg: "Raft_RegisterObject key_of_register (env_at 300) ?r lead_a (nodes run7 ''a'') [prop_a, comm_a] loc_x
      = Some (prop_a, Status_Ok)"
    using prop_a(1) w att(1) by (simp add: Raft_RegisterObject_def ProposeAndWait_def cmd run_nodes lead_a)
  have par: "register_of_key (key_of_register (register_object (ToProtoLocation loc_x)))
      = Some (register_object (ToProtoLocation loc_x))"
    unfolding cmd by (simp add: register_of_key_def loc_x_def)
  have "\<exists>n \<in> set [prop_a, comm_a]. \<exists>i. 0 < i \<and> i \<le> length (applied n) \<and>
      Raft_LookupObject (ol_key loc_x) (replay register_of_key ?r (take i (applied n))) = Inr loc_x"
    using acknowledged_register_visible [where parse = register_of_key and serialize = key_of_register
        and p = "''a''" and loc = loc_x, OF wf_duo reach_leader _ disk_ok_env_at _ _ att _ reg _ par] later
    by (simp add: cmd run_nodes lead_a run8_def [symmetric]) (auto simp: loc_x_def)
  with reg show ?thesis by (simp add: loc_x_def)
qed

end
