(* ===== verification/Lru_Cache.thy ===== *)
theory Lru_Cache
  imports Ordered_Map
begin

text \<open>
  \<open>include/common/lru_cache.h\<close>. The \<open>std::list\<close> is a list of nodes tagged with their address, and an
  iterator held by the index is such an address, so that a dangling iterator is expressible: an
  operation that would follow one returns \<open>None\<close>.

  The reference is a plain recency list. The invariant ties index and list together, and every
  operation refines its counterpart on the recency list.
\<close>

section \<open>The cache\<close>

record ('k, 'v) LruCache =
  lru_capacity :: nat
  lru_order :: "(nat \<times> 'k \<times> 'v) list"
  lru_index :: "('k, nat) omap"
  lru_hits :: nat
  lru_misses :: nat
  lru_next :: nat

definition Lru_new :: "nat \<Rightarrow> ('k, 'v) LruCache" where
  "Lru_new capacity = \<lparr>lru_capacity = (if capacity = 0 then 1 else capacity), lru_order = [], lru_index = [],
    lru_hits = 0, lru_misses = 0, lru_next = 0\<rparr>"

text \<open>\<open>splice(begin(), order_, it)\<close> and \<open>erase(it)\<close> for the node at an address.\<close>

definition node_at :: "nat \<Rightarrow> (nat \<times> 'k \<times> 'v) list \<Rightarrow> ('k \<times> 'v) option" where
  "node_at a nodes = map_of nodes a"

definition without :: "nat \<Rightarrow> (nat \<times> 'k \<times> 'v) list \<Rightarrow> (nat \<times> 'k \<times> 'v) list" where
  "without a nodes = filter (\<lambda>n. fst n \<noteq> a) nodes"

definition Lru_Get :: "'k::linorder \<Rightarrow> ('k, 'v) LruCache \<Rightarrow> ('v option \<times> ('k, 'v) LruCache) option" where
  "Lru_Get key c =
    (case om_find (lru_index c) key of
       None \<Rightarrow> Some (None, c\<lparr>lru_misses := u64_add (lru_misses c) 1\<rparr>)
     | Some a \<Rightarrow>
         (case node_at a (lru_order c) of
            None \<Rightarrow> None
          | Some (k, v) \<Rightarrow> Some (Some v, c\<lparr>lru_hits := u64_add (lru_hits c) 1,
              lru_order := (a, k, v) # without a (lru_order c)\<rparr>)))"

definition Lru_Put :: "'k::linorder \<Rightarrow> 'v \<Rightarrow> ('k, 'v) LruCache \<Rightarrow> ('k, 'v) LruCache option" where
  "Lru_Put key v c =
    (case om_find (lru_index c) key of
       Some a \<Rightarrow>
         (case node_at a (lru_order c) of
            None \<Rightarrow> None
          | Some (k, _) \<Rightarrow> Some (c\<lparr>lru_order := (a, k, v) # without a (lru_order c)\<rparr>))
     | None \<Rightarrow>
         let order = (lru_next c, key, v) # lru_order c;
             index = om_set key (lru_next c) (lru_index c);
             c = c\<lparr>lru_next := Suc (lru_next c)\<rparr>
         in if lru_capacity c < length index
            then Some (c\<lparr>lru_order := butlast order, lru_index := om_erase (fst (snd (last order))) index\<rparr>)
            else Some (c\<lparr>lru_order := order, lru_index := index\<rparr>))"

definition Lru_Erase :: "'k \<Rightarrow> ('k, 'v) LruCache \<Rightarrow> ('k, 'v) LruCache option" where
  "Lru_Erase key c =
    (case om_find (lru_index c) key of
       None \<Rightarrow> Some c
     | Some a \<Rightarrow>
         (case node_at a (lru_order c) of
            None \<Rightarrow> None
          | Some _ \<Rightarrow> Some (c\<lparr>lru_order := without a (lru_order c), lru_index := om_erase key (lru_index c)\<rparr>)))"

definition Lru_Clear :: "('k, 'v) LruCache \<Rightarrow> ('k, 'v) LruCache" where
  "Lru_Clear c = c\<lparr>lru_order := [], lru_index := []\<rparr>"

definition Lru_Contains :: "'k \<Rightarrow> ('k, 'v) LruCache \<Rightarrow> bool" where
  "Lru_Contains key c \<longleftrightarrow> om_find (lru_index c) key \<noteq> None"

definition Lru_size :: "('k, 'v) LruCache \<Rightarrow> nat" where
  "Lru_size c = length (lru_index c)"

section \<open>The reference\<close>

definition drop_key :: "'k \<Rightarrow> ('k \<times> 'v) list \<Rightarrow> ('k \<times> 'v) list" where
  "drop_key key xs = filter (\<lambda>x. fst x \<noteq> key) xs"

definition recency_get :: "'k \<Rightarrow> ('k \<times> 'v) list \<Rightarrow> 'v option \<times> ('k \<times> 'v) list" where
  "recency_get key xs = (case map_of xs key of None \<Rightarrow> (None, xs) | Some v \<Rightarrow> (Some v, (key, v) # drop_key key xs))"

definition recency_put :: "nat \<Rightarrow> 'k \<Rightarrow> 'v \<Rightarrow> ('k \<times> 'v) list \<Rightarrow> ('k \<times> 'v) list" where
  "recency_put cap key v xs = take cap ((key, v) # drop_key key xs)"

definition recency :: "('k, 'v) LruCache \<Rightarrow> ('k \<times> 'v) list" where
  "recency c = map snd (lru_order c)"

text \<open>
  The invariant: addresses and keys in the list are distinct and below the allocator's next address,
  the index holds exactly the list's nodes, and the size is within capacity.
\<close>

definition lru_ok :: "('k::linorder, 'v) LruCache \<Rightarrow> bool" where
  "lru_ok c \<longleftrightarrow> om_ok (lru_index c) \<and> distinct (map fst (lru_order c)) \<and> distinct (map (fst \<circ> snd) (lru_order c)) \<and>
    (\<forall>n \<in> set (lru_order c). fst n < lru_next c) \<and>
    (\<forall>k a. om_find (lru_index c) k = Some a \<longleftrightarrow> (\<exists>v. (a, k, v) \<in> set (lru_order c))) \<and>
    length (lru_order c) \<le> lru_capacity c \<and> 0 < lru_capacity c"

lemma lru_okD:
  assumes "lru_ok c"
  shows "om_ok (lru_index c)" and "distinct (map fst (lru_order c))" and "distinct (map (fst \<circ> snd) (lru_order c))"
    and "n \<in> set (lru_order c) \<Longrightarrow> fst n < lru_next c"
    and "om_find (lru_index c) k = Some a \<longleftrightarrow> (\<exists>v. (a, k, v) \<in> set (lru_order c))"
    and "length (lru_order c) \<le> lru_capacity c" and "0 < lru_capacity c"
  using assms unfolding lru_ok_def by blast+

lemma lru_okI:
  assumes "lru_order c = ord" and "lru_index c = idx" and "lru_next c = nxt" and "lru_capacity c = cap"
    and "om_ok idx" and "distinct (map fst ord)" and "distinct (map (fst \<circ> snd) ord)"
    and "\<And>n. n \<in> set ord \<Longrightarrow> fst n < nxt"
    and "\<And>k a. om_find idx k = Some a \<longleftrightarrow> (\<exists>v. (a, k, v) \<in> set ord)"
    and "length ord \<le> cap" and "0 < cap"
  shows "lru_ok c"
  unfolding lru_ok_def assms(1-4) using assms(5-11) by blast

lemma lru_ok_new: "lru_ok (Lru_new n)"
  by (simp add: lru_ok_def Lru_new_def om_find_def)

lemma om_length: "om_ok m \<Longrightarrow> length m = card (dom (om_find m))"
  by (metis card_image distinct_card distinct_map dom_map_of_conv_image_fst length_map om_find_def om_ok_def set_map strict_sorted_iff)

lemma recency_keys: "map fst (recency c) = map (fst \<circ> snd) (lru_order c)"
  by (simp add: recency_def)

lemma index_dom: "lru_ok c \<Longrightarrow> dom (om_find (lru_index c)) = (fst \<circ> snd) ` set (lru_order c)"
  by (force simp: lru_ok_def dom_def)

lemma index_size: "lru_ok c \<Longrightarrow> length (lru_index c) = length (lru_order c)"
  using om_length [OF lru_okD(1)] index_dom lru_okD(3)
  by (metis card_image distinct_card distinct_map length_map list.set_map)

lemma recency_find:
  assumes "lru_ok c"
  shows "map_of (recency c) k = (case om_find (lru_index c) k of None \<Rightarrow> None | Some a \<Rightarrow> map_option snd (node_at a (lru_order c)))"
proof (cases "om_find (lru_index c) k")
  case None
  then have "k \<notin> fst ` set (recency c)"
    using lru_okD(5) [OF assms, of k] by (force simp: recency_def)
  then show ?thesis using None by (simp add: map_of_eq_None_iff)
next
  case (Some a)
  then obtain v where v: "(a, k, v) \<in> set (lru_order c)" using lru_okD(5) [OF assms] by blast
  then have "node_at a (lru_order c) = Some (k, v)"
    using lru_okD(2) [OF assms] by (simp add: node_at_def)
  moreover have "map_of (recency c) k = Some v"
    using v lru_okD(3) [OF assms] recency_keys [of c] by (force simp: recency_def intro: map_of_is_SomeI)
  ultimately show ?thesis using Some by simp
qed

section \<open>Refinement\<close>

lemma indexed_node:
  assumes "lru_ok c" and "om_find (lru_index c) k = Some a"
  obtains v where "node_at a (lru_order c) = Some (k, v)" and "(a, k, v) \<in> set (lru_order c)"
    and "map_of (recency c) k = Some v"
proof -
  obtain v where v: "(a, k, v) \<in> set (lru_order c)" using lru_okD(5) [OF assms(1)] assms(2) by blast
  then have n: "node_at a (lru_order c) = Some (k, v)"
    using lru_okD(2) [OF assms(1)] by (simp add: node_at_def)
  with recency_find [OF assms(1), of k] assms(2) have "map_of (recency c) k = Some v" by simp
  with n v that show thesis by blast
qed

lemma same_node:
  assumes "lru_ok c" and "(a, k, v) \<in> set (lru_order c)" and "n \<in> set (lru_order c)"
  shows "fst n = a \<longleftrightarrow> fst (snd n) = k"
proof -
  have inj: "inj_on fst (set (lru_order c))" "inj_on (fst \<circ> snd) (set (lru_order c))"
    using lru_okD(2,3) [OF assms(1)] by (simp_all add: distinct_map)
  show ?thesis
    using inj_onD [OF inj(1), of n "(a, k, v)"] inj_onD [OF inj(2), of n "(a, k, v)"] assms(2,3) by (cases n) auto
qed

lemma without_recency:
  assumes "lru_ok c" and "(a, k, v) \<in> set (lru_order c)"
  shows "map snd (without a (lru_order c)) = drop_key k (recency c)"
proof -
  have "fst n = a \<longleftrightarrow> fst (snd n) = k" if "n \<in> set (lru_order c)" for n
    by (rule same_node [OF assms that])
  then show ?thesis
    by (simp add: without_def drop_key_def recency_def filter_map comp_def cong: filter_cong)
qed

text \<open>Moving a node to the front, possibly with a new value, keeps the invariant.\<close>

lemma lru_ok_front:
  assumes "lru_ok c" and "(a, k, v) \<in> set (lru_order c)"
  shows "lru_ok (c\<lparr>lru_order := (a, k, w) # without a (lru_order c)\<rparr>)"
proof (rule lru_okI [where idx = "lru_index c" and nxt = "lru_next c" and cap = "lru_capacity c"])
  let ?o = "lru_order c" and ?o' = "(a, k, w) # without a (lru_order c)"
  note same = same_node [OF assms]
  show "lru_order (c\<lparr>lru_order := ?o'\<rparr>) = ?o'" by simp
  show "om_ok (lru_index c)" and "0 < lru_capacity c" by (rule lru_okD [OF assms(1)])+
  show "distinct (map fst ?o')"
    using lru_okD(2) [OF assms(1)] by (auto simp: without_def distinct_map_filter)
  have "k \<notin> (fst \<circ> snd) ` set (without a ?o)"
    using same by (auto simp: without_def)
  then show "distinct (map (fst \<circ> snd) ?o')"
    using lru_okD(3) [OF assms(1)] by (simp add: without_def distinct_map_filter)
  show "fst n < lru_next c" if "n \<in> set ?o'" for n
    using that lru_okD(4) [OF assms(1), of n] lru_okD(4) [OF assms(1,2)] by (auto simp: without_def)
  show "om_find (lru_index c) j = Some b \<longleftrightarrow> (\<exists>v. (b, j, v) \<in> set ?o')" for j b
    using lru_okD(5) [OF assms(1), of j b] same [of "(b, j, _)"] assms(2) by (auto simp: without_def)
  have "length (without a ?o) < length ?o"
    unfolding without_def by (rule length_filter_less [OF assms(2)]) simp
  then show "length ?o' \<le> lru_capacity c"
    using lru_okD(6) [OF assms(1)] by simp
qed simp_all

lemma Get_refines:
  assumes "lru_ok c"
  shows "\<exists>c'. Lru_Get k c = Some (fst (recency_get k (recency c)), c') \<and> lru_ok c' \<and>
    recency c' = snd (recency_get k (recency c)) \<and> lru_capacity c' = lru_capacity c"
proof (cases "om_find (lru_index c) k")
  case None
  then have "map_of (recency c) k = None" by (simp add: recency_find [OF assms])
  moreover have "lru_ok (c\<lparr>lru_misses := m\<rparr>)" for m using assms by (simp add: lru_ok_def)
  ultimately show ?thesis using None by (simp add: Lru_Get_def recency_get_def) (simp add: recency_def)
next
  case (Some a)
  then obtain v where v: "node_at a (lru_order c) = Some (k, v)" "(a, k, v) \<in> set (lru_order c)"
      "map_of (recency c) k = Some v"
    using indexed_node [OF assms] by blast
  have "lru_ok (c\<lparr>lru_hits := h, lru_order := (a, k, v) # without a (lru_order c)\<rparr>)" for h
    using lru_ok_front [OF assms v(2)] by (simp add: lru_ok_def)
  then show ?thesis
    using Some v without_recency [OF assms v(2)]
    by (simp add: Lru_Get_def recency_get_def) (simp add: recency_def)
qed

lemma Erase_refines:
  assumes "lru_ok c"
  shows "\<exists>c'. Lru_Erase k c = Some c' \<and> lru_ok c' \<and> recency c' = drop_key k (recency c) \<and> lru_capacity c' = lru_capacity c"
proof (cases "om_find (lru_index c) k")
  case None
  then have "k \<notin> fst ` set (recency c)"
    using recency_find [OF assms, of k] by (simp add: map_of_eq_None_iff)
  then have "drop_key k (recency c) = recency c" by (force simp: drop_key_def filter_id_conv)
  then show ?thesis using None assms by (simp add: Lru_Erase_def)
next
  case (Some a)
  then obtain v where v: "node_at a (lru_order c) = Some (k, v)" "(a, k, v) \<in> set (lru_order c)"
    using indexed_node [OF assms] by blast
  let ?c = "c\<lparr>lru_order := without a (lru_order c), lru_index := om_erase k (lru_index c)\<rparr>"
  have "lru_ok ?c"
  proof (rule lru_okI [where ord = "without a (lru_order c)" and idx = "om_erase k (lru_index c)"
        and nxt = "lru_next c" and cap = "lru_capacity c"])
    show "om_find (om_erase k (lru_index c)) j = Some b \<longleftrightarrow> (\<exists>v. (b, j, v) \<in> set (without a (lru_order c)))" for j b
      using lru_okD(1) [OF assms] lru_okD(5) [OF assms, of j b] same_node [OF assms v(2), of "(b, j, _)"]
      by (auto simp: om.find_erase without_def)
    show "length (without a (lru_order c)) \<le> lru_capacity c"
      unfolding without_def using lru_okD(6) [OF assms] by (meson length_filter_le order_trans)
  qed (use lru_okD(1-4,7) [OF assms] in \<open>auto simp: om.ok_erase without_def distinct_map_filter\<close>)
  then show ?thesis
    using Some v without_recency [OF assms v(2)] by (simp add: Lru_Erase_def) (simp add: recency_def)
qed

text \<open>Insertion of a new key, with room for one more entry; then dropping the last node.\<close>

lemma lru_ok_insert:
  assumes "lru_ok c" and "om_find (lru_index c) k = None"
  shows "lru_ok (c\<lparr>lru_order := (lru_next c, k, v) # lru_order c, lru_index := om_set k (lru_next c) (lru_index c),
    lru_next := Suc (lru_next c), lru_capacity := Suc (lru_capacity c)\<rparr>)"
proof (rule lru_okI [where ord = "(lru_next c, k, v) # lru_order c" and idx = "om_set k (lru_next c) (lru_index c)"
      and nxt = "Suc (lru_next c)" and cap = "Suc (lru_capacity c)"])
  have new: "lru_next c \<notin> fst ` set (lru_order c)" using lru_okD(4) [OF assms(1)] by fastforce
  have newk: "(a, k, w) \<notin> set (lru_order c)" for a w using lru_okD(5) [OF assms(1), of k a] assms(2) by auto
  then have newk': "k \<notin> (fst \<circ> snd) ` set (lru_order c)" by auto
  show "distinct (map fst ((lru_next c, k, v) # lru_order c))" using new lru_okD(2) [OF assms(1)] by simp
  show "distinct (map (fst \<circ> snd) ((lru_next c, k, v) # lru_order c))" using newk' lru_okD(3) [OF assms(1)] by simp
  show "fst n < Suc (lru_next c)" if "n \<in> set ((lru_next c, k, v) # lru_order c)" for n
    using that lru_okD(4) [OF assms(1), of n] by auto
  show "om_find (om_set k (lru_next c) (lru_index c)) j = Some a \<longleftrightarrow>
      (\<exists>w. (a, j, w) \<in> set ((lru_next c, k, v) # lru_order c))" for j a
    using lru_okD(1) [OF assms(1)] lru_okD(5) [OF assms(1), of j a] newk by (auto simp: om.find_set)
qed (use lru_okD(1,6,7) [OF assms(1)] in \<open>simp_all add: om.ok_set\<close>)

lemma butlast_without:
  assumes "nodes \<noteq> []" and "distinct (map fst nodes)"
  shows "butlast nodes = without (fst (last nodes)) nodes"
proof -
  obtain xs x where n: "nodes = xs @ [x]" using assms(1) by (metis append_butlast_last_id)
  then have "fst x \<notin> fst ` set xs" using assms(2) by simp
  then have "without (fst x) xs = xs" unfolding without_def filter_id_conv by (metis image_eqI)
  then show ?thesis by (simp add: n) (simp add: without_def)
qed

lemma lru_ok_evict:
  assumes "lru_ok c" and "lru_order c \<noteq> []" and "length (lru_order c) = Suc cap" and "0 < cap"
  shows "lru_ok (c\<lparr>lru_order := butlast (lru_order c), lru_index := om_erase (fst (snd (last (lru_order c)))) (lru_index c),
    lru_capacity := cap\<rparr>)"
proof -
  obtain a k v where last: "last (lru_order c) = (a, k, v)" by (cases "last (lru_order c)")
  then have mem: "(a, k, v) \<in> set (lru_order c)" using last_in_set [OF assms(2)] by simp
  have idx: "om_find (lru_index c) k = Some a" using mem lru_okD(5) [OF assms(1)] by blast
  have but: "butlast (lru_order c) = without a (lru_order c)"
    using butlast_without [OF assms(2) lru_okD(2) [OF assms(1)]] last by simp
  have "node_at a (lru_order c) = Some (k, v)"
    using mem lru_okD(2) [OF assms(1)] by (simp add: node_at_def)
  then have "lru_ok (c\<lparr>lru_order := without a (lru_order c), lru_index := om_erase k (lru_index c)\<rparr>)"
    using Erase_refines [OF assms(1), of k] idx by (simp add: Lru_Erase_def)
  moreover have "length (without a (lru_order c)) = cap"
    using assms(3) by (simp flip: but)
  ultimately show ?thesis
    using assms(4) but last by (simp add: lru_ok_def)
qed

lemma Put_refines:
  assumes "lru_ok c"
  shows "\<exists>c'. Lru_Put k v c = Some c' \<and> lru_ok c' \<and> recency c' = recency_put (lru_capacity c) k v (recency c) \<and>
    lru_capacity c' = lru_capacity c"
proof (cases "om_find (lru_index c) k")
  case (Some a)
  then obtain w where w: "node_at a (lru_order c) = Some (k, w)" "(a, k, w) \<in> set (lru_order c)"
    using indexed_node [OF assms] by blast
  let ?c = "c\<lparr>lru_order := (a, k, v) # without a (lru_order c)\<rparr>"
  have ok: "lru_ok ?c" by (rule lru_ok_front [OF assms w(2)])
  have "recency ?c = (k, v) # drop_key k (recency c)"
    using without_recency [OF assms w(2)] by (simp add: recency_def)
  moreover have "length (recency ?c) \<le> lru_capacity c" using lru_okD(6) [OF ok] by (simp add: recency_def)
  ultimately show ?thesis using Some w ok by (simp add: Lru_Put_def recency_put_def)
next
  case None
  let ?c = "c\<lparr>lru_order := (lru_next c, k, v) # lru_order c, lru_index := om_set k (lru_next c) (lru_index c),
    lru_next := Suc (lru_next c), lru_capacity := Suc (lru_capacity c)\<rparr>"
  note ok = lru_ok_insert [OF assms None, of v]
  have len: "length (om_set k (lru_next c) (lru_index c)) = Suc (length (lru_order c))"
    using index_size [OF ok] by simp
  have "k \<notin> fst ` set (recency c)"
    using None recency_find [OF assms, of k] by (simp add: map_of_eq_None_iff)
  then have drop: "drop_key k (recency c) = recency c" by (force simp: drop_key_def filter_id_conv)
  show ?thesis
  proof (cases "lru_capacity c < Suc (length (lru_order c))")
    case True
    then have full: "length (lru_order c) = lru_capacity c" using lru_okD(6) [OF assms] by simp
    let ?o = "(lru_next c, k, v) # lru_order c"
    let ?e = "c\<lparr>lru_next := Suc (lru_next c), lru_order := butlast ?o,
      lru_index := om_erase (fst (snd (last ?o))) (om_set k (lru_next c) (lru_index c))\<rparr>"
    have put: "Lru_Put k v c = Some ?e"
      unfolding Lru_Put_def None Let_def using True len by simp
    have "lru_ok (?c\<lparr>lru_order := butlast ?o, lru_index := lru_index ?e, lru_capacity := lru_capacity c\<rparr>)"
      using lru_ok_evict [OF ok, of "lru_capacity c"] full lru_okD(7) [OF assms] by simp
    then have "lru_ok ?e" by (simp add: lru_ok_def)
    moreover have "recency ?e = take (lru_capacity c) ((k, v) # recency c)"
      using full by (simp add: recency_def butlast_conv_take flip: take_map)
    ultimately show ?thesis
      using put drop by (simp add: recency_put_def)
  next
    case False
    then have "lru_ok (?c\<lparr>lru_capacity := lru_capacity c\<rparr>)" using ok lru_okD(7) [OF assms] by (simp add: lru_ok_def)
    then have "lru_ok (c\<lparr>lru_next := Suc (lru_next c), lru_order := lru_order ?c, lru_index := lru_index ?c\<rparr>)"
      by (simp add: lru_ok_def)
    moreover have "Lru_Put k v c = Some (c\<lparr>lru_next := Suc (lru_next c), lru_order := lru_order ?c, lru_index := lru_index ?c\<rparr>)"
      unfolding Lru_Put_def None Let_def using False len by simp
    ultimately show ?thesis
      using False drop by (simp add: recency_put_def recency_def)
  qed
qed

lemma Clear_refines:
  "lru_ok c \<Longrightarrow> lru_ok (Lru_Clear c) \<and> recency (Lru_Clear c) = [] \<and> lru_capacity (Lru_Clear c) = lru_capacity c"
  by (simp add: lru_ok_def Lru_Clear_def recency_def om_find_def)

section \<open>The contract of a lookup cache\<close>

text \<open>A cache may forget any entry when it stores another one, but it never shows a value that was not stored.\<close>

locale lookup_cache =
  fixes inv :: "'c \<Rightarrow> bool" and contents :: "'c \<Rightarrow> 'k \<rightharpoonup> 'v"
    and get :: "'k \<Rightarrow> 'c \<Rightarrow> ('v option \<times> 'c) option"
    and put :: "'k \<Rightarrow> 'v \<Rightarrow> 'c \<Rightarrow> 'c option" and erase :: "'k \<Rightarrow> 'c \<Rightarrow> 'c option"
  assumes get_ok: "inv c \<Longrightarrow> \<exists>c'. get k c = Some (contents c k, c') \<and> inv c' \<and> contents c' = contents c"
    and put_ok: "inv c \<Longrightarrow>
      \<exists>c'. put k v c = Some c' \<and> inv c' \<and> contents c' k = Some v \<and> contents c' \<subseteq>\<^sub>m (contents c)(k \<mapsto> v)"
    and erase_ok: "inv c \<Longrightarrow> \<exists>c'. erase k c = Some c' \<and> inv c' \<and> contents c' = (contents c)(k := None)"
begin

text \<open>A cache whose entries all come from a source of truth stays so.\<close>

lemma put_coherent:
  assumes "inv c" and "contents c \<subseteq>\<^sub>m m" and "put k v c = Some c'"
  shows "contents c' \<subseteq>\<^sub>m m(k \<mapsto> v)"
proof -
  have "contents c' \<subseteq>\<^sub>m (contents c)(k \<mapsto> v)" using put_ok [OF assms(1), of k v] assms(3) by auto
  moreover have "(contents c)(k \<mapsto> v) \<subseteq>\<^sub>m m(k \<mapsto> v)" by (rule map_le_upd [OF assms(2)])
  ultimately show ?thesis by (rule map_le_trans)
qed

lemma erase_coherent:
  assumes "inv c" and "contents c \<subseteq>\<^sub>m m" and "erase k c = Some c'"
  shows "contents c' \<subseteq>\<^sub>m m(k := None)"
  using erase_ok [OF assms(1), of k] assms(2,3) by (auto simp: map_le_def)

end

definition lru_contents :: "('k, 'v) LruCache \<Rightarrow> 'k \<rightharpoonup> 'v" where
  "lru_contents c = map_of (recency c)"

lemma drop_key_map_of: "map_of (drop_key k xs) = (map_of xs)(k := None)"
  by (induction xs) (auto simp: drop_key_def)

lemma map_of_take_le: "distinct (map fst xs) \<Longrightarrow> map_of (take n xs) \<subseteq>\<^sub>m map_of xs"
  by (metis append_take_drop_id map_add_le_mapI map_le_iff_map_add_commute map_le_map_add map_of_append map_add_comm
      distinct_append map_append list.set_map disjoint_iff dom_map_of_conv_image_fst)

interpretation lru: lookup_cache lru_ok lru_contents Lru_Get Lru_Put Lru_Erase
proof
  fix c :: "('k::linorder, 'v) LruCache" and k v
  assume ok: "lru_ok c"
  have d: "distinct (map fst ((k, v) # drop_key k (recency c)))"
    using lru_okD(3) [OF ok] by (auto simp: drop_key_def distinct_map_filter recency_keys)
  show "\<exists>c'. Lru_Get k c = Some (lru_contents c k, c') \<and> lru_ok c' \<and> lru_contents c' = lru_contents c"
    using Get_refines [OF ok, of k]
    by (auto simp: lru_contents_def recency_get_def drop_key_map_of fun_eq_iff split: option.splits)
  obtain c' where c': "Lru_Put k v c = Some c'" "lru_ok c'" "recency c' = recency_put (lru_capacity c) k v (recency c)"
    using Put_refines [OF ok] by blast
  have "lru_contents c' \<subseteq>\<^sub>m (lru_contents c)(k \<mapsto> v)"
    using map_of_take_le [OF d, of "lru_capacity c"] c'(3)
    by (simp add: lru_contents_def recency_put_def drop_key_map_of)
  moreover have "lru_contents c' k = Some v"
    using c'(3) lru_okD(7) [OF ok] by (cases "lru_capacity c") (simp_all add: lru_contents_def recency_put_def)
  ultimately show "\<exists>c'. Lru_Put k v c = Some c' \<and> lru_ok c' \<and> lru_contents c' k = Some v \<and>
      lru_contents c' \<subseteq>\<^sub>m (lru_contents c)(k \<mapsto> v)"
    using c'(1,2) by blast
  show "\<exists>c'. Lru_Erase k c = Some c' \<and> lru_ok c' \<and> lru_contents c' = (lru_contents c)(k := None)"
    using Erase_refines [OF ok, of k] by (auto simp: lru_contents_def drop_key_map_of)
qed

section \<open>Runs\<close>

datatype ('k, 'v) lru_op = OpGet 'k | OpPut 'k 'v | OpErase 'k | OpClear

text \<open>The values returned by the lookups of a sequence of calls, on the cache and on the recency list.\<close>

fun lru_run :: "('k::linorder, 'v) lru_op list \<Rightarrow> ('k, 'v) LruCache \<Rightarrow> ('v option list \<times> ('k, 'v) LruCache) option" where
  "lru_run [] c = Some ([], c)"
| "lru_run (OpGet k # ops) c =
    (case Lru_Get k c of None \<Rightarrow> None | Some (r, c) \<Rightarrow> map_option (\<lambda>(rs, c). (r # rs, c)) (lru_run ops c))"
| "lru_run (OpPut k v # ops) c = (case Lru_Put k v c of None \<Rightarrow> None | Some c \<Rightarrow> lru_run ops c)"
| "lru_run (OpErase k # ops) c = (case Lru_Erase k c of None \<Rightarrow> None | Some c \<Rightarrow> lru_run ops c)"
| "lru_run (OpClear # ops) c = lru_run ops (Lru_Clear c)"

fun recency_run :: "nat \<Rightarrow> ('k, 'v) lru_op list \<Rightarrow> ('k \<times> 'v) list \<Rightarrow> 'v option list \<times> ('k \<times> 'v) list" where
  "recency_run cap [] xs = ([], xs)"
| "recency_run cap (OpGet k # ops) xs =
    (let (r, xs) = recency_get k xs; (rs, xs) = recency_run cap ops xs in (r # rs, xs))"
| "recency_run cap (OpPut k v # ops) xs = recency_run cap ops (recency_put cap k v xs)"
| "recency_run cap (OpErase k # ops) xs = recency_run cap ops (drop_key k xs)"
| "recency_run cap (OpClear # ops) xs = recency_run cap ops []"

lemma lru_run_refines:
  "lru_ok c \<Longrightarrow> \<exists>c'. lru_run ops c = Some (fst (recency_run (lru_capacity c) ops (recency c)), c') \<and> lru_ok c' \<and>
    recency c' = snd (recency_run (lru_capacity c) ops (recency c)) \<and> lru_capacity c' = lru_capacity c"
proof (induction ops arbitrary: c)
  case (Cons op ops)
  show ?case
  proof (cases op)
    case (OpGet k)
    obtain c1 where c1: "Lru_Get k c = Some (fst (recency_get k (recency c)), c1)" "lru_ok c1"
        "recency c1 = snd (recency_get k (recency c))" "lru_capacity c1 = lru_capacity c"
      using Get_refines [OF Cons.prems] by blast
    show ?thesis using Cons.IH [OF c1(2)] c1 OpGet by (auto simp: case_prod_beta Let_def)
  next
    case (OpPut k v)
    obtain c1 where c1: "Lru_Put k v c = Some c1" "lru_ok c1"
        "recency c1 = recency_put (lru_capacity c) k v (recency c)" "lru_capacity c1 = lru_capacity c"
      using Put_refines [OF Cons.prems] by blast
    show ?thesis using Cons.IH [OF c1(2)] c1 OpPut by simp
  next
    case (OpErase k)
    obtain c1 where c1: "Lru_Erase k c = Some c1" "lru_ok c1" "recency c1 = drop_key k (recency c)"
        "lru_capacity c1 = lru_capacity c"
      using Erase_refines [OF Cons.prems] by blast
    show ?thesis using Cons.IH [OF c1(2)] c1 OpErase by simp
  next
    case OpClear
    show ?thesis using Cons.IH [of "Lru_Clear c"] Clear_refines [OF Cons.prems] OpClear by simp
  qed
qed simp

text \<open>
  C27. The list-plus-index cache is a recency list: from a new cache of any requested capacity, every
  sequence of \<open>Get\<close>, \<open>Put\<close>, \<open>Erase\<close> and \<open>Clear\<close> runs without following a dangling iterator, its lookups
  return what a plain list ordered by last use and cut at the capacity returns, and \<open>size()\<close> never
  exceeds the capacity.
\<close>

theorem lru_is_recency_list:
  "\<exists>c. lru_run ops (Lru_new n :: ('k::linorder, 'v) LruCache) = Some (fst (recency_run (max 1 n) ops []), c) \<and>
    recency c = snd (recency_run (max 1 n) ops []) \<and> Lru_size c \<le> max 1 n"
proof -
  have cap: "lru_capacity (Lru_new n :: ('k, 'v) LruCache) = max 1 n" and "recency (Lru_new n :: ('k, 'v) LruCache) = []"
    by (simp_all add: Lru_new_def recency_def max_def)
  then show ?thesis
    using lru_run_refines [OF lru_ok_new, of ops n] lru_okD(6) index_size by (metis Lru_size_def)
qed

end
