(* ===== verification/Caching_View.thy ===== *)
theory Caching_View
  imports Lru_Cache Metadata_Repository
begin

text \<open>
  \<open>include/cluster/caching_metadata_view.h\<close>: a cache of object locations in front of another metadata view.
  The operations of the wrapped view are arguments. \<open>LookupObject\<close> is cut at its lock boundaries, so
  that interleavings with other threads can be written down.
\<close>

section \<open>The view\<close>

record 's CachingMetadataView =
  cv_inner :: 's
  cv_cache :: "(string, ObjectLocation) LruCache"

definition CachingMetadataView_new :: "'s \<Rightarrow> nat \<Rightarrow> 's CachingMetadataView" where
  "CachingMetadataView_new inner capacity = \<lparr>cv_inner = inner, cv_cache = Lru_new capacity\<rparr>"

text \<open>First locked region of \<open>LookupObject\<close>: the probe. Then the inner lookup, and the second region: the fill.\<close>

definition Lookup_probe :: "string \<Rightarrow> 's CachingMetadataView \<Rightarrow> (ObjectLocation option \<times> 's CachingMetadataView) option" where
  "Lookup_probe key cv = map_option (\<lambda>(hit, c). (hit, cv\<lparr>cv_cache := c\<rparr>)) (Lru_Get key (cv_cache cv))"

definition Lookup_inner ::
  "(string \<Rightarrow> 's \<Rightarrow> ObjectLocation StatusOr \<times> 's) \<Rightarrow> string \<Rightarrow> 's CachingMetadataView
    \<Rightarrow> ObjectLocation StatusOr \<times> 's CachingMetadataView" where
  "Lookup_inner look key cv = (let (result, s) = look key (cv_inner cv) in (result, cv\<lparr>cv_inner := s\<rparr>))"

definition Lookup_fill :: "string \<Rightarrow> ObjectLocation StatusOr \<Rightarrow> 's CachingMetadataView \<Rightarrow> 's CachingMetadataView option" where
  "Lookup_fill key result cv =
    (case result of
       Inl _ \<Rightarrow> Some cv
     | Inr loc \<Rightarrow> map_option (\<lambda>c. cv\<lparr>cv_cache := c\<rparr>) (Lru_Put key loc (cv_cache cv)))"

definition Caching_LookupObject ::
  "(string \<Rightarrow> 's \<Rightarrow> ObjectLocation StatusOr \<times> 's) \<Rightarrow> string \<Rightarrow> 's CachingMetadataView
    \<Rightarrow> (ObjectLocation StatusOr \<times> 's CachingMetadataView) option" where
  "Caching_LookupObject look key cv =
    (case Lookup_probe key cv of
       None \<Rightarrow> None
     | Some (Some loc, cv) \<Rightarrow> Some (Inr loc, cv)
     | Some (None, cv) \<Rightarrow>
         let (result, cv) = Lookup_inner look key cv
         in map_option (\<lambda>cv. (result, cv)) (Lookup_fill key result cv))"

definition Caching_RegisterObject ::
  "(ObjectLocation \<Rightarrow> 's \<Rightarrow> Status \<times> 's) \<Rightarrow> ObjectLocation \<Rightarrow> 's CachingMetadataView
    \<Rightarrow> (Status \<times> 's CachingMetadataView) option" where
  "Caching_RegisterObject register loc cv =
    (let (st, s) = register loc (cv_inner cv); cv = cv\<lparr>cv_inner := s\<rparr>
     in if ok st then map_option (\<lambda>c. (st, cv\<lparr>cv_cache := c\<rparr>)) (Lru_Put (ol_key loc) loc (cv_cache cv))
        else Some (st, cv))"

definition Caching_RemoveObject ::
  "(string \<Rightarrow> 's \<Rightarrow> Status \<times> 's) \<Rightarrow> string \<Rightarrow> 's CachingMetadataView \<Rightarrow> (Status \<times> 's CachingMetadataView) option" where
  "Caching_RemoveObject remove key cv =
    (let (st, s) = remove key (cv_inner cv)
     in map_option (\<lambda>c. (st, cv\<lparr>cv_inner := s, cv_cache := c\<rparr>)) (Lru_Erase key (cv_cache cv)))"

definition Caching_PlacementFor :: "(string \<Rightarrow> nat \<Rightarrow> 's \<Rightarrow> string list) \<Rightarrow> string \<Rightarrow> nat \<Rightarrow> 's CachingMetadataView \<Rightarrow> string list" where
  "Caching_PlacementFor placement key rf cv = placement key rf (cv_inner cv)"

definition Caching_ListObjects ::
  "(string \<Rightarrow> 's \<Rightarrow> ObjectLocation list StatusOr) \<Rightarrow> string \<Rightarrow> 's CachingMetadataView \<Rightarrow> ObjectLocation list StatusOr" where
  "Caching_ListObjects list_objects prefix cv = list_objects prefix (cv_inner cv)"

section \<open>A cached view is a view\<close>

text \<open>
  Coherence: the cache holds only what the wrapped view shows. It is proved in the contract of the
  wrapped view, so that it holds for every view the cache may be put in front of.
\<close>

context metadata_view
begin

definition coherent_view :: "'s CachingMetadataView \<Rightarrow> bool" where
  "coherent_view cv \<longleftrightarrow> inv (cv_inner cv) \<and> lru_ok (cv_cache cv) \<and> lru_contents (cv_cache cv) \<subseteq>\<^sub>m view (cv_inner cv)"

lemma cached_register:
  assumes "coherent_view cv" and "\<not> ol_deleted loc"
  shows "\<exists>st cv'. Caching_RegisterObject register loc cv = Some (st, cv') \<and> ok st \<and> coherent_view cv' \<and>
    register loc (cv_inner cv) = (st, cv_inner cv')"
proof -
  obtain st s where s: "register loc (cv_inner cv) = (st, s)" by (metis surj_pair)
  obtain c where c: "Lru_Put (ol_key loc) loc (cv_cache cv) = Some c" "lru_ok c"
    using lru.put_ok [of "cv_cache cv" "ol_key loc" loc] assms(1) by (auto simp: coherent_view_def)
  have r: "ok st \<and> inv s \<and> view s = (view (cv_inner cv))(ol_key loc \<mapsto> loc)"
    using register_ok [OF _ assms(2) s] assms(1) by (simp add: coherent_view_def)
  have "lru_contents c \<subseteq>\<^sub>m (view (cv_inner cv))(ol_key loc \<mapsto> loc)"
    using lru.put_coherent [OF _ _ c(1)] assms(1) by (simp add: coherent_view_def)
  with s c r show ?thesis
    by (simp add: Caching_RegisterObject_def coherent_view_def)
qed

lemma cached_look:
  assumes "coherent_view cv"
  shows "\<exists>cv'. Caching_LookupObject look key cv = Some (fst (look key (cv_inner cv)), cv') \<and> coherent_view cv' \<and>
    view (cv_inner cv') = view (cv_inner cv)"
proof -
  obtain r s where s: "look key (cv_inner cv) = (r, s)" by (metis surj_pair)
  have L: "inv s" "view s = view (cv_inner cv)"
      "r = (case view (cv_inner cv) key of None \<Rightarrow> Inl (no_metadata key) | Some loc \<Rightarrow> Inr loc)"
    using look_view [OF _ s] assms by (simp_all add: coherent_view_def)
  obtain c where c: "Lru_Get key (cv_cache cv) = Some (lru_contents (cv_cache cv) key, c)" "lru_ok c"
      "lru_contents c = lru_contents (cv_cache cv)"
    using lru.get_ok [of "cv_cache cv" key] assms by (auto simp: coherent_view_def)
  show ?thesis
  proof (cases "lru_contents (cv_cache cv) key")
    case (Some loc)
    then have "view (cv_inner cv) key = Some loc"
      using assms unfolding coherent_view_def map_le_def by (metis domI)
    then show ?thesis
      using s L c Some assms by (simp add: Caching_LookupObject_def Lookup_probe_def coherent_view_def)
  next
    case None
    have probe: "Lookup_probe key cv = Some (None, cv\<lparr>cv_cache := c\<rparr>)" using c None by (simp add: Lookup_probe_def)
    have le: "lru_contents c \<subseteq>\<^sub>m view s" using assms c(3) L(2) by (simp add: coherent_view_def)
    show ?thesis
    proof (cases "view (cv_inner cv) key")
      case None
      then show ?thesis
        using probe s L c(2) le by (simp add: Caching_LookupObject_def Lookup_inner_def Lookup_fill_def coherent_view_def)
    next
      case (Some loc)
      obtain c' where c': "Lru_Put key loc c = Some c'" "lru_ok c'" using lru.put_ok [OF c(2)] by blast
      have "lru_contents c' \<subseteq>\<^sub>m (view s)(key \<mapsto> loc)" by (rule lru.put_coherent [OF c(2) le c'(1)])
      moreover have "(view s)(key \<mapsto> loc) = view s" using Some L(2) by (simp add: fun_upd_idem)
      ultimately show ?thesis
        using probe s L c'(1,2) Some
        by (simp add: Caching_LookupObject_def Lookup_inner_def Lookup_fill_def coherent_view_def)
    qed
  qed
qed

lemma cached_remove:
  assumes "coherent_view cv"
  shows "\<exists>st cv'. Caching_RemoveObject remove key cv = Some (st, cv') \<and> coherent_view cv' \<and>
    remove key (cv_inner cv) = (st, cv_inner cv')"
proof -
  obtain st s where s: "remove key (cv_inner cv) = (st, s)" by (metis surj_pair)
  obtain c where c: "Lru_Erase key (cv_cache cv) = Some c" "lru_ok c"
    using lru.erase_ok [of "cv_cache cv" key] assms by (auto simp: coherent_view_def)
  have "lru_contents c \<subseteq>\<^sub>m (view (cv_inner cv))(key := None)"
    using lru.erase_coherent [OF _ _ c(1)] assms by (simp add: coherent_view_def)
  then show ?thesis
    using s c remove_view [OF _ s] assms by (simp add: Caching_RemoveObject_def coherent_view_def)
qed

end
definition cv_register :: "ObjectLocation \<Rightarrow> MetadataRepository CachingMetadataView \<Rightarrow> Status \<times> MetadataRepository CachingMetadataView" where
  "cv_register loc cv = the (Caching_RegisterObject RegisterObject loc cv)"

definition cv_look :: "string \<Rightarrow> MetadataRepository CachingMetadataView \<Rightarrow> ObjectLocation StatusOr \<times> MetadataRepository CachingMetadataView" where
  "cv_look key cv = the (Caching_LookupObject repo_look key cv)"

definition cv_remove :: "string \<Rightarrow> MetadataRepository CachingMetadataView \<Rightarrow> Status \<times> MetadataRepository CachingMetadataView" where
  "cv_remove key cv = the (Caching_RemoveObject RemoveObject key cv)"

interpretation cached: metadata_view repo.coherent_view "\<lambda>cv. repo_view (cv_inner cv)" cv_register cv_look cv_remove
proof
  fix s loc st s'
  assume co: "repo.coherent_view s" and live: "\<not> ol_deleted loc" and "cv_register loc s = (st, s')"
  then have "ok st \<and> repo.coherent_view s' \<and> RegisterObject loc (cv_inner s) = (st, cv_inner s')"
    using repo.cached_register [OF co live] by (auto simp: cv_register_def)
  then show "ok st \<and> repo.coherent_view s' \<and> repo_view (cv_inner s') = (repo_view (cv_inner s))(ol_key loc \<mapsto> loc)"
    using repo.register_ok [OF _ live, of "cv_inner s" st "cv_inner s'"] co by (simp add: repo.coherent_view_def)
next
  fix s key r s'
  assume co: "repo.coherent_view s" and "cv_look key s = (r, s')"
  then have "repo.coherent_view s' \<and> repo_view (cv_inner s') = repo_view (cv_inner s) \<and> r = LookupObject key (cv_inner s)"
    using repo.cached_look [OF co, of key] by (auto simp: cv_look_def repo_look_def)
  then show "repo.coherent_view s' \<and> repo_view (cv_inner s') = repo_view (cv_inner s) \<and>
      r = (case repo_view (cv_inner s) key of None \<Rightarrow> Inl (no_metadata key) | Some loc \<Rightarrow> Inr loc)"
    by (simp add: LookupObject_view)
next
  fix s key st s'
  assume co: "repo.coherent_view s" and "cv_remove key s = (st, s')"
  then have "repo.coherent_view s' \<and> RemoveObject key (cv_inner s) = (st, cv_inner s')"
    using repo.cached_remove [OF co, of key] by (auto simp: cv_remove_def)
  then show "repo.coherent_view s' \<and> repo_view (cv_inner s') = (repo_view (cv_inner s))(key := None) \<and>
      (ok st \<longleftrightarrow> repo_view (cv_inner s) key \<noteq> None)"
    using repo.remove_view [of "cv_inner s" key st "cv_inner s'"] co by (simp add: repo.coherent_view_def)
qed

section \<open>Properties\<close>

datatype view_op = ViewLookup string | ViewRegister ObjectLocation | ViewRemove string

datatype view_result = Looked "ObjectLocation StatusOr" | Done Status

text \<open>A sequence of calls on the bare repository, and on the cached one (\<open>None\<close>: a dangling iterator).\<close>

fun repo_run :: "view_op list \<Rightarrow> MetadataRepository \<Rightarrow> view_result list" where
  "repo_run [] m = []"
| "repo_run (ViewLookup key # ops) m = Looked (LookupObject key m) # repo_run ops m"
| "repo_run (ViewRegister loc # ops) m = (let (st, m) = RegisterObject loc m in Done st # repo_run ops m)"
| "repo_run (ViewRemove key # ops) m = (let (st, m) = RemoveObject key m in Done st # repo_run ops m)"

fun cached_run :: "view_op list \<Rightarrow> MetadataRepository CachingMetadataView \<Rightarrow> view_result list option" where
  "cached_run [] cv = Some []"
| "cached_run (ViewLookup key # ops) cv =
    (case Caching_LookupObject repo_look key cv of None \<Rightarrow> None
     | Some (r, cv) \<Rightarrow> map_option ((#) (Looked r)) (cached_run ops cv))"
| "cached_run (ViewRegister loc # ops) cv =
    (case Caching_RegisterObject RegisterObject loc cv of None \<Rightarrow> None
     | Some (st, cv) \<Rightarrow> map_option ((#) (Done st)) (cached_run ops cv))"
| "cached_run (ViewRemove key # ops) cv =
    (case Caching_RemoveObject RemoveObject key cv of None \<Rightarrow> None
     | Some (st, cv) \<Rightarrow> map_option ((#) (Done st)) (cached_run ops cv))"

lemma cached_look_inner:
  "Caching_LookupObject repo_look key cv = Some (r, cv') \<Longrightarrow> cv_inner cv' = cv_inner cv"
  by (auto simp: Caching_LookupObject_def Lookup_probe_def Lookup_inner_def Lookup_fill_def repo_look_def
      split: option.splits sum.splits prod.splits)

lemma cached_run_repo_run:
  "repo.coherent_view cv \<Longrightarrow> \<forall>loc. ViewRegister loc \<in> set ops \<longrightarrow> \<not> ol_deleted loc \<Longrightarrow>
    cached_run ops cv = Some (repo_run ops (cv_inner cv))"
proof (induction ops arbitrary: cv)
  case (Cons op ops)
  show ?case
  proof (cases op)
    case (ViewLookup key)
    obtain cv' where cv': "Caching_LookupObject repo_look key cv = Some (LookupObject key (cv_inner cv), cv')"
        "repo.coherent_view cv'"
      using repo.cached_look [OF Cons.prems(1), of key] by (auto simp: repo_look_def)
    show ?thesis
      using Cons.IH [OF cv'(2)] Cons.prems(2) cv'(1) cached_look_inner [OF cv'(1)] ViewLookup by simp
  next
    case (ViewRegister loc)
    then obtain st cv' where cv': "Caching_RegisterObject RegisterObject loc cv = Some (st, cv')" "repo.coherent_view cv'"
        "RegisterObject loc (cv_inner cv) = (st, cv_inner cv')"
      using repo.cached_register [OF Cons.prems(1), of loc] Cons.prems(2) by auto
    show ?thesis using Cons.IH [OF cv'(2)] Cons.prems(2) cv' ViewRegister by simp
  next
    case (ViewRemove key)
    obtain st cv' where cv': "Caching_RemoveObject RemoveObject key cv = Some (st, cv')" "repo.coherent_view cv'"
        "RemoveObject key (cv_inner cv) = (st, cv_inner cv')"
      using repo.cached_remove [OF Cons.prems(1), of key] by auto
    show ?thesis using Cons.IH [OF cv'(2)] Cons.prems(2) cv' ViewRemove by simp
  qed
qed simp

lemma coherent_new: "repo_ok m \<Longrightarrow> repo.coherent_view (CachingMetadataView_new m n)"
  by (simp add: repo.coherent_view_def CachingMetadataView_new_def lru_ok_new lru_contents_def)
     (simp add: Lru_new_def recency_def)

text \<open>
  C26. The cache is transparent to one caller at a time: put in front of a repository, with any capacity,
  every sequence of lookups, registrations of live locations and removals returns exactly what the
  repository alone returns.
\<close>

theorem cache_transparent:
  assumes "repo_ok m" and "\<forall>loc. ViewRegister loc \<in> set ops \<longrightarrow> \<not> ol_deleted loc"
  shows "cached_run ops (CachingMetadataView_new m n) = Some (repo_run ops m)"
  using cached_run_repo_run [OF coherent_new [OF assms(1)] assms(2)] by (simp add: CachingMetadataView_new_def)

definition loc_at :: "string \<Rightarrow> nat \<Rightarrow> ObjectLocation" where
  "loc_at key v = \<lparr>ol_key = key, ol_version = v, ol_checksum = '''', ol_size = 0, ol_deleted = False, ol_replicas = [''n1'']\<rparr>"

theorem cache_transparent_witness:
  "cached_run [ViewRegister (loc_at ''k'' 1), ViewLookup ''k'', ViewRemove ''k'', ViewLookup ''k'']
     (CachingMetadataView_new (MetadataRepository_new 1) 1) =
   Some [Done Status_Ok, Looked (Inr (loc_at ''k'' 1)), Done Status_Ok, Looked (Inl (no_metadata ''k''))]"
  using cache_transparent [OF repo_ok_new, of
      "[ViewRegister (loc_at ''k'' 1), ViewLookup ''k'', ViewRemove ''k'', ViewLookup ''k'']" 1 1]
  by (simp add: loc_at_def RegisterObject_def LookupObject_def RemoveObject_def MetadataRepository_new_def om_find_def
      no_metadata_def)

lemma cached_hits:
  "lru_ok (cv_cache cv) \<Longrightarrow> lru_contents (cv_cache cv) key = Some loc \<Longrightarrow>
    cached_run (replicate k (ViewLookup key)) cv = Some (replicate k (Looked (Inr loc)))"
proof (induction k arbitrary: cv)
  case (Suc k)
  obtain c where "Lru_Get key (cv_cache cv) = Some (Some loc, c)" "lru_ok c" "lru_contents c key = Some loc"
    using lru.get_ok [OF Suc.prems(1), of key] Suc.prems(2) by auto
  then show ?case using Suc.IH [of "cv\<lparr>cv_cache := c\<rparr>"] by (simp add: Caching_LookupObject_def Lookup_probe_def)
qed simp

text \<open>What another thread may do to a key between the inner lookup and the fill, and what the repository answers then.\<close>

definition key_changes ::
  "string \<Rightarrow> ObjectLocation \<Rightarrow> ((MetadataRepository CachingMetadataView \<Rightarrow> (Status \<times> MetadataRepository CachingMetadataView) option) \<times>
    ObjectLocation StatusOr) set" where
  "key_changes key new =
    {(Caching_RegisterObject RegisterObject new, Inr new), (Caching_RemoveObject RemoveObject key, Inl (no_metadata key))}"

lemma key_change:
  assumes "repo_ok (cv_inner cv)" and "lru_ok (cv_cache cv)" and "LookupObject key (cv_inner cv) = Inr old"
    and "\<not> ol_deleted new" and "ol_key new = key" and "(upd, now) \<in> key_changes key new"
  shows "\<exists>st cv'. upd cv = Some (st, cv') \<and> ok st \<and> lru_ok (cv_cache cv') \<and> LookupObject key (cv_inner cv') = now"
proof -
  have view: "repo_view (cv_inner cv) key = Some old" using assms(3) by (simp add: LookupObject_view split: option.splits)
  consider "upd = Caching_RegisterObject RegisterObject new" "now = Inr new"
    | "upd = Caching_RemoveObject RemoveObject key" "now = Inl (no_metadata key)"
    using assms(6) by (auto simp: key_changes_def)
  then show ?thesis
  proof cases
    case 1
    obtain c where c: "Lru_Put key new (cv_cache cv) = Some c" "lru_ok c" using lru.put_ok [OF assms(2)] by blast
    obtain st m where m: "RegisterObject new (cv_inner cv) = (st, m)" by fastforce
    then have "ok st" "LookupObject key m = now"
      using repo.register_ok [OF assms(1,4) m] assms(5) 1(2) by (simp_all add: LookupObject_view)
    then show ?thesis using 1(1) m c assms(5) by (simp add: Caching_RegisterObject_def)
  next
    case 2
    obtain c where c: "Lru_Erase key (cv_cache cv) = Some c" "lru_ok c" using lru.erase_ok [OF assms(2)] by blast
    obtain st m where m: "RemoveObject key (cv_inner cv) = (st, m)" by fastforce
    then have "ok st" "LookupObject key m = now"
      using repo.remove_view [OF assms(1) m] view 2(2) by (simp_all add: LookupObject_view)
    then show ?thesis using 2(1) m c by (simp add: Caching_RemoveObject_def)
  qed
qed

text \<open>
  C28. Between threads it is not. Let a key be registered and not in the cache, whatever else the repository and the
  cache hold. A thread that looks the key up misses and reads its location; before it stores what it read, another
  thread registers a new location of the key, or removes the object, and is told that it succeeded. Then every later
  lookup through the cache, however often it is made, answers with the old location, although the repository holds the
  new one or none: the class promises that a cached lookup never returns a stale version.
\<close>

theorem cache_race_returns_stale:
  assumes "repo_ok (cv_inner cv)" and "lru_ok (cv_cache cv)" and "lru_contents (cv_cache cv) key = None"
    and "LookupObject key (cv_inner cv) = Inr old" and "\<not> ol_deleted new" and "ol_key new = key"
    and "(upd, now) \<in> key_changes key new"
  shows "\<exists>cv1 cv2 st cv3 cv4. Lookup_probe key cv = Some (None, cv1) \<and> Lookup_inner repo_look key cv1 = (Inr old, cv2) \<and>
    upd cv2 = Some (st, cv3) \<and> ok st \<and> Lookup_fill key (Inr old) cv3 = Some cv4 \<and>
    LookupObject key (cv_inner cv4) = now \<and>
    cached_run (replicate k (ViewLookup key)) cv4 = Some (replicate k (Looked (Inr old)))"
proof -
  obtain c where c: "Lru_Get key (cv_cache cv) = Some (None, c)" "lru_ok c" using lru.get_ok [OF assms(2), of key] assms(3) by auto
  let ?cv = "cv\<lparr>cv_cache := c\<rparr>"
  obtain st cv3 where u: "upd ?cv = Some (st, cv3)" "ok st" "lru_ok (cv_cache cv3)" "LookupObject key (cv_inner cv3) = now"
    using key_change [of ?cv key old new upd now] assms c(2) by auto
  obtain c4 where c4: "Lru_Put key old (cv_cache cv3) = Some c4" "lru_ok c4" "lru_contents c4 key = Some old"
    using lru.put_ok [OF u(3), of key old] by blast
  have "cached_run (replicate k (ViewLookup key)) (cv3\<lparr>cv_cache := c4\<rparr>) = Some (replicate k (Looked (Inr old)))"
    using cached_hits [of "cv3\<lparr>cv_cache := c4\<rparr>"] c4 by simp
  moreover have "Lookup_probe key cv = Some (None, ?cv)" "Lookup_inner repo_look key ?cv = (Inr old, ?cv)"
      "Lookup_fill key (Inr old) cv3 = Some (cv3\<lparr>cv_cache := c4\<rparr>)"
    using c assms(4) c4 by (simp_all add: Lookup_probe_def Lookup_inner_def repo_look_def Lookup_fill_def)
  ultimately show ?thesis using u by (metis (no_types, lifting) CachingMetadataView.select_convs(1) CachingMetadataView.surjective CachingMetadataView.update_convs(2))
qed

theorem cache_race_returns_stale_witness:
  "\<exists>cv2 st cv3 cv4. Lookup_inner repo_look ''k'' cv2 = (Inr (loc_at ''k'' 1), cv2) \<and>
    Caching_RegisterObject RegisterObject (loc_at ''k'' 2) cv2 = Some (st, cv3) \<and> ok st \<and>
    Lookup_fill ''k'' (Inr (loc_at ''k'' 1)) cv3 = Some cv4 \<and> LookupObject ''k'' (cv_inner cv4) = Inr (loc_at ''k'' 2) \<and>
    cached_run [ViewLookup ''k'', ViewLookup ''k''] cv4 = Some [Looked (Inr (loc_at ''k'' 1)), Looked (Inr (loc_at ''k'' 1))]"
proof -
  let ?m = "snd (RegisterObject (loc_at ''k'' 1) (MetadataRepository_new 1))"
  have "repo_ok ?m" using repo.register_ok [OF repo_ok_new [of 1], of "loc_at ''k'' 1" Status_Ok ?m] by (simp add: loc_at_def RegisterObject_def)
  moreover have "LookupObject ''k'' ?m = Inr (loc_at ''k'' 1)"
    by (simp add: loc_at_def RegisterObject_def LookupObject_def MetadataRepository_new_def om_find_def)
  ultimately have "\<exists>cv1 cv2 st cv3 cv4. Lookup_probe ''k'' (CachingMetadataView_new ?m 8) = Some (None, cv1) \<and>
      Lookup_inner repo_look ''k'' cv1 = (Inr (loc_at ''k'' 1), cv2) \<and>
      Caching_RegisterObject RegisterObject (loc_at ''k'' 2) cv2 = Some (st, cv3) \<and> ok st \<and>
      Lookup_fill ''k'' (Inr (loc_at ''k'' 1)) cv3 = Some cv4 \<and> LookupObject ''k'' (cv_inner cv4) = Inr (loc_at ''k'' 2) \<and>
      cached_run (replicate 2 (ViewLookup ''k'')) cv4 = Some (replicate 2 (Looked (Inr (loc_at ''k'' 1))))"
    by (intro cache_race_returns_stale [where new = "loc_at ''k'' 2"])
       (simp_all add: CachingMetadataView_new_def lru_ok_new lru_contents_def key_changes_def, simp_all add: Lru_new_def recency_def loc_at_def)
  then show ?thesis by (auto simp: numeral_2_eq_2 Lookup_inner_def repo_look_def)
qed

end
