(* ===== verification/Failure_Detector.thy ===== *)
theory Failure_Detector
  imports Metadata_Repository
begin

text \<open>
  \<open>src/cluster/failure_detector.cc\<close>: per-node liveness driven by heartbeat outcomes. The theorems are over
  arbitrary histories of calls, for the node in question and any others.
\<close>

section \<open>The detector\<close>

record fd_entry =
  fd_state :: NodeState
  fd_misses :: nat

record FailureDetector =
  miss_threshold :: nat
  fd_nodes :: "(string, fd_entry) omap"

definition fd_entry_default :: fd_entry where
  "fd_entry_default = \<lparr>fd_state = kHealthy, fd_misses = 0\<rparr>"

definition FailureDetector_new :: "nat \<Rightarrow> FailureDetector" where
  "FailureDetector_new threshold = \<lparr>miss_threshold = (if threshold = 0 then 1 else threshold), fd_nodes = []\<rparr>"

text \<open>\<open>nodes_[id]\<close> default-constructs a missing entry.\<close>

definition fd_entry_of :: "string \<Rightarrow> FailureDetector \<Rightarrow> fd_entry" where
  "fd_entry_of node_id fd = (case om_find (fd_nodes fd) node_id of None \<Rightarrow> fd_entry_default | Some e \<Rightarrow> e)"

definition FD_AddNode :: "string \<Rightarrow> FailureDetector \<Rightarrow> FailureDetector" where
  "FD_AddNode node_id fd = fd\<lparr>fd_nodes := om_emplace node_id fd_entry_default (fd_nodes fd)\<rparr>"

definition RecordSuccess :: "string \<Rightarrow> FailureDetector \<Rightarrow> FailureDetector" where
  "RecordSuccess node_id fd =
    (let e = (fd_entry_of node_id fd)\<lparr>fd_misses := 0\<rparr>;
         st = (case fd_state e of
                 kUnavailableNode \<Rightarrow> kRecovering
               | kRecovering \<Rightarrow> kRecovering
               | kHealthy \<Rightarrow> kHealthy | kSuspect \<Rightarrow> kHealthy | kJoining \<Rightarrow> kHealthy)
     in fd\<lparr>fd_nodes := om_set node_id (e\<lparr>fd_state := st\<rparr>) (fd_nodes fd)\<rparr>)"

definition RecordFailure :: "string \<Rightarrow> FailureDetector \<Rightarrow> FailureDetector" where
  "RecordFailure node_id fd =
    (let e = fd_entry_of node_id fd; e = e\<lparr>fd_misses := u64_add (fd_misses e) 1\<rparr>;
         st = (if miss_threshold fd \<le> fd_misses e then kUnavailableNode
               else if fd_state e = kHealthy \<or> fd_state e = kJoining then kSuspect
               else fd_state e)
     in fd\<lparr>fd_nodes := om_set node_id (e\<lparr>fd_state := st\<rparr>) (fd_nodes fd)\<rparr>)"

definition RecordRepairComplete :: "string \<Rightarrow> FailureDetector \<Rightarrow> FailureDetector" where
  "RecordRepairComplete node_id fd =
    (case om_find (fd_nodes fd) node_id of
       None \<Rightarrow> fd
     | Some e \<Rightarrow>
         if fd_state e = kRecovering
         then fd\<lparr>fd_nodes := om_set node_id (e\<lparr>fd_state := kHealthy, fd_misses := 0\<rparr>) (fd_nodes fd)\<rparr>
         else fd)"

definition GetState :: "string \<Rightarrow> FailureDetector \<Rightarrow> NodeState" where
  "GetState node_id fd = (case om_find (fd_nodes fd) node_id of None \<Rightarrow> kJoining | Some e \<Rightarrow> fd_state e)"

definition consecutive_misses :: "string \<Rightarrow> FailureDetector \<Rightarrow> nat" where
  "consecutive_misses node_id fd = (case om_find (fd_nodes fd) node_id of None \<Rightarrow> 0 | Some e \<Rightarrow> fd_misses e)"

definition FD_Snapshot :: "FailureDetector \<Rightarrow> (string \<times> NodeState) list" where
  "FD_Snapshot fd = map (\<lambda>(id, e). (id, fd_state e)) (fd_nodes fd)"

section \<open>Histories\<close>

datatype heartbeat = AddEvent string | SuccessEvent string | FailureEvent string | RepairEvent string

fun beat :: "heartbeat \<Rightarrow> FailureDetector \<Rightarrow> FailureDetector" where
  "beat (AddEvent n) = FD_AddNode n"
| "beat (SuccessEvent n) = RecordSuccess n"
| "beat (FailureEvent n) = RecordFailure n"
| "beat (RepairEvent n) = RecordRepairComplete n"

fun about :: "heartbeat \<Rightarrow> string" where
  "about (AddEvent n) = n"
| "about (SuccessEvent n) = n"
| "about (FailureEvent n) = n"
| "about (RepairEvent n) = n"

definition beats :: "heartbeat list \<Rightarrow> FailureDetector \<Rightarrow> FailureDetector" where
  "beats hs fd = fold beat hs fd"

text \<open>The run of failures of a node at the end of a history, with additions and other nodes' events skipped.\<close>

fun trailing :: "string \<Rightarrow> heartbeat list \<Rightarrow> nat \<Rightarrow> nat" where
  "trailing n [] k = k"
| "trailing n (SuccessEvent m # hs) k = trailing n hs (if m = n then 0 else k)"
| "trailing n (FailureEvent m # hs) k = trailing n hs (if m = n then Suc k else k)"
| "trailing n (h # hs) k = trailing n hs k"

definition fd_ok :: "FailureDetector \<Rightarrow> bool" where
  "fd_ok fd \<longleftrightarrow> om_ok (fd_nodes fd) \<and> 0 < miss_threshold fd"

lemma fd_ok_new: "fd_ok (FailureDetector_new k)"
  by (simp add: fd_ok_def FailureDetector_new_def)

lemma beat_ok: "fd_ok fd \<Longrightarrow> fd_ok (beat h fd)"
  by (cases h)
     (auto simp: fd_ok_def FD_AddNode_def RecordSuccess_def RecordFailure_def RecordRepairComplete_def Let_def
       om_ok_emplace om.ok_set split: option.split)

lemma beats_ok: "fd_ok fd \<Longrightarrow> fd_ok (beats hs fd)"
  by (induction hs arbitrary: fd) (simp_all add: beats_def beat_ok)

lemma beat_threshold: "miss_threshold (beat h fd) = miss_threshold fd"
  by (cases h) (auto simp: FD_AddNode_def RecordSuccess_def RecordFailure_def RecordRepairComplete_def Let_def split: option.split)

lemma beat_other:
  "fd_ok fd \<Longrightarrow> about h \<noteq> n \<Longrightarrow> om_find (fd_nodes (beat h fd)) n = om_find (fd_nodes fd) n"
  by (cases h)
     (auto simp: fd_ok_def FD_AddNode_def RecordSuccess_def RecordFailure_def RecordRepairComplete_def Let_def
       om_find_emplace om.find_set split: option.split)

text \<open>What one call does to the entry of its node.\<close>

lemma beat_entry:
  assumes "fd_ok fd"
  shows "om_find (fd_nodes (RecordSuccess n fd)) n =
      Some \<lparr>fd_state = (if fd_state (fd_entry_of n fd) = kUnavailableNode \<or> fd_state (fd_entry_of n fd) = kRecovering
                       then kRecovering else kHealthy), fd_misses = 0\<rparr>"
    and "om_find (fd_nodes (RecordFailure n fd)) n =
      Some \<lparr>fd_state = (if miss_threshold fd \<le> u64_add (fd_misses (fd_entry_of n fd)) 1 then kUnavailableNode
                       else if fd_state (fd_entry_of n fd) = kHealthy \<or> fd_state (fd_entry_of n fd) = kJoining then kSuspect
                       else fd_state (fd_entry_of n fd)),
            fd_misses = u64_add (fd_misses (fd_entry_of n fd)) 1\<rparr>"
    and "fd_entry_of n (FD_AddNode n fd) = fd_entry_of n fd"
    and "fd_entry_of n (RecordRepairComplete n fd) =
      (if fd_state (fd_entry_of n fd) = kRecovering then \<lparr>fd_state = kHealthy, fd_misses = 0\<rparr> else fd_entry_of n fd)"
  using assms
  by (auto simp: fd_ok_def RecordSuccess_def RecordFailure_def FD_AddNode_def RecordRepairComplete_def Let_def om.find_set
      om_find_emplace fd_entry_of_def fd_entry_default_def split: option.splits NodeState.splits)

section \<open>Properties\<close>

lemma beat_entry_other: "fd_ok fd \<Longrightarrow> about h \<noteq> n \<Longrightarrow> fd_entry_of n (beat h fd) = fd_entry_of n fd"
  by (simp add: fd_entry_of_def beat_other)

lemma GetState_entry: "GetState n fd = kUnavailableNode \<longleftrightarrow> fd_state (fd_entry_of n fd) = kUnavailableNode"
  by (simp add: GetState_def fd_entry_of_def fd_entry_default_def split: option.split)

lemma entry_of_find: "om_find (fd_nodes fd) n = Some e \<Longrightarrow> fd_entry_of n fd = e"
  by (simp add: fd_entry_of_def)

text \<open>One event moves the miss counter no further than the run of failures.\<close>

lemma beat_misses:
  assumes "fd_ok fd" and "fd_misses (fd_entry_of n fd) \<le> k"
  shows "fd_misses (fd_entry_of n (beat h fd)) \<le> trailing n [h] k"
proof (cases "about h = n")
  case True
  then show ?thesis
    using assms beat_entry [OF assms(1), of n]
    by (cases h) (auto simp: u64_add_def entry_of_find intro: order_trans [OF mod_less_eq_dividend])
next
  case False
  then show ?thesis using assms beat_entry_other [OF assms(1) False] by (cases h) auto
qed

lemma trailing_append: "trailing n (xs @ ys) k = trailing n ys (trailing n xs k)"
  by (induction n xs k rule: trailing.induct) auto

lemma beats_snoc: "beats (hs @ [h]) fd = beat h (beats hs fd)"
  by (simp add: beats_def)

lemma beats_misses:
  "fd_ok fd \<Longrightarrow> fd_misses (fd_entry_of n fd) \<le> k \<Longrightarrow> fd_misses (fd_entry_of n (beats hs fd)) \<le> trailing n hs k"
proof (induction hs rule: rev_induct)
  case (snoc h hs)
  then show ?case
    using beat_misses [OF beats_ok [OF snoc.prems(1)], of n hs "trailing n hs k" h]
    by (simp add: beats_snoc trailing_append)
qed (simp add: beats_def)

lemma beats_threshold: "miss_threshold (beats hs fd) = miss_threshold fd"
  by (induction hs rule: rev_induct) (simp_all add: beats_snoc beat_threshold beats_def)

lemma becomes_unavailable:
  assumes "fd_ok fd" and "fd_state (fd_entry_of n fd) \<noteq> kUnavailableNode"
    and "fd_state (fd_entry_of n (beat h fd)) = kUnavailableNode"
  shows "miss_threshold fd \<le> fd_misses (fd_entry_of n (beat h fd))"
proof (cases "about h = n")
  case True
  then show ?thesis
    using assms beat_entry [OF assms(1), of n] by (cases h) (auto simp: entry_of_find split: if_splits)
next
  case False
  then show ?thesis using assms beat_entry_other by metis
qed

lemma new_entry: "fd_entry_of n (FailureDetector_new t) = fd_entry_default"
  by (simp add: fd_entry_of_def FailureDetector_new_def om_find_def)

lemma no_false_alarm:
  assumes "\<forall>k \<le> length hs. trailing n (take k hs) 0 < max 1 t"
  shows "fd_state (fd_entry_of n (beats hs (FailureDetector_new t))) \<noteq> kUnavailableNode"
  using assms
proof (induction hs rule: rev_induct)
  case Nil
  then show ?case by (simp add: beats_def new_entry fd_entry_default_def)
next
  case (snoc h hs)
  let ?fd = "beats hs (FailureDetector_new t)"
  have "\<forall>k \<le> length hs. trailing n (take k hs) 0 < max 1 t"
    using snoc.prems by (metis append_Nil2 butlast_snoc diff_is_0_eq le_SucI length_append_singleton take_0 take_append)
  then have before: "fd_state (fd_entry_of n ?fd) \<noteq> kUnavailableNode" by (rule snoc.IH)
  have "trailing n (hs @ [h]) 0 < max 1 t"
    using snoc.prems [rule_format, of "length (hs @ [h])"] by simp
  moreover have "fd_misses (fd_entry_of n (beats (hs @ [h]) (FailureDetector_new t))) \<le> trailing n (hs @ [h]) 0"
    by (rule beats_misses [OF fd_ok_new]) (simp add: new_entry fd_entry_default_def)
  moreover have "miss_threshold ?fd = max 1 t"
    by (simp add: beats_threshold FailureDetector_new_def max_def)
  ultimately show ?case
    using becomes_unavailable [OF beats_ok [OF fd_ok_new] before, of h] by (auto simp: beats_snoc)
qed

text \<open>Failures of the node only: the counter counts them all.\<close>

definition only_failures :: "string \<Rightarrow> heartbeat list \<Rightarrow> bool" where
  "only_failures n hs \<longleftrightarrow> (\<forall>h \<in> set hs. about h = n \<longrightarrow> h = FailureEvent n)"

definition failures :: "string \<Rightarrow> heartbeat list \<Rightarrow> nat" where
  "failures n hs = length (filter (\<lambda>h. h = FailureEvent n) hs)"

lemma failures_counted:
  assumes "only_failures n hs" and "fd_ok fd" and "fd_misses (fd_entry_of n fd) + length hs < u64_size"
  shows "fd_misses (fd_entry_of n (beats hs fd)) = fd_misses (fd_entry_of n fd) + failures n hs \<and>
    (0 < failures n hs \<and> miss_threshold fd \<le> fd_misses (fd_entry_of n fd) + failures n hs \<longrightarrow>
      fd_state (fd_entry_of n (beats hs fd)) = kUnavailableNode)"
  using assms(1,3)
proof (induction hs rule: rev_induct)
  case (snoc h hs)
  let ?fd = "beats hs fd"
  have IH: "fd_misses (fd_entry_of n ?fd) = fd_misses (fd_entry_of n fd) + failures n hs"
      "0 < failures n hs \<and> miss_threshold fd \<le> fd_misses (fd_entry_of n fd) + failures n hs \<Longrightarrow>
        fd_state (fd_entry_of n ?fd) = kUnavailableNode"
    using snoc by (simp_all add: only_failures_def)
  show ?case
  proof (cases "h = FailureEvent n")
    case True
    have "failures n hs \<le> length hs" and "failures n (hs @ [h]) = Suc (failures n hs)"
      using True by (simp_all add: failures_def)
    then have "u64_add (fd_misses (fd_entry_of n ?fd)) 1 = fd_misses (fd_entry_of n fd) + failures n (hs @ [h])"
      using snoc.prems(2) IH(1) by (simp add: u64_add_exact)
    then show ?thesis
      using entry_of_find [OF beat_entry(2) [OF beats_ok [OF assms(2)]], of n hs] True
      by (simp add: beats_snoc beats_threshold)
  next
    case False
    then have "about h \<noteq> n" using snoc.prems(1) by (auto simp: only_failures_def)
    then show ?thesis
      using IH False beat_entry_other [OF beats_ok [OF assms(2)]] by (simp add: beats_snoc failures_def)
  qed
qed (simp add: beats_def failures_def)

text \<open>
  C32. The miss threshold decides: a node is never reported unavailable as long as no moment of its history
  ends a run of that many failures without a success, and after any history it is reported unavailable
  once it has failed that often in a row, whatever the heartbeats of other nodes in between. A requested
  threshold of 0 counts as 1.
\<close>

theorem detector_threshold:
  assumes "length hs + length fs < u64_size"
  shows "((\<forall>k \<le> length hs. trailing n (take k hs) 0 < max 1 t) \<longrightarrow>
      GetState n (beats hs (FailureDetector_new t)) \<noteq> kUnavailableNode) \<and>
    (only_failures n fs \<and> max 1 t \<le> failures n fs \<longrightarrow>
      GetState n (beats (hs @ fs) (FailureDetector_new t)) = kUnavailableNode)"
proof (intro conjI impI)
  let ?new = "FailureDetector_new t"
  show "GetState n (beats hs ?new) \<noteq> kUnavailableNode"
    if quiet: "\<forall>k \<le> length hs. trailing n (take k hs) 0 < max 1 t"
    using no_false_alarm [OF quiet] by (simp add: GetState_entry)
  have "trailing n hs k \<le> k + length hs" for k
    by (induction n hs k rule: trailing.induct) (simp_all add: le_SucI split: if_splits)
  then have "fd_misses (fd_entry_of n (beats hs ?new)) \<le> length hs"
    using beats_misses [OF fd_ok_new, of n t 0 hs] by (force simp: new_entry fd_entry_default_def intro: order_trans)
  moreover have "beats (hs @ fs) ?new = beats fs (beats hs ?new)" by (simp add: beats_def)
  moreover have "miss_threshold (beats hs ?new) = max 1 t"
    by (simp add: beats_threshold FailureDetector_new_def max_def)
  ultimately show "GetState n (beats (hs @ fs) ?new) = kUnavailableNode"
    if fs: "only_failures n fs \<and> max 1 t \<le> failures n fs"
    using failures_counted [OF conjunct1 [OF fs] beats_ok [OF fd_ok_new], of hs t] assms fs by (auto simp: GetState_entry)
qed

theorem detector_threshold_witness:
  "GetState ''n'' (beats ([AddEvent ''n''] @ [FailureEvent ''n'', SuccessEvent ''m'', FailureEvent ''n''])
     (FailureDetector_new 2)) = kUnavailableNode \<and>
   GetState ''n'' (beats [FailureEvent ''n'', SuccessEvent ''n'', FailureEvent ''n''] (FailureDetector_new 2))
     \<noteq> kUnavailableNode"
proof -
  have a: "GetState ''n'' (beats ([AddEvent ''n''] @ [FailureEvent ''n'', SuccessEvent ''m'', FailureEvent ''n''])
      (FailureDetector_new 2)) = kUnavailableNode"
    using detector_threshold [of "[AddEvent ''n'']" "[FailureEvent ''n'', SuccessEvent ''m'', FailureEvent ''n'']" "''n''" 2]
    by (simp add: only_failures_def failures_def)
  have "\<forall>k \<le> length [FailureEvent ''n'', SuccessEvent ''n'', FailureEvent ''n''].
      trailing ''n'' (take k [FailureEvent ''n'', SuccessEvent ''n'', FailureEvent ''n'']) 0 < max 1 2"
    by (auto simp: le_Suc_eq numeral_2_eq_2)
  with a show ?thesis
    using detector_threshold [of "[FailureEvent ''n'', SuccessEvent ''n'', FailureEvent ''n'']" "[]" "''n''" 2] by simp
qed

text \<open>
  A node that was declared unavailable is not trusted again before it is repaired: until a repair of
  that node completes, whatever heartbeats arrive, it is reported unavailable or recovering.
\<close>

theorem detector_recovery:
  assumes "GetState n (beats hs (FailureDetector_new t)) = kUnavailableNode" and "RepairEvent n \<notin> set es"
  shows "GetState n (beats (hs @ es) (FailureDetector_new t)) \<in> {kUnavailableNode, kRecovering}"
  using assms(2)
proof (induction es rule: rev_induct)
  case (snoc h es)
  let ?fd = "beats (hs @ es) (FailureDetector_new t)"
  have ok: "fd_ok ?fd" by (rule beats_ok [OF fd_ok_new])
  have before: "GetState n ?fd \<in> {kUnavailableNode, kRecovering}" using snoc by simp
  then obtain e where e: "om_find (fd_nodes ?fd) n = Some e" "fd_state e \<in> {kUnavailableNode, kRecovering}"
    by (auto simp: GetState_def split: option.splits)
  have "GetState n (beat h ?fd) \<in> {kUnavailableNode, kRecovering}"
  proof (cases "about h = n")
    case True
    then show ?thesis
      using beat_entry(1,2) [OF ok, of n] e snoc.prems
      by (cases h) (auto simp: GetState_def fd_entry_of_def FD_AddNode_def om_emplace_def)
  next
    case False
    then show ?thesis using e beat_other [OF ok False] by (simp add: GetState_def)
  qed
  then show ?case by (simp flip: append_assoc add: beats_snoc)
qed (simp add: assms(1))

theorem detector_recovery_witness:
  "GetState ''n'' (beats ([FailureEvent ''n''] @ [SuccessEvent ''n'', SuccessEvent ''n'']) (FailureDetector_new 1))
     \<in> {kUnavailableNode, kRecovering}"
proof (rule detector_recovery)
  show "GetState ''n'' (beats [FailureEvent ''n''] (FailureDetector_new 1)) = kUnavailableNode"
    by (simp add: beats_def RecordFailure_def FailureDetector_new_def GetState_def fd_entry_of_def om_find_def
        fd_entry_default_def u64_add_def)
qed simp

end
