(* ===== verification/Thread_Pool.thy ===== *)
theory Thread_Pool
  imports Status Prelude
begin

text \<open>
  \<open>src/common/thread_pool.cc\<close>: fixed workers over a bounded queue. One definition per region between two
  acquisitions of \<open>mu_\<close> and one per notification, which the code makes after it has released the mutex; the step
  relation lets any caller and any worker move next. Whether a task throws is chosen freely.

  The condition variable is modelled with its wait set: a worker whose predicate is false in \<open>cv_.wait\<close> becomes
  \<open>Blocked\<close> and moves again only when a notification, or a spurious wake-up, makes it \<open>Ready\<close> to test the predicate
  anew. \<open>tp_unnotified\<close> counts the calls of \<open>Submit\<close> that have queued a task and not yet reached \<open>notify_one\<close>, and
  \<open>tp_stop_unnotified\<close> says that \<open>Shutdown\<close> has set \<open>stopping_\<close> and not yet reached \<open>notify_all\<close>.

  \<open>tp_accepted\<close> and \<open>tp_started\<close> are histories: the tasks \<open>Submit\<close> took, and those a worker took up.
\<close>

section \<open>The pool\<close>

datatype 't worker = Ready | Blocked | Running 't | Exited

record 't ThreadPool =
  tp_queue :: "'t list"
  tp_stopping :: bool
  tp_max_queue :: nat
  tp_workers :: "'t worker list"
  tp_completed :: nat
  tp_rejected :: nat
  tp_failed :: nat
  tp_unnotified :: nat
  tp_stop_unnotified :: bool
  tp_accepted :: "'t list"
  tp_started :: "'t list"

definition ThreadPool_new :: "nat \<Rightarrow> nat \<Rightarrow> 't ThreadPool" where
  "ThreadPool_new num_threads max_queue_size =
    \<lparr>tp_queue = [], tp_stopping = False, tp_max_queue = max 1 max_queue_size,
     tp_workers = replicate (max 1 num_threads) Ready, tp_completed = 0, tp_rejected = 0, tp_failed = 0,
     tp_unnotified = 0, tp_stop_unnotified = False, tp_accepted = [], tp_started = []\<rparr>"

text \<open>The locked region of \<open>Submit\<close>, and \<open>cv_.notify_one()\<close> behind it, which wakes a blocked worker \<open>i\<close> if there is one.\<close>

definition Submit :: "'t \<Rightarrow> 't ThreadPool \<Rightarrow> Status \<times> 't ThreadPool" where
  "Submit task p =
    (if tp_stopping p
     then (Unavailable ''thread pool is shutting down'', p\<lparr>tp_rejected := u64_add (tp_rejected p) 1\<rparr>)
     else if tp_max_queue p \<le> length (tp_queue p)
     then (Unavailable ''task queue is full'', p\<lparr>tp_rejected := u64_add (tp_rejected p) 1\<rparr>)
     else (Status_Ok, p\<lparr>tp_queue := tp_queue p @ [task], tp_unnotified := tp_unnotified p + 1, tp_accepted := tp_accepted p @ [task]\<rparr>))"

definition Submit_notify :: "nat \<Rightarrow> 't ThreadPool \<Rightarrow> 't ThreadPool" where
  "Submit_notify i p =
    p\<lparr>tp_unnotified := tp_unnotified p - 1,
      tp_workers := (if Blocked \<in> set (tp_workers p) then (tp_workers p)[i := Ready] else tp_workers p)\<rparr>"

text \<open>The locked region of \<open>WorkerLoop\<close> for worker \<open>i\<close>: it tests the predicate of the wait, and blocks if it is false.\<close>

definition WorkerLoop_take :: "nat \<Rightarrow> 't ThreadPool \<Rightarrow> 't ThreadPool" where
  "WorkerLoop_take i p =
    (if \<not> (tp_stopping p \<or> tp_queue p \<noteq> []) then p\<lparr>tp_workers := (tp_workers p)[i := Blocked]\<rparr>
     else case tp_queue p of
       [] \<Rightarrow> p\<lparr>tp_workers := (tp_workers p)[i := Exited]\<rparr>
     | task # rest \<Rightarrow>
         p\<lparr>tp_queue := rest, tp_workers := (tp_workers p)[i := Running task], tp_started := tp_started p @ [task]\<rparr>)"

definition WorkerLoop_finish :: "nat \<Rightarrow> bool \<Rightarrow> 't ThreadPool \<Rightarrow> 't ThreadPool" where
  "WorkerLoop_finish i threw p =
    (let p = p\<lparr>tp_workers := (tp_workers p)[i := Ready]\<rparr>
     in if threw then p\<lparr>tp_failed := u64_add (tp_failed p) 1\<rparr> else p\<lparr>tp_completed := u64_add (tp_completed p) 1\<rparr>)"

text \<open>
  \<open>Shutdown\<close>: its locked region, where a second call returns; \<open>cv_.notify_all()\<close>; and the joins, which return once every
  worker has exited.
\<close>

definition Shutdown_begin :: "'t ThreadPool \<Rightarrow> 't ThreadPool" where
  "Shutdown_begin p = (if tp_stopping p then p else p\<lparr>tp_stopping := True, tp_stop_unnotified := True\<rparr>)"

definition Shutdown_notify :: "'t ThreadPool \<Rightarrow> 't ThreadPool" where
  "Shutdown_notify p = p\<lparr>tp_stop_unnotified := False, tp_workers := map (\<lambda>w. if w = Blocked then Ready else w) (tp_workers p)\<rparr>"

definition Shutdown_joined :: "'t ThreadPool \<Rightarrow> bool" where
  "Shutdown_joined p \<longleftrightarrow> (\<forall>w \<in> set (tp_workers p). w = Exited)"

text \<open>The steps of the threads that are under way: the workers, and the callers that still have to notify.\<close>

inductive thread_step :: "'t ThreadPool \<Rightarrow> 't ThreadPool \<Rightarrow> bool" where
  take: "i < length (tp_workers p) \<Longrightarrow> tp_workers p ! i = Ready \<Longrightarrow> thread_step p (WorkerLoop_take i p)"
| finish: "i < length (tp_workers p) \<Longrightarrow> tp_workers p ! i = Running task \<Longrightarrow> thread_step p (WorkerLoop_finish i threw p)"
| notify_one: "0 < tp_unnotified p \<Longrightarrow> i < length (tp_workers p) \<Longrightarrow> Blocked \<in> set (tp_workers p) \<longrightarrow> tp_workers p ! i = Blocked \<Longrightarrow>
    thread_step p (Submit_notify i p)"
| notify_all: "tp_stop_unnotified p \<Longrightarrow> thread_step p (Shutdown_notify p)"

inductive pool_step :: "'t ThreadPool \<Rightarrow> 't ThreadPool \<Rightarrow> bool" where
  submit: "pool_step p (snd (Submit task p))"
| shutdown: "pool_step p (Shutdown_begin p)"
| spurious: "i < length (tp_workers p) \<Longrightarrow> tp_workers p ! i = Blocked \<Longrightarrow> pool_step p (p\<lparr>tp_workers := (tp_workers p)[i := Ready]\<rparr>)"
| thread: "thread_step p p' \<Longrightarrow> pool_step p p'"

section \<open>Invariant\<close>

definition running :: "'t worker list \<Rightarrow> nat" where
  "running ws = length (filter (\<lambda>w. \<exists>t. w = Running t) ws)"

definition active :: "'t worker list \<Rightarrow> bool" where
  "active ws \<longleftrightarrow> Ready \<in> set ws \<or> (\<exists>t. Running t \<in> set ws)"

text \<open>
  The last two conjuncts say that no wake-up is lost: while tasks are queued some worker is on its way to the queue or a
  notification is still to come, and when \<open>Shutdown\<close> has notified nobody is blocked.
\<close>

definition pool_ok :: "'t ThreadPool \<Rightarrow> bool" where
  "pool_ok p \<longleftrightarrow> tp_workers p \<noteq> [] \<and> length (tp_queue p) \<le> tp_max_queue p \<and> tp_accepted p = tp_started p @ tp_queue p \<and>
    (length (tp_started p) < u64_size \<longrightarrow> tp_completed p + tp_failed p + running (tp_workers p) = length (tp_started p)) \<and>
    (Exited \<in> set (tp_workers p) \<longrightarrow> tp_stopping p \<and> tp_queue p = []) \<and>
    (tp_queue p \<noteq> [] \<longrightarrow> active (tp_workers p) \<or> 0 < tp_unnotified p) \<and>
    (tp_stopping p \<and> \<not> tp_stop_unnotified p \<longrightarrow> Blocked \<notin> set (tp_workers p))"

lemma running_update:
  assumes "i < length ws"
  shows "running (ws[i := w]) + (if \<exists>t. ws ! i = Running t then 1 else 0) =
    running ws + (if \<exists>t. w = Running t then 1 else 0)"
proof -
  have ws: "ws = take i ws @ ws ! i # drop (Suc i) ws" using assms by (simp add: id_take_nth_drop)
  have "running ws = running (take i ws) + running [ws ! i] + running (drop (Suc i) ws)"
    by (subst ws) (simp add: running_def)
  moreover have "running (ws[i := w]) = running (take i ws) + running [w] + running (drop (Suc i) ws)"
    using assms by (simp add: running_def upd_conv_take_nth_drop)
  ultimately show ?thesis by (simp add: running_def)
qed

lemma running_wake: "running (map (\<lambda>w. if w = Blocked then Ready else w) ws) = running ws"
  by (induction ws) (auto simp: running_def)

lemma worker_update:
  assumes "x \<in> set (ws[i := w])" and "x \<noteq> w"
  shows "x \<in> set ws"
  using assms set_update_subset_insert [of ws i w] by blast

lemma active_update: "i < length ws \<Longrightarrow> w = Ready \<or> (\<exists>t. w = Running t) \<Longrightarrow> active (ws[i := w])"
  using set_update_memI [of i ws w] by (auto simp: active_def)

lemma active_cases: "ws \<noteq> [] \<Longrightarrow> Blocked \<notin> set ws \<Longrightarrow> Exited \<notin> set ws \<Longrightarrow> active ws"
  by (cases "hd ws") (auto simp: active_def dest: hd_in_set)

lemma pool_ok_new: "pool_ok (ThreadPool_new n m)"
  by (simp add: pool_ok_def ThreadPool_new_def running_def)

lemma pool_ok_take:
  assumes "pool_ok p" and "i < length (tp_workers p)" and "tp_workers p ! i = Ready"
  shows "pool_ok (WorkerLoop_take i p)"
proof (cases "tp_queue p")
  case Nil
  then show ?thesis
    using assms running_update [OF assms(2), of Exited] running_update [OF assms(2), of Blocked]
    by (auto simp: pool_ok_def WorkerLoop_take_def dest: worker_update)
next
  case (Cons t ts)
  then have p': "WorkerLoop_take i p = p\<lparr>tp_queue := ts, tp_workers := (tp_workers p)[i := Running t], tp_started := tp_started p @ [t]\<rparr>"
    by (simp add: WorkerLoop_take_def)
  then show ?thesis
    using assms Cons running_update [OF assms(2), of "Running t"] active_update [OF assms(2), of "Running t"]
    by (auto simp: pool_ok_def dest: worker_update)
qed

lemma pool_ok_wake:
  assumes "pool_ok p" and "i < length (tp_workers p)" and "tp_workers p ! i = Blocked"
  shows "pool_ok (p\<lparr>tp_unnotified := u, tp_workers := (tp_workers p)[i := Ready]\<rparr>)"
  using assms running_update [OF assms(2), of Ready] active_update [OF assms(2), of Ready]
  by (auto simp: pool_ok_def dest: worker_update)

lemma pool_ok_thread:
  assumes "thread_step p p'" and "pool_ok p"
  shows "pool_ok p'"
  using assms
proof (cases rule: thread_step.cases)
  case (take i)
  then show ?thesis using pool_ok_take [OF assms(2)] by simp
next
  case (finish i task threw)
  have "u64_add k 1 = k + 1" if "k < length (tp_started p)" "length (tp_started p) < u64_size" for k
    using that by (simp add: u64_add_exact)
  then show ?thesis
    using assms(2) running_update [OF finish(2), of Ready] active_update [OF finish(2), of Ready] finish
    by (auto simp: pool_ok_def WorkerLoop_finish_def Let_def dest: worker_update)
next
  case (notify_one i)
  show ?thesis
  proof (cases "Blocked \<in> set (tp_workers p)")
    case True
    then show ?thesis
      using pool_ok_wake [OF assms(2) notify_one(3), of "tp_unnotified p - 1"] notify_one(1,4) by (simp add: Submit_notify_def)
  next
    case False
    then have "tp_queue p \<noteq> [] \<longrightarrow> active (tp_workers p)" using active_cases assms(2) by (auto simp: pool_ok_def)
    then show ?thesis using False assms(2) notify_one(1) by (simp add: pool_ok_def Submit_notify_def)
  qed
next
  case notify_all
  then show ?thesis using assms(2) by (auto simp: pool_ok_def Shutdown_notify_def running_wake active_def image_iff)
qed

lemma pool_ok_step: "pool_step p p' \<Longrightarrow> pool_ok p \<Longrightarrow> pool_ok p'"
proof (induction rule: pool_step.induct)
  case (spurious i p)
  then show ?case using pool_ok_wake [of p i "tp_unnotified p"] by simp
qed (simp_all add: pool_ok_thread, auto simp: pool_ok_def Submit_def Shutdown_begin_def)

lemma pool_ok_steps: "pool_step\<^sup>*\<^sup>* p p' \<Longrightarrow> pool_ok p \<Longrightarrow> pool_ok p'"
  by (induction rule: rtranclp_induct) (auto intro: pool_ok_step)

lemma pool_shape:
  assumes "pool_step\<^sup>*\<^sup>* (ThreadPool_new n m) p"
  shows "tp_max_queue p = max 1 m \<and> length (tp_workers p) = max 1 n"
  using assms
proof (induction rule: rtranclp_induct)
  case (step p p')
  from step.hyps(2) step.IH show ?case
    by (cases rule: pool_step.cases)
       (auto simp: Submit_def Submit_notify_def Shutdown_begin_def Shutdown_notify_def WorkerLoop_take_def WorkerLoop_finish_def Let_def
         elim!: thread_step.cases split: list.splits)
qed (simp add: ThreadPool_new_def)

section \<open>Properties\<close>

text \<open>
  C33. Backpressure and order: at every moment of every run of a pool, the queue holds at most the configured
  number of tasks, and the accepted tasks are exactly those started followed by those queued, in order of
  submission. So each accepted task is started once and in order, and a rejected one never is.
\<close>

theorem pool_bounded_fifo:
  assumes "pool_step\<^sup>*\<^sup>* (ThreadPool_new n m) p"
  shows "length (tp_queue p) \<le> max 1 m \<and> tp_accepted p = tp_started p @ tp_queue p \<and> length (tp_workers p) = max 1 n"
  using pool_shape [OF assms] pool_ok_steps [OF assms pool_ok_new] by (simp add: pool_ok_def)

theorem pool_bounded_fifo_witness:
  "length (tp_queue (snd (Submit (7::nat) (ThreadPool_new 1 1)))) \<le> max 1 1 \<and>
   tp_accepted (snd (Submit (7::nat) (ThreadPool_new 1 1))) = [7]"
  using pool_bounded_fifo [of 1 1 "snd (Submit (7::nat) (ThreadPool_new 1 1))"] pool_step.submit [of "ThreadPool_new 1 1" 7]
  by (simp add: Submit_def ThreadPool_new_def r_into_rtranclp)

text \<open>
  The work left: a queued task is taken up and run, a worker on its way to the queue finds it empty, and a notification
  sends workers there.
\<close>

fun steps_left :: "'t worker \<Rightarrow> nat" where
  "steps_left Ready = 1"
| "steps_left Blocked = 0"
| "steps_left (Running t) = 2"
| "steps_left Exited = 0"

definition work_left :: "'t ThreadPool \<Rightarrow> nat" where
  "work_left p = 2 * length (tp_queue p) + sum_list (map steps_left (tp_workers p)) + 2 * tp_unnotified p +
    (if tp_stop_unnotified p then length (tp_workers p) + 1 else 0)"

lemma work_left_update:
  "i < length ws \<Longrightarrow> sum_list (map steps_left (ws[i := w])) + steps_left (ws ! i) = sum_list (map steps_left ws) + steps_left w"
  by (induction ws arbitrary: i) (auto split: nat.splits)

lemma work_left_wake:
  "sum_list (map steps_left (map (\<lambda>w. if w = Blocked then Ready else w) ws)) \<le> sum_list (map steps_left ws) + length ws"
  by (induction ws) auto

lemma thread_step_work:
  assumes "thread_step p p'"
  shows "work_left p' < work_left p \<and> tp_stopping p' = tp_stopping p \<and> tp_accepted p' = tp_accepted p"
  using assms
proof (cases rule: thread_step.cases)
  case (take i)
  then show ?thesis
    using work_left_update [OF take(2), of Exited] work_left_update [OF take(2), of Blocked] work_left_update [OF take(2), of "Running (hd (tp_queue p))"]
    by (cases "tp_queue p") (auto simp: work_left_def WorkerLoop_take_def)
next
  case (finish i task threw)
  then show ?thesis
    using work_left_update [OF finish(2), of Ready] by (simp add: work_left_def WorkerLoop_finish_def Let_def)
next
  case (notify_one i)
  then show ?thesis
    using work_left_update [OF notify_one(3), of Ready] by (auto simp: work_left_def Submit_notify_def)
next
  case notify_all
  then show ?thesis using work_left_wake [of "tp_workers p"] by (simp add: work_left_def Shutdown_notify_def)
qed

lemma thread_steps_work: "(thread_step ^^ k) p p' \<Longrightarrow>
  k + work_left p' \<le> work_left p \<and> tp_stopping p' = tp_stopping p \<and> tp_accepted p' = tp_accepted p"
proof (induction k arbitrary: p')
  case (Suc k)
  then obtain q where "(thread_step ^^ k) p q" "thread_step q p'" by auto
  with Suc.IH [of q] thread_step_work [of q p'] show ?case by auto
qed simp

lemma at_rest:
  assumes "pool_ok p" and "\<nexists>p'. thread_step p p'"
  shows "set (tp_workers p) \<subseteq> {Blocked, Exited}" and "tp_unnotified p = 0" and "\<not> tp_stop_unnotified p"
proof -
  have "w \<in> {Blocked, Exited}" if m: "w \<in> set (tp_workers p)" for w
  proof -
    obtain i where i: "i < length (tp_workers p)" "tp_workers p ! i = w" using m by (auto simp: in_set_conv_nth)
    then show ?thesis using assms(2) thread_step.take [of i p] thread_step.finish [of i p] by (cases w) auto
  qed
  then show "set (tp_workers p) \<subseteq> {Blocked, Exited}" by blast
  show "tp_unnotified p = 0"
  proof (rule ccontr)
    assume u: "tp_unnotified p \<noteq> 0"
    have "\<exists>i < length (tp_workers p). Blocked \<in> set (tp_workers p) \<longrightarrow> tp_workers p ! i = Blocked"
      using assms(1) by (auto simp: pool_ok_def in_set_conv_nth)
    then show False using u assms(2) thread_step.notify_one [of p] by blast
  qed
  show "\<not> tp_stop_unnotified p" using assms(2) thread_step.notify_all [of p] by blast
qed

text \<open>
  C34. No task and no worker is left behind. Whatever has happened in a pool, if no further task is submitted its
  threads take at most \<open>work_left\<close> steps, none of them a spurious wake-up, and when none of them can move any more the
  queue is empty and every accepted task has been run, each counted as completed or failed; if \<open>Shutdown\<close> was called,
  all workers have exited, so its joins return. No wake-up is lost, and a task that throws does not keep a worker from
  going on.
\<close>

theorem pool_shutdown_drains:
  assumes "pool_step\<^sup>*\<^sup>* (ThreadPool_new n m) p" and "length (tp_accepted p) < u64_size" and "(thread_step ^^ k) p p'"
  shows "k \<le> work_left p \<and>
    ((\<nexists>p''. thread_step p' p'') \<longrightarrow> tp_queue p' = [] \<and> tp_started p' = tp_accepted p \<and>
      tp_completed p' + tp_failed p' = length (tp_accepted p) \<and> (tp_stopping p \<longrightarrow> Shutdown_joined p'))"
proof -
  have w: "k + work_left p' \<le> work_left p" "tp_stopping p' = tp_stopping p" "tp_accepted p' = tp_accepted p"
    using thread_steps_work [OF assms(3)] by auto
  have "thread_step\<^sup>*\<^sup>* p p'" using assms(3) by (rule relpowp_imp_rtranclp)
  then have "pool_step\<^sup>*\<^sup>* p p'" by (rule rtranclp_mono [THEN predicate2D, rotated]) (auto intro: pool_step.thread)
  then have ok: "pool_ok p'" using pool_ok_steps pool_ok_new assms(1) by blast
  have "tp_queue p' = [] \<and> running (tp_workers p') = 0 \<and> (tp_stopping p' \<longrightarrow> Shutdown_joined p')" if r: "\<nexists>p''. thread_step p' p''"
    using at_rest [OF ok r] ok by (auto simp: pool_ok_def active_def running_def filter_empty_conv Shutdown_joined_def)
  then show ?thesis using w ok assms(2) by (auto simp: pool_ok_def)
qed

text \<open>A worker that waits when the task comes, and again when the pool is shut down.\<close>

definition pool_waiting :: "nat ThreadPool" where
  "pool_waiting = Shutdown_begin (WorkerLoop_take 0 (WorkerLoop_finish 0 True (WorkerLoop_take 0 (Submit_notify 0
     (snd (Submit 7 (WorkerLoop_take 0 (ThreadPool_new 1 1))))))))"

theorem pool_shutdown_drains_witness:
  "work_left pool_waiting = 2 \<and> (\<exists>p. (thread_step ^^ 2) pool_waiting p \<and> Shutdown_joined p \<and> tp_started p = [7] \<and> tp_failed p = 1)"
proof -
  let ?q = "Shutdown_notify pool_waiting" and ?p = "WorkerLoop_take 0 (Shutdown_notify pool_waiting)"
  let ?a = "WorkerLoop_take 0 (ThreadPool_new 1 1) :: nat ThreadPool"
  let ?b = "Submit_notify 0 (snd (Submit 7 ?a))"
  let ?c = "WorkerLoop_finish 0 True (WorkerLoop_take 0 ?b)"
  note defs = Shutdown_begin_def Shutdown_notify_def Submit_def Submit_notify_def ThreadPool_new_def WorkerLoop_take_def WorkerLoop_finish_def
  have "pool_step (ThreadPool_new 1 1) ?a" by (intro pool_step.thread thread_step.take) (simp_all add: defs)
  moreover have "pool_step ?a (snd (Submit 7 ?a))" by (rule pool_step.submit)
  moreover have "pool_step (snd (Submit 7 ?a)) ?b" by (intro pool_step.thread thread_step.notify_one) (simp_all add: defs)
  moreover have "pool_step ?b (WorkerLoop_take 0 ?b)" by (intro pool_step.thread thread_step.take) (simp_all add: defs)
  moreover have "pool_step (WorkerLoop_take 0 ?b) ?c" by (intro pool_step.thread thread_step.finish [where task = 7]) (simp_all add: defs)
  moreover have "pool_step ?c (WorkerLoop_take 0 ?c)" by (intro pool_step.thread thread_step.take) (simp_all add: defs)
  moreover have "pool_step (WorkerLoop_take 0 ?c) pool_waiting" unfolding pool_waiting_def by (rule pool_step.shutdown)
  ultimately have r: "pool_step\<^sup>*\<^sup>* (ThreadPool_new 1 1) pool_waiting" by (meson converse_rtranclp_into_rtranclp rtranclp.rtrancl_refl)
  have "thread_step pool_waiting ?q" by (rule thread_step.notify_all) (simp add: defs pool_waiting_def)
  moreover have "thread_step ?q ?p" by (rule thread_step.take) (simp_all add: defs pool_waiting_def)
  ultimately have steps: "(thread_step ^^ 2) pool_waiting ?p" by (auto simp: numeral_2_eq_2)
  have acc: "tp_stopping pool_waiting" "tp_accepted pool_waiting = [7]" by (simp_all add: defs pool_waiting_def)
  have rest: "\<nexists>p. thread_step ?p p"
    by (auto simp: defs pool_waiting_def elim!: thread_step.cases)
  show ?thesis
    using pool_shutdown_drains [OF r _ steps] rest steps acc
    by (auto simp: work_left_def defs pool_waiting_def intro!: exI [of _ ?p])
qed

end
