(* ===== verification/Sqlite_Store.thy ===== *)
theory Sqlite_Store
  imports Ordered_Map Status
begin

text \<open>
  \<open>src/storage/sqlite_metadata_store.cc\<close>: one row of object metadata per key. The table \<open>objects\<close> is an
  ordered map from the primary key to the row, which is what the SQL text of each statement reads and
  writes; keys are compared bytewise, SQLite's default collation. What SQLite answers beyond that (a
  failing \<open>prepare\<close> or \<open>step\<close>, with its message) is an input.
\<close>

section \<open>Rows\<close>

record ObjectMetadata =
  md_key :: string
  md_size :: nat
  md_checksum :: string
  md_version :: nat
  md_created_at :: int
  md_deleted :: bool
  md_request_id :: string

definition ObjectMetadata_default :: ObjectMetadata where
  "ObjectMetadata_default = \<lparr>md_key = '''', md_size = 0, md_checksum = '''', md_version = 0, md_created_at = 0,
    md_deleted = False, md_request_id = ''''\<rparr>"

type_synonym objects = "(string, ObjectMetadata) omap"

record sq_env =
  sq_prepare :: "string option"
  sq_step :: "string option"

definition sq_good :: sq_env where
  "sq_good = \<lparr>sq_prepare = None, sq_step = None\<rparr>"

text \<open>A \<open>const char*\<close> assigned to a \<open>std::string\<close> ends at the first NUL.\<close>

definition c_str :: "string \<Rightarrow> string" where
  "c_str s = takeWhile (\<lambda>c. c \<noteq> CHR 0x00) s"

definition ReadRow :: "ObjectMetadata \<Rightarrow> ObjectMetadata" where
  "ReadRow row = row\<lparr>md_key := c_str (md_key row), md_checksum := c_str (md_checksum row),
    md_request_id := c_str (md_request_id row)\<rparr>"

section \<open>Statements\<close>

text \<open>\<open>CREATE TABLE IF NOT EXISTS\<close> keeps the rows of an earlier run; the results of the two pragmas are ignored.\<close>

definition Sqlite_Open :: "string option \<Rightarrow> string option \<Rightarrow> objects \<Rightarrow> objects StatusOr" where
  "Sqlite_Open open_fails schema_fails t =
    (case open_fails of
       Some e \<Rightarrow> Inl (IoError (''sqlite open failed: '' @ e))
     | None \<Rightarrow>
         (case schema_fails of
            Some e \<Rightarrow> Inl (IoError (''sqlite schema failed: '' @ e))
          | None \<Rightarrow> Inr t))"

definition Sqlite_Put :: "sq_env \<Rightarrow> ObjectMetadata \<Rightarrow> objects \<Rightarrow> Status \<times> objects" where
  "Sqlite_Put env meta t =
    (case sq_prepare env of
       Some e \<Rightarrow> (IoError (''prepare failed: '' @ e), t)
     | None \<Rightarrow>
         (case sq_step env of
            Some e \<Rightarrow> (IoError (''put failed: '' @ e), t)
          | None \<Rightarrow> (Status_Ok, om_set (md_key meta) meta t)))"

definition Sqlite_Get :: "sq_env \<Rightarrow> string \<Rightarrow> objects \<Rightarrow> ObjectMetadata StatusOr" where
  "Sqlite_Get env key t =
    (case sq_prepare env of
       Some e \<Rightarrow> Inl (IoError (''prepare failed: '' @ e))
     | None \<Rightarrow>
         (case sq_step env of
            Some e \<Rightarrow> Inl (IoError (''get failed: '' @ e))
          | None \<Rightarrow>
              (case om_find t key of
                 None \<Rightarrow> Inl (NotFound (''no such key: '' @ key))
               | Some row \<Rightarrow>
                   let meta = ReadRow row
                   in if md_deleted meta then Inl (NotFound (''tombstoned: '' @ key)) else Inr meta)))"

definition Peek :: "sq_env \<Rightarrow> string \<Rightarrow> objects \<Rightarrow> ObjectMetadata StatusOr" where
  "Peek env key t =
    (case sq_prepare env of
       Some e \<Rightarrow> Inl (IoError (''prepare failed: '' @ e))
     | None \<Rightarrow>
         (case sq_step env of
            Some e \<Rightarrow> Inl (IoError (''peek failed: '' @ e))
          | None \<Rightarrow>
              (case om_find t key of
                 None \<Rightarrow> Inl (NotFound (''no such key: '' @ key))
               | Some row \<Rightarrow> Inr (ReadRow row))))"

definition CurrentVersion :: "sq_env \<Rightarrow> string \<Rightarrow> objects \<Rightarrow> nat StatusOr" where
  "CurrentVersion env key t =
    (case sq_prepare env of
       Some e \<Rightarrow> Inl (IoError (''prepare failed: '' @ e))
     | None \<Rightarrow>
         (case sq_step env of
            Some e \<Rightarrow> Inl (IoError (''version lookup failed: '' @ e))
          | None \<Rightarrow> (case om_find t key of None \<Rightarrow> Inr 0 | Some row \<Rightarrow> Inr (md_version row))))"

text \<open>\<open>UPDATE objects SET deleted=1 WHERE key=? AND deleted=0\<close>, then \<open>sqlite3_changes\<close>.\<close>

definition Sqlite_Delete :: "sq_env \<Rightarrow> string \<Rightarrow> objects \<Rightarrow> Status \<times> objects" where
  "Sqlite_Delete env key t =
    (case sq_prepare env of
       Some e \<Rightarrow> (IoError (''prepare failed: '' @ e), t)
     | None \<Rightarrow>
         (case sq_step env of
            Some e \<Rightarrow> (IoError (''delete failed: '' @ e), t)
          | None \<Rightarrow>
              (case om_find t key of
                 None \<Rightarrow> (NotFound (''no such key: '' @ key), t)
               | Some row \<Rightarrow>
                   if md_deleted row then (NotFound (''no such key: '' @ key), t)
                   else (Status_Ok, om_set key (row\<lparr>md_deleted := True\<rparr>) t))))"

text \<open>The upper end of the range scan, after the \<open>pop_back\<close> loop.\<close>

definition list_hi :: "string \<Rightarrow> string" where
  "list_hi prefix =
    (let hi = rev (dropWhile (\<lambda>c. c = CHR 0xFF) (rev prefix))
     in if hi = [] then [CHR 0xFF]
        else butlast hi @ [char_of ((of_char (last hi) :: nat) + 1)])"

definition Sqlite_List :: "sq_env \<Rightarrow> string \<Rightarrow> objects \<Rightarrow> ObjectMetadata list StatusOr" where
  "Sqlite_List env prefix t =
    (case sq_prepare env of
       Some e \<Rightarrow> Inl (IoError (''prepare failed: '' @ e))
     | None \<Rightarrow>
         (case sq_step env of
            Some e \<Rightarrow> Inl (IoError (''list failed: '' @ e))
          | None \<Rightarrow>
              Inr (map (\<lambda>(k, row). ReadRow row)
                (filter (\<lambda>(k, row). \<not> md_deleted row \<and> prefix \<le> k \<and> k < list_hi prefix) t))))"

section \<open>Range scans select prefixes\<close>

definition has_prefix :: "string \<Rightarrow> string \<Rightarrow> bool" where
  "has_prefix p k \<longleftrightarrow> take (length p) k = p"

lemma has_prefix_iff: "has_prefix p k \<longleftrightarrow> (\<exists>k'. k = p @ k')"
  unfolding has_prefix_def by (metis append_eq_conv_conj append_take_drop_id)

lemma range_common_prefix:
  "(p @ s \<le> k \<and> k < p @ [d]) \<longleftrightarrow> (\<exists>k'. k = p @ k' \<and> s \<le> k' \<and> k' < [d])" for p s k :: string
proof (induction p arbitrary: k)
  case (Cons a p)
  show ?case
  proof (cases k)
    case (Cons b ks)
    have "((a # p) @ s \<le> k \<and> k < (a # p) @ [d]) \<longleftrightarrow> a = b \<and> p @ s \<le> ks \<and> ks < p @ [d]"
      unfolding Cons by auto
    also have "\<dots> \<longleftrightarrow> a = b \<and> (\<exists>k'. ks = p @ k' \<and> s \<le> k' \<and> k' < [d])" using Cons.IH by blast
    finally show ?thesis unfolding Cons by auto
  qed simp
qed simp

lemma char_le_ff: "c \<le> CHR 0xFF"
proof -
  have "(of_char c :: nat) < 256" and "(of_char (CHR 0xFF) :: nat) = 255" by simp_all
  then show ?thesis unfolding less_eq_char_def by linarith
qed

lemma ff_le: "replicate n CHR 0xFF \<le> k \<longleftrightarrow> has_prefix (replicate n CHR 0xFF) k"
proof (induction n arbitrary: k)
  case (Suc n)
  show ?case
  proof (cases k)
    case (Cons b ks)
    have "\<not> CHR 0xFF < b" using char_le_ff by (simp add: not_less)
    then show ?thesis using Suc [of ks] unfolding Cons by (auto simp: has_prefix_def)
  qed (simp add: has_prefix_def)
qed (simp add: has_prefix_def)

lemma char_between:
  assumes "c \<noteq> CHR 0xFF"
  shows "c \<le> b \<and> b < char_of ((of_char c :: nat) + 1) \<longleftrightarrow> b = c"
proof -
  have "char_of (255 :: nat) = CHR 0xFF" by code_simp
  then have "(of_char c :: nat) \<noteq> 255" using assms by (metis char_of_char)
  moreover have "(of_char c :: nat) < 256" by simp
  ultimately have "(of_char c :: nat) + 1 < 256" by linarith
  then have "(of_char (char_of ((of_char c :: nat) + 1) :: char) :: nat) = of_char c + 1" by simp
  moreover have "b = c \<longleftrightarrow> (of_char b :: nat) = of_char c" by (simp add: of_char_eq_iff)
  ultimately show ?thesis unfolding less_eq_char_def less_char_def by linarith
qed

lemma list_hi_split:
  assumes "c \<noteq> CHR 0xFF"
  shows "list_hi (p @ c # replicate n CHR 0xFF) = p @ [char_of ((of_char c :: nat) + 1)]"
proof -
  have "dropWhile (\<lambda>c. c = CHR 0xFF) (rev (p @ c # replicate n CHR 0xFF)) = c # rev p"
    using assms by (simp add: dropWhile_append3 [of _ "replicate n CHR 0xFF"] dropWhile_append)
  then show ?thesis by (simp add: list_hi_def)
qed

lemma split_last_not_ff:
  assumes "\<exists>c \<in> set prefix. c \<noteq> CHR 0xFF"
  obtains p c n where "prefix = p @ c # replicate n CHR 0xFF" and "c \<noteq> CHR 0xFF"
proof -
  from split_list_last_propE [OF assms]
  obtain p c s where s: "prefix = p @ c # s" "c \<noteq> CHR 0xFF" "\<forall>x \<in> set s. \<not> x \<noteq> CHR 0xFF" .
  have "replicate (length s) CHR 0xFF = s" using s(3) by (intro replicate_length_same) simp
  with s(1) have "prefix = p @ c # replicate (length s) CHR 0xFF" by simp
  from that [OF this s(2)] show thesis .
qed

lemma range_is_prefix:
  assumes "\<exists>c \<in> set prefix. c \<noteq> CHR 0xFF"
  shows "(prefix \<le> k \<and> k < list_hi prefix) \<longleftrightarrow> has_prefix prefix k"
proof -
  obtain p c n where p: "prefix = p @ c # replicate n CHR 0xFF" "c \<noteq> CHR 0xFF" by (rule split_last_not_ff [OF assms])
  have tail: "(c # replicate n CHR 0xFF \<le> k' \<and> k' < [char_of ((of_char c :: nat) + 1)]) \<longleftrightarrow>
      (\<exists>k''. k' = c # replicate n CHR 0xFF @ k'')" for k'
  proof (cases k')
    case (Cons b ks)
    have "(c # replicate n CHR 0xFF \<le> b # ks \<and> b # ks < [char_of ((of_char c :: nat) + 1)]) \<longleftrightarrow>
        c = b \<and> replicate n CHR 0xFF \<le> ks"
      using char_between [OF p(2), of b] by auto
    then show ?thesis unfolding Cons ff_le has_prefix_iff by blast
  qed simp
  have "(prefix \<le> k \<and> k < list_hi prefix) \<longleftrightarrow> (\<exists>k'. k = p @ k' \<and> (\<exists>k''. k' = c # replicate n CHR 0xFF @ k''))"
    unfolding p(1) list_hi_split [OF p(2)] range_common_prefix tail ..
  also have "\<dots> \<longleftrightarrow> has_prefix prefix k" unfolding has_prefix_iff p(1) by force
  finally show ?thesis .
qed

section \<open>Properties\<close>

text \<open>
  Listing by prefix: for a prefix with at least one byte other than \<open>0xff\<close>, the range scan returns
  exactly the live rows whose key starts with it, in key order.
\<close>

theorem list_is_prefix_filter:
  assumes "\<exists>c \<in> set prefix. c \<noteq> CHR 0xFF"
  shows "Sqlite_List sq_good prefix t =
    Inr (map (\<lambda>(k, row). ReadRow row) (filter (\<lambda>(k, row). \<not> md_deleted row \<and> has_prefix prefix k) t))"
  by (simp add: Sqlite_List_def sq_good_def range_is_prefix [OF assms])

definition row_of :: "string \<Rightarrow> ObjectMetadata" where
  "row_of key = ObjectMetadata_default\<lparr>md_key := key, md_version := 1\<rparr>"

theorem list_is_prefix_filter_witness:
  "Sqlite_List sq_good ''a/'' [(''a'', row_of ''a''), (''a/1'', row_of ''a/1''), (''b'', row_of ''b'')] =
    Inr [ReadRow (row_of ''a/1'')]"
  using list_is_prefix_filter [of "''a/''" "[(''a'', row_of ''a''), (''a/1'', row_of ''a/1''), (''b'', row_of ''b'')]"]
  by (simp add: has_prefix_def row_of_def ObjectMetadata_default_def)

text \<open>
  Listing everything is not complete: with an empty prefix the scan ends before the key \<open>0xff\<close>, so a
  live object whose key starts with that byte is left out, and listing by the prefix \<open>0xff\<close> returns
  nothing at all, whatever the table holds.
\<close>

theorem list_misses_ff_keys:
  "k = CHR 0xFF # ks \<Longrightarrow> \<not> md_deleted row \<Longrightarrow>
    Sqlite_List sq_good [] [(k, row)] = Inr [] \<and> Sqlite_List sq_good [CHR 0xFF] t = Inr []"
  by (auto simp: Sqlite_List_def sq_good_def list_hi_def filter_empty_conv not_le)

theorem list_misses_ff_keys_witness:
  "Sqlite_List sq_good [] [([CHR 0xFF], row_of [CHR 0xFF])] = Inr []"
  using list_misses_ff_keys [of "[CHR 0xFF]" "[]" "row_of [CHR 0xFF]"] by (simp add: row_of_def ObjectMetadata_default_def)

end
