(* ===== verification/Wal.thy ===== *)
theory Wal
  imports Framing Posix Durable_Log
begin

text \<open>
  \<open>src/storage/wal.cc\<close>: the write-ahead log of a storage node. The file has its own copies of the wire
  helpers; they are translated as they stand there and shown equal to those of \<open>Wire\<close>, so that the
  facts on frames apply. \<open>durable_log\<close> is interpreted on the append and replay of this log.
\<close>

section \<open>The file's own wire helpers\<close>

definition wal_Crc32 :: "string \<Rightarrow> u32" where
  "wal_Crc32 data =
    NOT (foldl (\<lambda>crc c.
        foldl (\<lambda>crc _. let mask = - (crc AND 1) in drop_bit 1 crc XOR (0xedb88320 AND mask)) (crc XOR of_char c) [0..<8])
      0xffffffff data)"

definition wal_PutU32 :: "string \<Rightarrow> u32 \<Rightarrow> string" where
  "wal_PutU32 out v = foldl (\<lambda>out i. out @ [byte_char (drop_bit (i * 8) v AND 0xff)]) out (rev [0..<4])"

definition wal_PutU64 :: "string \<Rightarrow> u64 \<Rightarrow> string" where
  "wal_PutU64 out v = foldl (\<lambda>out i. out @ [byte_char (drop_bit (i * 8) v AND 0xff)]) out (rev [0..<8])"

definition wal_PutStr :: "string \<Rightarrow> string \<Rightarrow> string" where
  "wal_PutStr out s = wal_PutU32 out (of_nat (length s)) @ s"

text \<open>\<open>r = (r << 8) | p[pos++]\<close>, \<open>n\<close> times.\<close>

definition wal_read_be :: "nat \<Rightarrow> string \<Rightarrow> nat \<Rightarrow> 'a::len word" where
  "wal_read_be n p pos = foldl (\<lambda>r i. push_bit 8 r OR of_char (p ! (pos + i))) 0 [0..<n]"

definition wal_Reader_U32 :: "reader \<Rightarrow> (u32 \<times> reader) option" where
  "wal_Reader_U32 r =
    (if rd_pos r + 4 > buf_len r then None
     else Some (wal_read_be 4 (rd_buf r) (rd_pos r), r\<lparr>rd_pos := rd_pos r + 4\<rparr>))"

definition wal_Reader_U64 :: "reader \<Rightarrow> (u64 \<times> reader) option" where
  "wal_Reader_U64 r =
    (if rd_pos r + 8 > buf_len r then None
     else Some (wal_read_be 8 (rd_buf r) (rd_pos r), r\<lparr>rd_pos := rd_pos r + 8\<rparr>))"

definition wal_Reader_U8 :: "reader \<Rightarrow> (u8 \<times> reader) option" where
  "wal_Reader_U8 r =
    (if rd_pos r + 1 > buf_len r then None
     else Some (of_char (rd_buf r ! rd_pos r), r\<lparr>rd_pos := rd_pos r + 1\<rparr>))"

definition wal_Reader_Str :: "reader \<Rightarrow> (string \<times> reader) option" where
  "wal_Reader_Str r =
    (case wal_Reader_U32 r of
       None \<Rightarrow> None
     | Some (len, r) \<Rightarrow>
         if rd_pos r + unat len > buf_len r then None
         else Some (take (unat len) (drop (rd_pos r) (rd_buf r)), r\<lparr>rd_pos := rd_pos r + unat len\<rparr>))"

lemma wal_Crc32_eq: "wal_Crc32 = Crc32"
proof
  have "foldl (\<lambda>crc _. crc_bit crc) c [0..<8] = (crc_bit ^^ 8) c" for c
    by (simp add: upt_rec numeral_eq_Suc)
  then show "wal_Crc32 data = Crc32 data" for data
    unfolding wal_Crc32_def crc_bit_def [symmetric] by (simp add: Crc32_def foldl_conv_fold crc_byte_def)
qed

lemma wal_Put_eq: "wal_PutU32 = PutU32" "wal_PutU64 = PutU64" "wal_PutStr = PutStr"
proof -
  show u32: "wal_PutU32 = PutU32" by (simp add: fun_eq_iff wal_PutU32_def PutU32_def upt_rec)
  show "wal_PutU64 = PutU64" by (simp add: fun_eq_iff wal_PutU64_def PutU64_def upt_rec)
  show "wal_PutStr = PutStr" by (simp add: fun_eq_iff wal_PutStr_def PutStr_def u32)
qed

lemma wal_read_be_eq:
  assumes "pos + n \<le> length p"
  shows "wal_read_be n p pos = be_value (take n (drop pos p))"
proof -
  have "take n (drop pos p) = map (\<lambda>i. p ! (pos + i)) [0..<n]"
    using assms by (intro nth_equalityI) auto
  then show ?thesis
    by (simp add: wal_read_be_def be_value_def foldl_conv_fold fold_map comp_def)
qed

lemma wal_Reader_eq: "wal_Reader_U32 = Reader_U32" "wal_Reader_U64 = Reader_U64" "wal_Reader_Str = Reader_Str"
proof -
  show u32: "wal_Reader_U32 = Reader_U32"
    by (rule ext) (simp add: wal_Reader_U32_def Reader_U32_def wal_read_be_eq)
  show "wal_Reader_U64 = Reader_U64"
    by (rule ext) (simp add: wal_Reader_U64_def Reader_U64_def wal_read_be_eq)
  show "wal_Reader_Str = Reader_Str"
    by (rule ext) (simp add: wal_Reader_Str_def Reader_Str_def u32)
qed

lemmas wal_wire_eq = wal_Crc32_eq wal_Put_eq wal_Reader_eq

section \<open>Records\<close>

text \<open>\<open>WalOp\<close> is an enum over \<open>uint8_t\<close>; the decoder casts any byte to it.\<close>

definition kPut :: u8 where "kPut = 1"

definition kDelete :: u8 where "kDelete = 2"

record WalRecord =
  wr_seq :: nat
  wr_is_commit :: bool
  wr_op :: u8
  wr_key :: string
  wr_version :: nat
  wr_checksum :: string
  wr_size :: nat

definition WalRecord_default :: WalRecord where
  "WalRecord_default = \<lparr>wr_seq = 0, wr_is_commit = False, wr_op = kPut, wr_key = '''', wr_version = 0,
    wr_checksum = '''', wr_size = 0\<rparr>"

definition EncodeBody :: "WalRecord \<Rightarrow> string" where
  "EncodeBody rec =
    (let body = [byte_char (if wr_is_commit rec then 1 else 0 :: u8)];
         body = wal_PutU64 body (of_nat (wr_seq rec))
     in if wr_is_commit rec then body
        else
          let body = body @ [byte_char (wr_op rec)];
              body = wal_PutU64 body (of_nat (wr_version rec));
              body = wal_PutU64 body (of_nat (wr_size rec));
              body = wal_PutStr body (wr_key rec)
          in wal_PutStr body (wr_checksum rec))"

definition DecodeBody :: "string \<Rightarrow> WalRecord option" where
  "DecodeBody body =
    (case wal_Reader_U8 (Reader body) of None \<Rightarrow> None
     | Some (is_commit, r) \<Rightarrow>
       (case wal_Reader_U64 r of None \<Rightarrow> None
        | Some (seq, r) \<Rightarrow>
          let rec = WalRecord_default\<lparr>wr_is_commit := is_commit \<noteq> 0, wr_seq := unat seq\<rparr>
          in if is_commit \<noteq> 0 then Some rec
             else
               (case wal_Reader_U8 r of None \<Rightarrow> None
                | Some (op, r) \<Rightarrow>
                  (case wal_Reader_U64 r of None \<Rightarrow> None
                   | Some (version, r) \<Rightarrow>
                     (case wal_Reader_U64 r of None \<Rightarrow> None
                      | Some (sz, r) \<Rightarrow>
                        (case wal_Reader_Str r of None \<Rightarrow> None
                         | Some (key, r) \<Rightarrow>
                           (case wal_Reader_Str r of None \<Rightarrow> None
                            | Some (checksum, r) \<Rightarrow>
                                Some (rec\<lparr>wr_op := op, wr_version := unat version, wr_size := unat sz, wr_key := key,
                                  wr_checksum := checksum\<rparr>))))))))"

section \<open>The log\<close>

text \<open>
  \<open>wal_file\<close> is the content of the file (empty when it does not exist), \<open>wal_fd_open\<close> is \<open>fd_ >= 0\<close>. The
  descriptor is the only one writing, so an append goes to the end with or without \<open>O_APPEND\<close>.
\<close>

record Wal =
  wal_file :: string
  wal_fd_open :: bool
  wal_next_seq :: nat

text \<open>The loop of \<open>Replay\<close>, with its four exits.\<close>

function wal_replay_from :: "string \<Rightarrow> nat \<Rightarrow> WalRecord list" where
  "wal_replay_from all pos =
    (if pos + 4 \<le> length all then
       let body_len = unat (wal_read_be 4 all pos :: u32);
           frame_end = pos + 4 + body_len + 4
       in if body_len = 0 \<or> frame_end > length all then []
          else
            let body = take body_len (drop (pos + 4) all);
                stored_crc = (wal_read_be 4 all (pos + 4 + body_len) :: u32)
            in if wal_Crc32 body \<noteq> stored_crc then []
               else case DecodeBody body of None \<Rightarrow> [] | Some rec \<Rightarrow> rec # wal_replay_from all frame_end
     else [])"
  by pat_completeness auto
termination
  by (relation "measure (\<lambda>(all, pos). length all - pos)") auto

declare wal_replay_from.simps [simp del]

definition Wal_Replay :: "string \<Rightarrow> WalRecord list" where
  "Wal_Replay all = wal_replay_from all 0"

definition Wal_Open :: "string option \<Rightarrow> string \<Rightarrow> Wal StatusOr" where
  "Wal_Open fails content =
    (case fails of
       Some e \<Rightarrow> Inl (IoError (''open wal: '' @ e))
     | None \<Rightarrow>
         let max_seq = foldl (\<lambda>m r. max m (wr_seq r)) 0 (Wal_Replay content)
         in Inr \<lparr>wal_file = content, wal_fd_open = True, wal_next_seq = u64_add max_seq 1\<rparr>)"

definition NextSeq :: "Wal \<Rightarrow> nat \<times> Wal" where
  "NextSeq w = (wal_next_seq w, w\<lparr>wal_next_seq := u64_add (wal_next_seq w) 1\<rparr>)"

definition wal_frame :: "WalRecord \<Rightarrow> string" where
  "wal_frame rec =
    (let body = EncodeBody rec; crc = wal_Crc32 body
     in wal_PutU32 (wal_PutU32 [] (of_nat (length body)) @ body) crc)"

definition AppendRecord :: "append_env \<Rightarrow> WalRecord \<Rightarrow> Wal \<Rightarrow> Status \<times> Wal" where
  "AppendRecord env rec w =
    (if \<not> wal_fd_open w then (IoError ''wal write: Bad file descriptor'', w)
     else
       (case write_loop (ap_write env) (wal_file w) (wal_frame rec) of
          (f, Some e) \<Rightarrow> (IoError (''wal write: '' @ e), w\<lparr>wal_file := f\<rparr>)
        | (f, None) \<Rightarrow>
            (case ap_fsync env of
               Some e \<Rightarrow> (IoError (''wal fsync: '' @ e), w\<lparr>wal_file := f\<rparr>)
             | None \<Rightarrow> (Status_Ok, w\<lparr>wal_file := f\<rparr>))))"

definition begin_record :: "nat \<Rightarrow> u8 \<Rightarrow> string \<Rightarrow> nat \<Rightarrow> string \<Rightarrow> nat \<Rightarrow> WalRecord" where
  "begin_record seq op key version checksum sz =
    \<lparr>wr_seq = seq, wr_is_commit = False, wr_op = op, wr_key = key, wr_version = version, wr_checksum = checksum,
     wr_size = sz\<rparr>"

definition AppendBegin :: "append_env \<Rightarrow> nat \<Rightarrow> u8 \<Rightarrow> string \<Rightarrow> nat \<Rightarrow> string \<Rightarrow> nat \<Rightarrow> Wal \<Rightarrow> Status \<times> Wal" where
  "AppendBegin env seq op key version checksum sz w =
    AppendRecord env (begin_record seq op key version checksum sz) w"

definition AppendCommit :: "append_env \<Rightarrow> nat \<Rightarrow> Wal \<Rightarrow> Status \<times> Wal" where
  "AppendCommit env seq w = AppendRecord env (WalRecord_default\<lparr>wr_seq := seq, wr_is_commit := True\<rparr>) w"

text \<open>\<open>Truncate\<close>: the answer of the reopening \<open>open\<close>; when it fails the file keeps its content and the descriptor is gone.\<close>

definition Truncate :: "string option \<Rightarrow> Wal \<Rightarrow> Status \<times> Wal" where
  "Truncate fails w =
    (case fails of
       Some e \<Rightarrow> (IoError (''truncate wal: '' @ e), w\<lparr>wal_fd_open := False\<rparr>)
     | None \<Rightarrow> (Status_Ok, w\<lparr>wal_file := [], wal_fd_open := True, wal_next_seq := 1\<rparr>))"

section \<open>Round trips\<close>

definition wal_ok :: "WalRecord \<Rightarrow> bool" where
  "wal_ok rec \<longleftrightarrow> wr_seq rec < u64_size \<and> wr_version rec < u64_size \<and> wr_size rec < u64_size \<and>
    length (wr_key rec) + length (wr_checksum rec) + 34 < 2 ^ 32 \<and>
    (wr_is_commit rec \<longrightarrow> rec = WalRecord_default\<lparr>wr_seq := wr_seq rec, wr_is_commit := True\<rparr>)"

lemma wal_frame_eq: "wal_frame = (\<lambda>rec. Frame (EncodeBody rec))"
  by (simp add: fun_eq_iff wal_frame_def Frame_def wal_wire_eq Let_def)

lemma EncodeBody_bytes:
  "EncodeBody rec =
    (if wr_is_commit rec then byte_char (1 :: u8) # u64_bytes (of_nat (wr_seq rec))
     else [byte_char (0 :: u8)] @ u64_bytes (of_nat (wr_seq rec)) @ [byte_char (wr_op rec)] @ u64_bytes (of_nat (wr_version rec)) @
       u64_bytes (of_nat (wr_size rec)) @ u32_bytes (of_nat (length (wr_key rec))) @ wr_key rec @
       u32_bytes (of_nat (length (wr_checksum rec))) @ wr_checksum rec)"
  by (simp add: EncodeBody_def wal_wire_eq PutU64_bytes PutStr_bytes Let_def)

lemma frameable_EncodeBody: "wal_ok rec \<Longrightarrow> frameable (EncodeBody rec)"
  by (auto simp: frameable_def EncodeBody_bytes wal_ok_def)

lemma wal_Reader_U8_at:
  "wal_Reader_U8 \<lparr>rd_buf = xs @ c # zs, rd_pos = length xs\<rparr> =
    Some (of_char c, \<lparr>rd_buf = xs @ c # zs, rd_pos = length xs + 1\<rparr>)"
  by (simp add: wal_Reader_U8_def)

lemma of_char_byte_char_u8 [simp]: "(of_char (byte_char (w :: u8)) :: u8) = w"
  by (simp add: of_char_byte_char take_bit_word_eq_self)

lemma DecodeBody_EncodeBody:
  assumes "wal_ok rec"
  shows "DecodeBody (EncodeBody rec) = Some rec"
proof (cases "wr_is_commit rec")
  case True
  let ?s = "u64_bytes (of_nat (wr_seq rec))"
  have 1: "wal_Reader_U8 (Reader (EncodeBody rec)) = Some (1, \<lparr>rd_buf = byte_char (1 :: u8) # ?s, rd_pos = 1\<rparr>)"
    using wal_Reader_U8_at [of "[]" "byte_char (1 :: u8)" ?s] True by (simp add: Reader_def EncodeBody_bytes)
  have 2: "Reader_U64 \<lparr>rd_buf = byte_char (1 :: u8) # ?s, rd_pos = 1\<rparr> =
      Some (of_nat (wr_seq rec), \<lparr>rd_buf = byte_char (1 :: u8) # ?s, rd_pos = 9\<rparr>)"
    using Reader_U64_at [of "[byte_char (1 :: u8)]" _ "[]"] by simp
  have "rec = WalRecord_default\<lparr>wr_seq := wr_seq rec, wr_is_commit := True\<rparr>" and "wr_seq rec < u64_size"
    using assms True by (simp_all add: wal_ok_def)
  then have "WalRecord_default\<lparr>wr_is_commit := True, wr_seq := unat (of_nat (wr_seq rec) :: u64)\<rparr> = rec"
    by (metis (no_types) WalRecord.surjective WalRecord.update_convs(1,2) unat_of_nat_u64)
  then show ?thesis
    unfolding DecodeBody_def 1 by (simp add: 2 wal_wire_eq Let_def del: One_nat_def)
next
  case False
  let ?b0 = "byte_char (0 :: u8)" and ?s = "u64_bytes (of_nat (wr_seq rec))" and ?o = "byte_char (wr_op rec)"
  let ?v = "u64_bytes (of_nat (wr_version rec))" and ?z = "u64_bytes (of_nat (wr_size rec))"
  let ?lk = "u32_bytes (of_nat (length (wr_key rec)))" and ?lc = "u32_bytes (of_nat (length (wr_checksum rec)))"
  let ?k = "wr_key rec" and ?c = "wr_checksum rec"
  let ?B = "?b0 # ?s @ ?o # ?v @ ?z @ ?lk @ ?k @ ?lc @ ?c"
  have B: "EncodeBody rec = ?B" using False by (simp add: EncodeBody_bytes)
  have 1: "wal_Reader_U8 (Reader ?B) = Some (0, \<lparr>rd_buf = ?B, rd_pos = 1\<rparr>)"
    using wal_Reader_U8_at [of "[]" ?b0] by (simp add: Reader_def)
  have 2: "Reader_U64 \<lparr>rd_buf = ?B, rd_pos = 1\<rparr> = Some (of_nat (wr_seq rec), \<lparr>rd_buf = ?B, rd_pos = 9\<rparr>)"
    using Reader_U64_at [of "[?b0]"] by simp
  have 3: "wal_Reader_U8 \<lparr>rd_buf = ?B, rd_pos = 9\<rparr> = Some (wr_op rec, \<lparr>rd_buf = ?B, rd_pos = 10\<rparr>)"
    using wal_Reader_U8_at [of "?b0 # ?s" ?o] by simp
  have 4: "Reader_U64 \<lparr>rd_buf = ?B, rd_pos = 10\<rparr> = Some (of_nat (wr_version rec), \<lparr>rd_buf = ?B, rd_pos = 18\<rparr>)"
    using Reader_U64_at [of "?b0 # ?s @ [?o]"] by simp
  have 5: "Reader_U64 \<lparr>rd_buf = ?B, rd_pos = 18\<rparr> = Some (of_nat (wr_size rec), \<lparr>rd_buf = ?B, rd_pos = 26\<rparr>)"
    using Reader_U64_at [of "?b0 # ?s @ ?o # ?v"] by simp
  have 6: "Reader_Str \<lparr>rd_buf = ?B, rd_pos = 26\<rparr> = Some (?k, \<lparr>rd_buf = ?B, rd_pos = 30 + length ?k\<rparr>)"
    using Reader_Str_at [of ?k "?b0 # ?s @ ?o # ?v @ ?z"] assms by (simp add: wal_ok_def)
  have 7: "Reader_Str \<lparr>rd_buf = ?B, rd_pos = 30 + length ?k\<rparr> = Some (?c, \<lparr>rd_buf = ?B, rd_pos = 34 + length ?k + length ?c\<rparr>)"
    using Reader_Str_at [of ?c "?b0 # ?s @ ?o # ?v @ ?z @ ?lk @ ?k" "[]"] assms by (simp add: wal_ok_def)
  have dec: "DecodeBody ?B = Some (WalRecord_default\<lparr>wr_is_commit := False, wr_seq := unat (of_nat (wr_seq rec) :: u64),
      wr_op := wr_op rec, wr_version := unat (of_nat (wr_version rec) :: u64), wr_size := unat (of_nat (wr_size rec) :: u64),
      wr_key := ?k, wr_checksum := ?c\<rparr>)"
    unfolding DecodeBody_def wal_wire_eq 1 2 option.case prod.case Let_def 3 4 5 6 7 by simp
  show ?thesis
    unfolding B dec using assms False by (cases rec) (simp add: WalRecord_default_def wal_ok_def unat_of_nat_u64)
qed

text \<open>Replay is frame reading followed by decoding up to the first body that does not decode.\<close>

fun wal_decode_all :: "string list \<Rightarrow> WalRecord list" where
  "wal_decode_all [] = []"
| "wal_decode_all (b # bs) = (case DecodeBody b of None \<Rightarrow> [] | Some rec \<Rightarrow> rec # wal_decode_all bs)"

lemma wal_replay_from_eq: "wal_replay_from all pos = wal_decode_all (read_frames_from all pos)"
proof (induction all pos rule: wal_replay_from.induct)
  case (1 all pos)
  show ?case
  proof (cases "pos + 4 \<le> length all")
    case True
    let ?n = "unat (be_value (take 4 (drop pos all)) :: u32)"
    have n: "wal_read_be 4 all pos = (be_value (take 4 (drop pos all)) :: u32)"
      by (rule wal_read_be_eq [OF True])
    show ?thesis
    proof (cases "?n = 0 \<or> pos + 4 + ?n + 4 > length all")
      case True
      then show ?thesis by (subst wal_replay_from.simps, subst read_frames_from.simps) (auto simp: Let_def n)
    next
      case False
      then have c: "wal_read_be 4 all (pos + 4 + ?n) = (be_value (take 4 (drop (pos + 4 + ?n) all)) :: u32)"
        by (intro wal_read_be_eq) simp
      have IH: "wal_replay_from all (pos + 4 + ?n + 4) = wal_decode_all (read_frames_from all (pos + 4 + ?n + 4))"
        if "Crc32 (take ?n (drop (pos + 4) all)) = be_value (take 4 (drop (pos + 4 + ?n) all))"
          "DecodeBody (take ?n (drop (pos + 4) all)) = Some rec" for rec
        using "1.IH" [OF True refl refl _ refl refl] False that by (simp add: n c wal_Crc32_eq)
      show ?thesis
        using True False IH
        by (subst wal_replay_from.simps, subst read_frames_from.simps)
           (simp add: n c wal_Crc32_eq Let_def cong: if_cong split: option.split)
    qed
  next
    case False
    then show ?thesis by (subst wal_replay_from.simps, subst read_frames_from.simps) simp
  qed
qed

lemma wal_decode_encoded: "\<forall>r \<in> set rs. wal_ok r \<Longrightarrow> wal_decode_all (map EncodeBody rs) = rs"
  by (induction rs) (simp_all add: DecodeBody_EncodeBody)

definition wal_bytes :: "WalRecord list \<Rightarrow> string" where
  "wal_bytes rs = concat (map wal_frame rs)"

lemma wal_bytes_append: "wal_bytes (rs @ rs') = wal_bytes rs @ wal_bytes rs'"
  by (simp add: wal_bytes_def)

lemma Wal_Replay_torn:
  assumes "\<forall>r \<in> set rs. wal_ok r" and "wal_ok rec" and "k < length (wal_frame rec)"
  shows "Wal_Replay (wal_bytes rs @ take k (wal_frame rec)) = rs"
proof -
  have f: "\<forall>b \<in> set (map EncodeBody rs). frameable b" using assms(1) by (auto simp: frameable_EncodeBody)
  have "ReadFramedRecords (concat (map Frame (map EncodeBody rs)) @ take k (Frame (EncodeBody rec))) = map EncodeBody rs"
    using ReadFramedRecords_torn_tail [OF f frameable_EncodeBody [OF assms(2)]] assms(3) by (simp add: wal_frame_eq)
  then show ?thesis
    using wal_decode_encoded [OF assms(1)]
    by (simp add: Wal_Replay_def wal_replay_from_eq wal_bytes_def wal_frame_eq ReadFramedRecords_def comp_def)
qed

lemma Wal_Replay_bytes: "\<forall>r \<in> set rs. wal_ok r \<Longrightarrow> Wal_Replay (wal_bytes rs) = rs"
  using Wal_Replay_torn [of rs "WalRecord_default" 0] by (simp add: wal_ok_def WalRecord_default_def wal_frame_eq)

section \<open>The write-ahead log as a durable log\<close>

definition wal_holds :: "Wal \<Rightarrow> WalRecord list \<Rightarrow> bool" where
  "wal_holds w rs \<longleftrightarrow> wal_fd_open w \<and> (\<forall>r \<in> set rs. wal_ok r) \<and> wal_file w = wal_bytes rs"

definition wal_stored :: "Wal \<Rightarrow> WalRecord list" where
  "wal_stored w = Wal_Replay (wal_file w)"

definition wal_append :: "WalRecord \<Rightarrow> Wal \<Rightarrow> Wal" where
  "wal_append rec w = snd (AppendRecord append_good rec w)"

definition wal_clean :: "Wal \<Rightarrow> bool" where
  "wal_clean w \<longleftrightarrow> wal_holds w (wal_stored w)"

definition wal_torn :: "WalRecord \<Rightarrow> Wal \<Rightarrow> Wal \<Rightarrow> bool" where
  "wal_torn rec w w' \<longleftrightarrow> (\<exists>k < length (wal_frame rec). w' = w\<lparr>wal_file := wal_file w @ take k (wal_frame rec)\<rparr>)"

lemma wal_holds_stored: "wal_holds w rs \<Longrightarrow> wal_stored w = rs"
  by (simp add: wal_holds_def wal_stored_def Wal_Replay_bytes)

lemma AppendRecord_good:
  "wal_holds w rs \<Longrightarrow> AppendRecord append_good rec w = (Status_Ok, w\<lparr>wal_file := wal_file w @ wal_frame rec\<rparr>)"
  by (simp add: AppendRecord_def append_good_def wal_holds_def)

lemma AppendRecord_holds:
  "wal_holds w rs \<Longrightarrow> wal_ok rec \<Longrightarrow> wal_holds (w\<lparr>wal_file := wal_file w @ wal_frame rec\<rparr>) (rs @ [rec])"
  by (simp add: wal_holds_def wal_bytes_append) (simp add: wal_bytes_def)

interpretation wal_log: durable_log wal_append wal_stored wal_clean wal_ok wal_torn
proof
  fix w rec assume "wal_clean w" "wal_ok rec"
  then have h: "wal_holds (wal_append rec w) (wal_stored w @ [rec])"
    using AppendRecord_good [of w "wal_stored w" rec] AppendRecord_holds [of w "wal_stored w" rec]
    by (simp add: wal_clean_def wal_append_def)
  then show st: "wal_stored (wal_append rec w) = wal_stored w @ [rec]" by (rule wal_holds_stored)
  from h show "wal_clean (wal_append rec w)" by (simp add: wal_clean_def st)
next
  fix w rec w' assume "wal_clean w" "wal_ok rec" "wal_torn rec w w'"
  then show "wal_stored w' = wal_stored w"
    by (auto simp: wal_torn_def wal_clean_def wal_holds_def wal_stored_def [of w'] intro!: Wal_Replay_torn)
qed

lemma wal_append_next_seq: "wal_next_seq (wal_append rec w) = wal_next_seq w"
  by (simp add: wal_append_def AppendRecord_def append_good_def)

lemma max_seq_bound: "m \<le> foldl (\<lambda>m r. max m (wr_seq r)) m rs \<and> (\<forall>r \<in> set rs. wr_seq r \<le> foldl (\<lambda>m r. max m (wr_seq r)) m rs)"
  by (induction rs arbitrary: m) (auto, (meson max.bounded_iff order_trans)+)

lemma max_seq_lt: "m < n \<Longrightarrow> \<forall>r \<in> set rs. wr_seq r < n \<Longrightarrow> foldl (\<lambda>m r. max m (wr_seq r)) m rs < n"
  by (induction rs arbitrary: m) auto

section \<open>Properties\<close>

text \<open>
  The write-ahead log survives a crash: from a log that ends at a record boundary, append any records
  and crash in the middle of one more; replaying the file returns exactly the records before plus the
  completed ones, and reopening it continues with a sequence number larger than all of theirs.
\<close>

theorem wal_survives_crash:
  assumes "wal_clean w" and "\<forall>r \<in> set rs. wal_ok r" and "wal_ok rec" and "k < length (wal_frame rec)"
    and "\<forall>r \<in> set (wal_stored w @ rs). wr_seq r + 1 < u64_size"
    and "content = wal_file (fold wal_append rs w) @ take k (wal_frame rec)"
  shows "Wal_Replay content = wal_stored w @ rs \<and>
    (\<exists>w'. Wal_Open None content = Inr w' \<and> (\<forall>r \<in> set (wal_stored w @ rs). wr_seq r < wal_next_seq w'))"
proof -
  have "wal_torn rec (fold wal_append rs w) ((fold wal_append rs w)\<lparr>wal_file := content\<rparr>)"
    using assms(4,6) by (auto simp: wal_torn_def)
  from wal_log.crash_recovers_prefix [OF assms(1-3) this]
  have rep: "Wal_Replay content = wal_stored w @ rs" by (simp add: wal_stored_def)
  have "foldl (\<lambda>m r. max m (wr_seq r)) 0 (wal_stored w @ rs) < u64_size - 1"
    by (rule max_seq_lt) (use assms(5) in auto)
  then have "u64_add (foldl (\<lambda>m r. max m (wr_seq r)) 0 (wal_stored w @ rs)) 1 = Suc (foldl (\<lambda>m r. max m (wr_seq r)) 0 (wal_stored w @ rs))"
    by (simp add: u64_add_def del: foldl_append)
  then show ?thesis
    using rep max_seq_bound [of 0 "wal_stored w @ rs"] by (simp add: Wal_Open_def Let_def less_Suc_eq_le del: foldl_append)
qed

definition wal_empty :: Wal where
  "wal_empty = \<lparr>wal_file = [], wal_fd_open = True, wal_next_seq = 1\<rparr>"

lemma wal_holds_empty: "wal_holds wal_empty []"
  by (simp add: wal_holds_def wal_empty_def wal_bytes_def)

lemma wal_clean_empty: "wal_clean wal_empty" and wal_stored_empty: "wal_stored wal_empty = []"
  using wal_holds_stored [OF wal_holds_empty] wal_holds_empty by (simp_all add: wal_clean_def)

theorem wal_survives_crash_witness:
  "let r1 = begin_record 1 kPut ''k'' 1 ''sum'' 3; r2 = WalRecord_default\<lparr>wr_seq := 1, wr_is_commit := True\<rparr>
   in Wal_Replay (wal_file (fold wal_append [r1] wal_empty) @ take 5 (wal_frame r2)) = [r1]"
  using wal_survives_crash [OF wal_clean_empty, of "[begin_record 1 kPut ''k'' 1 ''sum'' 3]"
      "WalRecord_default\<lparr>wr_seq := 1, wr_is_commit := True\<rparr>" 5]
  by (simp add: Let_def wal_ok_def begin_record_def WalRecord_default_def wal_stored_empty wal_frame_eq EncodeBody_bytes)

text \<open>
  Record round trip: every record with lengths and numbers in range is read back as written, whatever
  byte stands in its operation field.
\<close>

theorem wal_record_roundtrip:
  assumes "wal_ok rec"
  shows "DecodeBody (EncodeBody rec) = Some rec \<and> Wal_Replay (wal_frame rec) = [rec]"
  using DecodeBody_EncodeBody [OF assms] Wal_Replay_bytes [of "[rec]"] assms by (simp add: wal_bytes_def)

theorem wal_record_roundtrip_witness:
  "DecodeBody (EncodeBody (begin_record 7 kDelete ''k'' 0 '''' 0)) = Some (begin_record 7 kDelete ''k'' 0 '''' 0)"
  using wal_record_roundtrip [of "begin_record 7 kDelete ''k'' 0 '''' 0"] by (simp add: wal_ok_def begin_record_def)

end
