(* ===== verification/Local_Object_Store.thy ===== *)
theory Local_Object_Store
  imports Sqlite_Store Wal Sha256 Decimal
begin

text \<open>
  \<open>src/storage/local_object_store.cc\<close>: payload files, metadata rows and the write-ahead log of one storage
  node. Every answer of the operating system and of SQLite is an input. A crash is a value too: a write
  is told at which of its durable steps the process dies, and then returns \<open>None\<close> together with what is
  on disk.

  The calls on one key are serialised by its shard lock, so an operation is one step here.
\<close>

section \<open>State\<close>

record LocalObjectStore =
  ls_root :: "string list"
  ls_files :: "string list \<rightharpoonup> string"
  ls_tmp :: "string list"
  ls_meta :: objects
  ls_wal :: Wal

definition DataRoot :: "LocalObjectStore \<Rightarrow> string list" where
  "DataRoot s = ls_root s @ [''data'']"

definition object_path :: "LocalObjectStore \<Rightarrow> string \<Rightarrow> string list" where
  "object_path s key = PhysicalPath (DataRoot s) (KeyDigest key)"

definition path_string :: "string list \<Rightarrow> string" where
  "path_string p = concat (map (\<lambda>c. ''/'' @ c) p)"

section \<open>Files\<close>

definition FsyncDir :: "string option \<Rightarrow> string option \<Rightarrow> Status" where
  "FsyncDir dir_open dir_fsync =
    (case dir_open of
       Some e \<Rightarrow> IoError (''open dir for fsync: '' @ e)
     | None \<Rightarrow> (case dir_fsync of Some e \<Rightarrow> IoError (''fsync dir: '' @ e) | None \<Rightarrow> Status_Ok))"

record file_env =
  fe_mkdir :: "string option"
  fe_open :: "string option"
  fe_write :: "write_answer list"
  fe_fsync :: "string option"
  fe_close :: "string option"
  fe_rename :: "string option"
  fe_dir_open :: "string option"
  fe_dir_fsync :: "string option"

definition file_good :: file_env where
  "file_good = \<lparr>fe_mkdir = None, fe_open = None, fe_write = [], fe_fsync = None, fe_close = None, fe_rename = None,
    fe_dir_open = None, fe_dir_fsync = None\<rparr>"

text \<open>On every failure before the rename the staging file is unlinked again, so only the final path matters.\<close>

definition Local_WriteFileAtomic :: "file_env \<Rightarrow> string list \<Rightarrow> string \<Rightarrow> LocalObjectStore \<Rightarrow> Status \<times> LocalObjectStore" where
  "Local_WriteFileAtomic env final_path data s =
    (case fe_mkdir env of Some e \<Rightarrow> (IoError (''create object dir: '' @ e), s)
     | None \<Rightarrow>
       (case fe_open env of Some e \<Rightarrow> (IoError (''open temp file: '' @ e), s)
        | None \<Rightarrow>
          (case write_loop (fe_write env) [] data of
             (_, Some e) \<Rightarrow> (IoError (''write temp file: '' @ e), s)
           | (tmp, None) \<Rightarrow>
             (case fe_fsync env of Some e \<Rightarrow> (IoError (''fsync temp file: '' @ e), s)
              | None \<Rightarrow>
                (case fe_close env of Some e \<Rightarrow> (IoError (''close temp file: '' @ e), s)
                 | None \<Rightarrow>
                   (case fe_rename env of Some e \<Rightarrow> (IoError (''rename temp file: '' @ e), s)
                    | None \<Rightarrow> (FsyncDir (fe_dir_open env) (fe_dir_fsync env),
                        s\<lparr>ls_files := (ls_files s)(final_path \<mapsto> tmp)\<rparr>)))))))"

text \<open>The argument \<open>bad\<close> is \<open>in.bad()\<close> after the read.\<close>

definition ReadWholeFile :: "bool \<Rightarrow> string list \<Rightarrow> LocalObjectStore \<Rightarrow> string StatusOr" where
  "ReadWholeFile bad path s =
    (case ls_files s path of
       None \<Rightarrow> Inl (IoError (''open for read: '' @ path_string path))
     | Some data \<Rightarrow> if bad then Inl (IoError (''read failed: '' @ path_string path)) else Inr data)"

section \<open>Writes\<close>

text \<open>Where a crash hits: in the BEGIN record, while staging, after the rename, after the row, in the COMMIT record.\<close>

datatype crash_point = In_begin nat | In_staging string | After_rename | After_row | In_commit nat

record put_env =
  pe_peek :: sq_env
  pe_begin :: append_env
  pe_file :: file_env
  pe_row :: sq_env
  pe_commit :: append_env
  pe_time :: int
  pe_crash :: "crash_point option"

definition put_good :: "int \<Rightarrow> put_env" where
  "put_good t = \<lparr>pe_peek = sq_good, pe_begin = append_good, pe_file = file_good, pe_row = sq_good, pe_commit = append_good,
    pe_time = t, pe_crash = None\<rparr>"

definition torn_append :: "nat \<Rightarrow> WalRecord \<Rightarrow> LocalObjectStore \<Rightarrow> LocalObjectStore" where
  "torn_append k rec s = s\<lparr>ls_wal := (ls_wal s)\<lparr>wal_file := wal_file (ls_wal s) @ take k (wal_frame rec)\<rparr>\<rparr>"

text \<open>Steps 3 and 4 of \<open>DoPut\<close>: the row, then the COMMIT record, whose failure is ignored.\<close>

definition DoPut_commit ::
  "put_env \<Rightarrow> nat \<Rightarrow> ObjectMetadata \<Rightarrow> LocalObjectStore \<Rightarrow> ObjectMetadata StatusOr option \<times> LocalObjectStore" where
  "DoPut_commit env seq meta s =
    (let (c, t) = Sqlite_Put (pe_row env) meta (ls_meta s); s = s\<lparr>ls_meta := t\<rparr>
     in if \<not> ok c then (Some (Inl c), s)
        else (case pe_crash env of
            Some After_row \<Rightarrow> (None, s)
          | Some (In_commit k) \<Rightarrow> (None, torn_append k (WalRecord_default\<lparr>wr_seq := seq, wr_is_commit := True\<rparr>) s)
          | _ \<Rightarrow> (Some (Inr meta), s\<lparr>ls_wal := snd (AppendCommit (pe_commit env) seq (ls_wal s))\<rparr>)))"

text \<open>Steps 1 and 2: the BEGIN record, then the payload.\<close>

definition DoPut_write ::
  "put_env \<Rightarrow> string \<Rightarrow> ObjectMetadata \<Rightarrow> LocalObjectStore \<Rightarrow> ObjectMetadata StatusOr option \<times> LocalObjectStore" where
  "DoPut_write env data meta s =
    (let (seq, w) = NextSeq (ls_wal s);
         s = s\<lparr>ls_wal := w\<rparr>;
         begin = begin_record seq kPut (md_key meta) (md_version meta) (md_checksum meta) (md_size meta)
     in case pe_crash env of
          Some (In_begin k) \<Rightarrow> (None, torn_append k begin s)
        | crash \<Rightarrow>
          let (wb, w) = AppendBegin (pe_begin env) seq kPut (md_key meta) (md_version meta) (md_checksum meta) (md_size meta) (ls_wal s);
              s = s\<lparr>ls_wal := w\<rparr>
          in if \<not> ok wb then (Some (Inl wb), s)
             else (case crash of
                 Some (In_staging d) \<Rightarrow> (None, s\<lparr>ls_tmp := ls_tmp s @ [d]\<rparr>)
               | _ \<Rightarrow>
                 let (st, s) = Local_WriteFileAtomic (pe_file env) (object_path s (md_key meta)) data s
                 in if \<not> ok st then (Some (Inl st), s)
                    else if crash = Some After_rename then (None, s)
                    else DoPut_commit env seq meta s))"

text \<open>The version check and choice.\<close>

definition DoPut_versioned ::
  "put_env \<Rightarrow> string \<Rightarrow> string \<Rightarrow> nat \<Rightarrow> bool \<Rightarrow> nat \<Rightarrow> string \<Rightarrow> nat \<Rightarrow> LocalObjectStore
    \<Rightarrow> ObjectMetadata StatusOr option \<times> LocalObjectStore" where
  "DoPut_versioned env key data explicit_version conditional expected_version request_id current_version s =
    (if conditional \<and> current_version \<noteq> expected_version
     then (Some (Inl (Conflict (''version conflict for '' @ [CHR 0x27] @ key @ [CHR 0x27] @ '': expected '' @
             to_string expected_version @ '', have '' @ to_string current_version))), s)
     else
       let version = (if explicit_version \<noteq> 0 then explicit_version
                      else if conditional then u64_add expected_version 1
                      else u64_add current_version 1);
           meta = \<lparr>md_key = key, md_size = length data, md_checksum = Sha256Hex data, md_version = version,
                   md_created_at = pe_time env, md_deleted = False, md_request_id = request_id\<rparr>
       in DoPut_write env data meta s)"

definition DoPut ::
  "put_env \<Rightarrow> string \<Rightarrow> string \<Rightarrow> nat \<Rightarrow> bool \<Rightarrow> nat \<Rightarrow> string \<Rightarrow> LocalObjectStore
    \<Rightarrow> ObjectMetadata StatusOr option \<times> LocalObjectStore" where
  "DoPut env key data explicit_version conditional expected_version request_id s =
    (let peek = Peek (pe_peek env) key (ls_meta s);
         current_version = (case peek of Inl _ \<Rightarrow> 0 | Inr row \<Rightarrow> md_version row)
     in case peek of
          Inr row \<Rightarrow>
            if request_id \<noteq> '''' \<and> md_request_id row = request_id then (Some (Inr row), s)
            else DoPut_versioned env key data explicit_version conditional expected_version request_id current_version s
        | Inl st \<Rightarrow>
            if code st \<noteq> kNotFound then (Some (Inl st), s)
            else DoPut_versioned env key data explicit_version conditional expected_version request_id current_version s)"

definition Local_Put ::
  "put_env \<Rightarrow> string \<Rightarrow> string \<Rightarrow> LocalObjectStore \<Rightarrow> ObjectMetadata StatusOr option \<times> LocalObjectStore" where
  "Local_Put env key data s =
    (if key = '''' then (Some (Inl (InvalidArgument ''empty key'')), s)
     else DoPut env key data 0 False 0 '''' s)"

definition PutWithVersion ::
  "put_env \<Rightarrow> string \<Rightarrow> string \<Rightarrow> nat \<Rightarrow> LocalObjectStore \<Rightarrow> ObjectMetadata StatusOr option \<times> LocalObjectStore" where
  "PutWithVersion env key data version s =
    (if key = '''' then (Some (Inl (InvalidArgument ''empty key'')), s)
     else if version = 0 then (Some (Inl (InvalidArgument ''explicit version must be non-zero'')), s)
     else DoPut env key data version False 0 '''' s)"

definition PutConditional ::
  "put_env \<Rightarrow> string \<Rightarrow> string \<Rightarrow> nat \<Rightarrow> string \<Rightarrow> LocalObjectStore \<Rightarrow> ObjectMetadata StatusOr option \<times> LocalObjectStore" where
  "PutConditional env key data expected_version request_id s =
    (if key = '''' then (Some (Inl (InvalidArgument ''empty key'')), s)
     else DoPut env key data 0 True expected_version request_id s)"

definition Local_Delete :: "put_env \<Rightarrow> string \<Rightarrow> LocalObjectStore \<Rightarrow> Status option \<times> LocalObjectStore" where
  "Local_Delete env key s =
    (let (seq, w) = NextSeq (ls_wal s); s = s\<lparr>ls_wal := w\<rparr>
     in case pe_crash env of
          Some (In_begin k) \<Rightarrow> (None, torn_append k (begin_record seq kDelete key 0 '''' 0) s)
        | crash \<Rightarrow>
          let (wb, w) = AppendBegin (pe_begin env) seq kDelete key 0 '''' 0 (ls_wal s); s = s\<lparr>ls_wal := w\<rparr>
          in if \<not> ok wb then (Some wb, s)
             else (case crash of
                 Some (In_staging _) \<Rightarrow> (None, s)
               | _ \<Rightarrow>
                 let (st, t) = Sqlite_Delete (pe_row env) key (ls_meta s); s = s\<lparr>ls_meta := t\<rparr>
                 in if \<not> ok st then (Some st, s)
                    else (case crash of
                        Some After_row \<Rightarrow> (None, s)
                      | Some (In_commit k) \<Rightarrow> (None, torn_append k (WalRecord_default\<lparr>wr_seq := seq, wr_is_commit := True\<rparr>) s)
                      | _ \<Rightarrow> (Some st, s\<lparr>ls_wal := snd (AppendCommit (pe_commit env) seq (ls_wal s))\<rparr>))))"

section \<open>Reads\<close>

record get_env =
  ge_row :: sq_env
  ge_bad :: bool

definition get_good :: get_env where
  "get_good = \<lparr>ge_row = sq_good, ge_bad = False\<rparr>"

definition Local_Get :: "get_env \<Rightarrow> string \<Rightarrow> LocalObjectStore \<Rightarrow> string StatusOr" where
  "Local_Get env key s =
    (case Sqlite_Get (ge_row env) key (ls_meta s) of
       Inl st \<Rightarrow> Inl st
     | Inr meta \<Rightarrow>
         (case ReadWholeFile (ge_bad env) (object_path s key) s of
            Inl st \<Rightarrow> Inl st
          | Inr data \<Rightarrow>
              if Sha256Hex data \<noteq> md_checksum meta then Inl (ChecksumMismatch (''checksum mismatch for key: '' @ key))
              else Inr data))"

definition Local_Head :: "sq_env \<Rightarrow> string \<Rightarrow> LocalObjectStore \<Rightarrow> ObjectMetadata StatusOr" where
  "Local_Head env key s = Sqlite_Get env key (ls_meta s)"

definition Local_List :: "sq_env \<Rightarrow> string \<Rightarrow> LocalObjectStore \<Rightarrow> ObjectMetadata list StatusOr" where
  "Local_List env prefix s = Sqlite_List env prefix (ls_meta s)"

section \<open>Recovery\<close>

text \<open>The answers during recovery, by the position of the record being handled.\<close>

record recover_env =
  re_peek :: "nat \<Rightarrow> sq_env"
  re_write :: "nat \<Rightarrow> sq_env"
  re_bad :: "nat \<Rightarrow> bool"
  re_time :: int
  re_truncate :: "string option"

definition recover_good :: "int \<Rightarrow> recover_env" where
  "recover_good t = \<lparr>re_peek = (\<lambda>_. sq_good), re_write = (\<lambda>_. sq_good), re_bad = (\<lambda>_. False), re_time = t, re_truncate = None\<rparr>"

definition committed_seqs :: "WalRecord list \<Rightarrow> nat list" where
  "committed_seqs records = map wr_seq (filter wr_is_commit records)"

text \<open>One BEGIN without COMMIT; \<open>Some st\<close> is the early return, with the rows written so far.\<close>

definition recover_record :: "recover_env \<Rightarrow> nat \<Rightarrow> WalRecord \<Rightarrow> LocalObjectStore \<Rightarrow> Status option \<times> LocalObjectStore" where
  "recover_record env i rec s =
    (let peek = Peek (re_peek env i) (wr_key rec) (ls_meta s);
         current = (case peek of Inl _ \<Rightarrow> 0 | Inr row \<Rightarrow> md_version row)
     in if wr_op rec = kPut then
          if sor_ok peek \<and> wr_version rec \<le> current then (None, s)
          else (case ReadWholeFile (re_bad env i) (PhysicalPath (DataRoot s) (KeyDigest (wr_key rec))) s of
                  Inl _ \<Rightarrow> (None, s)
                | Inr data \<Rightarrow>
                    if Sha256Hex data = wr_checksum rec then
                      let meta = \<lparr>md_key = wr_key rec, md_size = wr_size rec, md_checksum = wr_checksum rec,
                                  md_version = wr_version rec, md_created_at = re_time env, md_deleted = False,
                                  md_request_id = ''''\<rparr>;
                          (c, t) = Sqlite_Put (re_write env i) meta (ls_meta s)
                      in (if ok c then None else Some c, s\<lparr>ls_meta := t\<rparr>)
                    else (None, s))
        else (case peek of
                Inl _ \<Rightarrow> (None, s)
              | Inr row \<Rightarrow>
                  if md_deleted row then (None, s)
                  else let (d, t) = Sqlite_Delete (re_write env i) (wr_key rec) (ls_meta s)
                       in (if \<not> ok d \<and> code d \<noteq> kNotFound then Some d else None, s\<lparr>ls_meta := t\<rparr>)))"

fun recover_loop :: "recover_env \<Rightarrow> nat list \<Rightarrow> nat \<Rightarrow> WalRecord list \<Rightarrow> LocalObjectStore \<Rightarrow> Status option \<times> LocalObjectStore" where
  "recover_loop env committed i [] s = (None, s)"
| "recover_loop env committed i (rec # recs) s =
    (if wr_is_commit rec \<or> wr_seq rec \<in> set committed then recover_loop env committed (Suc i) recs s
     else (case recover_record env i rec s of
             (Some st, s) \<Rightarrow> (Some st, s)
           | (None, s) \<Rightarrow> recover_loop env committed (Suc i) recs s))"

text \<open>The staging files are removed and the log is reset at the end.\<close>

definition Recover :: "recover_env \<Rightarrow> WalRecord list \<Rightarrow> LocalObjectStore \<Rightarrow> Status \<times> LocalObjectStore" where
  "Recover env records s =
    (case recover_loop env (committed_seqs records) 0 records s of
       (Some st, s) \<Rightarrow> (st, s)
     | (None, s) \<Rightarrow>
         let (st, w) = Truncate (re_truncate env) (ls_wal s)
         in (st, s\<lparr>ls_tmp := [], ls_wal := w\<rparr>))"

record store_open_env =
  so_data_dir :: "string option"
  so_meta_dir :: "string option"
  so_sqlite_open :: "string option"
  so_sqlite_schema :: "string option"
  so_wal :: "string option"
  so_recover :: recover_env

definition store_open_good :: "int \<Rightarrow> store_open_env" where
  "store_open_good t = \<lparr>so_data_dir = None, so_meta_dir = None, so_sqlite_open = None, so_sqlite_schema = None, so_wal = None, so_recover = recover_good t\<rparr>"

text \<open>\<open>Open\<close> on what an earlier process left: only the files, the rows and the content of the log of \<open>s\<close> are read.\<close>

definition Local_Open :: "store_open_env \<Rightarrow> LocalObjectStore \<Rightarrow> Status \<times> LocalObjectStore" where
  "Local_Open env s =
    (case so_data_dir env of Some e \<Rightarrow> (IoError (''create data dir: '' @ e), s)
     | None \<Rightarrow>
       (case so_meta_dir env of Some e \<Rightarrow> (IoError (''create metadata dir: '' @ e), s)
        | None \<Rightarrow>
          (case Sqlite_Open (so_sqlite_open env) (so_sqlite_schema env) (ls_meta s) of Inl st \<Rightarrow> (st, s)
           | Inr t \<Rightarrow>
             let records = Wal_Replay (wal_file (ls_wal s))
             in (case Wal_Open (so_wal env) (wal_file (ls_wal s)) of
                   Inl st \<Rightarrow> (st, s)
                 | Inr w \<Rightarrow> Recover (so_recover env) records (s\<lparr>ls_meta := t, ls_wal := w\<rparr>)))))"

end
