(* ===== verification/Store_Safety.thy ===== *)
theory Store_Safety
  imports Local_Object_Store
begin

text \<open>
  Correctness of a storage node across writes, crashes and restarts. The invariant \<open>store_ok\<close> ties rows,
  payload files and log together; a restart from it changes nothing a reader sees, a completed write is
  read back, and a write interrupted at any point is, after recovery, either done or not done.

  SHA-256 is not assumed to be injective. Where two keys or two payloads must have different digests
  for a claim to hold, the claim says so for those keys and payloads.
\<close>

section \<open>What a read depends on\<close>

lemma Get_good:
  "Local_Get get_good key s =
    (case om_find (ls_meta s) key of
       None \<Rightarrow> Inl (NotFound (''no such key: '' @ key))
     | Some row \<Rightarrow>
         if md_deleted row then Inl (NotFound (''tombstoned: '' @ key))
         else (case ls_files s (object_path s key) of
            None \<Rightarrow> Inl (IoError (''open for read: '' @ path_string (object_path s key)))
          | Some data \<Rightarrow>
              if Sha256Hex data \<noteq> c_str (md_checksum row) then Inl (ChecksumMismatch (''checksum mismatch for key: '' @ key))
              else Inr data))"
  by (simp add: Local_Get_def get_good_def Sqlite_Get_def sq_good_def ReadWholeFile_def ReadRow_def Let_def split: option.split)

lemma Get_cong:
  assumes "ls_root s' = ls_root s" and "om_find (ls_meta s') key = om_find (ls_meta s) key"
    and "om_find (ls_meta s) key \<noteq> None \<Longrightarrow> ls_files s' (object_path s key) = ls_files s (object_path s key)"
  shows "Local_Get get_good key s' = Local_Get get_good key s"
  using assms by (simp add: Get_good object_path_def DataRoot_def split: option.split)

lemma Peek_good:
  "Peek sq_good key t = (case om_find t key of None \<Rightarrow> Inl (NotFound (''no such key: '' @ key)) | Some row \<Rightarrow> Inr (ReadRow row))"
  by (simp add: Peek_def sq_good_def)

lemma c_str_digest: "c_str (Sha256Hex data) = Sha256Hex data"
proof -
  have "CHR 0x00 \<notin> set ''0123456789abcdef''" by simp
  then have "\<forall>c \<in> set (Sha256Hex data). c \<noteq> CHR 0x00" using Sha256Hex_shape [of data] by blast
  then show ?thesis unfolding c_str_def by (simp add: takeWhile_eq_all_conv)
qed

lemma path_inj: "PhysicalPath r d = PhysicalPath r d' \<longleftrightarrow> d = d'"
  by (auto simp: PhysicalPath_def)

section \<open>The invariant\<close>

text \<open>A BEGIN without COMMIT whose put is already covered by a row of at least its version.\<close>

definition covered :: "WalRecord \<Rightarrow> objects \<Rightarrow> bool" where
  "covered r t \<longleftrightarrow> wr_op r = kPut \<and> (\<exists>row. om_find t (wr_key r) = Some row \<and> wr_version r \<le> md_version row)"

definition settled :: "WalRecord list \<Rightarrow> objects \<Rightarrow> bool" where
  "settled rs t \<longleftrightarrow> (\<forall>r \<in> set rs. wr_is_commit r \<or> wr_seq r \<in> set (committed_seqs rs) \<or> covered r t)"

text \<open>Every live row has its bytes.\<close>

definition backed :: "LocalObjectStore \<Rightarrow> bool" where
  "backed s \<longleftrightarrow> (\<forall>k row. om_find (ls_meta s) k = Some row \<longrightarrow> c_str (md_checksum row) = md_checksum row \<and>
    (\<not> md_deleted row \<longrightarrow> (\<exists>data. ls_files s (object_path s k) = Some data \<and> Sha256Hex data = md_checksum row)))"

definition store_ok :: "LocalObjectStore \<Rightarrow> bool" where
  "store_ok s \<longleftrightarrow> om_ok (ls_meta s) \<and> wal_clean (ls_wal s) \<and> settled (wal_stored (ls_wal s)) (ls_meta s) \<and>
    (\<forall>r \<in> set (wal_stored (ls_wal s)). wr_seq r < wal_next_seq (ls_wal s)) \<and> backed s"

lemma store_okD:
  assumes "store_ok s"
  shows "om_ok (ls_meta s)" and "wal_holds (ls_wal s) (wal_stored (ls_wal s))"
    and "settled (wal_stored (ls_wal s)) (ls_meta s)"
    and "r \<in> set (wal_stored (ls_wal s)) \<Longrightarrow> wr_seq r < wal_next_seq (ls_wal s)" and "backed s"
  using assms by (simp_all add: store_ok_def wal_clean_def)

lemma store_ok_fd: "store_ok s \<Longrightarrow> wal_fd_open (ls_wal s)"
  using store_okD(2) by (simp add: wal_holds_def)

section \<open>Recovery\<close>

lemma recover_record_covered:
  assumes "covered r (ls_meta s)"
  shows "recover_record (recover_good t) i r s = (None, s)"
  using assms by (auto simp: covered_def recover_record_def recover_good_def Peek_good ReadRow_def Let_def)

lemma recover_loop_settled:
  assumes "\<forall>r \<in> set rs. wr_is_commit r \<or> wr_seq r \<in> set C \<or> covered r (ls_meta s)"
  shows "recover_loop (recover_good t) C i rs s = (None, s)"
  using assms by (induction rs arbitrary: i) (auto simp: recover_record_covered)

lemma recover_loop_append:
  "recover_loop env C i (xs @ ys) s =
    (case recover_loop env C i xs s of (Some st, s) \<Rightarrow> (Some st, s) | (None, s) \<Rightarrow> recover_loop env C (i + length xs) ys s)"
  by (induction env C i xs s rule: recover_loop.induct) (auto split: prod.split option.split)

lemma Truncate_empty: "Truncate None w = (Status_Ok, wal_empty)"
  by (cases w) (simp add: Truncate_def wal_empty_def)

text \<open>Recovery looks at neither the log descriptor nor the staging files.\<close>

lemma recover_record_wal:
  "recover_record env i r (s\<lparr>ls_wal := w\<rparr>) = (fst (recover_record env i r s), (snd (recover_record env i r s))\<lparr>ls_wal := w\<rparr>)"
  by (simp add: recover_record_def ReadWholeFile_def DataRoot_def Let_def split: prod.split sum.split option.split)

lemma recover_loop_wal:
  "recover_loop env C i rs (s\<lparr>ls_wal := w\<rparr>) = (fst (recover_loop env C i rs s), (snd (recover_loop env C i rs s))\<lparr>ls_wal := w\<rparr>)"
  by (induction env C i rs s rule: recover_loop.induct) (auto simp: recover_record_wal split: prod.split option.split)

lemma Open_recovers:
  assumes "Wal_Replay (wal_file (ls_wal s)) = recs"
    and "recover_loop (recover_good t) (committed_seqs recs) 0 recs s = (None, s')"
  shows "Local_Open (store_open_good t) s = (Status_Ok, s'\<lparr>ls_tmp := [], ls_wal := wal_empty\<rparr>)"
  using assms
  by (simp add: Local_Open_def store_open_good_def Sqlite_Open_def Wal_Open_def Recover_def recover_loop_wal Let_def)
     (simp add: recover_good_def Truncate_empty)

lemma restart_settled:
  assumes "Wal_Replay (wal_file (ls_wal s)) = recs" and "settled recs (ls_meta s)"
  shows "Local_Open (store_open_good t) s = (Status_Ok, s\<lparr>ls_tmp := [], ls_wal := wal_empty\<rparr>)"
  using Open_recovers [OF assms(1) recover_loop_settled] assms(2) by (simp add: settled_def)

lemma store_ok_reset: "ls_wal s = wal_empty \<Longrightarrow> om_ok (ls_meta s) \<Longrightarrow> backed s \<Longrightarrow> store_ok s"
  using wal_clean_empty wal_stored_empty by (simp add: store_ok_def settled_def)

section \<open>A write, step by step\<close>

definition taken :: "LocalObjectStore \<Rightarrow> LocalObjectStore" where
  "taken s = s\<lparr>ls_wal := snd (NextSeq (ls_wal s))\<rparr>"

definition logged :: "WalRecord list \<Rightarrow> LocalObjectStore \<Rightarrow> LocalObjectStore" where
  "logged rs s = s\<lparr>ls_wal := (ls_wal s)\<lparr>wal_file := wal_file (ls_wal s) @ wal_bytes rs\<rparr>\<rparr>"

definition with_file :: "string \<Rightarrow> string \<Rightarrow> LocalObjectStore \<Rightarrow> LocalObjectStore" where
  "with_file key data s = s\<lparr>ls_files := (ls_files s)(object_path s key \<mapsto> data)\<rparr>"

definition with_row :: "ObjectMetadata \<Rightarrow> LocalObjectStore \<Rightarrow> LocalObjectStore" where
  "with_row meta s = s\<lparr>ls_meta := om_set (md_key meta) meta (ls_meta s)\<rparr>"

definition put_begin :: "ObjectMetadata \<Rightarrow> LocalObjectStore \<Rightarrow> WalRecord" where
  "put_begin meta s =
    begin_record (wal_next_seq (ls_wal s)) kPut (md_key meta) (md_version meta) (md_checksum meta) (md_size meta)"

definition commit_of :: "LocalObjectStore \<Rightarrow> WalRecord" where
  "commit_of s = WalRecord_default\<lparr>wr_seq := wal_next_seq (ls_wal s), wr_is_commit := True\<rparr>"

text \<open>All system calls succeed, except that the process may die at a given point.\<close>

definition put_crash :: "int \<Rightarrow> crash_point option \<Rightarrow> put_env" where
  "put_crash t cr = (put_good t)\<lparr>pe_crash := cr\<rparr>"

lemmas put_state_defs = taken_def logged_def with_file_def with_row_def torn_append_def

lemma put_state_simps [simp]:
  "ls_root (taken s) = ls_root s" "ls_files (taken s) = ls_files s" "ls_meta (taken s) = ls_meta s" "ls_tmp (taken s) = ls_tmp s"
  "ls_root (logged rs s) = ls_root s" "ls_files (logged rs s) = ls_files s" "ls_meta (logged rs s) = ls_meta s"
  "ls_root (with_file key data s) = ls_root s" "ls_meta (with_file key data s) = ls_meta s" "ls_wal (with_file key data s) = ls_wal s"
  "ls_root (with_row meta s) = ls_root s" "ls_files (with_row meta s) = ls_files s" "ls_wal (with_row meta s) = ls_wal s"
  "ls_root (torn_append k r s) = ls_root s" "ls_files (torn_append k r s) = ls_files s" "ls_meta (torn_append k r s) = ls_meta s"
  "wal_file (ls_wal (taken s)) = wal_file (ls_wal s)" "wal_fd_open (ls_wal (taken s)) = wal_fd_open (ls_wal s)"
  "wal_file (ls_wal (logged rs s)) = wal_file (ls_wal s) @ wal_bytes rs"
  "wal_fd_open (ls_wal (logged rs s)) = wal_fd_open (ls_wal s)" "wal_next_seq (ls_wal (logged rs s)) = wal_next_seq (ls_wal s)"
  "ls_meta (with_row meta s) = om_set (md_key meta) meta (ls_meta s)"
  "wal_file (ls_wal (torn_append k r s)) = wal_file (ls_wal s) @ take k (wal_frame r)"
  by (simp_all add: put_state_defs NextSeq_def)

lemma object_path_simps [simp]:
  "object_path (taken s) = object_path s" "object_path (logged rs s) = object_path s"
  "object_path (with_file key data s) = object_path s" "object_path (with_row meta s) = object_path s"
  "object_path (torn_append k r s) = object_path s" "object_path (s\<lparr>ls_wal := w\<rparr>) = object_path s"
  "object_path (s\<lparr>ls_tmp := tmp\<rparr>) = object_path s" "object_path (s\<lparr>ls_meta := m\<rparr>) = object_path s"
  by (simp_all add: fun_eq_iff object_path_def DataRoot_def)

lemma files_with_file: "ls_files (with_file key data s) = (ls_files s)(object_path s key \<mapsto> data)"
  by (simp add: with_file_def)

lemma Append_logged:
  "wal_fd_open (ls_wal s) \<Longrightarrow> AppendRecord append_good r (ls_wal s) = (Status_Ok, ls_wal (logged [r] s))"
  by (simp add: AppendRecord_def append_good_def logged_def wal_bytes_def)

lemma Local_Write_good:
  "Local_WriteFileAtomic file_good (object_path s key) data s = (Status_Ok, with_file key data s)"
  by (simp add: Local_WriteFileAtomic_def file_good_def FsyncDir_def with_file_def)

lemma Sqlite_Put_good: "Sqlite_Put sq_good meta t = (Status_Ok, om_set (md_key meta) meta t)"
  by (simp add: Sqlite_Put_def sq_good_def)

lemma ls_wal_update [simp]:
  "s\<lparr>ls_wal := ls_wal (logged rs s)\<rparr> = logged rs s"
  "(with_row meta s)\<lparr>ls_wal := ls_wal (logged rs s)\<rparr> = logged rs (with_row meta s)"
  by (simp_all add: logged_def with_row_def)

lemma DoPut_commit_good:
  assumes "wal_fd_open (ls_wal s)" and "c = WalRecord_default\<lparr>wr_seq := seq, wr_is_commit := True\<rparr>"
  shows "DoPut_commit (put_crash t None) seq meta s = (Some (Inr meta), logged [c] (with_row meta s))"
    and "DoPut_commit (put_crash t (Some After_row)) seq meta s = (None, with_row meta s)"
    and "DoPut_commit (put_crash t (Some (In_commit k))) seq meta s = (None, torn_append k c (with_row meta s))"
  using assms
  by (simp_all add: DoPut_commit_def put_crash_def put_good_def Sqlite_Put_good with_row_def [symmetric] AppendCommit_def Append_logged)

lemma DoPut_write_good:
  assumes "wal_fd_open (ls_wal s)" and "b = put_begin meta s" and "c = commit_of s"
    and "s1 = logged [b] (taken s)" and "s2 = with_file (md_key meta) data s1"
  shows "DoPut_write (put_crash t None) data meta s = (Some (Inr meta), logged [c] (with_row meta s2))"
    and "DoPut_write (put_crash t (Some (In_begin k))) data meta s = (None, torn_append k b (taken s))"
    and "DoPut_write (put_crash t (Some (In_staging d))) data meta s = (None, s1\<lparr>ls_tmp := ls_tmp s1 @ [d]\<rparr>)"
    and "DoPut_write (put_crash t (Some After_rename)) data meta s = (None, s2)"
    and "DoPut_write (put_crash t (Some After_row)) data meta s = (None, with_row meta s2)"
    and "DoPut_write (put_crash t (Some (In_commit k))) data meta s = (None, torn_append k c (with_row meta s2))"
proof -
  have fd: "wal_fd_open (ls_wal (taken s))" using assms(1) by simp
  have seq: "NextSeq (ls_wal s) = (wal_next_seq (ls_wal s), ls_wal (taken s))" and tk: "s\<lparr>ls_wal := ls_wal (taken s)\<rparr> = taken s"
    by (simp_all add: NextSeq_def taken_def)
  have b: "AppendBegin append_good (wal_next_seq (ls_wal s)) kPut (md_key meta) (md_version meta) (md_checksum meta) (md_size meta)
      (ls_wal (taken s)) = (Status_Ok, ls_wal s1)"
    using Append_logged [OF fd, of b] by (simp add: AppendBegin_def assms(2,4) put_begin_def)
  have s1: "(taken s)\<lparr>ls_wal := ls_wal s1\<rparr> = s1" by (simp add: assms(4))
  have c: "c = WalRecord_default\<lparr>wr_seq := wal_next_seq (ls_wal s), wr_is_commit := True\<rparr>" by (simp add: assms(3) commit_of_def)
  have w: "Local_WriteFileAtomic file_good (object_path s1 (md_key meta)) data s1 = (Status_Ok, s2)"
    by (simp only: Local_Write_good assms(5))
  have fd2: "wal_fd_open (ls_wal s2)" using fd by (simp add: assms(4,5))
  note unfold = DoPut_write_def seq tk Let_def prod.case b s1 w
  have env: "pe_begin (put_crash t cr) = append_good" "pe_file (put_crash t cr) = file_good" "pe_crash (put_crash t cr) = cr" for cr
    by (simp_all add: put_crash_def put_good_def)
  show "DoPut_write (put_crash t None) data meta s = (Some (Inr meta), logged [c] (with_row meta s2))"
    and "DoPut_write (put_crash t (Some (In_staging d))) data meta s = (None, s1\<lparr>ls_tmp := ls_tmp s1 @ [d]\<rparr>)"
    and "DoPut_write (put_crash t (Some After_rename)) data meta s = (None, s2)"
    and "DoPut_write (put_crash t (Some After_row)) data meta s = (None, with_row meta s2)"
    and "DoPut_write (put_crash t (Some (In_commit k))) data meta s = (None, torn_append k c (with_row meta s2))"
    unfolding unfold env by (simp_all add: unfold env DoPut_commit_good [OF fd2 c])
  show "DoPut_write (put_crash t (Some (In_begin k))) data meta s = (None, torn_append k b (taken s))"
    unfolding unfold env by (simp add: assms(2) put_begin_def)
qed

section \<open>Recovering an interrupted write\<close>

definition put_fits :: "ObjectMetadata \<Rightarrow> LocalObjectStore \<Rightarrow> bool" where
  "put_fits meta s \<longleftrightarrow> length (md_key meta) + length (md_checksum meta) + 34 < 2 ^ 32 \<and> md_version meta < u64_size \<and>
    md_size meta < u64_size \<and> wal_next_seq (ls_wal s) + 1 < u64_size"

lemma wal_ok_put: "put_fits meta s \<Longrightarrow> wal_ok (put_begin meta s)" and wal_ok_commit: "put_fits meta s \<Longrightarrow> wal_ok (commit_of s)"
  by (simp_all add: put_fits_def wal_ok_def put_begin_def begin_record_def commit_of_def WalRecord_default_def)

text \<open>What is replayed when the file holds the old records, some complete ones and a part of one more.\<close>

lemma replay_logged:
  assumes "store_ok s" and "\<forall>r \<in> set rs. wal_ok r" and "wal_ok r" and "rs0 = wal_stored (ls_wal s)"
  shows "Wal_Replay (wal_file (ls_wal s) @ wal_bytes rs) = rs0 @ rs"
    and "Wal_Replay (wal_file (ls_wal s) @ wal_bytes rs @ take k (wal_frame r)) =
      (if k < length (wal_frame r) then rs0 @ rs else rs0 @ rs @ [r])"
proof -
  have h: "\<forall>r \<in> set rs0. wal_ok r" "wal_file (ls_wal s) = wal_bytes rs0"
    using store_okD(2) [OF assms(1)] assms(4) by (simp_all add: wal_holds_def)
  then have f: "wal_file (ls_wal s) @ wal_bytes rs = wal_bytes (rs0 @ rs)" by (simp add: wal_bytes_append)
  show "Wal_Replay (wal_file (ls_wal s) @ wal_bytes rs) = rs0 @ rs"
    unfolding f by (rule Wal_Replay_bytes) (use h assms(2) in auto)
  show "Wal_Replay (wal_file (ls_wal s) @ wal_bytes rs @ take k (wal_frame r)) =
      (if k < length (wal_frame r) then rs0 @ rs else rs0 @ rs @ [r])"
  proof (cases "k < length (wal_frame r)")
    case True
    then show ?thesis
      using Wal_Replay_torn [of "rs0 @ rs" r k] h assms(2,3) by (simp add: f [symmetric] ball_Un)
  next
    case False
    then have "wal_file (ls_wal s) @ wal_bytes rs @ take k (wal_frame r) = wal_bytes (rs0 @ rs @ [r])"
      using h(2) by (simp add: wal_bytes_append) (simp add: wal_bytes_def)
    then show ?thesis
      using Wal_Replay_bytes [of "rs0 @ rs @ [r]"] h(1) assms(2,3) False by auto
  qed
qed

lemma committed_append: "committed_seqs (xs @ ys) = committed_seqs xs @ committed_seqs ys"
  by (simp add: committed_seqs_def)

lemma covered_mono:
  assumes "covered r t" and "\<And>k row. om_find t k = Some row \<Longrightarrow> \<exists>row'. om_find t' k = Some row' \<and> md_version row \<le> md_version row'"
  shows "covered r t'"
  using assms by (force simp: covered_def)

text \<open>The row a write replaces has a smaller version, or there is none.\<close>

definition newer :: "ObjectMetadata \<Rightarrow> objects \<Rightarrow> bool" where
  "newer meta t \<longleftrightarrow> (\<forall>row. om_find t (md_key meta) = Some row \<longrightarrow> md_version row < md_version meta)"

lemma settled_with_row:
  assumes "settled rs t" and "newer meta t" and "om_ok t"
  shows "settled rs (om_set (md_key meta) meta t)"
  using assms covered_mono [of _ t "om_set (md_key meta) meta t"]
  by (fastforce simp: settled_def newer_def om.find_set intro: less_imp_le)

lemma settled_extend:
  assumes "settled rs t" and "\<forall>r \<in> set new. wr_is_commit r \<or> wr_seq r \<in> set (committed_seqs new) \<or> covered r t"
  shows "settled (rs @ new) t"
  using assms by (auto simp: settled_def committed_append)

lemma covered_put: "om_ok t \<Longrightarrow> covered (put_begin meta s) (om_set (md_key meta) meta t)"
  by (auto simp: covered_def put_begin_def begin_record_def om.find_set)

definition recovered_row :: "int \<Rightarrow> ObjectMetadata \<Rightarrow> ObjectMetadata" where
  "recovered_row t meta = meta\<lparr>md_created_at := t, md_request_id := ''''\<rparr>"

lemma recover_pending:
  assumes "newer meta (ls_meta s)" and "\<not> md_deleted meta"
  shows "recover_record (recover_good t) i (put_begin meta s0) s =
    (None, if \<exists>d. ls_files s (object_path s (md_key meta)) = Some d \<and> Sha256Hex d = md_checksum meta
           then with_row (recovered_row t meta) s else s)"
proof -
  have op: "wr_op (put_begin meta s0) = kPut" and fields: "wr_key (put_begin meta s0) = md_key meta"
      "wr_version (put_begin meta s0) = md_version meta" "wr_checksum (put_begin meta s0) = md_checksum meta"
      "wr_size (put_begin meta s0) = md_size meta"
    by (simp_all add: put_begin_def begin_record_def)
  have row: "\<lparr>md_key = md_key meta, md_size = md_size meta, md_checksum = md_checksum meta, md_version = md_version meta,
      md_created_at = t, md_deleted = False, md_request_id = ''''\<rparr> = recovered_row t meta"
    using assms(2) by (cases meta) (simp add: recovered_row_def)
  have key: "md_key (recovered_row t meta) = md_key meta" by (simp add: recovered_row_def)
  show ?thesis
    using assms(1) key
    by (auto simp: recover_record_def op fields row recover_good_def Peek_good ReadRow_def newer_def ReadWholeFile_def
        Sqlite_Put_good object_path_def [symmetric] with_row_def Let_def split: option.split)
qed

text \<open>A restart whose log ends with one BEGIN that is not yet settled.\<close>

lemma restart_one:
  assumes "store_ok s" and "\<not> wr_is_commit b" and "wr_seq b = wal_next_seq (ls_wal s)"
    and "Wal_Replay (wal_file (ls_wal s')) = wal_stored (ls_wal s) @ [b]"
    and "settled (wal_stored (ls_wal s)) (ls_meta s')"
    and "recover_record (recover_good t) (length (wal_stored (ls_wal s))) b s' = (None, s'')"
  shows "Local_Open (store_open_good t) s' = (Status_Ok, s''\<lparr>ls_tmp := [], ls_wal := wal_empty\<rparr>)"
proof -
  let ?rs = "wal_stored (ls_wal s)"
  have C: "committed_seqs (?rs @ [b]) = committed_seqs ?rs" using assms(2) by (simp add: committed_seqs_def)
  have fresh: "wr_seq b \<notin> set (committed_seqs ?rs)"
    using store_okD(4) [OF assms(1)] assms(3) by (fastforce simp: committed_seqs_def)
  have old: "recover_loop (recover_good t) (committed_seqs ?rs) 0 ?rs s' = (None, s')"
    by (rule recover_loop_settled) (use assms(5) in \<open>simp add: settled_def\<close>)
  have "recover_loop (recover_good t) (committed_seqs (?rs @ [b])) 0 (?rs @ [b]) s' = (None, s'')"
    unfolding C recover_loop_append old prod.case option.case using assms(2,6) fresh by simp
  from Open_recovers [OF assms(4) this] show ?thesis .
qed

lemma restart_pending:
  assumes "store_ok s" and "put_fits meta s" and "newer meta (ls_meta s)" and "\<not> md_deleted meta"
    and "Wal_Replay (wal_file (ls_wal s')) = wal_stored (ls_wal s) @ [put_begin meta s]"
    and "ls_meta s' = ls_meta s"
  shows "Local_Open (store_open_good t) s' = (Status_Ok,
    (if \<exists>d. ls_files s' (object_path s' (md_key meta)) = Some d \<and> Sha256Hex d = md_checksum meta
     then with_row (recovered_row t meta) s' else s')\<lparr>ls_tmp := [], ls_wal := wal_empty\<rparr>)"
proof (rule restart_one [OF assms(1) _ _ assms(5)])
  show "\<not> wr_is_commit (put_begin meta s)" and "wr_seq (put_begin meta s) = wal_next_seq (ls_wal s)"
    by (simp_all add: put_begin_def begin_record_def)
  show "settled (wal_stored (ls_wal s)) (ls_meta s')" using store_okD(3) [OF assms(1)] assms(6) by simp
qed (rule recover_pending, use assms(3,4,6) in simp_all)

section \<open>The two outcomes of a write\<close>

definition unchanged :: "LocalObjectStore \<Rightarrow> LocalObjectStore \<Rightarrow> bool" where
  "unchanged s s' \<longleftrightarrow> ls_root s' = ls_root s \<and> ls_meta s' = ls_meta s \<and> ls_files s' = ls_files s"

definition written :: "ObjectMetadata \<Rightarrow> string \<Rightarrow> LocalObjectStore \<Rightarrow> LocalObjectStore \<Rightarrow> bool" where
  "written row data s s' \<longleftrightarrow> ls_root s' = ls_root s \<and> ls_meta s' = om_set (md_key row) row (ls_meta s) \<and>
    ls_files s' = (ls_files s)(object_path s (md_key row) \<mapsto> data) \<and> \<not> md_deleted row \<and> md_checksum row = Sha256Hex data"

text \<open>No stored key other than this one has the digest of this key, so it has its own file.\<close>

definition own_file :: "string \<Rightarrow> LocalObjectStore \<Rightarrow> bool" where
  "own_file key s \<longleftrightarrow> (\<forall>k. om_find (ls_meta s) k \<noteq> None \<longrightarrow> KeyDigest k = KeyDigest key \<longrightarrow> k = key)"

lemma unchanged_get: "unchanged s s' \<Longrightarrow> Local_Get get_good k s' = Local_Get get_good k s"
  by (rule Get_cong) (simp_all add: unchanged_def)

lemma unchanged_backed: "unchanged s s' \<Longrightarrow> backed s \<Longrightarrow> backed s'"
  by (simp add: unchanged_def backed_def object_path_def DataRoot_def)

lemma own_file_path:
  "own_file key s \<Longrightarrow> om_find (ls_meta s) k \<noteq> None \<Longrightarrow> k \<noteq> key \<Longrightarrow> object_path s k \<noteq> object_path s key"
  by (auto simp: own_file_def object_path_def path_inj)

lemma written_get:
  assumes "written row data s s'" and "om_ok (ls_meta s)" and "own_file (md_key row) s"
  shows "Local_Get get_good (md_key row) s' = Inr data"
    and "k \<noteq> md_key row \<Longrightarrow> Local_Get get_good k s' = Local_Get get_good k s"
proof -
  have path: "object_path s' = object_path s" using assms(1) by (simp add: written_def fun_eq_iff object_path_def DataRoot_def)
  show "Local_Get get_good (md_key row) s' = Inr data"
    using assms(1,2) path by (simp add: Get_good written_def om.find_set c_str_digest)
  assume k: "k \<noteq> md_key row"
  show "Local_Get get_good k s' = Local_Get get_good k s"
    by (rule Get_cong) (use assms k own_file_path [OF assms(3), of k] in \<open>simp_all add: written_def om.find_set\<close>)
qed

lemma written_backed:
  assumes "written row data s s'" and "om_ok (ls_meta s)" and "own_file (md_key row) s" and "backed s"
  shows "backed s'"
proof -
  have path: "object_path s' = object_path s" using assms(1) by (simp add: written_def fun_eq_iff object_path_def DataRoot_def)
  show ?thesis
    unfolding backed_def path
    using assms own_file_path [OF assms(3)]
    by (auto simp: written_def om.find_set c_str_digest backed_def split: if_splits)
qed

lemma written_ok: "written row data s s' \<Longrightarrow> om_ok (ls_meta s) \<Longrightarrow> om_ok (ls_meta s')"
  by (simp add: written_def om.ok_set)

text \<open>After any interrupted or completed write, a restart yields one of the two outcomes.\<close>

text \<open>A crash between the record of a put and its row: recovery finishes the put if the payload is in place, and drops it otherwise.\<close>

lemma write_pending:
  assumes s: "store_ok s" and fits: "put_fits meta s" and new: "newer meta (ls_meta s)"
    and live: "\<not> md_deleted meta" and sum: "md_checksum meta = Sha256Hex data"
    and coll: "\<forall>d. ls_files s (object_path s (md_key meta)) = Some d \<and> Sha256Hex d = Sha256Hex data \<longrightarrow> d = data"
    and p: "Wal_Replay (wal_file (ls_wal s')) = wal_stored (ls_wal s) @ [put_begin meta s]" "ls_meta s' = ls_meta s"
      "ls_root s' = ls_root s" "ls_files s' = ls_files s"
  shows "\<exists>s2. Local_Open (store_open_good t') s' = (Status_Ok, s2) \<and> ls_wal s2 = wal_empty \<and>
    (written (recovered_row t' meta) data s s2 \<or> unchanged s s2)"
proof -
  have row: "md_key (recovered_row t' meta) = md_key meta" "md_deleted (recovered_row t' meta) = md_deleted meta"
      "md_checksum (recovered_row t' meta) = md_checksum meta" by (simp_all add: recovered_row_def)
  have path: "object_path s' = object_path s" using p(3) by (simp add: fun_eq_iff object_path_def DataRoot_def)
  show ?thesis
  proof (cases "\<exists>d. ls_files s (object_path s (md_key meta)) = Some d \<and> Sha256Hex d = md_checksum meta")
    case True
    then have f: "ls_files s (object_path s (md_key meta)) = Some data" using coll sum by auto
    then have "written (recovered_row t' meta) data s (with_row (recovered_row t' meta) s'\<lparr>ls_tmp := [], ls_wal := wal_empty\<rparr>)"
      using p row live sum by (simp add: written_def fun_upd_idem)
    then show ?thesis using restart_pending [OF s fits new live p(1,2), of t'] True p(4) path by auto
  next
    case False
    then show ?thesis
      using restart_pending [OF s fits new live p(1,2), of t'] p(2-4) path by (auto simp: unchanged_def)
  qed
qed

lemma write_recovered:
  assumes s: "store_ok s" and fits: "put_fits meta s" and new: "newer meta (ls_meta s)"
    and live: "\<not> md_deleted meta" and sum: "md_checksum meta = Sha256Hex data"
    and coll: "\<And>d. ls_files s (object_path s (md_key meta)) = Some d \<Longrightarrow> Sha256Hex d = Sha256Hex data \<Longrightarrow> d = data"
    and run: "DoPut_write (put_crash t cr) data meta s = (res, s1)"
  shows "\<exists>s2. Local_Open (store_open_good t') s1 = (Status_Ok, s2) \<and> ls_wal s2 = wal_empty \<and>
    (written meta data s s2 \<or> written (recovered_row t' meta) data s s2 \<or> unchanged s s2 \<and> res = None)"
proof -
  let ?rs = "wal_stored (ls_wal s)" and ?b = "put_begin meta s" and ?c = "commit_of s"
  let ?s1 = "logged [?b] (taken s)" let ?s2 = "with_file (md_key meta) data ?s1"
  note W = DoPut_write_good [OF store_ok_fd [OF s] refl refl refl refl] and ok = wal_ok_put [OF fits] wal_ok_commit [OF fits]
  note rep = replay_logged [OF s _ _ refl] and m = store_okD(1) [OF s]
  have row: "md_key (recovered_row t' meta) = md_key meta" "md_deleted (recovered_row t' meta) = md_deleted meta"
      "md_checksum (recovered_row t' meta) = md_checksum meta" by (simp_all add: recovered_row_def)
  have wrow: "written meta data s (with_row meta ?s2\<lparr>ls_tmp := [], ls_wal := wal_empty\<rparr>)"
    using live sum by (simp add: written_def files_with_file)
  have set_b: "settled (?rs @ [?b]) (om_set (md_key meta) meta (ls_meta s))"
    by (rule settled_extend [OF settled_with_row [OF store_okD(3) [OF s] new m]]) (simp add: covered_put [OF m])
  have set_bc: "settled (?rs @ [?b, ?c]) (om_set (md_key meta) meta (ls_meta s))"
    by (rule settled_extend [OF settled_with_row [OF store_okD(3) [OF s] new m]]) (simp add: covered_put [OF m] commit_of_def)
  have "\<forall>d. ls_files s (object_path s (md_key meta)) = Some d \<and> Sha256Hex d = Sha256Hex data \<longrightarrow> d = data" using coll by blast
  note pending = write_pending [OF s fits new live sum this]
  show ?thesis
  proof (cases cr)
    case None
    then have r: "res = Some (Inr meta)" "s1 = logged [?c] (with_row meta ?s2)" using run W(1) by simp_all
    have "Wal_Replay (wal_file (ls_wal s1)) = ?rs @ [?b, ?c]"
      using rep(1) [of "[?b, ?c]" ?b] ok r by (simp add: wal_bytes_def)
    from restart_settled [OF this, of t'] set_bc r wrow show ?thesis
      by (auto simp: written_def files_with_file)
  next
    case (Some c)
    show ?thesis
    proof (cases c)
      case (In_begin k)
      then have r: "res = None" "s1 = torn_append k ?b (taken s)" using run W(2) Some by simp_all
      show ?thesis
      proof (cases "k < length (wal_frame ?b)")
        case True
        then have "Wal_Replay (wal_file (ls_wal s1)) = ?rs" using rep(2) [of "[]" ?b k] ok r by (simp add: wal_bytes_def)
        from restart_settled [OF this, of t'] store_okD(3) [OF s] r show ?thesis by (auto simp: unchanged_def)
      next
        case False
        then have "Wal_Replay (wal_file (ls_wal s1)) = ?rs @ [?b]" using rep(2) [of "[]" ?b k] ok r by (simp add: wal_bytes_def)
        from pending [OF this] r show ?thesis by auto
      qed
    next
      case (In_staging d)
      then have r: "res = None" "s1 = ?s1\<lparr>ls_tmp := ls_tmp ?s1 @ [d]\<rparr>" using run W(3) Some by simp_all
      have "Wal_Replay (wal_file (ls_wal s1)) = ?rs @ [?b]" using rep(1) [of "[?b]" ?b] ok r by simp
      from pending [OF this] r show ?thesis by auto
    next
      case After_rename
      then have r: "res = None" "s1 = ?s2" using run W(4) Some by simp_all
      have "Wal_Replay (wal_file (ls_wal s1)) = ?rs @ [?b]" using rep(1) [of "[?b]" ?b] ok r by simp
      from restart_pending [OF s fits new live this, of t'] r row live sum show ?thesis
        by (auto simp: written_def files_with_file)
    next
      case After_row
      then have r: "res = None" "s1 = with_row meta ?s2" using run W(5) Some by simp_all
      have "Wal_Replay (wal_file (ls_wal s1)) = ?rs @ [?b]" using rep(1) [of "[?b]" ?b] ok r by simp
      from restart_settled [OF this, of t'] set_b r wrow show ?thesis by auto
    next
      case (In_commit k)
      then have r: "res = None" "s1 = torn_append k ?c (with_row meta ?s2)" using run W(6) Some by simp_all
      have "Wal_Replay (wal_file (ls_wal s1)) = (if k < length (wal_frame ?c) then ?rs @ [?b] else ?rs @ [?b, ?c])"
        using rep(2) [of "[?b]" ?c k] ok r by simp
      from restart_settled [OF this, of t'] set_b set_bc r wrow show ?thesis
        by (auto simp: written_def files_with_file split: if_splits)
    qed
  qed
qed

section \<open>The operations\<close>

definition current_version :: "LocalObjectStore \<Rightarrow> string \<Rightarrow> nat" where
  "current_version s key = (case om_find (ls_meta s) key of None \<Rightarrow> 0 | Some row \<Rightarrow> md_version row)"

definition put_meta :: "int \<Rightarrow> string \<Rightarrow> string \<Rightarrow> nat \<Rightarrow> string \<Rightarrow> ObjectMetadata" where
  "put_meta t key data version request_id =
    \<lparr>md_key = key, md_size = length data, md_checksum = Sha256Hex data, md_version = version, md_created_at = t,
     md_deleted = False, md_request_id = request_id\<rparr>"

lemma put_meta_simps [simp]:
  "md_key (put_meta t key data v rid) = key" "md_version (put_meta t key data v rid) = v"
  "md_checksum (put_meta t key data v rid) = Sha256Hex data" "\<not> md_deleted (put_meta t key data v rid)"
  "md_size (put_meta t key data v rid) = length data" "md_request_id (put_meta t key data v rid) = rid"
  by (simp_all add: put_meta_def)

lemma DoPut_good:
  assumes "pe_peek env = sq_good" and "rid \<noteq> '''' \<Longrightarrow> \<forall>row. om_find (ls_meta s) key = Some row \<longrightarrow> c_str (md_request_id row) \<noteq> rid"
  shows "DoPut env key data ev cond exp rid s =
    DoPut_versioned env key data ev cond exp rid (current_version s key) s"
  using assms
  by (auto simp: DoPut_def Peek_good current_version_def ReadRow_def Let_def split: option.split)

lemma put_crash_peek [simp]: "pe_peek (put_crash t cr) = sq_good" "pe_time (put_crash t cr) = t"
  by (simp_all add: put_crash_def put_good_def)

lemma Local_Put_write:
  "key \<noteq> '''' \<Longrightarrow> Local_Put (put_crash t cr) key data s =
    DoPut_write (put_crash t cr) data (put_meta t key data (u64_add (current_version s key) 1) '''') s"
  by (simp add: Local_Put_def DoPut_good DoPut_versioned_def put_meta_def Let_def)

lemma PutWithVersion_write:
  "key \<noteq> '''' \<Longrightarrow> v \<noteq> 0 \<Longrightarrow> PutWithVersion (put_crash t cr) key data v s =
    DoPut_write (put_crash t cr) data (put_meta t key data v '''') s"
  by (simp add: PutWithVersion_def DoPut_good DoPut_versioned_def put_meta_def Let_def)

text \<open>Everything a write needs to fit: the sizes of the record and the two counters.\<close>

definition room :: "string \<Rightarrow> string \<Rightarrow> LocalObjectStore \<Rightarrow> bool" where
  "room key data s \<longleftrightarrow> length key + 98 < 2 ^ 32 \<and> length data < u64_size \<and> wal_next_seq (ls_wal s) + 1 < u64_size \<and>
    current_version s key + 1 < u64_size"

lemma put_fits_room: "room key data s \<Longrightarrow> v < u64_size \<Longrightarrow> put_fits (put_meta t key data v rid) s"
  using Sha256Hex_shape [of data] by (simp add: room_def put_fits_def)

lemma newer_next: "current_version s key < v \<Longrightarrow> newer (put_meta t key data v rid) (ls_meta s)"
  by (auto simp: newer_def current_version_def)

lemma put_good_crash: "put_good t = put_crash t None"
  by (simp add: put_crash_def put_good_def)

text \<open>A completed write keeps the invariant without a restart, too.\<close>

lemma write_ok:
  assumes "store_ok s" and "put_fits meta s" and "newer meta (ls_meta s)" and "\<not> md_deleted meta"
    and "md_checksum meta = Sha256Hex data" and "own_file (md_key meta) s"
    and "DoPut_write (put_crash t None) data meta s = (res, s')"
  shows "res = Some (Inr meta) \<and> written meta data s s' \<and> store_ok s'"
proof -
  let ?b = "put_begin meta s" and ?c = "commit_of s" and ?rs = "wal_stored (ls_wal s)"
  have r: "res = Some (Inr meta)" "s' = logged [?c] (with_row meta (with_file (md_key meta) data (logged [?b] (taken s))))"
    using DoPut_write_good(1) [OF store_ok_fd [OF assms(1)] refl refl refl refl] assms(7) by simp_all
  have w: "written meta data s s'" using r(2) assms(4,5) by (simp add: written_def files_with_file)
  have h: "\<forall>r \<in> set ?rs. wal_ok r" "wal_file (ls_wal s) = wal_bytes ?rs" "wal_fd_open (ls_wal s)"
    using store_okD(2) [OF assms(1)] by (simp_all add: wal_holds_def)
  have holds: "wal_holds (ls_wal s') (?rs @ [?b, ?c])"
    using h wal_ok_put [OF assms(2)] wal_ok_commit [OF assms(2)] r(2) by (auto simp: wal_holds_def wal_bytes_def)
  note st = wal_holds_stored [OF holds]
  have "wal_next_seq (ls_wal s') = Suc (wal_next_seq (ls_wal s))"
    using assms(2) r(2) by (simp add: taken_def NextSeq_def put_fits_def u64_add_exact)
  then have seqs: "\<forall>r \<in> set (?rs @ [?b, ?c]). wr_seq r < wal_next_seq (ls_wal s')"
    using store_okD(4) [OF assms(1)] by (auto simp: less_SucI put_begin_def begin_record_def commit_of_def)
  have "settled (?rs @ [?b, ?c]) (ls_meta s')"
    using settled_extend [OF settled_with_row [OF store_okD(3) [OF assms(1)] assms(3) store_okD(1) [OF assms(1)]], of "[?b, ?c]"]
      covered_put [OF store_okD(1) [OF assms(1)]] w by (simp add: commit_of_def written_def)
  then have "store_ok s'"
    using holds st seqs written_ok [OF w store_okD(1) [OF assms(1)]]
      written_backed [OF w store_okD(1) [OF assms(1)] assms(6) store_okD(5) [OF assms(1)]]
    by (simp add: store_ok_def wal_clean_def)
  with r w show ?thesis by blast
qed

section \<open>Properties\<close>

text \<open>
  C16. A put is read back: on a consistent store, with system calls succeeding, \<open>Put\<close> returns the next
  version of the key, a read of the key returns exactly the bytes put, a read of any other key returns
  what it did before, and the store is consistent again.
\<close>

theorem put_then_get:
  assumes "store_ok s" and "key \<noteq> ''''" and "room key data s" and "own_file key s"
  shows "\<exists>meta s'. Local_Put (put_good t) key data s = (Some (Inr meta), s') \<and>
    md_version meta = current_version s key + 1 \<and> Local_Get get_good key s' = Inr data \<and>
    (\<forall>k. k \<noteq> key \<longrightarrow> Local_Get get_good k s' = Local_Get get_good k s) \<and> store_ok s'"
proof -
  let ?meta = "put_meta t key data (current_version s key + 1) ''''"
  have v: "u64_add (current_version s key) 1 = current_version s key + 1" "current_version s key + 1 < u64_size"
    using assms(3) by (simp_all add: room_def u64_add_exact)
  obtain res s' where run: "DoPut_write (put_crash t None) data ?meta s = (res, s')" by fastforce
  have W: "res = Some (Inr ?meta) \<and> written ?meta data s s' \<and> store_ok s'"
    by (rule write_ok [OF assms(1) put_fits_room [OF assms(3) v(2)] newer_next _ _ _ run]) (use assms(4) in simp_all)
  have "Local_Put (put_good t) key data s = (Some (Inr ?meta), s')"
    using Local_Put_write [OF assms(2)] run W v(1) by (simp add: put_good_crash)
  moreover have "Local_Get get_good key s' = Inr data" "\<And>k. k \<noteq> key \<Longrightarrow> Local_Get get_good k s' = Local_Get get_good k s"
    using written_get [of ?meta data s s'] W store_okD(1) [OF assms(1)] assms(4) by simp_all
  ultimately show ?thesis using W by fastforce
qed

definition empty_store :: LocalObjectStore where
  "empty_store = \<lparr>ls_root = [''r''], ls_files = Map.empty, ls_tmp = [], ls_meta = [], ls_wal = wal_empty\<rparr>"

lemma store_ok_empty: "store_ok empty_store"
  using wal_clean_empty wal_stored_empty by (simp add: store_ok_def empty_store_def settled_def backed_def om_find_def)

lemma empty_side: "room ''k'' ''v'' empty_store" "own_file key empty_store"
  by (simp_all add: room_def own_file_def current_version_def empty_store_def om_find_def wal_empty_def)

theorem put_then_get_witness:
  "\<exists>meta s'. Local_Put (put_good 0) ''k'' ''v'' empty_store = (Some (Inr meta), s') \<and> md_version meta = 1 \<and>
    Local_Get get_good ''k'' s' = Inr ''v''"
  using put_then_get [OF store_ok_empty _ empty_side(1) empty_side(2), of 0]
  by (fastforce simp: current_version_def empty_store_def om_find_def)

text \<open>
  C5. Writes are atomic across crashes: let \<open>Put\<close> complete, or let the process die inside it at any point
  (in the middle of either log record, while staging, after the rename, after the row), and restart. The
  store opens and is consistent, all other keys read as before, and the key reads either as before or as
  the new bytes; if \<open>Put\<close> had returned, as the new bytes. The store is consistent (\<open>store_ok\<close>) when the \<open>Put\<close> starts,
  which a \<open>Delete\<close> of a missing key can prevent, and the digests of the keys and of the two payloads differ.
\<close>

theorem put_crash_atomic:
  assumes "store_ok s" and "key \<noteq> ''''" and "room key data s" and "own_file key s"
    and "\<forall>d. ls_files s (object_path s key) = Some d \<and> Sha256Hex d = Sha256Hex data \<longrightarrow> d = data"
    and "Local_Put (put_crash t cr) key data s = (res, s1)"
  shows "\<exists>s2. Local_Open (store_open_good t') s1 = (Status_Ok, s2) \<and> store_ok s2 \<and>
    (\<forall>k. k \<noteq> key \<longrightarrow> Local_Get get_good k s2 = Local_Get get_good k s) \<and>
    (Local_Get get_good key s2 = Local_Get get_good key s \<or> Local_Get get_good key s2 = Inr data) \<and>
    (res \<noteq> None \<longrightarrow> Local_Get get_good key s2 = Inr data)"
proof -
  let ?meta = "put_meta t key data (current_version s key + 1) ''''"
  have v: "u64_add (current_version s key) 1 = current_version s key + 1" "current_version s key + 1 < u64_size"
    using assms(3) by (simp_all add: room_def u64_add_exact)
  have run: "DoPut_write (put_crash t cr) data ?meta s = (res, s1)"
    using assms(6) Local_Put_write [OF assms(2)] v(1) by simp
  note m = store_okD(1) [OF assms(1)] and bk = store_okD(5) [OF assms(1)]
  obtain s2 where s2: "Local_Open (store_open_good t') s1 = (Status_Ok, s2)" "ls_wal s2 = wal_empty"
      "written ?meta data s s2 \<or> written (recovered_row t' ?meta) data s s2 \<or> unchanged s s2 \<and> res = None"
    using write_recovered [OF assms(1) put_fits_room [OF assms(3) v(2)] newer_next _ _ _ run] assms(5) by fastforce
  note fresh = store_ok_reset [OF s2(2)]
  have new: "store_ok s2 \<and> Local_Get get_good key s2 = Inr data \<and> (\<forall>k. k \<noteq> key \<longrightarrow> Local_Get get_good k s2 = Local_Get get_good k s)"
    if w: "written row data s s2" and key: "md_key row = key" for row
    using written_get [OF w m] written_backed [OF w m _ bk] written_ok [OF w m] assms(4) key fresh by simp
  show ?thesis
    using s2(3)
  proof (elim disjE conjE)
    assume u: "unchanged s s2" "res = None"
    have "store_ok s2" using fresh unchanged_backed [OF u(1) bk] m u(1) by (simp add: unchanged_def)
    then show ?thesis using s2(1) u unchanged_get [OF u(1)] by auto
  qed (use new s2(1) in \<open>auto simp: recovered_row_def\<close>)
qed

theorem put_crash_atomic_witness:
  "\<exists>s1 s2. Local_Put (put_crash 0 (Some (In_begin 3))) ''k'' ''v'' empty_store = (None, s1) \<and>
    Local_Open (store_open_good 0) s1 = (Status_Ok, s2) \<and> store_ok s2"
proof -
  have "fst (Local_Put (put_crash 0 (Some (In_begin 3))) ''k'' ''v'' empty_store) = None"
    by (simp add: Local_Put_write DoPut_write_good(2) [OF store_ok_fd [OF store_ok_empty] refl refl refl refl])
  then obtain s1 where s1: "Local_Put (put_crash 0 (Some (In_begin 3))) ''k'' ''v'' empty_store = (None, s1)"
    by (metis prod.collapse)
  from put_crash_atomic [OF store_ok_empty _ empty_side(1) empty_side(2) _ s1, of 0] s1 show ?thesis
    by (auto simp: empty_store_def)
qed

end
