(* ===== verification/Store_Delete.thy ===== *)
theory Store_Delete
  imports Store_Safety Sha256_Vectors
begin

text \<open>
  Deletion, conditional writes and the failure paths of a storage node, over the invariant of \<open>Store_Safety\<close>.
  The last section holds the cases in which recovery, or a failed call, loses an object.
\<close>

section \<open>Deletion\<close>

definition removed :: "string \<Rightarrow> LocalObjectStore \<Rightarrow> LocalObjectStore \<Rightarrow> bool" where
  "removed key s s' \<longleftrightarrow> ls_root s' = ls_root s \<and> ls_files s' = ls_files s \<and>
    (\<exists>row. om_find (ls_meta s) key = Some row \<and> ls_meta s' = om_set key (row\<lparr>md_deleted := True\<rparr>) (ls_meta s))"

definition delete_begin :: "string \<Rightarrow> LocalObjectStore \<Rightarrow> WalRecord" where
  "delete_begin key s = begin_record (wal_next_seq (ls_wal s)) kDelete key 0 '''' 0"

definition with_tombstone :: "string \<Rightarrow> LocalObjectStore \<Rightarrow> LocalObjectStore" where
  "with_tombstone key s = s\<lparr>ls_meta := snd (Sqlite_Delete sq_good key (ls_meta s))\<rparr>"

lemma with_tombstone_simps [simp]:
  "ls_root (with_tombstone key s) = ls_root s" "ls_files (with_tombstone key s) = ls_files s"
  "ls_wal (with_tombstone key s) = ls_wal s" "object_path (with_tombstone key s) = object_path s"
  "(with_tombstone key s)\<lparr>ls_wal := ls_wal (logged rs s)\<rparr> = logged rs (with_tombstone key s)"
  by (simp_all add: with_tombstone_def logged_def)

lemma removed_get:
  assumes "removed key s s'" and "om_ok (ls_meta s)"
  shows "Local_Get get_good key s' = Inl (NotFound (''tombstoned: '' @ key))"
    and "k \<noteq> key \<Longrightarrow> Local_Get get_good k s' = Local_Get get_good k s"
proof -
  show "Local_Get get_good key s' = Inl (NotFound (''tombstoned: '' @ key))"
    using assms by (auto simp: Get_good removed_def om.find_set)
  show "Local_Get get_good k s' = Local_Get get_good k s" if "k \<noteq> key"
    by (rule Get_cong) (use assms that in \<open>auto simp: removed_def om.find_set\<close>)
qed

lemma removed_backed: "removed key s s' \<Longrightarrow> om_ok (ls_meta s) \<Longrightarrow> backed s \<Longrightarrow> backed s' \<and> om_ok (ls_meta s')"
  by (auto simp: removed_def backed_def om.find_set om.ok_set object_path_def DataRoot_def split: if_splits)

lemma removed_settled:
  assumes "removed key s s'" and "om_ok (ls_meta s)" and "settled rs (ls_meta s)"
  shows "settled rs (ls_meta s')"
proof -
  have "\<exists>row'. om_find (ls_meta s') k = Some row' \<and> md_version row \<le> md_version row'"
    if "om_find (ls_meta s) k = Some row" for k row
    using assms(1,2) that by (auto simp: removed_def om.find_set)
  then show ?thesis using assms(3) covered_mono [of _ "ls_meta s" "ls_meta s'"] by (auto simp: settled_def)
qed

lemma Sqlite_Delete_live:
  "om_find t key = Some row \<Longrightarrow> \<not> md_deleted row \<Longrightarrow>
    Sqlite_Delete sq_good key t = (Status_Ok, om_set key (row\<lparr>md_deleted := True\<rparr>) t)"
  by (simp add: Sqlite_Delete_def sq_good_def)

lemma recover_delete:
  assumes "om_find (ls_meta s) key = Some row"
  shows "recover_record (recover_good t) i (delete_begin key s0) s = (None, if md_deleted row then s else with_tombstone key s)"
  using assms
  by (simp add: recover_record_def delete_begin_def begin_record_def kPut_def kDelete_def recover_good_def Peek_good ReadRow_def
      Sqlite_Delete_live with_tombstone_def Let_def)

lemma Local_Delete_good:
  assumes "store_ok s" and "om_find (ls_meta s) key = Some row" and "\<not> md_deleted row"
    and "b = delete_begin key s" and "c = commit_of s" and "s1 = logged [b] (taken s)"
  shows "Local_Delete (put_crash t (Some (In_begin k))) key s = (None, torn_append k b (taken s))"
    and "Local_Delete (put_crash t (Some (In_staging d))) key s = (None, s1)"
    and "Local_Delete (put_crash t (Some After_row)) key s = (None, with_tombstone key s1)"
    and "Local_Delete (put_crash t (Some (In_commit k))) key s = (None, torn_append k c (with_tombstone key s1))"
    and "cr = None \<or> cr = Some After_rename \<Longrightarrow>
      Local_Delete (put_crash t cr) key s = (Some Status_Ok, logged [c] (with_tombstone key s1))"
proof -
  have fd: "wal_fd_open (ls_wal (taken s))" using store_okD(2) [OF assms(1)] by (simp add: wal_holds_def)
  have seq: "NextSeq (ls_wal s) = (wal_next_seq (ls_wal s), ls_wal (taken s))" and tk: "s\<lparr>ls_wal := ls_wal (taken s)\<rparr> = taken s"
    by (simp_all add: NextSeq_def taken_def)
  have b: "AppendBegin append_good (wal_next_seq (ls_wal s)) kDelete key 0 '''' 0 (ls_wal (taken s)) = (Status_Ok, ls_wal s1)"
    using Append_logged [OF fd, of b] by (simp add: AppendBegin_def assms(4,6) delete_begin_def)
  have s1: "(taken s)\<lparr>ls_wal := ls_wal s1\<rparr> = s1" "ls_meta s1 = ls_meta s" "wal_fd_open (ls_wal s1)" using fd by (simp_all add: assms(6))
  have d: "Sqlite_Delete sq_good key (ls_meta s1) = (Status_Ok, ls_meta (with_tombstone key s1))"
    by (simp add: with_tombstone_def Sqlite_Delete_live [OF assms(2,3)] s1(2))
  have s2: "s1\<lparr>ls_meta := ls_meta (with_tombstone key s1)\<rparr> = with_tombstone key s1" by (simp add: with_tombstone_def)
  have c: "AppendCommit append_good (wal_next_seq (ls_wal s)) (ls_wal (with_tombstone key s1)) = (Status_Ok, ls_wal (logged [c] (with_tombstone key s1)))"
    using Append_logged [of "with_tombstone key s1" c] s1(3) by (simp add: AppendCommit_def assms(5) commit_of_def)
  have log: "(with_tombstone key s1)\<lparr>ls_wal := ls_wal (logged [c] (with_tombstone key s1))\<rparr> = logged [c] (with_tombstone key s1)"
    by (rule ls_wal_update)
  have env: "pe_begin (put_crash t cr) = append_good" "pe_row (put_crash t cr) = sq_good" "pe_commit (put_crash t cr) = append_good"
      "pe_crash (put_crash t cr) = cr" for cr by (simp_all add: put_crash_def put_good_def)
  note unfold = Local_Delete_def seq tk Let_def prod.case b s1(1) d s2 env
  show "Local_Delete (put_crash t (Some (In_begin k))) key s = (None, torn_append k b (taken s))"
    unfolding unfold by (simp add: assms(4) delete_begin_def)
  show "Local_Delete (put_crash t (Some (In_staging d))) key s = (None, s1)"
    and "Local_Delete (put_crash t (Some After_row)) key s = (None, with_tombstone key s1)"
    unfolding unfold by (simp_all add: unfold)
  show "Local_Delete (put_crash t (Some (In_commit k))) key s = (None, torn_append k c (with_tombstone key s1))"
    unfolding unfold by (simp add: unfold assms(5) commit_of_def)
  show "Local_Delete (put_crash t cr) key s = (Some Status_Ok, logged [c] (with_tombstone key s1))"
    if "cr = None \<or> cr = Some After_rename"
    using that unfolding unfold by (elim disjE) (simp_all only: unfold c log snd_conv option.case crash_point.case ok_constructors
        not_True_eq_False if_False)
qed

lemma removed_tombstone:
  assumes "om_find (ls_meta s) key = Some row" and "\<not> md_deleted row" and "ls_meta s' = ls_meta (with_tombstone key s)"
    and "ls_root s' = ls_root s" and "ls_files s' = ls_files s"
  shows "removed key s s'"
  using assms by (simp add: removed_def with_tombstone_def Sqlite_Delete_live)

text \<open>After any interrupted or completed deletion of a live key, a restart leaves the key live or removed.\<close>

text \<open>What recovery does with the record of a delete, before and after its tombstone.\<close>

lemma delete_restarts:
  assumes s: "store_ok s" and row: "om_find (ls_meta s) key = Some row" "\<not> md_deleted row"
  defines "dead \<equiv> om_set key (row\<lparr>md_deleted := True\<rparr>) (ls_meta s)"
  shows "Wal_Replay (wal_file (ls_wal s')) = wal_stored (ls_wal s) @ [delete_begin key s] \<Longrightarrow> ls_meta s' = ls_meta s \<Longrightarrow>
      Local_Open (store_open_good t') s' = (Status_Ok, (with_tombstone key s')\<lparr>ls_tmp := [], ls_wal := wal_empty\<rparr>)"
    and "Wal_Replay (wal_file (ls_wal s')) = wal_stored (ls_wal s) @ [delete_begin key s] \<Longrightarrow> ls_meta s' = dead \<Longrightarrow>
      Local_Open (store_open_good t') s' = (Status_Ok, s'\<lparr>ls_tmp := [], ls_wal := wal_empty\<rparr>)"
    and "settled (wal_stored (ls_wal s) @ [delete_begin key s, commit_of s]) dead"
proof -
  have b: "\<not> wr_is_commit (delete_begin key s)" "wr_seq (delete_begin key s) = wal_next_seq (ls_wal s)"
    by (simp_all add: delete_begin_def begin_record_def)
  note m = store_okD(1) [OF s]
  have set2: "settled (wal_stored (ls_wal s)) dead"
    using removed_settled [OF _ m store_okD(3) [OF s], of key "s\<lparr>ls_meta := dead\<rparr>"] row by (simp add: removed_def dead_def)
  show "Local_Open (store_open_good t') s' = (Status_Ok, (with_tombstone key s')\<lparr>ls_tmp := [], ls_wal := wal_empty\<rparr>)"
    if "Wal_Replay (wal_file (ls_wal s')) = wal_stored (ls_wal s) @ [delete_begin key s]" "ls_meta s' = ls_meta s"
    by (rule restart_one [OF s b that(1)]) (use that(2) store_okD(3) [OF s] recover_delete [of s' key row] row in simp_all)
  show "Local_Open (store_open_good t') s' = (Status_Ok, s'\<lparr>ls_tmp := [], ls_wal := wal_empty\<rparr>)"
    if "Wal_Replay (wal_file (ls_wal s')) = wal_stored (ls_wal s) @ [delete_begin key s]" "ls_meta s' = dead"
    by (rule restart_one [OF s b that(1)])
       (use that(2) set2 recover_delete [of s' key "row\<lparr>md_deleted := True\<rparr>"] m in \<open>simp_all add: dead_def om.find_set\<close>)
  show "settled (wal_stored (ls_wal s) @ [delete_begin key s, commit_of s]) dead"
    by (rule settled_extend [OF set2]) (simp add: b commit_of_def committed_seqs_def)
qed

lemma delete_recovered:
  assumes s: "store_ok s" and row: "om_find (ls_meta s) key = Some row" "\<not> md_deleted row"
    and fits: "length key + 34 < 2 ^ 32" "wal_next_seq (ls_wal s) + 1 < u64_size"
    and run: "Local_Delete (put_crash t cr) key s = (res, s1)"
  shows "\<exists>s2. Local_Open (store_open_good t') s1 = (Status_Ok, s2) \<and> ls_wal s2 = wal_empty \<and>
    (removed key s s2 \<or> unchanged s s2 \<and> res = None) \<and> (res \<noteq> None \<longrightarrow> res = Some Status_Ok)"
proof -
  let ?rs = "wal_stored (ls_wal s)" and ?b = "delete_begin key s" and ?c = "commit_of s"
  let ?s1 = "logged [?b] (taken s)" let ?s2 = "with_tombstone key ?s1"
  note W = Local_Delete_good [OF s row refl refl refl]
  have ok: "wal_ok ?b" "wal_ok ?c"
    using fits by (simp_all add: wal_ok_def delete_begin_def begin_record_def commit_of_def WalRecord_default_def)
  note rep = replay_logged [OF s _ _ refl]
  have tomb: "ls_meta ?s2 = om_set key (row\<lparr>md_deleted := True\<rparr>) (ls_meta s)"
    using row by (simp add: with_tombstone_def Sqlite_Delete_live)
  have rem: "removed key s (s'\<lparr>ls_tmp := [], ls_wal := wal_empty\<rparr>)"
    if "ls_meta s' = ls_meta ?s2" "ls_root s' = ls_root s" "ls_files s' = ls_files s" for s'
    using that row tomb by (simp add: removed_def)
  note before = delete_restarts(1) [OF s row] and after = delete_restarts(2) [OF s row, folded tomb] and full = delete_restarts(3) [OF s row, folded tomb]
  have live: "removed key s ((with_tombstone key s')\<lparr>ls_tmp := [], ls_wal := wal_empty\<rparr>)"
    if "ls_meta s' = ls_meta s" "ls_root s' = ls_root s" "ls_files s' = ls_files s" for s'
    using that row by (simp add: removed_def with_tombstone_def Sqlite_Delete_live)
  have cases: "cr = None \<or> cr = Some After_rename \<or> (\<exists>k. cr = Some (In_begin k)) \<or> (\<exists>d. cr = Some (In_staging d)) \<or>
      cr = Some After_row \<or> (\<exists>k. cr = Some (In_commit k))"
    by (cases cr) (use crash_point.exhaust in blast)+
  have finished: ?thesis if "cr = None \<or> cr = Some After_rename"
  proof -
    have r: "res = Some Status_Ok" "s1 = logged [?c] ?s2" using run W(5) [OF that] by simp_all
    have "Wal_Replay (wal_file (ls_wal s1)) = ?rs @ [?b, ?c]" using rep(1) [of "[?b, ?c]" ?b] ok r by (simp add: wal_bytes_def)
    from restart_settled [OF this, of t'] full r rem [of s1] show ?thesis by simp
  qed
  have torn_b: ?thesis if c: "cr = Some (In_begin k)" for k
  proof -
    have r: "res = None" "s1 = torn_append k ?b (taken s)" using run W(1) c by simp_all
    have R: "Wal_Replay (wal_file (ls_wal s1)) = (if k < length (wal_frame ?b) then ?rs else ?rs @ [?b])"
      using rep(2) [of "[]" ?b k] ok r by (simp add: wal_bytes_def)
    show ?thesis
    proof (cases "k < length (wal_frame ?b)")
      case True
      with R have "Wal_Replay (wal_file (ls_wal s1)) = ?rs" by simp
      from restart_settled [OF this, of t'] store_okD(3) [OF s] r show ?thesis by (simp add: unchanged_def)
    next
      case False
      with R have "Wal_Replay (wal_file (ls_wal s1)) = ?rs @ [?b]" by simp
      from before [OF this] live [of s1] r show ?thesis by simp
    qed
  qed
  have staged: ?thesis if c: "cr = Some (In_staging d)" for d
  proof -
    have r: "res = None" "s1 = ?s1" using run W(2) c by simp_all
    have "Wal_Replay (wal_file (ls_wal s1)) = ?rs @ [?b]" using rep(1) [of "[?b]" ?b] ok r by simp
    from before [OF this] live [of s1] r show ?thesis by simp
  qed
  have rowed: ?thesis if c: "cr = Some After_row"
  proof -
    have r: "res = None" "s1 = ?s2" using run W(3) c by simp_all
    have "Wal_Replay (wal_file (ls_wal s1)) = ?rs @ [?b]" using rep(1) [of "[?b]" ?b] ok r by simp
    from after [OF this] rem [of s1] r show ?thesis by simp
  qed
  have torn_c: ?thesis if c: "cr = Some (In_commit k)" for k
  proof -
    have r: "res = None" "s1 = torn_append k ?c ?s2" using run W(4) c by simp_all
    have R: "Wal_Replay (wal_file (ls_wal s1)) = (if k < length (wal_frame ?c) then ?rs @ [?b] else ?rs @ [?b, ?c])"
      using rep(2) [of "[?b]" ?c k] ok r by simp
    show ?thesis
    proof (cases "k < length (wal_frame ?c)")
      case True
      with R have "Wal_Replay (wal_file (ls_wal s1)) = ?rs @ [?b]" by simp
      from after [OF this] rem [of s1] r show ?thesis by simp
    next
      case False
      with R have "Wal_Replay (wal_file (ls_wal s1)) = ?rs @ [?b, ?c]" by simp
      from restart_settled [OF this, of t'] full rem [of s1] r show ?thesis by simp
    qed
  qed
  from cases finished torn_b staged rowed torn_c show ?thesis by blast
qed

section \<open>Properties\<close>

text \<open>
  C17. Deletions are atomic across crashes: let \<open>Delete\<close> of a live key complete, or let the process die inside
  it at any point, and restart. The store opens and is consistent, all other keys read as before, and the
  key reads either as before or as deleted; if \<open>Delete\<close> had returned, it returned Ok and the key is deleted.
\<close>

theorem delete_crash_atomic:
  assumes "store_ok s" and "om_find (ls_meta s) key = Some row" and "\<not> md_deleted row"
    and "length key + 34 < 2 ^ 32" and "wal_next_seq (ls_wal s) + 1 < u64_size"
    and "Local_Delete (put_crash t cr) key s = (res, s1)"
  shows "\<exists>s2. Local_Open (store_open_good t') s1 = (Status_Ok, s2) \<and> store_ok s2 \<and>
    (\<forall>k. k \<noteq> key \<longrightarrow> Local_Get get_good k s2 = Local_Get get_good k s) \<and>
    (Local_Get get_good key s2 = Local_Get get_good key s \<or>
     Local_Get get_good key s2 = Inl (NotFound (''tombstoned: '' @ key))) \<and>
    (res \<noteq> None \<longrightarrow> res = Some Status_Ok \<and> Local_Get get_good key s2 = Inl (NotFound (''tombstoned: '' @ key)))"
proof -
  note m = store_okD(1) [OF assms(1)] and bk = store_okD(5) [OF assms(1)]
  obtain s2 where s2: "Local_Open (store_open_good t') s1 = (Status_Ok, s2)" "ls_wal s2 = wal_empty"
      "removed key s s2 \<or> unchanged s s2 \<and> res = None" "res \<noteq> None \<longrightarrow> res = Some Status_Ok"
    using delete_recovered [OF assms] by blast
  show ?thesis
    using s2(3)
  proof (elim disjE conjE)
    assume r: "removed key s s2"
    have "store_ok s2" using store_ok_reset [OF s2(2)] removed_backed [OF r m bk] by simp
    then show ?thesis using s2(1,4) removed_get [OF r m] by auto
  next
    assume u: "unchanged s s2" "res = None"
    have "store_ok s2" using store_ok_reset [OF s2(2)] unchanged_backed [OF u(1) bk] m u(1) by (simp add: unchanged_def)
    then show ?thesis using s2(1) u unchanged_get [OF u(1)] by auto
  qed
qed

text \<open>A store with one object, as \<open>Put\<close> leaves it.\<close>

definition one_store :: LocalObjectStore where
  "one_store = snd (Local_Put (put_good 0) ''k'' ''abc'' empty_store)"

lemma one_store_eq:
  "one_store = logged [commit_of empty_store] (with_row (put_meta 0 ''k'' ''abc'' 1 '''') (with_file ''k'' ''abc''
    (logged [put_begin (put_meta 0 ''k'' ''abc'' 1 '''') empty_store] (taken empty_store))))"
proof -
  have "u64_add (current_version empty_store ''k'') 1 = 1"
    by (simp add: current_version_def empty_store_def om_find_def u64_add_def)
  then show ?thesis
    unfolding one_store_def put_good_crash
    by (simp add: Local_Put_write DoPut_write_good(1) [OF store_ok_fd [OF store_ok_empty] refl refl refl refl])
qed

lemma room_abc: "room ''k'' ''abc'' empty_store"
  using empty_side(1) by (simp add: room_def)

lemma one_store:
  shows "store_ok one_store" and "om_find (ls_meta one_store) ''k'' = Some (put_meta 0 ''k'' ''abc'' 1 '''')"
    and "wal_next_seq (ls_wal one_store) = 2" and "ls_meta one_store = [(''k'', put_meta 0 ''k'' ''abc'' 1 '''')]"
proof -
  let ?m = "put_meta 0 ''k'' ''abc'' 1 ''''"
  have "DoPut_write (put_crash 0 None) ''abc'' ?m empty_store = (Some (Inr ?m), one_store)"
    using one_store_eq DoPut_write_good(1) [OF store_ok_fd [OF store_ok_empty] refl refl refl refl, of 0 "''abc''" ?m] by simp
  note run = this
  have "current_version empty_store ''k'' = 0" by (simp add: current_version_def empty_store_def om_find_def)
  then have "newer ?m (ls_meta empty_store)" by (simp add: newer_next)
  then show "store_ok one_store"
    using write_ok [OF store_ok_empty put_fits_room [OF room_abc] _ _ _ _ run] empty_side(2) by simp
  show "ls_meta one_store = [(''k'', ?m)]" unfolding one_store_eq by (simp add: empty_store_def)
  then show "om_find (ls_meta one_store) ''k'' = Some ?m" by (simp add: om_find_def)
  show "wal_next_seq (ls_wal one_store) = 2"
    unfolding one_store_eq by (simp add: empty_store_def taken_def NextSeq_def wal_empty_def u64_add_def)
qed

lemma one_store_get: "Local_Get get_good ''k'' one_store = Inr ''abc''"
  unfolding one_store_eq by (simp add: Get_good files_with_file c_str_digest empty_store_def om_find_def)

lemma one_store_version: "current_version one_store ''k'' = 1"
  by (simp add: current_version_def one_store(2))

lemma one_store_room: "room ''k'' '''' one_store"
  by (simp add: room_def one_store_version one_store(3))

theorem delete_crash_atomic_witness:
  "\<exists>s1 s2. Local_Delete (put_crash 0 (Some (In_staging ''''))) ''k'' one_store = (None, s1) \<and>
    Local_Open (store_open_good 0) s1 = (Status_Ok, s2) \<and> store_ok s2"
proof -
  obtain s1 where s1: "Local_Delete (put_crash 0 (Some (In_staging ''''))) ''k'' one_store = (None, s1)"
    using Local_Delete_good(2) [OF one_store(1,2) _ refl refl refl] by simp
  from delete_crash_atomic [OF one_store(1,2) _ _ _ s1] s1 one_store(3) show ?thesis by fastforce
qed

text \<open>
  C18. Conditional writes: \<open>PutConditional\<close> with a non-empty request id returns the stored row and changes
  nothing if that request already produced the current version; otherwise it returns a conflict and
  changes nothing if the current version is not the expected one, and else writes version
  \<open>expected + 1\<close>. Repeating a successful call returns the same metadata and leaves the store alone.
\<close>

theorem conditional_put:
  assumes "store_ok s" and "key \<noteq> ''''" and "room key data s" and "own_file key s"
    and "rid \<noteq> ''''" and "c_str rid = rid" and "c_str key = key"
    and "retry = (\<exists>row. om_find (ls_meta s) key = Some row \<and> c_str (md_request_id row) = rid)"
  shows "(retry \<longrightarrow> (\<exists>row. PutConditional (put_good t) key data expected rid s = (Some (Inr row), s) \<and>
       md_version row = current_version s key)) \<and>
    (\<not> retry \<and> current_version s key \<noteq> expected \<longrightarrow>
       (\<exists>st. PutConditional (put_good t) key data expected rid s = (Some (Inl st), s) \<and> code st = kConflict)) \<and>
    (\<not> retry \<and> current_version s key = expected \<longrightarrow>
       (\<exists>meta s'. PutConditional (put_good t) key data expected rid s = (Some (Inr meta), s') \<and>
         md_version meta = expected + 1 \<and> Local_Get get_good key s' = Inr data \<and> store_ok s' \<and>
         PutConditional (put_good t2) key data expected rid s' = (Some (Inr meta), s')))"
proof (intro conjI impI)
  have call: "PutConditional (put_crash t cr) key data expected rid s = DoPut (put_crash t cr) key data 0 True expected rid s" for t cr s
    using assms(2) by (simp add: PutConditional_def)
  have again: "DoPut (put_crash t cr) key data 0 True expected rid s = (Some (Inr (ReadRow row)), s)"
    if "om_find (ls_meta s) key = Some row" "c_str (md_request_id row) = rid" for row t cr s
    using that assms(5) by (simp add: DoPut_def Peek_good ReadRow_def Let_def)
  show "\<exists>row. PutConditional (put_good t) key data expected rid s = (Some (Inr row), s) \<and> md_version row = current_version s key"
    if retry
    using that again [of s] assms(8) by (auto simp: put_good_crash call current_version_def ReadRow_def)
  have first: "DoPut (put_crash t None) key data 0 True expected rid s =
      DoPut_versioned (put_crash t None) key data 0 True expected rid (current_version s key) s" if "\<not> retry"
    by (rule DoPut_good) (use that assms(8) in auto)
  show "\<exists>st. PutConditional (put_good t) key data expected rid s = (Some (Inl st), s) \<and> code st = kConflict"
    if "\<not> retry \<and> current_version s key \<noteq> expected"
    using that first by (simp add: put_good_crash call DoPut_versioned_def)
  assume c: "\<not> retry \<and> current_version s key = expected"
  let ?meta = "put_meta t key data (expected + 1) rid"
  have v: "u64_add expected 1 = expected + 1" "expected + 1 < u64_size" using assms(3) c by (simp_all add: room_def u64_add_exact)
  obtain res s' where run: "DoPut_write (put_crash t None) data ?meta s = (res, s')" by fastforce
  have W: "res = Some (Inr ?meta) \<and> written ?meta data s s' \<and> store_ok s'"
    by (rule write_ok [OF assms(1) put_fits_room [OF assms(3) v(2)] newer_next _ _ _ run]) (use assms(4) c in simp_all)
  have put: "PutConditional (put_good t) key data expected rid s = (Some (Inr ?meta), s')"
    using first c run W v(1) by (simp add: put_good_crash call DoPut_versioned_def put_meta_def Let_def)
  have "om_find (ls_meta s') key = Some ?meta" using W store_okD(1) [OF assms(1)] by (simp add: written_def om.find_set)
  moreover have "ReadRow ?meta = ?meta" using assms(6,7) by (simp add: ReadRow_def put_meta_def c_str_digest)
  ultimately have "PutConditional (put_good t2) key data expected rid s' = (Some (Inr ?meta), s')"
    using again [of s' ?meta] assms(6) by (simp add: put_good_crash call)
  moreover have "Local_Get get_good key s' = Inr data"
    using written_get(1) [of ?meta data s s'] W store_okD(1) [OF assms(1)] assms(4) by simp
  ultimately show "\<exists>meta s'. PutConditional (put_good t) key data expected rid s = (Some (Inr meta), s') \<and>
      md_version meta = expected + 1 \<and> Local_Get get_good key s' = Inr data \<and> store_ok s' \<and>
      PutConditional (put_good t2) key data expected rid s' = (Some (Inr meta), s')"
    using put W by fastforce
qed

theorem conditional_put_witness:
  "\<exists>meta s'. PutConditional (put_good 0) ''k'' ''v'' 0 ''r'' empty_store = (Some (Inr meta), s') \<and> md_version meta = 1 \<and>
    PutConditional (put_good 9) ''k'' ''v'' 0 ''r'' s' = (Some (Inr meta), s')"
  using conditional_put [OF store_ok_empty _ empty_side(1) empty_side(2), of "''r''" False 0 0 9]
  by (fastforce simp: c_str_def current_version_def empty_store_def om_find_def)

section \<open>Where an object is lost\<close>

lemma restart_earlier:
  assumes "store_ok s" and "Wal_Replay (wal_file (ls_wal s')) = rs @ b # later" and "rs = wal_stored (ls_wal s)"
    and "settled rs (ls_meta s')" and "\<not> wr_is_commit b" and "wr_seq b \<notin> set (committed_seqs (rs @ later))"
    and "\<forall>r \<in> set later. wr_is_commit r \<or> wr_seq r \<in> set (committed_seqs later)"
    and "recover_record (recover_good t) (length rs) b s' = (None, s'')"
  shows "Local_Open (store_open_good t) s' = (Status_Ok, s''\<lparr>ls_tmp := [], ls_wal := wal_empty\<rparr>)"
proof -
  have C: "committed_seqs (rs @ b # later) = committed_seqs rs @ committed_seqs later" using assms(5) by (simp add: committed_seqs_def)
  let ?C = "committed_seqs rs @ committed_seqs later"
  have old: "recover_loop (recover_good t) ?C 0 rs s' = (None, s')"
    by (rule recover_loop_settled) (use assms(4) in \<open>auto simp: settled_def\<close>)
  have new: "recover_loop (recover_good t) ?C i later s'' = (None, s'')" for i
    by (rule recover_loop_settled) (use assms(7) in auto)
  have "recover_loop (recover_good t) (committed_seqs (rs @ b # later)) 0 (rs @ b # later) s' = (None, s'')"
    unfolding C recover_loop_append old prod.case option.case using assms(5,6,8) new by (simp add: committed_seqs_def)
  from Open_recovers [OF assms(2) this] show ?thesis .
qed

lemma Local_Delete_absent:
  assumes "wal_fd_open (ls_wal s)" and "om_find (ls_meta s) key = None"
  shows "Local_Delete (put_good t) key s = (Some (NotFound (''no such key: '' @ key)), logged [delete_begin key s] (taken s))"
  using assms
  by (simp add: Local_Delete_def put_good_def NextSeq_def taken_def logged_def wal_bytes_def AppendBegin_def AppendRecord_def
      append_good_def delete_begin_def Sqlite_Delete_def sq_good_def Let_def)

text \<open>
  C35. A failed deletion destroys a later object: \<open>Delete\<close> of an absent key returns NotFound but leaves a BEGIN
  record without COMMIT in the log. A \<open>Put\<close> of that key then succeeds and is readable, but the next restart
  replays the old deletion: recovery looks at the row of the key, not at when it was written, and the
  acknowledged object reads as deleted.
\<close>

theorem failed_delete_loses_put:
  assumes "store_ok s" and "om_find (ls_meta s) key = None" and "key \<noteq> ''''" and "room key data s"
    and "wal_next_seq (ls_wal s) + 2 < u64_size"
  shows "\<exists>s1 meta s2 s3. Local_Delete (put_good t) key s = (Some (NotFound (''no such key: '' @ key)), s1) \<and>
    Local_Put (put_good t) key data s1 = (Some (Inr meta), s2) \<and> Local_Get get_good key s2 = Inr data \<and>
    Local_Open (store_open_good t') s2 = (Status_Ok, s3) \<and>
    Local_Get get_good key s3 = Inl (NotFound (''tombstoned: '' @ key))"
proof -
  let ?rs = "wal_stored (ls_wal s)" and ?d = "delete_begin key s" and ?meta = "put_meta t key data 1 ''''"
  let ?s1 = "logged [?d] (taken s)"
  let ?b = "put_begin ?meta ?s1" and ?c = "commit_of ?s1" and ?n = "wal_next_seq (ls_wal s)"
  let ?s2 = "logged [?c] (with_row ?meta (with_file key data (logged [?b] (taken ?s1))))"
  note m = store_okD(1) [OF assms(1)]
  have fd: "wal_fd_open (ls_wal ?s1)" using store_ok_fd [OF assms(1)] by simp
  have del: "Local_Delete (put_good t) key s = (Some (NotFound (''no such key: '' @ key)), ?s1)"
    by (rule Local_Delete_absent [OF store_ok_fd [OF assms(1)] assms(2)])
  have "u64_add (current_version ?s1 key) 1 = 1" using assms(2) by (simp add: current_version_def u64_add_def)
  then have put: "Local_Put (put_good t) key data ?s1 = (Some (Inr ?meta), ?s2)"
    using Local_Put_write [OF assms(3)] DoPut_write_good(1) [OF fd refl refl refl refl] by (simp add: put_good_crash)
  have row: "om_find (ls_meta ?s2) key = Some ?meta" by (simp add: om.find_set m)
  have got: "Local_Get get_good key ?s2 = Inr data"
    by (simp add: Get_good row files_with_file logged_def with_row_def c_str_digest om.find_set m)
  have n1: "wal_next_seq (ls_wal ?s1) = ?n + 1" using assms(5) by (simp add: taken_def NextSeq_def u64_add_exact)
  have fits: "put_fits ?meta ?s1"
    by (rule put_fits_room) (use assms(2,4,5) n1 in \<open>simp_all add: room_def current_version_def\<close>)
  have ok: "wal_ok ?d" "wal_ok ?b" "wal_ok ?c"
    using assms(4,5) wal_ok_put [OF fits] wal_ok_commit [OF fits]
    by (simp_all add: room_def wal_ok_def delete_begin_def begin_record_def)
  have rep: "Wal_Replay (wal_file (ls_wal ?s2)) = ?rs @ ?d # [?b, ?c]"
    using replay_logged(1) [OF assms(1) _ ok(1) refl, of "[?d, ?b, ?c]"] ok by (simp add: wal_bytes_def)
  have seqs: "wr_seq ?d = ?n" "wr_seq ?b = ?n + 1" "wr_seq ?c = ?n + 1" "\<not> wr_is_commit ?d" "\<not> wr_is_commit ?b" "wr_is_commit ?c"
    using n1 by (simp_all add: delete_begin_def put_begin_def begin_record_def commit_of_def WalRecord_default_def)
  have fresh: "wr_seq ?d \<notin> set (committed_seqs (?rs @ [?b, ?c]))"
    using store_okD(4) [OF assms(1)] seqs by (fastforce simp: committed_seqs_def)
  have set2: "settled ?rs (ls_meta ?s2)"
    using settled_with_row [OF store_okD(3) [OF assms(1)] _ m, of ?meta] assms(2) by (simp add: newer_def)
  have open3: "Local_Open (store_open_good t') ?s2 = (Status_Ok, (with_tombstone key ?s2)\<lparr>ls_tmp := [], ls_wal := wal_empty\<rparr>)"
    by (rule restart_earlier [OF assms(1) rep refl set2 _ fresh])
       (use seqs recover_delete [OF row] in \<open>simp_all add: committed_seqs_def\<close>)
  have "Local_Get get_good key ((with_tombstone key ?s2)\<lparr>ls_tmp := [], ls_wal := wal_empty\<rparr>) = Inl (NotFound (''tombstoned: '' @ key))"
    using row Sqlite_Delete_live [OF row] by (simp add: Get_good with_tombstone_def om.find_set m om.ok_set)
  then show ?thesis using del put got open3 by blast
qed

theorem failed_delete_loses_put_witness:
  "\<exists>s1 meta s2 s3. Local_Delete (put_good 0) ''k'' empty_store = (Some (NotFound ''no such key: k''), s1) \<and>
    Local_Put (put_good 0) ''k'' ''v'' s1 = (Some (Inr meta), s2) \<and> Local_Get get_good ''k'' s2 = Inr ''v'' \<and>
    Local_Open (store_open_good 0) s2 = (Status_Ok, s3) \<and> Local_Get get_good ''k'' s3 = Inl (NotFound ''tombstoned: k'')"
  using failed_delete_loses_put [OF store_ok_empty _ _ empty_side(1), of 0 0]
  by (fastforce simp: empty_store_def om_find_def wal_empty_def)

text \<open>
  A replicated write whose version is not above the stored one is not atomic: if the process dies after
  the rename, recovery skips the BEGIN record because its version is not newer than the row, so the new
  bytes stay under the old checksum and the object, readable before, is corrupt after the restart.
\<close>

theorem low_version_crash_unreadable:
  assumes "store_ok s" and "Local_Get get_good key s = Inr old" and "key \<noteq> ''''" and "0 < v" and "v \<le> current_version s key"
    and "room key data s" and "Sha256Hex data \<noteq> Sha256Hex old"
  shows "\<exists>s1 s2. PutWithVersion (put_crash t (Some After_rename)) key data v s = (None, s1) \<and>
    Local_Open (store_open_good t') s1 = (Status_Ok, s2) \<and>
    Local_Get get_good key s2 = Inl (ChecksumMismatch (''checksum mismatch for key: '' @ key))"
proof -
  let ?meta = "put_meta t key data v ''''" and ?rs = "wal_stored (ls_wal s)"
  let ?b = "put_begin ?meta s"
  let ?s1 = "with_file key data (logged [?b] (taken s))"
  from assms(2) obtain row where row: "om_find (ls_meta s) key = Some row" "\<not> md_deleted row" "c_str (md_checksum row) = Sha256Hex old"
    by (auto simp: Get_good split: option.splits if_splits)
  have v: "v \<le> md_version row" using assms(5) row(1) by (simp add: current_version_def)
  have "v < u64_size" using assms(5,6) by (simp add: room_def)
  then have fits: "put_fits ?meta s" using put_fits_room [OF assms(6)] by simp
  have put: "PutWithVersion (put_crash t (Some After_rename)) key data v s = (None, ?s1)"
    using PutWithVersion_write [OF assms(3), of v] DoPut_write_good(4) [OF store_ok_fd [OF assms(1)] refl refl refl refl] assms(4)
    by simp
  have rep: "Wal_Replay (wal_file (ls_wal ?s1)) = ?rs @ [?b]"
    using replay_logged(1) [OF assms(1) _ wal_ok_put [OF fits] refl, of "[?b]"] wal_ok_put [OF fits] by simp
  have "covered ?b (ls_meta s)" using row(1) v by (simp add: covered_def put_begin_def begin_record_def)
  then have "settled (?rs @ [?b]) (ls_meta ?s1)" using settled_extend [OF store_okD(3) [OF assms(1)], of "[?b]"] by simp
  from restart_settled [OF rep this]
  have "Local_Open (store_open_good t') ?s1 = (Status_Ok, ?s1\<lparr>ls_tmp := [], ls_wal := wal_empty\<rparr>)" .
  moreover have "Local_Get get_good key (?s1\<lparr>ls_tmp := [], ls_wal := wal_empty\<rparr>) =
      Inl (ChecksumMismatch (''checksum mismatch for key: '' @ key))"
    using row assms(7) by (simp add: Get_good files_with_file)
  ultimately show ?thesis using put by blast
qed

theorem low_version_crash_unreadable_witness:
  "\<exists>s1 s2. PutWithVersion (put_crash 0 (Some After_rename)) ''k'' '''' 1 one_store = (None, s1) \<and>
    Local_Open (store_open_good 0) s1 = (Status_Ok, s2) \<and>
    Local_Get get_good ''k'' s2 = Inl (ChecksumMismatch ''checksum mismatch for key: k'')"
  using low_version_crash_unreadable [OF one_store(1) one_store_get _ _ _ one_store_room, of 1 0 0] one_store_version
  by (simp add: sha256_abc sha256_empty)

text \<open>
  A failed overwrite destroys the stored object: the payload replaces the old file before the row is
  written, so when SQLite then refuses the row, \<open>Put\<close> returns an error and the previous object, whose row
  is still there, can no longer be read.
\<close>

theorem failed_overwrite_unreadable:
  assumes "store_ok s" and "Local_Get get_good key s = Inr old" and "key \<noteq> ''''" and "Sha256Hex data \<noteq> Sha256Hex old"
    and "env = (put_good t)\<lparr>pe_row := sq_good\<lparr>sq_step := Some e\<rparr>\<rparr>"
  shows "\<exists>s1. Local_Put env key data s = (Some (Inl (IoError (''put failed: '' @ e))), s1) \<and>
    Local_Get get_good key s1 = Inl (ChecksumMismatch (''checksum mismatch for key: '' @ key))"
proof -
  let ?meta = "put_meta t key data (u64_add (current_version s key) 1) ''''"
  let ?s0 = "logged [put_begin ?meta s] (taken s)"
  let ?s1 = "with_file key data ?s0"
  from assms(2) obtain row where row: "om_find (ls_meta s) key = Some row" "\<not> md_deleted row" "c_str (md_checksum row) = Sha256Hex old"
    by (auto simp: Get_good split: option.splits if_splits)
  have env: "pe_peek env = sq_good" "pe_begin env = append_good" "pe_file env = file_good" "pe_crash env = None" "pe_time env = t"
      "pe_row env = sq_good\<lparr>sq_step := Some e\<rparr>" by (simp_all add: assms(5) put_good_def)
  have b: "AppendBegin append_good (wal_next_seq (ls_wal s)) kPut key (md_version ?meta) (md_checksum ?meta) (md_size ?meta) (ls_wal (taken s)) =
      (Status_Ok, ls_wal ?s0)"
    using Append_logged [of "taken s" "put_begin ?meta s"] store_ok_fd [OF assms(1)] by (simp add: AppendBegin_def put_begin_def)
  have upd: "NextSeq (ls_wal s) = (wal_next_seq (ls_wal s), ls_wal (taken s))" "s\<lparr>ls_wal := ls_wal (taken s)\<rparr> = taken s"
      "(taken s)\<lparr>ls_wal := ls_wal ?s0\<rparr> = ?s0" "?s1\<lparr>ls_meta := ls_meta ?s1\<rparr> = ?s1"
    by (simp_all add: NextSeq_def taken_def)
  have row_fails: "Sqlite_Put (sq_good\<lparr>sq_step := Some e\<rparr>) ?meta (ls_meta ?s1) = (IoError (''put failed: '' @ e), ls_meta ?s1)"
    by (simp add: Sqlite_Put_def sq_good_def)
  have wrote: "Local_WriteFileAtomic file_good (object_path ?s0 key) data ?s0 = (Status_Ok, ?s1)" by (rule Local_Write_good)
  have "DoPut_write env data ?meta s = (Some (Inl (IoError (''put failed: '' @ e))), ?s1)"
    unfolding DoPut_write_def upd(1,2) Let_def prod.case env
    using b wrote row_fails upd(3,4) by (simp add: DoPut_commit_def env)
  then have "Local_Put env key data s = (Some (Inl (IoError (''put failed: '' @ e))), ?s1)"
    using assms(3) env by (simp add: Local_Put_def DoPut_good DoPut_versioned_def put_meta_def Let_def)
  moreover have "Local_Get get_good key ?s1 = Inl (ChecksumMismatch (''checksum mismatch for key: '' @ key))"
    using row assms(4) by (simp add: Get_good files_with_file)
  ultimately show ?thesis by blast
qed

theorem failed_overwrite_unreadable_witness:
  "\<exists>s1. Local_Put ((put_good 0)\<lparr>pe_row := sq_good\<lparr>sq_step := Some ''disk full''\<rparr>\<rparr>) ''k'' '''' one_store =
      (Some (Inl (IoError ''put failed: disk full'')), s1) \<and>
    Local_Get get_good ''k'' s1 = Inl (ChecksumMismatch ''checksum mismatch for key: k'')"
  using failed_overwrite_unreadable [OF one_store(1) one_store_get _ _ refl, of "''''" "''disk full''" 0]
  by (simp add: sha256_abc sha256_empty)

end
