(* ===== verification/Storage_Node.thy ===== *)
theory Storage_Node
  imports Store_Safety
begin

text \<open>
  The data-plane service of one storage node, \<open>src/network/storage_node_server.cc\<close>, and the client the
  coordinator uses, \<open>src/network/storage_node_client.cc\<close>, with the messages of \<open>proto/storage.proto\<close> and the
  conversions of \<open>include/network/proto_util.h\<close>.

  gRPC itself is represented by the fate of a call, an input of every client operation: whether the
  request arrives, whether the answer comes back in time, and the error message otherwise. A call is
  carried out at most once. A node that dies inside a handler never answers.
\<close>

section \<open>Messages\<close>

record rpc_ObjectMeta =
  rm_key :: string
  rm_size :: nat
  rm_checksum :: string
  rm_version :: nat
  rm_created_at :: int
  rm_deleted :: bool

definition rpc_ObjectMeta_default :: rpc_ObjectMeta where
  "rpc_ObjectMeta_default = \<lparr>rm_key = '''', rm_size = 0, rm_checksum = '''', rm_version = 0, rm_created_at = 0, rm_deleted = False\<rparr>"

record rpc_PutRequest =
  pq_key :: string
  pq_data :: string
  pq_version :: nat
  pq_request_id :: string
  pq_conditional :: bool
  pq_expected_version :: nat

definition rpc_PutRequest_default :: rpc_PutRequest where
  "rpc_PutRequest_default = \<lparr>pq_key = '''', pq_data = '''', pq_version = 0, pq_request_id = '''', pq_conditional = False, pq_expected_version = 0\<rparr>"

record rpc_PutResponse =
  pr_code :: rpc_Code
  pr_message :: string
  pr_meta :: rpc_ObjectMeta

definition rpc_PutResponse_default :: rpc_PutResponse where
  "rpc_PutResponse_default = \<lparr>pr_code = rpc_OK, pr_message = '''', pr_meta = rpc_ObjectMeta_default\<rparr>"

record rpc_GetResponse =
  gr_code :: rpc_Code
  gr_message :: string
  gr_data :: string
  gr_meta :: rpc_ObjectMeta

definition rpc_GetResponse_default :: rpc_GetResponse where
  "rpc_GetResponse_default = \<lparr>gr_code = rpc_OK, gr_message = '''', gr_data = '''', gr_meta = rpc_ObjectMeta_default\<rparr>"

record rpc_HeadResponse =
  hr_code :: rpc_Code
  hr_message :: string
  hr_meta :: rpc_ObjectMeta

definition rpc_HeadResponse_default :: rpc_HeadResponse where
  "rpc_HeadResponse_default = \<lparr>hr_code = rpc_OK, hr_message = '''', hr_meta = rpc_ObjectMeta_default\<rparr>"

record rpc_DeleteResponse =
  dr_code :: rpc_Code
  dr_message :: string

definition rpc_DeleteResponse_default :: rpc_DeleteResponse where
  "rpc_DeleteResponse_default = \<lparr>dr_code = rpc_OK, dr_message = ''''\<rparr>"

record rpc_HealthResponse =
  he_code :: rpc_Code
  he_object_count :: nat

definition rpc_HealthResponse_default :: rpc_HealthResponse where
  "rpc_HealthResponse_default = \<lparr>he_code = rpc_OK, he_object_count = 0\<rparr>"

record rpc_ListResponse =
  lr_code :: rpc_Code
  lr_message :: string
  lr_objects :: "rpc_ObjectMeta list"

definition rpc_ListResponse_default :: rpc_ListResponse where
  "rpc_ListResponse_default = \<lparr>lr_code = rpc_OK, lr_message = '''', lr_objects = []\<rparr>"

definition ToProtoMeta :: "ObjectMetadata \<Rightarrow> rpc_ObjectMeta \<Rightarrow> rpc_ObjectMeta" where
  "ToProtoMeta m out = out\<lparr>rm_key := md_key m, rm_size := md_size m, rm_checksum := md_checksum m, rm_version := md_version m,
    rm_created_at := md_created_at m, rm_deleted := md_deleted m\<rparr>"

definition FromProtoMeta :: "rpc_ObjectMeta \<Rightarrow> ObjectMetadata" where
  "FromProtoMeta m = ObjectMetadata_default\<lparr>md_key := rm_key m, md_size := rm_size m, md_checksum := rm_checksum m,
    md_version := rm_version m, md_created_at := rm_created_at m, md_deleted := rm_deleted m\<rparr>"

section \<open>The server\<close>

definition Node_Put :: "put_env \<Rightarrow> rpc_PutRequest \<Rightarrow> LocalObjectStore \<Rightarrow> rpc_PutResponse option \<times> LocalObjectStore" where
  "Node_Put env req s =
    (let (result, s) =
       (if pq_conditional req then PutConditional env (pq_key req) (pq_data req) (pq_expected_version req) (pq_request_id req) s
        else if pq_version req = 0 then Local_Put env (pq_key req) (pq_data req) s
        else PutWithVersion env (pq_key req) (pq_data req) (pq_version req) s)
     in (map_option (\<lambda>result. case result of
           Inr meta \<Rightarrow> rpc_PutResponse_default\<lparr>pr_code := rpc_OK, pr_meta := ToProtoMeta meta (pr_meta rpc_PutResponse_default)\<rparr>
         | Inl st \<Rightarrow> rpc_PutResponse_default\<lparr>pr_code := ToProtoCode (code st), pr_message := message st\<rparr>) result, s))"

definition Node_Get :: "get_env \<Rightarrow> sq_env \<Rightarrow> string \<Rightarrow> LocalObjectStore \<Rightarrow> rpc_GetResponse" where
  "Node_Get env henv key s =
    (case Local_Get env key s of
       Inr data \<Rightarrow>
         (case Local_Head henv key s of
            Inr meta \<Rightarrow> rpc_GetResponse_default\<lparr>gr_code := rpc_OK, gr_data := data, gr_meta := ToProtoMeta meta (gr_meta rpc_GetResponse_default)\<rparr>
          | Inl _ \<Rightarrow> rpc_GetResponse_default\<lparr>gr_code := rpc_OK, gr_data := data\<rparr>)
     | Inl st \<Rightarrow> rpc_GetResponse_default\<lparr>gr_code := ToProtoCode (code st), gr_message := message st\<rparr>)"

definition Node_Head :: "sq_env \<Rightarrow> string \<Rightarrow> LocalObjectStore \<Rightarrow> rpc_HeadResponse" where
  "Node_Head env key s =
    (case Local_Head env key s of
       Inr meta \<Rightarrow> rpc_HeadResponse_default\<lparr>hr_code := rpc_OK, hr_meta := ToProtoMeta meta (hr_meta rpc_HeadResponse_default)\<rparr>
     | Inl st \<Rightarrow> rpc_HeadResponse_default\<lparr>hr_code := ToProtoCode (code st), hr_message := message st\<rparr>)"

definition Node_Delete :: "put_env \<Rightarrow> string \<Rightarrow> LocalObjectStore \<Rightarrow> rpc_DeleteResponse option \<times> LocalObjectStore" where
  "Node_Delete env key s =
    (let (result, s) = Local_Delete env key s
     in (map_option (\<lambda>st. let resp = rpc_DeleteResponse_default\<lparr>dr_code := ToProtoCode (code st)\<rparr>
           in if \<not> ok st then resp\<lparr>dr_message := message st\<rparr> else resp) result, s))"

definition Node_Health :: "sq_env \<Rightarrow> LocalObjectStore \<Rightarrow> rpc_HealthResponse" where
  "Node_Health env s =
    (case Local_List env '''' s of
       Inl st \<Rightarrow> rpc_HealthResponse_default\<lparr>he_code := ToProtoCode (code st)\<rparr>
     | Inr objects \<Rightarrow> rpc_HealthResponse_default\<lparr>he_code := rpc_OK, he_object_count := length objects\<rparr>)"

definition Node_List :: "sq_env \<Rightarrow> string \<Rightarrow> LocalObjectStore \<Rightarrow> rpc_ListResponse" where
  "Node_List env prefix s =
    (case Local_List env prefix s of
       Inl st \<Rightarrow> rpc_ListResponse_default\<lparr>lr_code := ToProtoCode (code st), lr_message := message st\<rparr>
     | Inr objects \<Rightarrow> rpc_ListResponse_default\<lparr>lr_code := rpc_OK,
         lr_objects := map (\<lambda>m. ToProtoMeta m rpc_ObjectMeta_default) objects\<rparr>)"

section \<open>The client\<close>

record rpc_fate =
  rf_arrives :: bool
  rf_returns :: bool
  rf_error :: string

definition rpc_call :: "rpc_fate \<Rightarrow> ('s \<Rightarrow> 'r option \<times> 's) \<Rightarrow> 's \<Rightarrow> (string + 'r) \<times> 's" where
  "rpc_call fate h s =
    (if \<not> rf_arrives fate then (Inl (rf_error fate), s)
     else case h s of
       (Some resp, s) \<Rightarrow> (if rf_returns fate then Inr resp else Inl (rf_error fate), s)
     | (None, s) \<Rightarrow> (Inl (rf_error fate), s))"

record node_env =
  ne_fate :: rpc_fate
  ne_put :: put_env
  ne_get :: get_env
  ne_row :: sq_env

definition node_good :: "int \<Rightarrow> node_env" where
  "node_good t = \<lparr>ne_fate = \<lparr>rf_arrives = True, rf_returns = True, rf_error = ''''\<rparr>, ne_put = put_good t, ne_get = get_good, ne_row = sq_good\<rparr>"

definition rpc_failed :: "string \<Rightarrow> string \<Rightarrow> string \<Rightarrow> Status" where
  "rpc_failed method address e = Unavailable (method @ '' RPC to '' @ address @ '' failed: '' @ e)"

definition Client_put_call :: "node_env \<Rightarrow> string \<Rightarrow> rpc_PutRequest \<Rightarrow> LocalObjectStore \<Rightarrow> ObjectMetadata StatusOr \<times> LocalObjectStore" where
  "Client_put_call env address req s =
    (case rpc_call (ne_fate env) (Node_Put (ne_put env) req) s of
       (Inl e, s) \<Rightarrow> (Inl (rpc_failed ''Put'' address e), s)
     | (Inr resp, s) \<Rightarrow>
         if pr_code resp \<noteq> rpc_OK then (Inl \<lparr>code = FromProtoCode (pr_code resp), message = pr_message resp\<rparr>, s)
         else (Inr (FromProtoMeta (pr_meta resp)), s))"

definition Client_Put ::
  "node_env \<Rightarrow> string \<Rightarrow> string \<Rightarrow> string \<Rightarrow> nat \<Rightarrow> LocalObjectStore \<Rightarrow> ObjectMetadata StatusOr \<times> LocalObjectStore" where
  "Client_Put env address key data version s =
    Client_put_call env address (rpc_PutRequest_default\<lparr>pq_key := key, pq_data := data, pq_version := version\<rparr>) s"

definition Client_PutConditional ::
  "node_env \<Rightarrow> string \<Rightarrow> string \<Rightarrow> string \<Rightarrow> nat \<Rightarrow> string \<Rightarrow> LocalObjectStore \<Rightarrow> ObjectMetadata StatusOr \<times> LocalObjectStore" where
  "Client_PutConditional env address key data expected_version request_id s =
    Client_put_call env address (rpc_PutRequest_default\<lparr>pq_key := key, pq_data := data, pq_conditional := True,
      pq_expected_version := expected_version, pq_request_id := request_id\<rparr>) s"

definition Client_Get :: "node_env \<Rightarrow> string \<Rightarrow> string \<Rightarrow> LocalObjectStore \<Rightarrow> string StatusOr" where
  "Client_Get env address key s =
    (case fst (rpc_call (ne_fate env) (\<lambda>s. (Some (Node_Get (ne_get env) (ne_row env) key s), s)) s) of
       Inl e \<Rightarrow> Inl (rpc_failed ''Get'' address e)
     | Inr resp \<Rightarrow>
         if gr_code resp \<noteq> rpc_OK then Inl \<lparr>code = FromProtoCode (gr_code resp), message = gr_message resp\<rparr>
         else Inr (gr_data resp))"

definition Client_Head :: "node_env \<Rightarrow> string \<Rightarrow> string \<Rightarrow> LocalObjectStore \<Rightarrow> ObjectMetadata StatusOr" where
  "Client_Head env address key s =
    (case fst (rpc_call (ne_fate env) (\<lambda>s. (Some (Node_Head (ne_row env) key s), s)) s) of
       Inl e \<Rightarrow> Inl (rpc_failed ''Head'' address e)
     | Inr resp \<Rightarrow>
         if hr_code resp \<noteq> rpc_OK then Inl \<lparr>code = FromProtoCode (hr_code resp), message = hr_message resp\<rparr>
         else Inr (FromProtoMeta (hr_meta resp)))"

definition Client_Health :: "node_env \<Rightarrow> string \<Rightarrow> LocalObjectStore \<Rightarrow> nat StatusOr" where
  "Client_Health env address s =
    (case fst (rpc_call (ne_fate env) (\<lambda>s. (Some (Node_Health (ne_row env) s), s)) s) of
       Inl e \<Rightarrow> Inl (rpc_failed ''Health'' address e)
     | Inr resp \<Rightarrow>
         if he_code resp \<noteq> rpc_OK then Inl \<lparr>code = FromProtoCode (he_code resp), message = ''unhealthy''\<rparr>
         else Inr (he_object_count resp))"

definition Client_List :: "node_env \<Rightarrow> string \<Rightarrow> string \<Rightarrow> LocalObjectStore \<Rightarrow> ObjectMetadata list StatusOr" where
  "Client_List env address prefix s =
    (case fst (rpc_call (ne_fate env) (\<lambda>s. (Some (Node_List (ne_row env) prefix s), s)) s) of
       Inl e \<Rightarrow> Inl (rpc_failed ''List'' address e)
     | Inr resp \<Rightarrow>
         if lr_code resp \<noteq> rpc_OK then Inl \<lparr>code = FromProtoCode (lr_code resp), message = lr_message resp\<rparr>
         else Inr (map FromProtoMeta (lr_objects resp)))"

definition Client_Delete :: "node_env \<Rightarrow> string \<Rightarrow> string \<Rightarrow> LocalObjectStore \<Rightarrow> Status \<times> LocalObjectStore" where
  "Client_Delete env address key s =
    (case rpc_call (ne_fate env) (Node_Delete (ne_put env) key) s of
       (Inl e, s) \<Rightarrow> (rpc_failed ''Delete'' address e, s)
     | (Inr resp, s) \<Rightarrow> (\<lparr>code = FromProtoCode (dr_code resp), message = dr_message resp\<rparr>, s))"

section \<open>What a write can touch, whatever fails\<close>

definition touches :: "string \<Rightarrow> LocalObjectStore \<Rightarrow> LocalObjectStore \<Rightarrow> bool" where
  "touches key s s' \<longleftrightarrow> ls_root s' = ls_root s \<and> (\<forall>p. p \<noteq> object_path s key \<longrightarrow> ls_files s' p = ls_files s p) \<and>
    (\<forall>k. k \<noteq> key \<longrightarrow> om_find (ls_meta s') k = om_find (ls_meta s) k) \<and> om_ok (ls_meta s')"

text \<open>The node holds these bytes for the key, as a live row says.\<close>

definition stored :: "string \<Rightarrow> string \<Rightarrow> nat \<Rightarrow> LocalObjectStore \<Rightarrow> bool" where
  "stored key data version s \<longleftrightarrow> ls_files s (object_path s key) = Some data \<and>
    (\<exists>row. om_find (ls_meta s) key = Some row \<and> \<not> md_deleted row \<and> md_checksum row = Sha256Hex data \<and> md_version row = version)"

lemma touches_refl: "om_ok (ls_meta s) \<Longrightarrow> touches key s s"
  by (simp add: touches_def)

lemma touches_path: "touches key s s' \<Longrightarrow> object_path s' = object_path s"
  by (simp add: touches_def fun_eq_iff object_path_def DataRoot_def)

lemma touches_wal: "touches key (s\<lparr>ls_wal := w\<rparr>) s' = touches key s s'" "touches key s (s'\<lparr>ls_wal := w\<rparr>) = touches key s s'"
    "touches key s (s'\<lparr>ls_tmp := tmp\<rparr>) = touches key s s'"
  by (simp_all add: touches_def)

lemma touches_torn: "touches key s (torn_append k r s') = touches key s s'"
  by (simp add: torn_append_def touches_wal)

lemma Write_touches:
  assumes "Local_WriteFileAtomic env (object_path s key) data s = (st, s')" and "om_ok (ls_meta s)"
  shows "touches key s s' \<and> ls_meta s' = ls_meta s \<and> (ok st \<longrightarrow> ls_files s' (object_path s key) = Some data)"
  using assms write_loop_ok
  by (fastforce simp: Local_WriteFileAtomic_def touches_def split: option.splits prod.splits)

lemma Sqlite_Put_result:
  "Sqlite_Put env meta t = (st, t') \<Longrightarrow> ok st \<and> t' = om_set (md_key meta) meta t \<or> \<not> ok st \<and> t' = t"
  by (auto simp: Sqlite_Put_def split: option.splits)

lemma touches_row:
  assumes "touches (md_key meta) s s'" and "t = om_set (md_key meta) meta (ls_meta s') \<or> t = ls_meta s'"
  shows "touches (md_key meta) s (s'\<lparr>ls_meta := t\<rparr>)"
  using assms by (auto simp: touches_def om.find_set om.ok_set)

lemma DoPut_commit_touches:
  assumes "DoPut_commit env seq meta s1 = (r, s')" and "touches (md_key meta) s s1"
  shows "touches (md_key meta) s s' \<and> ls_files s' = ls_files s1 \<and>
    (r = Some (Inr m) \<longrightarrow> m = meta \<and> ls_meta s' = om_set (md_key meta) meta (ls_meta s1))"
proof -
  obtain c t where ct: "Sqlite_Put (pe_row env) meta (ls_meta s1) = (c, t)" by fastforce
  have row: "touches (md_key meta) s (s1\<lparr>ls_meta := t\<rparr>)"
    by (rule touches_row [OF assms(2)]) (use Sqlite_Put_result [OF ct] in auto)
  show ?thesis
    using assms(1) row Sqlite_Put_result [OF ct]
    by (auto simp: DoPut_commit_def ct Let_def touches_wal touches_torn split: if_splits option.splits crash_point.splits)
qed

lemma DoPut_write_touches:
  assumes "DoPut_write env data meta s = (r, s')" and "om_ok (ls_meta s)"
  shows "touches (md_key meta) s s' \<and> (r = Some (Inr m) \<longrightarrow> m = meta \<and> ls_files s' (object_path s (md_key meta)) = Some data \<and>
    om_find (ls_meta s') (md_key meta) = Some meta)"
proof -
  let ?seq = "wal_next_seq (ls_wal s)" and ?w = "snd (NextSeq (ls_wal s))"
  obtain wb w1 where b: "AppendBegin (pe_begin env) ?seq kPut (md_key meta) (md_version meta) (md_checksum meta) (md_size meta) ?w = (wb, w1)"
    by fastforce
  let ?s1 = "s\<lparr>ls_wal := w1\<rparr>"
  obtain st s2 where w: "Local_WriteFileAtomic (pe_file env) (object_path s (md_key meta)) data ?s1 = (st, s2)" by fastforce
  have T: "touches (md_key meta) s s2" "ls_meta s2 = ls_meta s" "ok st \<Longrightarrow> ls_files s2 (object_path s (md_key meta)) = Some data"
    using Write_touches [of "pe_file env" ?s1 "md_key meta" data st s2] w assms(2) by (simp_all add: touches_wal)
  obtain r3 s3 where c: "DoPut_commit env ?seq meta s2 = (r3, s3)" by fastforce
  note C = DoPut_commit_touches [OF c T(1)]
  show ?thesis
    using assms b w T C
    by (auto simp: DoPut_write_def NextSeq_def Let_def touches_wal touches_torn touches_refl c om.find_set
        split: if_splits option.splits crash_point.splits)
qed

lemma stored_written:
  assumes "touches key s s'" and "ls_files s' (object_path s key) = Some data" and "om_find (ls_meta s') key = Some row"
    and "\<not> md_deleted row" and "md_checksum row = Sha256Hex data" and "md_version row = v"
  shows "stored key data v s'"
  using assms touches_path [OF assms(1)] by (simp add: stored_def)

lemma stored_frame:
  assumes "stored k data v s" and "touches key s s'" and "KeyDigest k \<noteq> KeyDigest key"
  shows "stored k data v s'"
proof -
  have "object_path s k \<noteq> object_path s key" using assms(3) by (simp add: object_path_def path_inj)
  moreover have "k \<noteq> key" using assms(3) by auto
  ultimately show ?thesis using assms(1,2) touches_path [OF assms(2)] by (simp add: stored_def touches_def)
qed

lemma DoPut_versioned_touches:
  assumes "DoPut_versioned env key data ev cond exp rid cur s = (r, s')" and "om_ok (ls_meta s)"
    and "v = (if ev \<noteq> 0 then ev else u64_add exp 1)" and "ev \<noteq> 0 \<or> cond"
  shows "touches key s s' \<and> (r = Some (Inr m) \<longrightarrow> stored key data v s')"
proof (cases "cond \<and> cur \<noteq> exp")
  case True
  then show ?thesis using assms(1) touches_refl [OF assms(2)] by (auto simp: DoPut_versioned_def)
next
  case False
  let ?meta = "put_meta (pe_time env) key data v rid"
  have "DoPut_write env data ?meta s = (r, s')"
    using assms(1,3,4) False by (auto simp: DoPut_versioned_def put_meta_def Let_def split: if_splits)
  from DoPut_write_touches [OF this assms(2)] show ?thesis
    using stored_written [of key s s' data ?meta v] by simp
qed

lemma DoPut_touches:
  assumes "DoPut env key data ev cond exp rid s = (r, s')" and "om_ok (ls_meta s)"
    and "v = (if ev \<noteq> 0 then ev else u64_add exp 1)" and "ev \<noteq> 0 \<or> cond"
  shows "touches key s s' \<and> (r = Some (Inr m) \<longrightarrow> stored key data v s' \<or>
    s' = s \<and> rid \<noteq> '''' \<and> (\<exists>row. om_find (ls_meta s) key = Some row \<and> c_str (md_request_id row) = rid))"
proof -
  have V: "touches key s s' \<and> (r = Some (Inr m) \<longrightarrow> stored key data v s')"
    if "DoPut_versioned env key data ev cond exp rid cur s = (r, s')" for cur
    by (rule DoPut_versioned_touches [OF that assms(2-4)])
  show ?thesis
  proof (cases "Peek (pe_peek env) key (ls_meta s)")
    case (Inl st)
    then show ?thesis using assms(1) V [of 0] touches_refl [OF assms(2)] by (auto simp: DoPut_def Let_def split: if_splits)
  next
    case (Inr row)
    then have "\<exists>row0. om_find (ls_meta s) key = Some row0 \<and> row = ReadRow row0" by (auto simp: Peek_def split: option.splits)
    then show ?thesis
      using assms(1) Inr V [of "md_version row"] touches_refl [OF assms(2)]
      by (auto simp: DoPut_def Let_def ReadRow_def split: if_splits)
  qed
qed

lemma PutWithVersion_touches:
  assumes "PutWithVersion env key data v s = (r, s')" and "om_ok (ls_meta s)"
  shows "touches key s s' \<and> (r = Some (Inr m) \<longrightarrow> stored key data v s')"
  using assms DoPut_touches [of env key data v False 0 "''''" s r s' v m] touches_refl [OF assms(2)]
  by (auto simp: PutWithVersion_def split: if_splits)

lemma PutConditional_touches:
  assumes "PutConditional env key data exp rid s = (r, s')" and "om_ok (ls_meta s)"
  shows "touches key s s' \<and> (r = Some (Inr m) \<longrightarrow> stored key data (u64_add exp 1) s' \<or>
    s' = s \<and> rid \<noteq> '''' \<and> (\<exists>row. om_find (ls_meta s) key = Some row \<and> c_str (md_request_id row) = rid))"
  using assms DoPut_touches [of env key data 0 True exp rid s r s' _ m] touches_refl [OF assms(2)]
  by (auto simp: PutConditional_def split: if_splits)

lemma Local_Delete_touches:
  assumes "Local_Delete env key s = (r, s')" and "om_ok (ls_meta s)"
  shows "touches key s s' \<and> (r = Some Status_Ok \<longrightarrow> (\<exists>row. om_find (ls_meta s') key = Some row \<and> md_deleted row))"
proof -
  let ?t = "Sqlite_Delete (pe_row env) key (ls_meta s)"
  have T: "touches key s (s\<lparr>ls_wal := w, ls_meta := snd ?t\<rparr>)" for w
    using assms(2) by (auto simp: touches_def Sqlite_Delete_def om.find_set om.ok_set split: option.splits)
  have T0: "touches key s (s\<lparr>ls_meta := snd ?t\<rparr>)" using T [of "ls_wal s"] by simp
  have D: "ok (fst ?t) \<Longrightarrow> \<exists>row. om_find (snd ?t) key = Some row \<and> md_deleted row"
    using assms(2) by (auto simp: Sqlite_Delete_def om.find_set split: option.splits if_splits)
  obtain d t where dt: "?t = (d, t)" by fastforce
  obtain wb w1 where b: "AppendBegin (pe_begin env) (wal_next_seq (ls_wal s)) kDelete key 0 '''' 0 (snd (NextSeq (ls_wal s))) = (wb, w1)"
    by fastforce
  show ?thesis
    using assms(1) T T0 D b dt touches_refl [OF assms(2)]
    by (auto simp: Local_Delete_def NextSeq_def Let_def touches_wal touches_torn split: if_splits option.splits crash_point.splits)
qed

section \<open>What the client learns\<close>

lemma DoPut_write_not_ok: "DoPut_write env data meta s = (Some (Inl st), s') \<Longrightarrow> \<not> ok st"
  by (auto simp: DoPut_write_def DoPut_commit_def Let_def split: if_splits option.splits crash_point.splits prod.splits)

lemma PutWithVersion_not_ok: "PutWithVersion env key data v s = (Some (Inl st), s') \<Longrightarrow> \<not> ok st"
  by (auto simp: PutWithVersion_def DoPut_def DoPut_versioned_def Let_def Peek_def dest: DoPut_write_not_ok
      split: if_splits option.splits sum.splits)

lemma Client_Put_touches:
  assumes "Client_Put env address key data v s = (r, s')" and "om_ok (ls_meta s)" and "v \<noteq> 0"
  shows "touches key s s' \<and> (sor_ok r \<longrightarrow> stored key data v s')"
proof -
  obtain r0 s0 where p: "PutWithVersion (ne_put env) key data v s = (r0, s0)" by fastforce
  have T: "touches key s s0" "\<And>m. r0 = Some (Inr m) \<Longrightarrow> stored key data v s0"
    using PutWithVersion_touches [OF p assms(2)] by blast+
  show ?thesis
    using assms(1,3) p T touches_refl [OF assms(2)] PutWithVersion_not_ok [of "ne_put env" key data v s _ s0]
    by (auto simp: Client_Put_def Client_put_call_def rpc_call_def Node_Put_def rpc_PutRequest_default_def rpc_failed_def ok_def
        FromProtoCode_ok rpc_PutResponse_default_def split: if_splits option.splits sum.splits)
qed

lemma Client_Put_good:
  assumes "wal_fd_open (ls_wal s)" and "key \<noteq> ''''" and "v \<noteq> 0"
  shows "sor_ok (fst (Client_Put (node_good t) address key data v s))"
proof -
  have "\<exists>m s'. PutWithVersion (put_good t) key data v s = (Some (Inr m), s')"
    using PutWithVersion_write [OF assms(2,3)] DoPut_write_good(1) [OF assms(1) refl refl refl refl] by (simp add: put_good_crash)
  then show ?thesis
    using assms(3) by (auto simp: Client_Put_def Client_put_call_def node_good_def rpc_call_def Node_Put_def rpc_PutRequest_default_def
        rpc_PutResponse_default_def)
qed

lemma Client_Delete_touches:
  assumes "Client_Delete env address key s = (r, s')" and "om_ok (ls_meta s)"
  shows "touches key s s'"
proof -
  obtain r0 s0 where p: "Local_Delete (ne_put env) key s = (r0, s0)" by fastforce
  from Local_Delete_touches [OF p assms(2)] assms(1) p touches_refl [OF assms(2)] show ?thesis
    by (auto simp: Client_Delete_def rpc_call_def Node_Delete_def split: if_splits option.splits)
qed

lemma stored_Local_Get:
  assumes "stored key data v s"
  shows "Local_Get get_good key s = Inr data" and "Local_Get env key s = Inr d \<Longrightarrow> d = data"
  using assms
  by (auto simp: stored_def Local_Get_def get_good_def Sqlite_Get_def sq_good_def ReadWholeFile_def ReadRow_def Let_def c_str_digest
      split: option.splits if_splits)

lemma Local_Get_not_ok: "Local_Get env key s = Inl st \<Longrightarrow> \<not> ok st"
  by (auto simp: Local_Get_def Sqlite_Get_def ReadWholeFile_def Let_def split: option.splits if_splits sum.splits)

lemma Client_Get_stored:
  assumes "stored key data v s"
  shows "Client_Get (node_good t) address key s = Inr data" and "Client_Get env address key s = Inr d \<Longrightarrow> d = data"
proof -
  show "Client_Get (node_good t) address key s = Inr data"
    using stored_Local_Get(1) [OF assms]
    by (simp add: Client_Get_def node_good_def rpc_call_def Node_Get_def rpc_GetResponse_default_def split: sum.split)
  assume "Client_Get env address key s = Inr d"
  then show "d = data"
    using stored_Local_Get(2) [OF assms, of "ne_get env"] Local_Get_not_ok [of "ne_get env" key s]
    by (auto simp: Client_Get_def rpc_call_def Node_Get_def rpc_GetResponse_default_def ok_def split: sum.splits if_splits)
qed

lemma Client_Get_not_ok: "Client_Get env address key s = Inl st \<Longrightarrow> \<not> ok st"
  by (auto simp: Client_Get_def rpc_failed_def ok_def FromProtoCode_ok split: sum.splits if_splits)

end
