(* ===== verification/Coordinator.thy ===== *)
theory Coordinator
  imports Storage_Node Caching_View
begin

text \<open>
  \<open>src/network/coordinator.cc\<close>: quorum writes and fallback reads over the storage nodes, with the metadata
  service for placement, versions and replica sets, and \<open>src/network/repairer.cc\<close>.

  The interface class \<open>MetadataView\<close> is a record of its virtual functions, so the coordinator is the same
  definition in front of a repository and of a cached one. The storage nodes are a function from addresses to
  stores. The calls of one fan-out go to the replicas in placement order; they run in parallel in the code, on
  different nodes.
\<close>

section \<open>State\<close>

record 's MetadataView =
  mv_PlacementFor :: "string \<Rightarrow> nat \<Rightarrow> 's \<Rightarrow> string list"
  mv_RegisterObject :: "ObjectLocation \<Rightarrow> 's \<Rightarrow> Status \<times> 's"
  mv_LookupObject :: "string \<Rightarrow> 's \<Rightarrow> ObjectLocation StatusOr \<times> 's"
  mv_RemoveObject :: "string \<Rightarrow> 's \<Rightarrow> Status \<times> 's"
  mv_ListObjects :: "string \<Rightarrow> 's \<Rightarrow> ObjectLocation list StatusOr"

datatype ReplicaHealth = kReplicaHealthy | kReplicaLagging | kReplicaFailed

definition ReplicaHealthName :: "ReplicaHealth \<Rightarrow> string" where
  "ReplicaHealthName h = (case h of kReplicaHealthy \<Rightarrow> ''HEALTHY'' | kReplicaLagging \<Rightarrow> ''LAGGING'' | kReplicaFailed \<Rightarrow> ''FAILED'')"

record Coordinator_Options =
  replication_factor :: nat
  write_quorum :: nat

definition Coordinator_Options_default :: Coordinator_Options where
  "Coordinator_Options_default = \<lparr>replication_factor = 3, write_quorum = 2\<rparr>"

type_synonym nodes = "string \<Rightarrow> LocalObjectStore"

text \<open>A client is its address.\<close>

record 's Coordinator =
  co_metadata :: 's
  co_clients :: "(string, string) omap"
  co_opts :: Coordinator_Options
  co_health :: "(string, ReplicaHealth) omap"

definition Coordinator_new :: "'s \<Rightarrow> (string, string) omap \<Rightarrow> Coordinator_Options \<Rightarrow> 's Coordinator" where
  "Coordinator_new metadata clients opts = \<lparr>co_metadata = metadata, co_clients = clients, co_opts = opts,
    co_health = foldl (\<lambda>h (i, _). om_set i kReplicaHealthy h) [] clients\<rparr>"

definition ClientFor :: "string \<Rightarrow> 's Coordinator \<Rightarrow> string option" where
  "ClientFor node_id c = om_find (co_clients c) node_id"

definition MarkHealth :: "string \<Rightarrow> ReplicaHealth \<Rightarrow> 's Coordinator \<Rightarrow> 's Coordinator" where
  "MarkHealth node_id h c = c\<lparr>co_health := om_set node_id h (co_health c)\<rparr>"

section \<open>Writes\<close>

text \<open>The calls of a fan-out, and the results in the order of \<open>futures[i].get()\<close>.\<close>

fun fan_out ::
  "(nat \<Rightarrow> string \<Rightarrow> LocalObjectStore \<Rightarrow> 'r \<times> LocalObjectStore) \<Rightarrow> 'r \<Rightarrow> (string \<Rightarrow> string option) \<Rightarrow> nat \<Rightarrow> string list \<Rightarrow> nodes
    \<Rightarrow> 'r list \<times> nodes" where
  "fan_out call absent client i [] ns = ([], ns)"
| "fan_out call absent client i (node_id # ids) ns =
    (let (r, ns) = (case client node_id of
                      None \<Rightarrow> (absent, ns)
                    | Some addr \<Rightarrow> let (r, s) = call i addr (ns addr) in (r, ns(addr := s)));
         (rs, ns) = fan_out call absent client (Suc i) ids ns
     in (r # rs, ns))"

definition mark_all :: "('r \<Rightarrow> ReplicaHealth) \<Rightarrow> string list \<Rightarrow> 'r list \<Rightarrow> 's Coordinator \<Rightarrow> 's Coordinator" where
  "mark_all health ids rs c = foldl (\<lambda>c (node_id, r). MarkHealth node_id (health r) c) c (zip ids rs)"

definition acked :: "('r \<Rightarrow> bool) \<Rightarrow> string list \<Rightarrow> 'r list \<Rightarrow> string list" where
  "acked good ids rs = map fst (filter (\<lambda>(_, r). good r) (zip ids rs))"

text \<open>The location and the answer of a successful write, after registration.\<close>

definition register_write ::
  "'s MetadataView \<Rightarrow> ObjectMetadata \<Rightarrow> string list \<Rightarrow> 's Coordinator \<Rightarrow> ObjectMetadata StatusOr \<times> 's Coordinator" where
  "register_write v meta replicas c =
    (let loc = \<lparr>ol_key = md_key meta, ol_version = md_version meta, ol_checksum = md_checksum meta, ol_size = md_size meta,
                ol_deleted = False, ol_replicas = replicas\<rparr>;
         (reg, m) = mv_RegisterObject v loc (co_metadata c);
         c = c\<lparr>co_metadata := m\<rparr>
     in if \<not> ok reg then (Inl reg, c) else (Inr meta, c))"

definition Coordinator_Put ::
  "'s MetadataView \<Rightarrow> (nat \<Rightarrow> node_env) \<Rightarrow> string \<Rightarrow> string \<Rightarrow> 's Coordinator \<Rightarrow> nodes \<Rightarrow> ObjectMetadata StatusOr \<times> 's Coordinator \<times> nodes" where
  "Coordinator_Put v envs key data c ns =
    (let replicas = mv_PlacementFor v key (replication_factor (co_opts c)) (co_metadata c)
     in if length replicas < write_quorum (co_opts c)
        then (Inl (Unavailable ''cluster too small to satisfy write quorum''), c, ns)
        else
          let (current, m) = mv_LookupObject v key (co_metadata c);
              c = c\<lparr>co_metadata := m\<rparr>;
              version = (case current of Inl _ \<Rightarrow> 1 | Inr loc \<Rightarrow> u64_add (ol_version loc) 1);
              (oks, ns) = fan_out (\<lambda>i addr s. let (r, s) = Client_Put (envs i) addr key data version s in (sor_ok r, s)) False
                            (\<lambda>i. ClientFor i c) 0 replicas ns;
              c = mark_all (\<lambda>k. if k then kReplicaHealthy else kReplicaLagging) replicas oks c;
              acks = acked (\<lambda>k. k) replicas oks
          in if length acks < write_quorum (co_opts c)
             then (Inl (Unavailable (''write quorum not met: '' @ to_string (length acks) @ ''/'' @
                     to_string (write_quorum (co_opts c)) @ '' acks'')), c, ns)
             else
               let meta = ObjectMetadata_default\<lparr>md_key := key, md_size := length data, md_checksum := Sha256Hex data,
                            md_version := version, md_deleted := False\<rparr>;
                   (r, c) = register_write v meta acks c
               in (r, c, ns))"

definition sor_code :: "'a StatusOr \<Rightarrow> StatusCode" where
  "sor_code r = code (sor_status r)"

definition Coordinator_PutConditional ::
  "'s MetadataView \<Rightarrow> (nat \<Rightarrow> node_env) \<Rightarrow> string \<Rightarrow> string \<Rightarrow> nat \<Rightarrow> string \<Rightarrow> 's Coordinator \<Rightarrow> nodes
    \<Rightarrow> ObjectMetadata StatusOr \<times> 's Coordinator \<times> nodes" where
  "Coordinator_PutConditional v envs key data expected_version request_id c ns =
    (let replicas = mv_PlacementFor v key (replication_factor (co_opts c)) (co_metadata c)
     in if length replicas < write_quorum (co_opts c)
        then (Inl (Unavailable ''cluster too small to satisfy write quorum''), c, ns)
        else
          let version = u64_add expected_version 1;
              (codes, ns) = fan_out (\<lambda>i addr s. let (r, s) = Client_PutConditional (envs i) addr key data expected_version request_id s
                                                in (sor_code r, s)) kUnavailable (\<lambda>i. ClientFor i c) 0 replicas ns;
              saw_conflict = (kConflict \<in> set codes);
              c = mark_all (\<lambda>k. if k = kOk then kReplicaHealthy else if k = kConflict then kReplicaHealthy else kReplicaLagging) replicas codes c;
              acks = acked (\<lambda>k. k = kOk) replicas codes
          in if length acks \<ge> write_quorum (co_opts c) then
               let meta = ObjectMetadata_default\<lparr>md_key := key, md_size := length data, md_checksum := Sha256Hex data,
                            md_version := version, md_request_id := request_id\<rparr>;
                   (r, c) = register_write v meta acks c
               in (r, c, ns)
             else if saw_conflict
             then (Inl (Conflict (''conditional write rejected: expected version '' @ to_string expected_version)), c, ns)
             else (Inl (Unavailable ''write quorum not met for conditional put''), c, ns))"

section \<open>Reads\<close>

fun get_loop ::
  "(nat \<Rightarrow> node_env) \<Rightarrow> string \<Rightarrow> nodes \<Rightarrow> nat \<Rightarrow> string list \<Rightarrow> Status \<Rightarrow> 's Coordinator \<Rightarrow> string StatusOr \<times> 's Coordinator" where
  "get_loop envs key ns i [] last_status c = (Inl last_status, c)"
| "get_loop envs key ns i (node_id # ids) last_status c =
    (case ClientFor node_id c of
       None \<Rightarrow> get_loop envs key ns (Suc i) ids last_status c
     | Some addr \<Rightarrow>
         (case Client_Get (envs i) addr key (ns addr) of
            Inr data \<Rightarrow> (Inr data, MarkHealth node_id kReplicaHealthy c)
          | Inl st \<Rightarrow>
              get_loop envs key ns (Suc i) ids st
                (if code st = kUnavailable then MarkHealth node_id kReplicaFailed c
                 else if code st = kChecksumMismatch then MarkHealth node_id kReplicaLagging c
                 else c)))"

definition Coordinator_Get ::
  "'s MetadataView \<Rightarrow> (nat \<Rightarrow> node_env) \<Rightarrow> string \<Rightarrow> 's Coordinator \<Rightarrow> nodes \<Rightarrow> string StatusOr \<times> 's Coordinator" where
  "Coordinator_Get v envs key c ns =
    (let (loc, m) = mv_LookupObject v key (co_metadata c); c = c\<lparr>co_metadata := m\<rparr>
     in case loc of
          Inl st \<Rightarrow> (Inl st, c)
        | Inr loc \<Rightarrow>
            if ol_replicas loc = [] then (Inl (Unavailable ''no replicas recorded for key''), c)
            else get_loop envs key ns 0 (ol_replicas loc) (NotFound (''object not found on any replica: '' @ key)) c)"

definition Coordinator_Head :: "'s MetadataView \<Rightarrow> string \<Rightarrow> 's Coordinator \<Rightarrow> ObjectMetadata StatusOr \<times> 's Coordinator" where
  "Coordinator_Head v key c =
    (let (loc, m) = mv_LookupObject v key (co_metadata c); c = c\<lparr>co_metadata := m\<rparr>
     in (map_sum id (\<lambda>loc. ObjectMetadata_default\<lparr>md_key := ol_key loc, md_size := ol_size loc, md_checksum := ol_checksum loc,
           md_version := ol_version loc, md_deleted := ol_deleted loc\<rparr>) loc, c))"

definition Coordinator_List :: "'s MetadataView \<Rightarrow> string \<Rightarrow> 's Coordinator \<Rightarrow> ObjectMetadata list StatusOr" where
  "Coordinator_List v prefix c =
    map_sum id (map (\<lambda>loc. ObjectMetadata_default\<lparr>md_key := ol_key loc, md_size := ol_size loc, md_checksum := ol_checksum loc,
      md_version := ol_version loc\<rparr>)) (mv_ListObjects v prefix (co_metadata c))"

definition ReplicaHealthSnapshot :: "'s Coordinator \<Rightarrow> (string, ReplicaHealth) omap" where
  "ReplicaHealthSnapshot c = co_health c"

section \<open>Deletes\<close>

fun delete_loop ::
  "(nat \<Rightarrow> node_env) \<Rightarrow> string \<Rightarrow> nat \<Rightarrow> string list \<Rightarrow> nat \<Rightarrow> 's Coordinator \<Rightarrow> nodes \<Rightarrow> nat \<times> 's Coordinator \<times> nodes" where
  "delete_loop envs key i [] acks c ns = (acks, c, ns)"
| "delete_loop envs key i (node_id # ids) acks c ns =
    (case ClientFor node_id c of
       None \<Rightarrow> delete_loop envs key (Suc i) ids acks c ns
     | Some addr \<Rightarrow>
         let (st, s) = Client_Delete (envs i) addr key (ns addr); ns = ns(addr := s)
         in if ok st \<or> code st = kNotFound
            then delete_loop envs key (Suc i) ids (Suc acks) (MarkHealth node_id kReplicaHealthy c) ns
            else delete_loop envs key (Suc i) ids acks (MarkHealth node_id kReplicaFailed c) ns)"

definition Coordinator_Delete ::
  "'s MetadataView \<Rightarrow> (nat \<Rightarrow> node_env) \<Rightarrow> string \<Rightarrow> 's Coordinator \<Rightarrow> nodes \<Rightarrow> Status \<times> 's Coordinator \<times> nodes" where
  "Coordinator_Delete v envs key c ns =
    (let replicas = mv_PlacementFor v key (replication_factor (co_opts c)) (co_metadata c);
         (acks, c, ns) = delete_loop envs key 0 replicas 0 c ns
     in if acks < write_quorum (co_opts c) then (Unavailable ''delete quorum not met'', c, ns)
        else let (st, m) = mv_RemoveObject v key (co_metadata c) in (st, c\<lparr>co_metadata := m\<rparr>, ns))"

end
