(* ===== verification/Coordinator_Safety.thy ===== *)
theory Coordinator_Safety
  imports Coordinator
begin

text \<open>
  What the coordinator guarantees, whatever calls are lost, time out or fail on the nodes. The lemmas are
  proved once, against the contract \<open>replicated_view\<close> of the metadata service, and hold for the repository
  and for the cached repository.
\<close>

section \<open>Fan-out\<close>

definition own_addresses :: "'s Coordinator \<Rightarrow> bool" where
  "own_addresses c \<longleftrightarrow> (\<forall>x y a. ClientFor x c = Some a \<and> ClientFor y c = Some a \<longrightarrow> x = y)"

definition nodes_ok :: "nodes \<Rightarrow> bool" where
  "nodes_ok ns \<longleftrightarrow> (\<forall>a. om_ok (ls_meta (ns a)))"

lemma fan_out_frame:
  "fan_out call absent client i ids ns = (rs, ns') \<Longrightarrow> length rs = length ids \<and>
    (\<forall>a. (\<forall>x \<in> set ids. client x \<noteq> Some a) \<longrightarrow> ns' a = ns a)"
proof (induction ids arbitrary: i ns rs)
  case (Cons x ids)
  obtain r ns1 rs1 where "fan_out call absent client (Suc i) ids ns1 = (rs1, ns')" "rs = r # rs1"
      "\<forall>a. client x \<noteq> Some a \<longrightarrow> ns1 a = ns a"
    using Cons.prems by (auto split: prod.splits option.splits)
  then show ?case using Cons.IH [of "Suc i" ns1 rs1] by simp
qed simp

lemma fan_out_nth:
  assumes "fan_out call absent client i ids ns = (rs, ns')" and "distinct ids" and "j < length ids"
    and "\<And>x y a. client x = Some a \<Longrightarrow> client y = Some a \<Longrightarrow> x = y"
  shows "case client (ids ! j) of None \<Rightarrow> rs ! j = absent | Some a \<Rightarrow> call (i + j) a (ns a) = (rs ! j, ns' a)"
  using assms(1-3)
proof (induction ids arbitrary: i ns rs j)
  case (Cons x ids)
  obtain r ns1 rs1 where step: "fan_out call absent client (Suc i) ids ns1 = (rs1, ns')" "rs = r # rs1"
      and first: "case client x of None \<Rightarrow> r = absent \<and> ns1 = ns | Some a \<Rightarrow> (\<exists>s. call i a (ns a) = (r, s) \<and> ns1 = ns(a := s))"
    using Cons.prems(1) by (auto split: prod.splits option.splits)
  show ?case
  proof (cases j)
    case 0
    have "client y \<noteq> Some a" if "client x = Some a" "y \<in> set ids" for y a
      using assms(4) [of x a y] that Cons.prems(2) by auto
    then show ?thesis
      using fan_out_frame [OF step(1)] first step(2) 0 by (auto split: option.splits)
  next
    case (Suc j')
    have same: "ns1 a = ns a" if "client (ids ! j') = Some a" for a
      using first assms(4) [of x a "ids ! j'"] that Cons.prems(2,3) Suc by (auto split: option.splits)
    from Cons.IH [OF step(1), of j'] Cons.prems(2,3) same Suc step(2) show ?thesis
      by (auto split: option.splits)
  qed
qed simp

lemma fan_out_inv:
  assumes "fan_out call absent client i ids ns = (rs, ns')" and "\<And>a. P a (ns a)"
    and "\<And>i a s. P a s \<Longrightarrow> P a (snd (call i a s))"
  shows "P a (ns' a)"
  using assms(1,2)
proof (induction ids arbitrary: i ns rs)
  case (Cons x ids)
  show ?case
  proof (cases "client x")
    case None
    then show ?thesis using Cons by (auto split: prod.splits)
  next
    case (Some b)
    obtain rs1 where "fan_out call absent client (Suc i) ids (ns(b := snd (call i b (ns b)))) = (rs1, ns')"
      using Cons.prems(1) Some by (auto split: prod.splits)
    moreover have "P c ((ns(b := snd (call i b (ns b)))) c)" for c using Cons.prems(2) assms(3) by simp
    ultimately show ?thesis by (rule Cons.IH)
  qed
qed simp

lemma mark_all_simps [simp]:
  "co_metadata (mark_all h ids rs c) = co_metadata c" "co_clients (mark_all h ids rs c) = co_clients c"
  "co_opts (mark_all h ids rs c) = co_opts c" "ClientFor x (mark_all h ids rs c) = ClientFor x c"
proof -
  have "co_metadata (foldl (\<lambda>c (x, r). MarkHealth x (h r) c) c zs) = co_metadata c \<and>
      co_clients (foldl (\<lambda>c (x, r). MarkHealth x (h r) c) c zs) = co_clients c \<and>
      co_opts (foldl (\<lambda>c (x, r). MarkHealth x (h r) c) c zs) = co_opts c" for zs
    by (induction zs arbitrary: c) (auto simp: MarkHealth_def)
  then show "co_metadata (mark_all h ids rs c) = co_metadata c" "co_clients (mark_all h ids rs c) = co_clients c"
      "co_opts (mark_all h ids rs c) = co_opts c" "ClientFor x (mark_all h ids rs c) = ClientFor x c"
    by (simp_all add: mark_all_def ClientFor_def)
qed

lemma MarkHealth_simps [simp]:
  "co_metadata (MarkHealth y h c) = co_metadata c" "co_opts (MarkHealth y h c) = co_opts c" "co_clients (MarkHealth y h c) = co_clients c"
  by (simp_all add: MarkHealth_def)

lemma ClientFor_simps [simp]:
  "ClientFor x (MarkHealth y h c) = ClientFor x c" "ClientFor x (c\<lparr>co_metadata := m\<rparr>) = ClientFor x c"
  "ClientFor x (c\<lparr>co_opts := opts\<rparr>) = ClientFor x c"
  by (simp_all add: ClientFor_def MarkHealth_def)

lemma acked_Cons: "acked good (x # ids) (r # rs) = (if good r then x # acked good ids rs else acked good ids rs)"
  by (simp add: acked_def)

lemma acked_set:
  assumes "length rs = length ids"
  shows "x \<in> set (acked good ids rs) \<longleftrightarrow> (\<exists>j < length ids. ids ! j = x \<and> good (rs ! j))"
  using assms
proof (induction rs ids rule: list_induct2)
  case (Cons r rs y ids)
  have "(\<exists>j < length (y # ids). (y # ids) ! j = x \<and> good ((r # rs) ! j)) \<longleftrightarrow>
      y = x \<and> good r \<or> (\<exists>j < length ids. ids ! j = x \<and> good (rs ! j))"
    by (simp add: Ex_less_Suc2)
  then show ?case using Cons.IH by (auto simp: acked_Cons)
qed (simp add: acked_def)

lemma acked_distinct: "distinct ids \<Longrightarrow> distinct (acked good ids rs)"
proof (induction ids arbitrary: rs)
  case (Cons x ids)
  then show ?case
    by (cases rs) (auto simp: acked_def dest: set_zip_leftD)
qed (simp add: acked_def)

lemma acked_card:
  assumes "length rs = length ids" and "G \<subseteq> {..<length ids}" and "\<And>j. j \<in> G \<Longrightarrow> good (rs ! j)"
  shows "card G \<le> length (acked good ids rs)"
proof -
  have "length (acked good ids rs) = card {j. j < length ids \<and> good (rs ! j)}"
    using assms(1) by (simp add: acked_def length_filter_conv_card cong: conj_cong)
  then show ?thesis using assms(2,3) by (auto intro!: card_mono)
qed

section \<open>Reads from holders\<close>

lemma get_loop_stored:
  assumes "\<forall>x \<in> set ids. \<exists>a w. ClientFor x c = Some a \<and> stored key data w (ns a)"
    and "get_loop envs key ns i ids st c = (r, c')"
  shows "(\<forall>d. r = Inr d \<longrightarrow> d = data) \<and> ((\<exists>j t. j < length ids \<and> envs (i + j) = node_good t) \<longrightarrow> r = Inr data)"
  using assms
proof (induction ids arbitrary: i st c)
  case (Cons x ids)
  obtain a w where a: "ClientFor x c = Some a" "stored key data w (ns a)" using Cons.prems(1) by auto
  show ?case
  proof (cases "Client_Get (envs i) a key (ns a)")
    case (Inr d)
    then show ?thesis using Cons.prems(2) a Client_Get_stored(2) [OF a(2) Inr] by auto
  next
    case (Inl e)
    have ng: "envs i \<noteq> node_good t" for t using Inl Client_Get_stored(1) [OF a(2), of t a] by auto
    obtain c1 where c1: "get_loop envs key ns (Suc i) ids e c1 = (r, c')" "\<And>y. ClientFor y c1 = ClientFor y c"
      using Cons.prems(2) a(1) Inl by (auto split: if_splits)
    have "(\<forall>d. r = Inr d \<longrightarrow> d = data) \<and> ((\<exists>j t. j < length ids \<and> envs (Suc i + j) = node_good t) \<longrightarrow> r = Inr data)"
      by (rule Cons.IH [OF _ c1(1)]) (use Cons.prems(1) c1(2) in auto)
    moreover have "\<exists>j' < length ids. envs (Suc i + j') = node_good t" if "j < length (x # ids)" "envs (i + j) = node_good t" for j t
      using that ng by (cases j) auto
    ultimately show ?thesis by blast
  qed
qed auto

section \<open>Deletes on the nodes\<close>

lemma delete_loop_step:
  assumes "delete_loop envs key i (x # ids) acks c ns = z"
  obtains acks1 c1 ns1 where "delete_loop envs key (Suc i) ids acks1 c1 ns1 = z" "co_metadata c1 = co_metadata c" "co_opts c1 = co_opts c"
    "co_clients c1 = co_clients c" "\<And>a. ns1 a = ns a \<or> (\<exists>addr. ns1 a = snd (Client_Delete (envs i) addr key (ns a)))"
proof (cases "ClientFor x c")
  case None
  then show ?thesis using assms that [of acks c ns] by simp
next
  case (Some b)
  obtain st s where st: "Client_Delete (envs i) b key (ns b) = (st, s)" by fastforce
  have n: "(ns(b := s)) a = ns a \<or> (\<exists>addr. (ns(b := s)) a = snd (Client_Delete (envs i) addr key (ns a)))" for a
    using st by (cases "a = b") (auto intro!: exI [of _ b])
  show ?thesis
  proof (cases "ok st \<or> code st = kNotFound")
    case True
    show ?thesis by (rule that [of "Suc acks" "MarkHealth x kReplicaHealthy c" "ns(b := s)"]) (use assms Some st True n in simp_all)
  next
    case False
    show ?thesis by (rule that [of acks "MarkHealth x kReplicaFailed c" "ns(b := s)"]) (use assms Some st False n in simp_all)
  qed
qed

lemma delete_loop_frame:
  "delete_loop envs key i ids acks c ns = (acks', c', ns') \<Longrightarrow> co_metadata c' = co_metadata c \<and> co_opts c' = co_opts c \<and>
    co_clients c' = co_clients c"
proof (induction ids arbitrary: i acks c ns)
  case (Cons x ids)
  from Cons.prems obtain acks1 c1 ns1 where "delete_loop envs key (Suc i) ids acks1 c1 ns1 = (acks', c', ns')"
    "co_metadata c1 = co_metadata c" "co_opts c1 = co_opts c" "co_clients c1 = co_clients c" by (rule delete_loop_step)
  then show ?case using Cons.IH [of "Suc i" acks1 c1 ns1] by simp
qed simp

lemma delete_loop_touches:
  assumes "delete_loop envs key i ids acks c ns = (acks', c', ns')" and "nodes_ok ns" and "stored k data w (ns a)"
    and "KeyDigest k \<noteq> KeyDigest key"
  shows "nodes_ok ns' \<and> stored k data w (ns' a)"
  using assms(1-3)
proof (induction ids arbitrary: i acks c ns)
  case (Cons x ids)
  from Cons.prems(1) obtain acks1 c1 ns1 where step: "delete_loop envs key (Suc i) ids acks1 c1 ns1 = (acks', c', ns')"
    "\<And>a. ns1 a = ns a \<or> (\<exists>addr. ns1 a = snd (Client_Delete (envs i) addr key (ns a)))" by (rule delete_loop_step) (metis)
  have T: "touches key (ns a) (ns1 a)" for a
    using step(2) [of a]
  proof (elim disjE exE)
    show "touches key (ns a) (ns1 a)" if "ns1 a = ns a" using that touches_refl Cons.prems(2) by (simp add: nodes_ok_def)
    show "touches key (ns a) (ns1 a)" if "ns1 a = snd (Client_Delete (envs i) addr key (ns a))" for addr
      by (rule Client_Delete_touches [of "envs i" addr]) (use that Cons.prems(2) in \<open>simp_all add: nodes_ok_def prod_eq_iff\<close>)
  qed
  have "nodes_ok ns1" using T by (simp add: nodes_ok_def touches_def)
  moreover have "stored k data w (ns1 a)" by (rule stored_frame [OF Cons.prems(3) T assms(4)])
  ultimately show ?case by (rule Cons.IH [OF step(1)])
qed simp

section \<open>The contract of the metadata service\<close>

text \<open>A quorum of good answers makes a write succeed, whatever the lookup returned.\<close>

lemma Put_quorum:
  assumes "mv_LookupObject v key (co_metadata c) = (current, s')"
    and "ver = (case current of Inl _ \<Rightarrow> 1 | Inr loc \<Rightarrow> u64_add (ol_version loc) 1)" and "ver \<noteq> 0" and "key \<noteq> ''''" and "own_addresses c"
    and "R = mv_PlacementFor v key (replication_factor (co_opts c)) (co_metadata c)" and "distinct R"
    and "G \<subseteq> {..<length R}" and "write_quorum (co_opts c) \<le> card G"
    and "\<forall>j \<in> G. \<exists>a t. ClientFor (R ! j) c = Some a \<and> envs j = node_good t \<and> wal_fd_open (ls_wal (ns a))"
    and "\<And>loc. \<not> ol_deleted loc \<Longrightarrow> ok (fst (mv_RegisterObject v loc s'))"
  shows "\<exists>meta c' ns'. Coordinator_Put v envs key data c ns = (Inr meta, c', ns')"
proof -
  let ?call = "\<lambda>i addr s. let (r, s) = Client_Put (envs i) addr key data ver s in (sor_ok r, s)"
  obtain oks ns1 where fo: "fan_out ?call False (\<lambda>i. ClientFor i c) 0 R ns = (oks, ns1)" by fastforce
  have good: "oks ! j" if j: "j \<in> G" for j
  proof -
    obtain a t where a: "ClientFor (R ! j) c = Some a" "envs j = node_good t" "wal_fd_open (ls_wal (ns a))" using assms(10) j by blast
    have "j < length R" using j assms(8) by auto
    then have "?call j a (ns a) = (oks ! j, ns1 a)"
      using fan_out_nth [OF fo, of j] assms(7) a(1) assms(5) by (auto simp: own_addresses_def)
    then show ?thesis using Client_Put_good [OF a(3) assms(4,3), of t a data] a(2) by (simp add: case_prod_unfold)
  qed
  have q: "write_quorum (co_opts c) \<le> length (acked (\<lambda>k. k) R oks)"
    using acked_card [of oks R G "\<lambda>k. k"] fan_out_frame [OF fo] assms(8,9) good by fastforce
  moreover have "length (acked (\<lambda>k. k) R oks) \<le> length R"
    by (simp add: acked_def) (metis length_filter_le length_zip min.bounded_iff)
  moreover let ?meta = "ObjectMetadata_default\<lparr>md_key := key, md_size := length data, md_checksum := Sha256Hex data, md_version := ver, md_deleted := False\<rparr>"
  obtain r2 c2 where reg: "register_write v ?meta (acked (\<lambda>k. k) R oks)
      (mark_all (\<lambda>k. if k then kReplicaHealthy else kReplicaLagging) R oks (c\<lparr>co_metadata := s'\<rparr>)) = (r2, c2)" by fastforce
  moreover have "\<exists>meta. r2 = Inr meta"
    using reg assms(11) [of "\<lparr>ol_key = md_key ?meta, ol_version = md_version ?meta, ol_checksum = md_checksum ?meta, ol_size = md_size ?meta,
      ol_deleted = False, ol_replicas = acked (\<lambda>k. k) R oks\<rparr>"]
    by (auto simp: register_write_def Let_def split: prod.splits if_splits)
  ultimately show ?thesis
    using assms(1) fo unfolding Coordinator_Put_def Let_def assms(6) [symmetric] by (auto simp: assms(2))
qed

lemma Put_registers:
  assumes "Coordinator_Put v envs key data c ns = (Inr meta, c', ns')" and "mv_LookupObject v key (co_metadata c) = (current, s')"
  shows "md_version meta = (case current of Inl _ \<Rightarrow> 1 | Inr loc \<Rightarrow> u64_add (ol_version loc) 1)"
    and "\<exists>ids. co_metadata c' = snd (mv_RegisterObject v \<lparr>ol_key = key, ol_version = md_version meta, ol_checksum = Sha256Hex data,
      ol_size = length data, ol_deleted = False, ol_replicas = ids\<rparr> s')"
  using assms by (auto simp: Coordinator_Put_def register_write_def Let_def ObjectMetadata_default_def split: prod.splits if_splits) (metis snd_conv)

locale replicated_view = metadata_view inv view "mv_RegisterObject v" "mv_LookupObject v" "mv_RemoveObject v"
  for inv :: "'s \<Rightarrow> bool" and view :: "'s \<Rightarrow> string \<rightharpoonup> ObjectLocation" and v :: "'s MetadataView" +
  assumes placement_distinct: "inv s \<Longrightarrow> distinct (mv_PlacementFor v key rf s)"
    and placement_register: "inv s \<Longrightarrow> \<not> ol_deleted loc \<Longrightarrow>
      mv_PlacementFor v key rf (snd (mv_RegisterObject v loc s)) = mv_PlacementFor v key rf s"
    and view_live: "inv s \<Longrightarrow> view s key = Some loc \<Longrightarrow> \<not> ol_deleted loc"
    and list_view: "inv s \<Longrightarrow> \<exists>locs. mv_ListObjects v prefix s = Inr locs \<and> distinct (map ol_key locs) \<and>
      (\<forall>loc. loc \<in> set locs \<longleftrightarrow> view s (ol_key loc) = Some loc \<and> take (length prefix) (ol_key loc) = prefix)"
begin

lemma look:
  assumes "inv s"
  obtains s' where "mv_LookupObject v key s = (case view s key of None \<Rightarrow> Inl (no_metadata key) | Some loc \<Rightarrow> Inr loc, s')"
    "inv s'" "view s' = view s"
proof -
  obtain r s' where "mv_LookupObject v key s = (r, s')" by fastforce
  with look_view [OF assms this] show ?thesis using that by simp
qed

lemma registered:
  assumes "inv (co_metadata c)" and "register_write v meta ids c = (r, c')"
  shows "r = Inr meta \<and> inv (co_metadata c') \<and> ClientFor x c' = ClientFor x c \<and> co_opts c' = co_opts c \<and>
    view (co_metadata c') = (view (co_metadata c))(md_key meta \<mapsto> \<lparr>ol_key = md_key meta, ol_version = md_version meta,
      ol_checksum = md_checksum meta, ol_size = md_size meta, ol_deleted = False, ol_replicas = ids\<rparr>)"
proof -
  let ?loc = "\<lparr>ol_key = md_key meta, ol_version = md_version meta, ol_checksum = md_checksum meta, ol_size = md_size meta,
    ol_deleted = False, ol_replicas = ids\<rparr>"
  obtain st m where m: "mv_RegisterObject v ?loc (co_metadata c) = (st, m)" by fastforce
  have "ok st \<and> inv m \<and> view m = (view (co_metadata c))(ol_key ?loc \<mapsto> ?loc)"
    by (rule register_ok [OF assms(1) _ m]) simp
  then show ?thesis using assms(2) m by (auto simp: register_write_def Let_def)
qed

definition next_version :: "string \<Rightarrow> 's \<Rightarrow> nat" where
  "next_version key s = (case view s key of None \<Rightarrow> 1 | Some loc \<Rightarrow> u64_add (ol_version loc) 1)"

text \<open>A successful \<open>Put\<close>, taken apart.\<close>

lemma Put_success:
  assumes "inv (co_metadata c)" and "own_addresses c" and "nodes_ok ns" and "next_version key (co_metadata c) \<noteq> 0"
    and "Coordinator_Put v envs key data c ns = (Inr meta, c', ns')"
  obtains loc where "inv (co_metadata c')" "view (co_metadata c') = (view (co_metadata c))(key \<mapsto> loc)"
    "md_version meta = next_version key (co_metadata c)" "ol_version loc = md_version meta" "ol_checksum loc = Sha256Hex data"
    "ol_size loc = length data" "write_quorum (co_opts c) \<le> length (ol_replicas loc)" "distinct (ol_replicas loc)"
    "\<And>x. x \<in> set (ol_replicas loc) \<Longrightarrow> \<exists>a. ClientFor x c' = Some a \<and> stored key data (md_version meta) (ns' a)"
    "\<And>x. ClientFor x c' = ClientFor x c"
proof -
  let ?R = "mv_PlacementFor v key (replication_factor (co_opts c)) (co_metadata c)" and ?ver = "next_version key (co_metadata c)"
  obtain s' where s': "mv_LookupObject v key (co_metadata c) =
      (case view (co_metadata c) key of None \<Rightarrow> Inl (no_metadata key) | Some loc \<Rightarrow> Inr loc, s')"
      "inv s'" "view s' = view (co_metadata c)" using look [OF assms(1)] .
  have ver: "(case case view (co_metadata c) key of None \<Rightarrow> Inl (no_metadata key) | Some loc \<Rightarrow> Inr loc of
      Inl _ \<Rightarrow> 1 | Inr loc \<Rightarrow> u64_add (ol_version loc) 1) = ?ver" by (simp add: next_version_def split: option.split)
  let ?call = "\<lambda>i addr s. let (r, s) = Client_Put (envs i) addr key data ?ver s in (sor_ok r, s)"
  obtain oks ns1 where fo: "fan_out ?call False (\<lambda>i. ClientFor i c) 0 ?R ns = (oks, ns1)" by fastforce
  let ?acks = "acked (\<lambda>k. k) ?R oks"
  let ?c1 = "mark_all (\<lambda>k. if k then kReplicaHealthy else kReplicaLagging) ?R oks (c\<lparr>co_metadata := s'\<rparr>)"
  let ?meta = "ObjectMetadata_default\<lparr>md_key := key, md_size := length data, md_checksum := Sha256Hex data, md_version := ?ver, md_deleted := False\<rparr>"
  obtain r2 c2 where reg: "register_write v ?meta ?acks ?c1 = (r2, c2)" by fastforce
  have run: "write_quorum (co_opts c) \<le> length ?acks" "c' = c2" "ns' = ns1" "r2 = Inr meta"
    using assms(5) s'(1) fo reg by (auto simp: Coordinator_Put_def Let_def ver split: if_splits)
  have R: "meta = ?meta" "inv (co_metadata c2)" "\<And>x. ClientFor x c2 = ClientFor x c"
      "view (co_metadata c2) = (view (co_metadata c))(key \<mapsto> \<lparr>ol_key = key, ol_version = ?ver, ol_checksum = Sha256Hex data,
        ol_size = length data, ol_deleted = False, ol_replicas = ?acks\<rparr>)"
    using registered [OF _ reg] s'(2,3) run(4) by auto
  have held: "\<exists>a. ClientFor x c2 = Some a \<and> stored key data ?ver (ns1 a)" if x: "x \<in> set ?acks" for x
  proof -
    from x obtain j where j: "j < length ?R" "?R ! j = x" "oks ! j"
      using acked_set [of oks ?R x "\<lambda>k. k"] fan_out_frame [OF fo] by auto
    have "case ClientFor x c of None \<Rightarrow> oks ! j = False | Some a \<Rightarrow> ?call (0 + j) a (ns a) = (oks ! j, ns1 a)"
      using fan_out_nth [OF fo placement_distinct [OF assms(1)] j(1)] assms(2) j(2) by (auto simp: own_addresses_def)
    then obtain a where a: "ClientFor x c = Some a" "?call j a (ns a) = (oks ! j, ns1 a)" using j(3) by (auto split: option.splits)
    obtain r s where rs: "Client_Put (envs j) a key data ?ver (ns a) = (r, s)" by fastforce
    have "om_ok (ls_meta (ns a))" using assms(3) by (simp add: nodes_ok_def)
    from Client_Put_touches [OF rs this assms(4)] a rs j(3) R(3) show ?thesis by simp
  qed
  show ?thesis
    by (rule that [OF _ R(4) [folded run(2)]])
       (use run R held acked_distinct [OF placement_distinct [OF assms(1)]] in \<open>simp_all add: ObjectMetadata_default_def\<close>)
qed

text \<open>Enough normal answers make a \<open>Put\<close> succeed.\<close>

lemma Put_available:
  assumes "inv (co_metadata c)" and "own_addresses c" and "next_version key (co_metadata c) \<noteq> 0" and "key \<noteq> ''''"
    and "R = mv_PlacementFor v key (replication_factor (co_opts c)) (co_metadata c)"
    and "G \<subseteq> {..<length R}" and "write_quorum (co_opts c) \<le> card G"
    and "\<forall>j \<in> G. \<exists>a t. ClientFor (R ! j) c = Some a \<and> envs j = node_good t \<and> wal_fd_open (ls_wal (ns a))"
  shows "\<exists>meta c' ns'. Coordinator_Put v envs key data c ns = (Inr meta, c', ns')"
proof -
  obtain s' where s': "mv_LookupObject v key (co_metadata c) =
      (case view (co_metadata c) key of None \<Rightarrow> Inl (no_metadata key) | Some loc \<Rightarrow> Inr loc, s')"
      "inv s'" "view s' = view (co_metadata c)" using look [OF assms(1)] .
  have ver: "next_version key (co_metadata c) = (case case view (co_metadata c) key of None \<Rightarrow> Inl (no_metadata key) | Some loc \<Rightarrow> Inr loc of
      Inl _ \<Rightarrow> 1 | Inr loc \<Rightarrow> u64_add (ol_version loc) 1)" by (simp add: next_version_def split: option.split)
  have reg: "ok (fst (mv_RegisterObject v loc s'))" if "\<not> ol_deleted loc" for loc
    using register_ok [OF s'(2) that, of "fst (mv_RegisterObject v loc s')" "snd (mv_RegisterObject v loc s')"] by simp
  have "distinct R" using placement_distinct [OF assms(1)] assms(5) by simp
  then show ?thesis by (rule Put_quorum [OF s'(1) ver assms(3,4,2,5) _ assms(6-8) reg])
qed

text \<open>Reading through a registered location whose replicas all hold the data.\<close>

lemma Get_held:
  assumes "inv (co_metadata c)" and "view (co_metadata c) key = Some loc" and "ol_replicas loc \<noteq> []"
    and "\<forall>x \<in> set (ol_replicas loc). \<exists>a w. ClientFor x c = Some a \<and> stored key data w (ns a)"
    and "Coordinator_Get v envs key c ns = (r, c')"
  shows "(\<forall>d. r = Inr d \<longrightarrow> d = data) \<and> ((\<exists>j t. j < length (ol_replicas loc) \<and> envs j = node_good t) \<longrightarrow> r = Inr data)"
proof -
  obtain s' where "mv_LookupObject v key (co_metadata c) =
      (case view (co_metadata c) key of None \<Rightarrow> Inl (no_metadata key) | Some loc \<Rightarrow> Inr loc, s')" using look [OF assms(1)] .
  then have s': "mv_LookupObject v key (co_metadata c) = (Inr loc, s')" using assms(2) by simp
  have run: "get_loop envs key ns 0 (ol_replicas loc) (NotFound (''object not found on any replica: '' @ key)) (c\<lparr>co_metadata := s'\<rparr>) = (r, c')"
    using assms(3,5) s' by (simp add: Coordinator_Get_def)
  have "\<forall>x \<in> set (ol_replicas loc). \<exists>a w. ClientFor x (c\<lparr>co_metadata := s'\<rparr>) = Some a \<and> stored key data w (ns a)"
    using assms(4) by (simp only: ClientFor_simps)
  from get_loop_stored [OF this run] show ?thesis by (simp only: add_0)
qed

text \<open>A successful \<open>Delete\<close> unregisters the key.\<close>

lemma Delete_removes:
  assumes "inv (co_metadata c)" and "Coordinator_Delete v envs key c ns = (st, c', ns')" and "ok st"
  shows "inv (co_metadata c') \<and> view (co_metadata c') = (view (co_metadata c))(key := None) \<and>
    (\<forall>x. ClientFor x c' = ClientFor x c)"
proof -
  let ?R = "mv_PlacementFor v key (replication_factor (co_opts c)) (co_metadata c)"
  obtain acks c1 ns1 where d: "delete_loop envs key 0 ?R 0 c ns = (acks, c1, ns1)" by (metis surj_pair)
  have c1: "co_metadata c1 = co_metadata c" "\<And>x. ClientFor x c1 = ClientFor x c"
    using delete_loop_frame [OF d] by (auto simp: ClientFor_def)
  obtain st2 m where m: "mv_RemoveObject v key (co_metadata c) = (st2, m)" by fastforce
  have "st = st2" "c' = c1\<lparr>co_metadata := m\<rparr>"
    using assms(2,3) d m c1(1) by (auto simp: Coordinator_Delete_def split: if_splits)
  with remove_view [OF assms(1) m] c1(2) show ?thesis by simp
qed

lemma Get_absent:
  assumes "inv (co_metadata c)" and "view (co_metadata c) key = None" and "Coordinator_Get v envs key c ns = (r, c')"
  shows "r = Inl (no_metadata key)"
proof -
  obtain s' where "mv_LookupObject v key (co_metadata c) =
      (case view (co_metadata c) key of None \<Rightarrow> Inl (no_metadata key) | Some loc \<Rightarrow> Inr loc, s')" using look [OF assms(1)] .
  with assms(2,3) show ?thesis by (simp add: Coordinator_Get_def)
qed

end

section \<open>The two metadata services\<close>

definition repo_vtable :: "MetadataRepository MetadataView" where
  "repo_vtable = \<lparr>mv_PlacementFor = Repo_PlacementFor, mv_RegisterObject = RegisterObject, mv_LookupObject = repo_look,
    mv_RemoveObject = RemoveObject, mv_ListObjects = ListObjects\<rparr>"

definition cached_vtable :: "MetadataRepository CachingMetadataView MetadataView" where
  "cached_vtable = \<lparr>mv_PlacementFor = Caching_PlacementFor Repo_PlacementFor, mv_RegisterObject = cv_register,
    mv_LookupObject = cv_look, mv_RemoveObject = cv_remove, mv_ListObjects = Caching_ListObjects ListObjects\<rparr>"

lemma repo_placement_distinct: "repo_ok m \<Longrightarrow> distinct (Repo_PlacementFor key rf m)"
  by (simp add: Repo_PlacementFor_def ClusterMap_PlacementFor_def repo_ok_def cluster_map_ok_def ring_ok_def LookupReplicas_distinct)

lemma repo_placement_register: "Repo_PlacementFor key rf (snd (RegisterObject loc m)) = Repo_PlacementFor key rf m"
  by (simp add: Repo_PlacementFor_def RegisterObject_def)

lemma repo_view_live: "repo_view m key = Some loc \<Longrightarrow> \<not> ol_deleted loc"
  by (auto simp: repo_view_def live_def split: option.splits if_splits)

lemma repo_list_view:
  assumes "repo_ok m"
  shows "\<exists>locs. ListObjects prefix m = Inr locs \<and> distinct (map ol_key locs) \<and>
    (\<forall>loc. loc \<in> set locs \<longleftrightarrow> repo_view m (ol_key loc) = Some loc \<and> take (length prefix) (ol_key loc) = prefix)"
proof -
  let ?m = "mr_objects m" and ?P = "\<lambda>(key, loc). \<not> ol_deleted loc \<and> take (length prefix) key = prefix"
  have ok: "om_ok ?m" using assms by (simp add: repo_ok_def)
  have key: "ol_key loc = k" if "(k, loc) \<in> set ?m" for k loc
    using assms om_find_iff [OF ok, of k loc] that by (simp add: repo_ok_def)
  have "map ol_key (map snd (filter ?P ?m)) = map fst (filter ?P ?m)" using key by auto
  moreover have "distinct (map fst (filter ?P ?m))"
    using om_ok_filter [OF ok, of ?P] by (auto simp: om_ok_def strict_sorted_iff)
  ultimately have "distinct (map ol_key (map snd (filter ?P ?m)))" by metis
  moreover have "loc \<in> snd ` set (filter ?P ?m) \<longleftrightarrow> repo_view m (ol_key loc) = Some loc \<and> take (length prefix) (ol_key loc) = prefix" for loc
  proof -
    have "repo_view m (ol_key loc) = Some loc \<longleftrightarrow> (ol_key loc, loc) \<in> set ?m \<and> \<not> ol_deleted loc"
      by (auto simp: repo_view_def live_def om_find_iff [OF ok, symmetric] split: option.splits)
    moreover have "loc \<in> snd ` set (filter ?P ?m) \<longleftrightarrow> (ol_key loc, loc) \<in> set (filter ?P ?m)"
    proof
      assume "loc \<in> snd ` set (filter ?P ?m)"
      then obtain k where "(k, loc) \<in> set (filter ?P ?m)" by auto
      moreover from this have "ol_key loc = k" using key by simp
      ultimately show "(ol_key loc, loc) \<in> set (filter ?P ?m)" by simp
    qed (rule image_eqI [of _ _ "(ol_key loc, loc)"], simp_all)
    ultimately show ?thesis by auto
  qed
  ultimately show ?thesis unfolding ListObjects_def by (auto simp del: map_map)
qed

lemma vtable_simps [simp]:
  "mv_PlacementFor repo_vtable = Repo_PlacementFor" "mv_RegisterObject repo_vtable = RegisterObject"
  "mv_LookupObject repo_vtable = repo_look" "mv_RemoveObject repo_vtable = RemoveObject" "mv_ListObjects repo_vtable = ListObjects"
  "mv_PlacementFor cached_vtable = Caching_PlacementFor Repo_PlacementFor" "mv_RegisterObject cached_vtable = cv_register"
  "mv_LookupObject cached_vtable = cv_look" "mv_RemoveObject cached_vtable = cv_remove"
  "mv_ListObjects cached_vtable = Caching_ListObjects ListObjects"
  by (simp_all add: repo_vtable_def cached_vtable_def)

interpretation repo_cluster: replicated_view repo_ok repo_view repo_vtable
proof (intro replicated_view.intro replicated_view_axioms.intro)
  show "metadata_view repo_ok repo_view (mv_RegisterObject repo_vtable) (mv_LookupObject repo_vtable) (mv_RemoveObject repo_vtable)"
    unfolding vtable_simps by (rule repo.metadata_view_axioms)
qed (simp_all add: repo_placement_distinct repo_list_view repo_placement_register repo_view_live)

interpretation cached_cluster: replicated_view repo.coherent_view "\<lambda>cv. repo_view (cv_inner cv)" cached_vtable
proof (intro replicated_view.intro replicated_view_axioms.intro)
  show "metadata_view repo.coherent_view (\<lambda>cv. repo_view (cv_inner cv)) (mv_RegisterObject cached_vtable)
      (mv_LookupObject cached_vtable) (mv_RemoveObject cached_vtable)"
    unfolding vtable_simps by (rule cached.metadata_view_axioms)
  show "mv_PlacementFor cached_vtable key rf (snd (mv_RegisterObject cached_vtable loc s)) = mv_PlacementFor cached_vtable key rf s"
    if co: "repo.coherent_view s" and live: "\<not> ol_deleted loc" for s loc key rf
    using repo.cached_register [OF co live] repo_placement_register [of key rf loc "cv_inner s"]
    by (auto simp: cv_register_def Caching_PlacementFor_def)
qed (simp_all add: repo.coherent_view_def Caching_PlacementFor_def Caching_ListObjects_def repo_placement_distinct repo_list_view repo_view_live)

section \<open>Properties\<close>

text \<open>
  C8. Read your writes: if \<open>Put\<close> returns metadata, whatever calls were lost or failed on the way, then its
  version is the successor of the registered one, at least \<open>write_quorum\<close> distinct replicas are
  registered, each of them holds the data on disk, and a following \<open>Get\<close>, whatever fails during it, returns
  these data or an error; it returns the data as soon as one registered replica answers normally.
\<close>

theorem coordinator_put_then_get:
  assumes "repo_ok (co_metadata c)" and "own_addresses c" and "nodes_ok ns" and "0 < write_quorum (co_opts c)"
    and "version = (case repo_view (co_metadata c) key of None \<Rightarrow> 1 | Some loc \<Rightarrow> ol_version loc + 1)" and "version < u64_size"
    and "Coordinator_Put repo_vtable envs key data c ns = (Inr meta, c', ns')"
  shows "\<exists>loc. LookupObject key (co_metadata c') = Inr loc \<and> md_version meta = version \<and> ol_version loc = version \<and>
    ol_checksum loc = Sha256Hex data \<and> distinct (ol_replicas loc) \<and> write_quorum (co_opts c) \<le> length (ol_replicas loc) \<and>
    (\<forall>x \<in> set (ol_replicas loc). \<exists>a. ClientFor x c = Some a \<and> Local_Get get_good key (ns' a) = Inr data) \<and>
    (\<forall>envs' r c''. Coordinator_Get repo_vtable envs' key c' ns' = (r, c'') \<longrightarrow>
      (\<forall>d. r = Inr d \<longrightarrow> d = data) \<and>
      ((\<exists>j t. j < length (ol_replicas loc) \<and> envs' j = node_good t) \<longrightarrow> r = Inr data))"
proof -
  have v: "repo_cluster.next_version key (co_metadata c) = version" "version \<noteq> 0"
    using assms(5,6) by (auto simp: repo_cluster.next_version_def u64_add_exact split: option.splits)
  from repo_cluster.Put_success [OF assms(1-3) _ assms(7)] v
  obtain loc where L: "repo_ok (co_metadata c')" "repo_view (co_metadata c') = (repo_view (co_metadata c))(key \<mapsto> loc)"
    "md_version meta = version" "ol_version loc = version" "ol_checksum loc = Sha256Hex data"
    "write_quorum (co_opts c) \<le> length (ol_replicas loc)" "distinct (ol_replicas loc)"
    and held: "\<forall>x \<in> set (ol_replicas loc). \<exists>a. ClientFor x c' = Some a \<and> stored key data version (ns' a)"
    and cl: "\<And>x. ClientFor x c' = ClientFor x c" by metis
  have ne: "ol_replicas loc \<noteq> []" using L(6) assms(4) by auto
  have "(\<forall>d. r = Inr d \<longrightarrow> d = data) \<and> ((\<exists>j t. j < length (ol_replicas loc) \<and> envs' j = node_good t) \<longrightarrow> r = Inr data)"
    if "Coordinator_Get repo_vtable envs' key c' ns' = (r, c'')" for envs' r c''
    by (rule repo_cluster.Get_held [OF L(1) _ ne _ that]) (use L(2) held in \<open>simp, blast\<close>)
  moreover have "\<forall>x \<in> set (ol_replicas loc). \<exists>a. ClientFor x c = Some a \<and> Local_Get get_good key (ns' a) = Inr data"
    using held cl stored_Local_Get(1) by fastforce
  moreover have "LookupObject key (co_metadata c') = Inr loc" using L(2) by (simp add: LookupObject_view)
  ultimately show ?thesis using L by blast
qed

text \<open>A cluster of two nodes with empty stores.\<close>

definition demo_repo :: MetadataRepository where
  "demo_repo = \<lparr>mr_cluster = \<lparr>cm_nodes = [NodeInfo_default\<lparr>ni_id := ''a''\<rparr>, NodeInfo_default\<lparr>ni_id := ''b''\<rparr>], cm_ring = ring_ab\<rparr>, mr_objects = []\<rparr>"

definition demo_coordinator :: "MetadataRepository Coordinator" where
  "demo_coordinator = Coordinator_new demo_repo [(''a'', ''host-a''), (''b'', ''host-b'')] Coordinator_Options_default"

definition demo_nodes :: nodes where
  "demo_nodes = (\<lambda>_. empty_store)"

lemma demo_placement: "Repo_PlacementFor key 3 demo_repo \<in> {[''a'', ''b''], [''b'', ''a'']}"
proof -
  have "Repo_PlacementFor key 3 demo_repo = take 2 (firsts [] (owners_from (Hash64 key) (ring ring_ab)))"
    using LookupReplicas_reference [of ring_ab key 3] ring_ok_ab
    by (simp add: Repo_PlacementFor_def ClusterMap_PlacementFor_def demo_repo_def ring_ok_def) (simp add: ring_ab_def numeral_2_eq_2)
  then show ?thesis by (auto simp: ring_ab_def owners_from_def)
qed

lemma demo_ok:
  shows "repo_ok (co_metadata demo_coordinator)" "own_addresses demo_coordinator" "nodes_ok demo_nodes"
    "repo_view (co_metadata demo_coordinator) key = None" "co_opts demo_coordinator = \<lparr>replication_factor = 3, write_quorum = 2\<rparr>"
    "co_metadata demo_coordinator = demo_repo" "wal_fd_open (ls_wal (demo_nodes a))"
    "x \<in> {''a'', ''b''} \<Longrightarrow> \<exists>a. ClientFor x demo_coordinator = Some a"
proof -
  show "repo_ok (co_metadata demo_coordinator)"
    using ring_ok_ab by (simp add: repo_ok_def demo_coordinator_def Coordinator_new_def demo_repo_def cluster_map_ok_def om_find_def)
      (simp add: ring_ab_def)
  show "own_addresses demo_coordinator" and "x \<in> {''a'', ''b''} \<Longrightarrow> \<exists>a. ClientFor x demo_coordinator = Some a"
    by (auto simp: own_addresses_def ClientFor_def demo_coordinator_def Coordinator_new_def om_find_def split: if_splits)
  show "nodes_ok demo_nodes" and "wal_fd_open (ls_wal (demo_nodes a))"
    using store_okD(1) [OF store_ok_empty] store_ok_fd [OF store_ok_empty] by (simp_all add: nodes_ok_def demo_nodes_def)
qed (simp_all add: demo_coordinator_def Coordinator_new_def demo_repo_def repo_view_def om_find_def live_def Coordinator_Options_default_def)

lemma demo_clients: "x = ''a'' \<or> x = ''b'' \<Longrightarrow> \<exists>a. ClientFor x demo_coordinator = Some a"
  using demo_ok(8) [of x] by simp

lemma demo_put:
  assumes "key \<noteq> ''''"
  shows "\<exists>meta c' ns'. Coordinator_Put repo_vtable (\<lambda>_. node_good 0) key data demo_coordinator demo_nodes = (Inr meta, c', ns')"
proof -
  let ?R = "mv_PlacementFor repo_vtable key (replication_factor (co_opts demo_coordinator)) (co_metadata demo_coordinator)"
  have R: "?R = [''a'', ''b''] \<or> ?R = [''b'', ''a'']" using demo_placement [of key] by (simp add: demo_ok(5,6))
  then have len: "length ?R = 2" by (elim disjE) simp_all
  have q: "write_quorum (co_opts demo_coordinator) \<le> card {..<length ?R}" unfolding len by (simp add: demo_ok(5))
  have "\<exists>a. ClientFor (?R ! j) demo_coordinator = Some a" if "j < 2" for j
    using R that by (elim disjE) (simp_all add: demo_clients less_2_cases_iff, auto intro: demo_clients)
  then have G: "\<forall>j \<in> {..<length ?R}. \<exists>a t. ClientFor (?R ! j) demo_coordinator = Some a \<and> node_good 0 = node_good t \<and> wal_fd_open (ls_wal (demo_nodes a))"
    unfolding len using demo_ok(7) by auto
  have "repo_cluster.next_version key (co_metadata demo_coordinator) \<noteq> 0" by (simp add: repo_cluster.next_version_def demo_ok(4))
  from repo_cluster.Put_available [OF demo_ok(1,2) this assms refl order_refl q G] show ?thesis .
qed

theorem coordinator_put_then_get_witness:
  "\<exists>meta c' ns' c''. Coordinator_Put repo_vtable (\<lambda>_. node_good 0) ''k'' ''v'' demo_coordinator demo_nodes = (Inr meta, c', ns') \<and>
    md_version meta = 1 \<and> Coordinator_Get repo_vtable (\<lambda>_. node_good 1) ''k'' c' ns' = (Inr ''v'', c'')"
proof -
  obtain meta c' ns' where p: "Coordinator_Put repo_vtable (\<lambda>_. node_good 0) ''k'' ''v'' demo_coordinator demo_nodes = (Inr meta, c', ns')"
    using demo_put [of "''k''" "''v''"] by auto
  obtain r c'' where g: "Coordinator_Get repo_vtable (\<lambda>_. node_good 1) ''k'' c' ns' = (r, c'')" by fastforce
  have h: "0 < write_quorum (co_opts demo_coordinator)"
      "(case repo_view (co_metadata demo_coordinator) ''k'' of None \<Rightarrow> 1 | Some loc \<Rightarrow> ol_version loc + 1) < u64_size"
    by (simp_all add: demo_ok(4,5))
  from coordinator_put_then_get [OF demo_ok(1-3) h(1) refl h(2) p] show ?thesis
  proof (elim exE conjE)
    fix loc
    assume v: "md_version meta = (case repo_view (co_metadata demo_coordinator) ''k'' of None \<Rightarrow> 1 | Some loc \<Rightarrow> ol_version loc + 1)"
      and q: "write_quorum (co_opts demo_coordinator) \<le> length (ol_replicas loc)"
      and r: "\<forall>envs' r c''. Coordinator_Get repo_vtable envs' ''k'' c' ns' = (r, c'') \<longrightarrow> (\<forall>d. r = Inr d \<longrightarrow> d = ''v'') \<and>
        ((\<exists>j t. j < length (ol_replicas loc) \<and> envs' j = node_good t) \<longrightarrow> r = Inr ''v'')"
    have "0 < length (ol_replicas loc)" using q h(1) by linarith
    then have "r = Inr ''v''" using r [rule_format, OF g] by blast
    with v p g show ?thesis by (simp add: demo_ok(4))
  qed
qed

text \<open>
  C19. Availability: \<open>Put\<close> succeeds whenever, among the replicas the ring places the key on, at least
  \<open>write_quorum\<close> have a client and answer normally, whatever happens on the other nodes.
\<close>

theorem coordinator_put_available:
  assumes "repo_ok (co_metadata c)" and "own_addresses c" and "key \<noteq> ''''"
    and "case repo_view (co_metadata c) key of None \<Rightarrow> True | Some loc \<Rightarrow> ol_version loc + 1 < u64_size"
    and "R = Repo_PlacementFor key (replication_factor (co_opts c)) (co_metadata c)"
    and "G \<subseteq> {..<length R}" and "write_quorum (co_opts c) \<le> card G"
    and "\<forall>j \<in> G. \<exists>a t. ClientFor (R ! j) c = Some a \<and> envs j = node_good t \<and> wal_fd_open (ls_wal (ns a))"
  shows "\<exists>meta c' ns'. Coordinator_Put repo_vtable envs key data c ns = (Inr meta, c', ns')"
proof (rule repo_cluster.Put_available [OF assms(1,2) _ assms(3) _ assms(6-8)])
  show "repo_cluster.next_version key (co_metadata c) \<noteq> 0"
    using assms(4) by (auto simp: repo_cluster.next_version_def u64_add_exact split: option.splits)
qed (simp add: assms(5))

text \<open>One of the two nodes is down; with a quorum of one the write still succeeds.\<close>

definition second_down :: "nat \<Rightarrow> node_env" where
  "second_down j = (if j = 0 then node_good 0
    else (node_good 0)\<lparr>ne_fate := \<lparr>rf_arrives = False, rf_returns = False, rf_error = ''connection refused''\<rparr>\<rparr>)"

theorem coordinator_put_available_witness:
  "\<exists>meta c' ns'. Coordinator_Put repo_vtable second_down ''k'' ''v''
    (demo_coordinator\<lparr>co_opts := \<lparr>replication_factor = 3, write_quorum = 1\<rparr>\<rparr>) demo_nodes = (Inr meta, c', ns')"
proof -
  let ?c = "demo_coordinator\<lparr>co_opts := \<lparr>replication_factor = 3, write_quorum = 1\<rparr>\<rparr>"
  let ?R = "Repo_PlacementFor ''k'' (replication_factor (co_opts ?c)) (co_metadata ?c)"
  have ok: "repo_ok (co_metadata ?c)" "own_addresses ?c" using demo_ok(1,2) by (simp_all add: own_addresses_def)
  have "?R = [''a'', ''b''] \<or> ?R = [''b'', ''a'']" using demo_placement [of "''k''"] by (simp add: demo_ok(6))
  then have R: "{0} \<subseteq> {..<length ?R}" "\<exists>a. ClientFor (?R ! 0) ?c = Some a" by (elim disjE, simp_all add: demo_clients)+
  have q: "write_quorum (co_opts ?c) \<le> card {0 :: nat}" by simp
  have G: "\<forall>j \<in> {0}. \<exists>a t. ClientFor (?R ! j) ?c = Some a \<and> second_down j = node_good t \<and> wal_fd_open (ls_wal (demo_nodes a))"
    using R(2) demo_ok(7) by (auto simp: second_down_def)
  have v: "case repo_view (co_metadata ?c) ''k'' of None \<Rightarrow> True | Some loc \<Rightarrow> ol_version loc + 1 < u64_size"
    by (simp add: demo_ok(4))
  have "''k'' \<noteq> ''''" by simp
  from coordinator_put_available [OF ok this v refl R(1) q G] show ?thesis .
qed

end
