(* ===== verification/Coordinator_History.thy ===== *)
theory Coordinator_History
  imports Coordinator_Safety
begin

text \<open>
  Sequences of client operations through the coordinator, with arbitrary failures in each of them. The
  specification keeps, for every key, the set of values a read may return: a successful put leaves one value, a
  failed put adds its own, a successful delete leaves none.
\<close>

section \<open>What one operation does to the nodes\<close>

definition wrote :: "string \<Rightarrow> string \<Rightarrow> LocalObjectStore \<Rightarrow> LocalObjectStore \<Rightarrow> bool" where
  "wrote key data s s' \<longleftrightarrow> touches key s s' \<and> ls_files s' (object_path s key) \<in> {ls_files s (object_path s key), Some data}"

lemma wrote_refl: "om_ok (ls_meta s) \<Longrightarrow> wrote key data s s"
  by (simp add: wrote_def touches_refl)

lemma wrote_trans:
  assumes "wrote key data s s'" and "wrote key data s' s''"
  shows "wrote key data s s''"
  using assms touches_path [of key s s'] by (auto simp: wrote_def touches_def)

lemma DoPut_write_file:
  assumes "DoPut_write env data meta s = (r, s')"
  shows "ls_files s' = ls_files s \<or> ls_files s' = (ls_files s)(object_path s (md_key meta) \<mapsto> data)"
proof -
  have W: "ls_files s2 = ls_files s1 \<or> ls_files s2 = (ls_files s1)(p \<mapsto> data)"
    if "Local_WriteFileAtomic e p data s1 = (st, s2)" for e p s1 st s2
    using that by (auto simp: Local_WriteFileAtomic_def split: option.splits prod.splits dest!: write_loop_ok)
  have C: "ls_files s2 = ls_files s1" if "DoPut_commit env seq meta s1 = (r, s2)" for seq s1 s2
    using that by (auto simp: DoPut_commit_def torn_append_def Let_def split: prod.splits if_splits option.splits crash_point.splits)
  obtain wb w1 where b: "AppendBegin (pe_begin env) (wal_next_seq (ls_wal s)) kPut (md_key meta) (md_version meta) (md_checksum meta)
      (md_size meta) (snd (NextSeq (ls_wal s))) = (wb, w1)" by fastforce
  obtain st s2 where w: "Local_WriteFileAtomic (pe_file env) (object_path s (md_key meta)) data (s\<lparr>ls_wal := w1\<rparr>) = (st, s2)" by fastforce
  have "ls_files s2 = ls_files s \<or> ls_files s2 = (ls_files s)(object_path s (md_key meta) \<mapsto> data)" using W [OF w] by simp
  moreover have "ls_files s' = ls_files s \<or> ls_files s' = ls_files s2"
    using assms b w C by (auto simp: DoPut_write_def NextSeq_def torn_append_def Let_def split: if_splits option.splits crash_point.splits)
  ultimately show ?thesis by auto
qed

lemma PutWithVersion_file:
  assumes "PutWithVersion env key data v s = (r, s')"
  shows "ls_files s' = ls_files s \<or> ls_files s' = (ls_files s)(object_path s key \<mapsto> data)"
  using assms DoPut_write_file [of env data _ s r s']
  by (fastforce simp: PutWithVersion_def DoPut_def DoPut_versioned_def Let_def split: if_splits sum.splits)

lemma Client_Put_wrote:
  assumes "Client_Put env address key data v s = (r, s')" and "om_ok (ls_meta s)" and "v \<noteq> 0"
  shows "wrote key data s s'"
proof -
  obtain r0 s0 where p: "PutWithVersion (ne_put env) key data v s = (r0, s0)" by fastforce
  have "s' = s \<or> s' = s0"
    using assms(1,3) p
    by (auto simp: Client_Put_def Client_put_call_def rpc_call_def Node_Put_def rpc_PutRequest_default_def split: if_splits option.splits)
  then show ?thesis
    using PutWithVersion_file [OF p] Client_Put_touches [OF assms] by (auto simp: wrote_def)
qed

lemma Local_Delete_files: "Local_Delete env key s = (r, s') \<Longrightarrow> ls_files s' = ls_files s"
  by (auto simp: Local_Delete_def torn_append_def Let_def split: prod.splits if_splits option.splits crash_point.splits)

lemma Client_Delete_wrote:
  assumes "Client_Delete env address key s = (r, s')" and "om_ok (ls_meta s)"
  shows "wrote key data s s'"
proof -
  obtain r0 s0 where p: "Local_Delete (ne_put env) key s = (r0, s0)" by fastforce
  have "s' = s \<or> s' = s0"
    using assms(1) p by (auto simp: Client_Delete_def rpc_call_def Node_Delete_def split: if_splits option.splits)
  then show ?thesis
    using Local_Delete_files [OF p] Client_Delete_touches [OF assms] by (auto simp: wrote_def)
qed

lemma Client_Get_file:
  assumes "Client_Get env address key s = Inr d"
  shows "ls_files s (object_path s key) = Some d"
proof -
  have "Local_Get (ne_get env) key s = Inr d"
    using assms Local_Get_not_ok [of "ne_get env" key s]
    by (auto simp: Client_Get_def rpc_call_def Node_Get_def rpc_GetResponse_default_def ok_def split: sum.splits if_splits)
  then show ?thesis
    by (auto simp: Local_Get_def ReadWholeFile_def split: sum.splits if_splits option.splits)
qed

text \<open>Another key's file is left alone.\<close>

lemma wrote_other:
  assumes "wrote key data s s'" and "KeyDigest k \<noteq> KeyDigest key"
  shows "ls_files s' (object_path s' k) = ls_files s (object_path s k)"
proof -
  have "object_path s k \<noteq> object_path s key" using assms(2) by (simp add: object_path_def path_inj)
  then show ?thesis using assms(1) touches_path [of key s s'] by (simp add: wrote_def touches_def)
qed

lemma fan_out_wrote:
  assumes "fan_out (\<lambda>i addr s. let (r, s) = Client_Put (envs i) addr key data v s in (sor_ok r, s)) absent client i ids ns = (rs, ns')"
    and "nodes_ok ns" and "v \<noteq> 0"
  shows "wrote key data (ns a) (ns' a)"
proof (rule fan_out_inv [OF assms(1), where P = "\<lambda>a s. wrote key data (ns a) s"])
  show "wrote key data (ns a) (ns a)" for a using assms(2) wrote_refl by (simp add: nodes_ok_def)
  fix i a s assume w: "wrote key data (ns a) s"
  obtain r s' where p: "Client_Put (envs i) a key data v s = (r, s')" by fastforce
  have "wrote key data s s'" by (rule Client_Put_wrote [OF p _ assms(3)]) (use w in \<open>simp add: wrote_def touches_def\<close>)
  then show "wrote key data (ns a) (snd (let (r, s) = Client_Put (envs i) a key data v s in (sor_ok r, s)))"
    using wrote_trans [OF w] p by simp
qed

lemma delete_loop_wrote:
  assumes "delete_loop envs key i ids acks c ns = (acks', c', ns')" and "nodes_ok ns"
  shows "wrote key data (ns a) (ns' a)"
  using assms
proof (induction ids arbitrary: i acks c ns)
  case Nil
  then show ?case using wrote_refl by (simp add: nodes_ok_def)
next
  case (Cons x ids)
  from Cons.prems(1) obtain acks1 c1 ns1 where step: "delete_loop envs key (Suc i) ids acks1 c1 ns1 = (acks', c', ns')"
    "\<And>a. ns1 a = ns a \<or> (\<exists>addr. ns1 a = snd (Client_Delete (envs i) addr key (ns a)))" by (rule delete_loop_step) metis
  have W: "wrote key data (ns a) (ns1 a)" for a
    using step(2) [of a]
  proof (elim disjE exE)
    show "wrote key data (ns a) (ns1 a)" if "ns1 a = ns a" using that wrote_refl Cons.prems(2) by (simp add: nodes_ok_def)
    show "wrote key data (ns a) (ns1 a)" if "ns1 a = snd (Client_Delete (envs i) addr key (ns a))" for addr
      by (rule Client_Delete_wrote [of "envs i" addr]) (use that Cons.prems(2) in \<open>simp_all add: nodes_ok_def prod_eq_iff\<close>)
  qed
  then have "nodes_ok ns1" by (simp add: nodes_ok_def wrote_def touches_def)
  from wrote_trans [OF W Cons.IH [OF step(1) this]] show ?case .
qed

lemma get_loop_step:
  assumes "get_loop envs key ns i (x # ids) st c = (r, c')"
  obtains (hit) a d where "ClientFor x c = Some a" "Client_Get (envs i) a key (ns a) = Inr d" "r = Inr d" "c' = MarkHealth x kReplicaHealthy c"
    | (miss) st1 c1 where "get_loop envs key ns (Suc i) ids st1 c1 = (r, c')" "\<not> ok st \<longrightarrow> \<not> ok st1"
      "co_metadata c1 = co_metadata c" "co_clients c1 = co_clients c" "co_opts c1 = co_opts c"
proof (cases "ClientFor x c")
  case None
  then show ?thesis using assms miss [of st c] by simp
next
  case (Some a)
  show ?thesis
  proof (cases "Client_Get (envs i) a key (ns a)")
    case (Inr d)
    then show ?thesis using assms Some hit [OF Some Inr] by simp
  next
    case (Inl e)
    let ?c1 = "if code e = kUnavailable then MarkHealth x kReplicaFailed c
      else if code e = kChecksumMismatch then MarkHealth x kReplicaLagging c else c"
    have "get_loop envs key ns (Suc i) ids e ?c1 = (r, c')" using assms Some Inl by simp
    then show ?thesis by (rule miss) (use Client_Get_not_ok [OF Inl] in simp_all)
  qed
qed

lemma get_loop_file:
  "get_loop envs key ns i ids st c = (Inr d, c') \<Longrightarrow>
    \<exists>x \<in> set ids. \<exists>a. om_find (co_clients c) x = Some a \<and> ls_files (ns a) (object_path (ns a) key) = Some d"
proof (induction ids arbitrary: i st c)
  case (Cons x ids)
  from Cons.prems show ?case
  proof (cases rule: get_loop_step)
    case (hit a d')
    then show ?thesis using Client_Get_file [OF hit(2)] by (auto simp: ClientFor_def)
  next
    case (miss st1 c1)
    then show ?thesis using Cons.IH [OF miss(1)] by simp
  qed
qed simp

lemma get_loop_frame:
  "get_loop envs key ns i ids st c = (r, c') \<Longrightarrow> \<not> ok st \<Longrightarrow>
    co_metadata c' = co_metadata c \<and> co_clients c' = co_clients c \<and> co_opts c' = co_opts c \<and> (\<forall>e. r = Inl e \<longrightarrow> \<not> ok e)"
proof (induction ids arbitrary: i st c)
  case (Cons x ids)
  from Cons.prems(1) show ?case
  proof (cases rule: get_loop_step)
    case (miss st1 c1)
    then show ?thesis using Cons.IH [OF miss(1)] Cons.prems(2) by simp
  qed simp
qed auto

section \<open>Histories\<close>

datatype store_op = OpPut string string | OpGet string | OpDelete string

datatype store_result = PutResult "ObjectMetadata StatusOr" | GetResult "string StatusOr" | DeleteResult Status

text \<open>Each operation comes with the answers of the nodes it calls.\<close>

fun run_history :: "'s MetadataView \<Rightarrow> (store_op \<times> (nat \<Rightarrow> node_env)) list \<Rightarrow> 's Coordinator \<Rightarrow> nodes \<Rightarrow> (store_op \<times> store_result) list" where
  "run_history v [] c ns = []"
| "run_history v ((OpPut key data, envs) # ops) c ns =
    (let (r, c, ns) = Coordinator_Put v envs key data c ns in (OpPut key data, PutResult r) # run_history v ops c ns)"
| "run_history v ((OpGet key, envs) # ops) c ns =
    (let (r, c) = Coordinator_Get v envs key c ns in (OpGet key, GetResult r) # run_history v ops c ns)"
| "run_history v ((OpDelete key, envs) # ops) c ns =
    (let (r, c, ns) = Coordinator_Delete v envs key c ns in (OpDelete key, DeleteResult r) # run_history v ops c ns)"

fun op_key :: "store_op \<Rightarrow> string" where
  "op_key (OpPut key data) = key"
| "op_key (OpGet key) = key"
| "op_key (OpDelete key) = key"

text \<open>The specification: from what each key may hold, is this history explained?\<close>

fun explained :: "(string \<Rightarrow> string set) \<Rightarrow> (store_op \<times> store_result) list \<Rightarrow> bool" where
  "explained A [] \<longleftrightarrow> True"
| "explained A ((OpPut key data, PutResult r) # h) \<longleftrightarrow>
    explained (if sor_ok r then A(key := {data}) else if A key = {} then A else A(key := insert data (A key))) h"
| "explained A ((OpGet key, GetResult r) # h) \<longleftrightarrow>
    (case r of Inr d \<Rightarrow> d \<in> A key | Inl st \<Rightarrow> \<not> ok st \<and> (A key = {} \<longrightarrow> code st = kNotFound)) \<and> explained A h"
| "explained A ((OpDelete key, DeleteResult st) # h) \<longleftrightarrow> explained (if ok st then A(key := {}) else A) h"
| "explained A _ \<longleftrightarrow> False"

section \<open>Every history is explained\<close>

context replicated_view
begin

lemma Put_nodes:
  assumes "inv (co_metadata c)" and "nodes_ok ns" and "next_version key (co_metadata c) \<noteq> 0"
    and "Coordinator_Put v envs key data c ns = (r, c', ns')"
  shows "wrote key data (ns a) (ns' a)" and "co_clients c' = co_clients c"
    and "r = Inl st \<Longrightarrow> \<not> ok st \<and> inv (co_metadata c') \<and> view (co_metadata c') = view (co_metadata c)"
proof -
  let ?R = "mv_PlacementFor v key (replication_factor (co_opts c)) (co_metadata c)" and ?ver = "next_version key (co_metadata c)"
  obtain s' where s': "mv_LookupObject v key (co_metadata c) =
      (case view (co_metadata c) key of None \<Rightarrow> Inl (no_metadata key) | Some loc \<Rightarrow> Inr loc, s')"
      "inv s'" "view s' = view (co_metadata c)" using look [OF assms(1)] .
  have ver: "(case case view (co_metadata c) key of None \<Rightarrow> Inl (no_metadata key) | Some loc \<Rightarrow> Inr loc of
      Inl _ \<Rightarrow> 1 | Inr loc \<Rightarrow> u64_add (ol_version loc) 1) = ?ver" by (simp add: next_version_def split: option.split)
  let ?call = "\<lambda>i addr s. let (r, s) = Client_Put (envs i) addr key data ?ver s in (sor_ok r, s)"
  obtain oks ns1 where fo: "fan_out ?call False (\<lambda>i. ClientFor i c) 0 ?R ns = (oks, ns1)" by fastforce
  let ?acks = "acked (\<lambda>k. k) ?R oks"
  let ?c1 = "mark_all (\<lambda>k. if k then kReplicaHealthy else kReplicaLagging) ?R oks (c\<lparr>co_metadata := s'\<rparr>)"
  let ?meta = "ObjectMetadata_default\<lparr>md_key := key, md_size := length data, md_checksum := Sha256Hex data, md_version := ?ver, md_deleted := False\<rparr>"
  obtain r2 c2 where reg: "register_write v ?meta ?acks ?c1 = (r2, c2)" by fastforce
  have r2: "r2 = Inr ?meta" using registered [OF _ reg] s'(2) by simp
  have c2: "co_clients c2 = co_clients c" using reg by (auto simp: register_write_def Let_def split: prod.splits if_splits)
  have cases: "r = Inl (Unavailable ''cluster too small to satisfy write quorum'') \<and> c' = c \<and> ns' = ns \<or>
      (\<exists>msg. r = Inl (Unavailable msg)) \<and> c' = ?c1 \<and> ns' = ns1 \<or> r = r2 \<and> c' = c2 \<and> ns' = ns1"
    using assms(4) s'(1) fo reg by (auto simp: Coordinator_Put_def Let_def ver split: if_splits)
  show "wrote key data (ns a) (ns' a)"
    using cases fan_out_wrote [OF fo assms(2,3)] wrote_refl assms(2) by (auto simp: nodes_ok_def)
  show "co_clients c' = co_clients c" using cases c2 by auto
  show "\<not> ok st \<and> inv (co_metadata c') \<and> view (co_metadata c') = view (co_metadata c)" if "r = Inl st"
    using cases that r2 s'(2,3) assms(1) by auto
qed

lemma Get_keeps:
  assumes "inv (co_metadata c)" and "Coordinator_Get v envs key c ns = (r, c')"
  shows "inv (co_metadata c')" and "view (co_metadata c') = view (co_metadata c)" and "co_clients c' = co_clients c"
    and "r = Inl st \<Longrightarrow> \<not> ok st"
    and "r = Inr d \<Longrightarrow> \<exists>loc x a. view (co_metadata c) key = Some loc \<and> x \<in> set (ol_replicas loc) \<and> ClientFor x c = Some a \<and>
      ls_files (ns a) (object_path (ns a) key) = Some d"
proof -
  obtain s' where s': "mv_LookupObject v key (co_metadata c) =
      (case view (co_metadata c) key of None \<Rightarrow> Inl (no_metadata key) | Some loc \<Rightarrow> Inr loc, s')"
      "inv s'" "view s' = view (co_metadata c)" using look [OF assms(1)] .
  let ?c1 = "c\<lparr>co_metadata := s'\<rparr>"
  have all: "inv (co_metadata c') \<and> view (co_metadata c') = view (co_metadata c) \<and> co_clients c' = co_clients c \<and> (\<forall>st. r = Inl st \<longrightarrow> \<not> ok st) \<and>
    (\<forall>d. r = Inr d \<longrightarrow> (\<exists>loc x a. view (co_metadata c) key = Some loc \<and> x \<in> set (ol_replicas loc) \<and> ClientFor x c = Some a \<and>
      ls_files (ns a) (object_path (ns a) key) = Some d))"
  proof (cases "view (co_metadata c) key")
    case None
    then show ?thesis using assms(2) s' by (auto simp: Coordinator_Get_def no_metadata_def)
  next
    case (Some loc)
    show ?thesis
    proof (cases "ol_replicas loc = []")
      case True
      then show ?thesis using assms(2) s' Some by (auto simp: Coordinator_Get_def)
    next
      case False
      have run: "get_loop envs key ns 0 (ol_replicas loc) (NotFound (''object not found on any replica: '' @ key)) ?c1 = (r, c')"
        using assms(2) s'(1) Some False by (simp add: Coordinator_Get_def)
      have "co_metadata c' = s' \<and> co_clients c' = co_clients c \<and> (\<forall>e. r = Inl e \<longrightarrow> \<not> ok e)"
        using get_loop_frame [OF run] by simp
      moreover have "\<exists>x \<in> set (ol_replicas loc). \<exists>a. om_find (co_clients c) x = Some a \<and> ls_files (ns a) (object_path (ns a) key) = Some d"
        if "r = Inr d" for d using get_loop_file [of envs key ns 0 "ol_replicas loc" _ ?c1 d c'] run that by auto
      ultimately show ?thesis using s'(2,3) Some unfolding ClientFor_def by blast
    qed
  qed
  then show "inv (co_metadata c')" "view (co_metadata c') = view (co_metadata c)" "co_clients c' = co_clients c"
    "r = Inl st \<Longrightarrow> \<not> ok st" by auto
  show "\<exists>loc x a. view (co_metadata c) key = Some loc \<and> x \<in> set (ol_replicas loc) \<and> ClientFor x c = Some a \<and>
      ls_files (ns a) (object_path (ns a) key) = Some d" if "r = Inr d" using all that by blast
qed

lemma Delete_keeps:
  assumes "inv (co_metadata c)" and "nodes_ok ns" and "Coordinator_Delete v envs key c ns = (st, c', ns')"
  shows "wrote key data (ns a) (ns' a)" and "co_clients c' = co_clients c" and "inv (co_metadata c')"
    and "view (co_metadata c') = (if ok st then (view (co_metadata c))(key := None) else view (co_metadata c))"
proof -
  let ?R = "mv_PlacementFor v key (replication_factor (co_opts c)) (co_metadata c)"
  obtain acks c1 ns1 where d: "delete_loop envs key 0 ?R 0 c ns = (acks, c1, ns1)" by (metis surj_pair)
  note f = delete_loop_frame [OF d]
  obtain st2 m where m: "mv_RemoveObject v key (co_metadata c) = (st2, m)" by fastforce
  have cases: "st = Unavailable ''delete quorum not met'' \<and> c' = c1 \<and> ns' = ns1 \<or> st = st2 \<and> c' = c1\<lparr>co_metadata := m\<rparr> \<and> ns' = ns1"
    using assms(3) d m f by (auto simp: Coordinator_Delete_def split: if_splits)
  have rm: "inv m \<and> view m = (view (co_metadata c))(key := None) \<and> (ok st2 \<longleftrightarrow> view (co_metadata c) key \<noteq> None)"
    by (rule remove_view [OF assms(1) m])
  show "wrote key data (ns a) (ns' a)" using cases delete_loop_wrote [OF d assms(2)] by auto
  show "co_clients c' = co_clients c" "inv (co_metadata c')" using cases f assms(1) rm by auto
  show "view (co_metadata c') = (if ok st then (view (co_metadata c))(key := None) else view (co_metadata c))"
    using cases f rm by (auto simp: fun_upd_idem)
qed

end

context replicated_view
begin

text \<open>Every replica of a registered key holds, in its file, one of the values the key may have.\<close>

definition history_inv :: "string set \<Rightarrow> nat \<Rightarrow> (string \<Rightarrow> string set) \<Rightarrow> 's Coordinator \<Rightarrow> nodes \<Rightarrow> bool" where
  "history_inv K n A c ns \<longleftrightarrow> inv (co_metadata c) \<and> own_addresses c \<and> nodes_ok ns \<and>
    (\<forall>k. (view (co_metadata c) k = None \<longleftrightarrow> A k = {}) \<and>
      (\<forall>loc. view (co_metadata c) k = Some loc \<longrightarrow> k \<in> K \<and> ol_version loc \<le> n \<and>
        (\<forall>x \<in> set (ol_replicas loc). \<exists>a. ClientFor x c = Some a \<and> ls_files (ns a) (object_path (ns a) k) \<in> Some ` A k)))"

lemma history_invD:
  assumes "history_inv K n A c ns"
  shows "inv (co_metadata c)" "own_addresses c" "nodes_ok ns" "view (co_metadata c) k = None \<longleftrightarrow> A k = {}"
    and "view (co_metadata c) k = Some loc \<Longrightarrow> k \<in> K \<and> ol_version loc \<le> n"
    and "view (co_metadata c) k = Some loc \<Longrightarrow> x \<in> set (ol_replicas loc) \<Longrightarrow>
      \<exists>a. ClientFor x c = Some a \<and> ls_files (ns a) (object_path (ns a) k) \<in> Some ` A k"
  using assms unfolding history_inv_def by blast+

text \<open>Operations that write only under one key and leave the other keys' registrations alone.\<close>

lemma history_inv_step:
  assumes "history_inv K n A c ns" and "key \<in> K" and "inj_on KeyDigest K" and "inv (co_metadata c')" and "co_clients c' = co_clients c"
    and "\<And>a. wrote key data (ns a) (ns' a)" and "\<And>k. k \<noteq> key \<Longrightarrow> view (co_metadata c') k = view (co_metadata c) k"
    and "\<And>k. k \<noteq> key \<Longrightarrow> A' k = A k" and "n \<le> n'" and "view (co_metadata c') key = None \<longleftrightarrow> A' key = {}"
    and "\<And>loc. view (co_metadata c') key = Some loc \<Longrightarrow> ol_version loc \<le> n' \<and>
      (\<forall>x \<in> set (ol_replicas loc). \<exists>a. ClientFor x c = Some a \<and> ls_files (ns' a) (object_path (ns' a) key) \<in> Some ` A' key)"
  shows "history_inv K n' A' c' ns'"
proof -
  note I = history_invD [OF assms(1)]
  have cl: "ClientFor x c' = ClientFor x c" for x using assms(5) by (simp add: ClientFor_def)
  have ns: "nodes_ok ns'" using assms(6) by (simp add: nodes_ok_def wrote_def touches_def)
  have none: "view (co_metadata c') k = None \<longleftrightarrow> A' k = {}" for k
    using assms(7,8) [of k] assms(10) I(4) [of k] by (cases "k = key") auto
  have one: "k \<in> K \<and> ol_version loc \<le> n' \<and> (\<forall>x \<in> set (ol_replicas loc). \<exists>a. ClientFor x c' = Some a \<and>
      ls_files (ns' a) (object_path (ns' a) k) \<in> Some ` A' k)" if l: "view (co_metadata c') k = Some loc" for k loc
  proof (cases "k = key")
    case True
    then show ?thesis using assms(2) assms(11) [of loc] l cl by auto
  next
    case False
    have l0: "view (co_metadata c) k = Some loc" using l assms(7) [OF False] by simp
    have "KeyDigest k \<noteq> KeyDigest key" using I(5) [OF l0] assms(2,3) False by (auto dest: inj_onD)
    then have "ls_files (ns' a) (object_path (ns' a) k) = ls_files (ns a) (object_path (ns a) k)" for a
      using wrote_other [OF assms(6)] by blast
    then show ?thesis using I(5,6) [OF l0] assms(8) [OF False] assms(9) cl by auto
  qed
  have "own_addresses c'" using I(2) by (simp add: own_addresses_def cl)
  then show ?thesis using assms(4) ns none one unfolding history_inv_def by blast
qed

lemma history_Put:
  assumes "history_inv K n A c ns" and "key \<in> K" and "inj_on KeyDigest K" and "n + 1 < u64_size"
    and "Coordinator_Put v envs key data c ns = (r, c', ns')"
  shows "history_inv K (n + 1) (if sor_ok r then A(key := {data}) else if A key = {} then A else A(key := insert data (A key))) c' ns'"
proof -
  note I = history_invD [OF assms(1)]
  have ver: "next_version key (co_metadata c) \<noteq> 0" "next_version key (co_metadata c) \<le> n + 1"
    using I(5) [of key] assms(4) by (auto simp: next_version_def u64_add_exact split: option.splits)
  note N = Put_nodes [OF I(1,3) ver(1) assms(5)]
  show ?thesis
  proof (cases r)
    case (Inr meta)
    obtain loc where L: "inv (co_metadata c')" "view (co_metadata c') = (view (co_metadata c))(key \<mapsto> loc)"
      "md_version meta = next_version key (co_metadata c)" "ol_version loc = md_version meta"
      and held: "\<And>x. x \<in> set (ol_replicas loc) \<Longrightarrow> \<exists>a. ClientFor x c' = Some a \<and> stored key data (md_version meta) (ns' a)"
      and cl: "\<And>x. ClientFor x c' = ClientFor x c"
      by (rule Put_success [OF I(1-3) ver(1) assms(5) [unfolded Inr]]) blast
    have "\<exists>a. ClientFor x c = Some a \<and> ls_files (ns' a) (object_path (ns' a) key) = Some data" if "x \<in> set (ol_replicas loc)" for x
      using held [OF that] cl by (auto simp: stored_def)
    then show ?thesis
      using Inr history_inv_step [OF assms(1-3) L(1) N(2) N(1), where A' = "A(key := {data})" and n' = "n + 1"] L ver(2) by simp
  next
    case (Inl st)
    note F = N(3) [OF Inl]
    let ?A = "if A key = {} then A else A(key := insert data (A key))"
    have w: "ls_files (ns' a) (object_path (ns' a) key) \<in> Some ` insert data (A key)"
      if "ls_files (ns a) (object_path (ns a) key) \<in> Some ` A key" for a
      using N(1) [of a] that touches_path [of key "ns a" "ns' a"] by (auto simp: wrote_def)
    have "history_inv K (n + 1) ?A c' ns'"
    proof (rule history_inv_step [OF assms(1-3) _ N(2) N(1)])
      show "inv (co_metadata c')" and "\<And>k. k \<noteq> key \<Longrightarrow> view (co_metadata c') k = view (co_metadata c) k" using F by simp_all
      show "view (co_metadata c') key = None \<longleftrightarrow> ?A key = {}" using F I(4) [of key] by simp
      fix loc assume "view (co_metadata c') key = Some loc"
      then have l: "view (co_metadata c) key = Some loc" using F by simp
      then have "A key \<noteq> {}" using I(4) [of key] by simp
      then show "ol_version loc \<le> n + 1 \<and> (\<forall>x \<in> set (ol_replicas loc). \<exists>a. ClientFor x c = Some a \<and>
          ls_files (ns' a) (object_path (ns' a) key) \<in> Some ` ?A key)"
        using I(5,6) [OF l] w by fastforce
    qed simp_all
    then show ?thesis using Inl F by simp
  qed
qed

lemma history_Delete:
  assumes "history_inv K n A c ns" and "key \<in> K" and "inj_on KeyDigest K" and "Coordinator_Delete v envs key c ns = (st, c', ns')"
  shows "history_inv K n (if ok st then A(key := {}) else A) c' ns'"
proof -
  note I = history_invD [OF assms(1)]
  note D = Delete_keeps [OF I(1,3) assms(4)]
  have same: "ls_files (ns' a) (object_path (ns' a) key) \<in> Some ` A key" if "ls_files (ns a) (object_path (ns a) key) \<in> Some ` A key" for a
  proof -
    from that obtain d where d: "d \<in> A key" "ls_files (ns a) (object_path (ns a) key) = Some d" by auto
    then show ?thesis using D(1) [of d a] touches_path [of key "ns a" "ns' a"] by (auto simp: wrote_def)
  qed
  show ?thesis
  proof (rule history_inv_step [OF assms(1-3) D(3,2) D(1)])
    show "view (co_metadata c') key = None \<longleftrightarrow> (if ok st then A(key := {}) else A) key = {}" using D(4) I(4) [of key] by simp
    fix loc assume "view (co_metadata c') key = Some loc"
    then have l: "\<not> ok st" "view (co_metadata c) key = Some loc" using D(4) by (auto split: if_splits)
    then show "ol_version loc \<le> n \<and> (\<forall>x \<in> set (ol_replicas loc). \<exists>a. ClientFor x c = Some a \<and>
        ls_files (ns' a) (object_path (ns' a) key) \<in> Some ` (if ok st then A(key := {}) else A) key)"
      using I(5,6) [OF l(2)] same by fastforce
  qed (use D(4) in simp_all)
qed

end

context replicated_view
begin

lemma history_Get:
  assumes "history_inv K n A c ns" and "Coordinator_Get v envs key c ns = (r, c')"
  shows "history_inv K n A c' ns" and "case r of Inr d \<Rightarrow> d \<in> A key | Inl st \<Rightarrow> \<not> ok st \<and> (A key = {} \<longrightarrow> code st = kNotFound)"
proof -
  note I = history_invD [OF assms(1)]
  note G = Get_keeps [OF I(1) assms(2)]
  have cl: "ClientFor x c' = ClientFor x c" for x using G(3) by (simp add: ClientFor_def)
  have "own_addresses c'" using I(2) by (simp add: own_addresses_def cl)
  then show "history_inv K n A c' ns" using assms(1) G(1,2) cl unfolding history_inv_def by simp
  show "case r of Inr d \<Rightarrow> d \<in> A key | Inl st \<Rightarrow> \<not> ok st \<and> (A key = {} \<longrightarrow> code st = kNotFound)"
  proof (cases r)
    case (Inl st)
    have "code st = kNotFound" if "A key = {}"
      using Get_absent [OF I(1) _ assms(2)] I(4) [of key] that Inl by (simp add: no_metadata_def)
    then show ?thesis using G(4) [OF Inl] Inl by simp
  next
    case (Inr d)
    obtain loc x a where "view (co_metadata c) key = Some loc" "x \<in> set (ol_replicas loc)" "ClientFor x c = Some a"
        "ls_files (ns a) (object_path (ns a) key) = Some d" using G(5) [OF Inr] by blast
    then show ?thesis using I(6) [of key loc x] Inr by auto
  qed
qed

lemma history_explained:
  assumes "history_inv K n A c ns" and "op_key ` fst ` set ops \<subseteq> K" and "inj_on KeyDigest K" and "n + length ops < u64_size"
  shows "explained A (run_history v ops c ns)"
  using assms
proof (induction ops arbitrary: n A c ns)
  case (Cons op ops)
  obtain o1 envs where op: "op = (o1, envs)" by (cases op)
  have K: "op_key o1 \<in> K" "op_key ` fst ` set ops \<subseteq> K" using Cons.prems(2) op by auto
  have len: "n + 1 < u64_size \<or> ops = []" "n + 1 + length ops < u64_size" "n + length ops < u64_size" using Cons.prems(4) by auto
  show ?case
  proof (cases o1)
    case (OpPut key data)
    obtain r c' ns' where p: "Coordinator_Put v envs key data c ns = (r, c', ns')" by (metis surj_pair)
    have "n + 1 < u64_size" using Cons.prems(4) by simp
    from history_Put [OF Cons.prems(1) _ Cons.prems(3) this p] K(1) OpPut
    have "history_inv K (n + 1) (if sor_ok r then A(key := {data}) else if A key = {} then A else A(key := insert data (A key))) c' ns'" by simp
    from Cons.IH [OF this K(2) Cons.prems(3) len(2)] show ?thesis using op OpPut p by simp
  next
    case (OpGet key)
    obtain r c' where g: "Coordinator_Get v envs key c ns = (r, c')" by fastforce
    note G = history_Get [OF Cons.prems(1) g]
    from Cons.IH [OF G(1) K(2) Cons.prems(3) len(3)] show ?thesis using op OpGet g G(2) by simp
  next
    case (OpDelete key)
    obtain r c' ns' where d: "Coordinator_Delete v envs key c ns = (r, c', ns')" by (metis surj_pair)
    from history_Delete [OF Cons.prems(1) _ Cons.prems(3) d] K(1) OpDelete
    have "history_inv K n (if ok r then A(key := {}) else A) c' ns'" by simp
    from Cons.IH [OF this K(2) Cons.prems(3) len(3)] show ?thesis using op OpDelete d by simp
  qed
qed simp

end

section \<open>Properties\<close>

text \<open>
  Every history of puts, gets and deletes through a coordinator with a cached metadata service is explained,
  whatever calls are lost, time out or fail in it: a get returns a value that the last successful put of the key, or
  a failed put since then, wrote; after a successful delete, and before the first put, it returns NotFound; every
  other outcome is an error. The stores may hold anything at the start.
\<close>

theorem coordinator_histories_explained:
  assumes "repo_ok m" and "\<forall>k. repo_view m k = None" and "c = Coordinator_new (CachingMetadataView_new m capacity) clients opts"
    and "own_addresses c" and "nodes_ok ns" and "inj_on KeyDigest (op_key ` fst ` set ops)" and "length ops < u64_size"
  shows "explained (\<lambda>_. {}) (run_history cached_vtable ops c ns)"
proof -
  have m: "co_metadata c = CachingMetadataView_new m capacity" using assms(3) by (simp add: Coordinator_new_def)
  have "cached_cluster.history_inv (op_key ` fst ` set ops) 0 (\<lambda>_. {}) c ns"
    unfolding cached_cluster.history_inv_def m
    using coherent_new [OF assms(1)] assms(2,4,5) by (simp add: CachingMetadataView_new_def)
  from cached_cluster.history_explained [OF this order_refl assms(6)] assms(7) show ?thesis by simp
qed

definition demo_history :: "(store_op \<times> (nat \<Rightarrow> node_env)) list" where
  "demo_history = [(OpPut ''k'' ''1'', \<lambda>_. node_good 0), (OpPut ''k'' ''2'', second_down), (OpGet ''k'', \<lambda>_. node_good 0),
    (OpDelete ''k'', \<lambda>_. node_good 0), (OpGet ''k'', \<lambda>_. node_good 0)]"

theorem coordinator_histories_explained_witness:
  "explained (\<lambda>_. {}) (run_history cached_vtable demo_history
    (Coordinator_new (CachingMetadataView_new demo_repo 8) [(''a'', ''host-a''), (''b'', ''host-b'')] Coordinator_Options_default) demo_nodes)"
proof -
  let ?c = "Coordinator_new (CachingMetadataView_new demo_repo 8) [(''a'', ''host-a''), (''b'', ''host-b'')] Coordinator_Options_default"
  have "repo_ok demo_repo" "\<forall>k. repo_view demo_repo k = None" using demo_ok(1,4) by (simp_all add: demo_ok(6))
  moreover have "own_addresses ?c" by (auto simp: own_addresses_def ClientFor_def Coordinator_new_def om_find_def split: if_splits)
  moreover have "inj_on KeyDigest (op_key ` fst ` set demo_history)" "length demo_history < u64_size" by (simp_all add: demo_history_def)
  ultimately show ?thesis using coordinator_histories_explained [OF _ _ refl _ demo_ok(3)] by blast
qed

section \<open>A write that misses its quorum\<close>

lemma Client_Put_lost: "\<not> rf_arrives (ne_fate env) \<Longrightarrow> \<not> sor_ok (fst (Client_Put env address key data v s))"
  by (simp add: Client_Put_def Client_put_call_def rpc_call_def rpc_failed_def)

lemma acked_upper:
  assumes "length rs = length ids" and "\<And>j. j < length ids \<Longrightarrow> j \<notin> G \<Longrightarrow> \<not> good (rs ! j)" and "finite G"
  shows "length (acked good ids rs) \<le> card G"
proof -
  have "length (acked good ids rs) = card {j. j < length ids \<and> good (rs ! j)}"
    using assms(1) by (simp add: acked_def length_filter_conv_card cong: conj_cong)
  also have "\<dots> \<le> card G" by (rule card_mono [OF assms(3)]) (use assms(2) in auto)
  finally show ?thesis .
qed

context replicated_view
begin

text \<open>Requests that are lost everywhere outside a set smaller than the quorum make a \<open>Put\<close> fail; a node that was reached has the data.\<close>

lemma Put_without_quorum:
  assumes "inv (co_metadata c)" and "own_addresses c" and "nodes_ok ns" and "next_version key (co_metadata c) \<noteq> 0" and "key \<noteq> ''''"
    and "R = mv_PlacementFor v key (replication_factor (co_opts c)) (co_metadata c)" and "write_quorum (co_opts c) \<le> length R"
    and "finite G" and "card G < write_quorum (co_opts c)" and "\<forall>j < length R. j \<notin> G \<longrightarrow> \<not> rf_arrives (ne_fate (envs j))"
    and "Coordinator_Put v envs key data c ns = (r, c', ns')"
  shows "\<exists>st. r = Inl st"
    and "j < length R \<Longrightarrow> ClientFor (R ! j) c = Some a \<Longrightarrow> envs j = node_good t \<Longrightarrow> wal_fd_open (ls_wal (ns a)) \<Longrightarrow>
      stored key data (next_version key (co_metadata c)) (ns' a)"
proof -
  let ?ver = "next_version key (co_metadata c)"
  obtain s' where s': "mv_LookupObject v key (co_metadata c) =
      (case view (co_metadata c) key of None \<Rightarrow> Inl (no_metadata key) | Some loc \<Rightarrow> Inr loc, s')"
      "inv s'" "view s' = view (co_metadata c)" using look [OF assms(1)] .
  have ver: "(case case view (co_metadata c) key of None \<Rightarrow> Inl (no_metadata key) | Some loc \<Rightarrow> Inr loc of
      Inl _ \<Rightarrow> 1 | Inr loc \<Rightarrow> u64_add (ol_version loc) 1) = ?ver" by (simp add: next_version_def split: option.split)
  let ?call = "\<lambda>i addr s. let (r, s) = Client_Put (envs i) addr key data ?ver s in (sor_ok r, s)"
  obtain oks ns1 where fo: "fan_out ?call False (\<lambda>i. ClientFor i c) 0 R ns = (oks, ns1)" by fastforce
  have nth: "case ClientFor (R ! j) c of None \<Rightarrow> oks ! j = False | Some a \<Rightarrow> ?call j a (ns a) = (oks ! j, ns1 a)" if "j < length R" for j
    using fan_out_nth [OF fo _ that] placement_distinct [OF assms(1), of key "replication_factor (co_opts c)"] assms(2)
    unfolding own_addresses_def assms(6) [symmetric] add_0 by blast
  have bad: "\<not> oks ! j" if "j < length R" "j \<notin> G" for j
    using nth [OF that(1)] Client_Put_lost [of "envs j"] assms(10) that by (auto simp: case_prod_unfold split: option.splits)
  have "length (acked (\<lambda>k. k) R oks) \<le> card G"
    by (rule acked_upper) (use fan_out_frame [OF fo] bad assms(8) in auto)
  then have few: "length (acked (\<lambda>k. k) R oks) < write_quorum (co_opts c)" using assms(9) by simp
  have run: "(\<exists>st. r = Inl st) \<and> ns' = ns1"
    using assms(7,11) s'(1) fo few unfolding Coordinator_Put_def Let_def assms(6) [symmetric] by (auto simp: ver)
  then show "\<exists>st. r = Inl st" by simp
  assume j: "j < length R" "ClientFor (R ! j) c = Some a" "envs j = node_good t" "wal_fd_open (ls_wal (ns a))"
  obtain r0 s0 where p: "Client_Put (node_good t) a key data ?ver (ns a) = (r0, s0)" by fastforce
  have "sor_ok r0" using Client_Put_good [OF j(4) assms(5,4), of t a data] p by simp
  then have "stored key data ?ver s0" using Client_Put_touches [OF p _ assms(4)] assms(3) by (simp add: nodes_ok_def)
  moreover have "ns1 a = s0" using nth [OF j(1)] j(2,3) p by simp
  ultimately show "stored key data ?ver (ns' a)" using run by simp
qed

end

text \<open>
  C36. A write that misses its quorum can become visible: \<open>Put\<close> of a registered key returns an error because fewer
  than \<open>write_quorum\<close> requests arrived, but if the first registered replica was among those reached, the next
  \<open>Get\<close> returns the bytes of the failed write, while \<open>Head\<close> still reports the version and checksum of the old ones.
\<close>

theorem failed_quorum_write_visible:
  assumes "repo_ok (co_metadata c)" and "own_addresses c" and "nodes_ok ns" and "key \<noteq> ''''"
    and "LookupObject key (co_metadata c) = Inr loc" and "ol_version loc + 1 < u64_size"
    and "R = Repo_PlacementFor key (replication_factor (co_opts c)) (co_metadata c)" and "write_quorum (co_opts c) \<le> length R"
    and "finite G" and "card G < write_quorum (co_opts c)" and "\<forall>j < length R. j \<notin> G \<longrightarrow> \<not> rf_arrives (ne_fate (envs j))"
    and "ol_replicas loc = R ! j # others" and "j < length R" and "ClientFor (R ! j) c = Some a" and "envs j = node_good t"
    and "wal_fd_open (ls_wal (ns a))"
    and "Coordinator_Put repo_vtable envs key data c ns = (r, c', ns')"
    and "Coordinator_Get repo_vtable (\<lambda>_. node_good t') key c' ns' = (g, c'')"
  shows "(\<exists>st. r = Inl st) \<and> g = Inr data \<and>
    (\<exists>meta c3. Coordinator_Head repo_vtable key c' = (Inr meta, c3) \<and> md_checksum meta = ol_checksum loc \<and> md_version meta = ol_version loc)"
proof -
  have view: "repo_view (co_metadata c) key = Some loc" using assms(5) by (simp add: LookupObject_view split: option.splits)
  have ver: "repo_cluster.next_version key (co_metadata c) \<noteq> 0"
    using assms(6) by (simp add: repo_cluster.next_version_def view u64_add_exact)
  have R: "R = mv_PlacementFor repo_vtable key (replication_factor (co_opts c)) (co_metadata c)" by (simp add: assms(7))
  note P = repo_cluster.Put_without_quorum [OF assms(1-3) ver assms(4) R assms(8-11,17)]
  obtain st where st: "r = Inl st" using P(1) by blast
  note N = repo_cluster.Put_nodes [OF assms(1,3) ver assms(17)]
  have view': "repo_view (co_metadata c') key = Some loc" using N(3) [OF st] view by simp
  have cl: "ClientFor (R ! j) c' = Some a" using N(2) assms(14) by (simp add: ClientFor_def)
  have held: "stored key data (repo_cluster.next_version key (co_metadata c)) (ns' a)"
    by (rule P(2) [OF assms(13,14,15,16)])
  have look: "repo_look key (co_metadata c') = (Inr loc, co_metadata c')" using view' by (simp add: repo_look_def LookupObject_view)
  have "g = Inr data"
    using assms(18) cl Client_Get_stored(1) [OF held] by (simp add: Coordinator_Get_def look assms(12))
  moreover have "\<exists>meta c3. Coordinator_Head repo_vtable key c' = (Inr meta, c3) \<and> md_checksum meta = ol_checksum loc \<and> md_version meta = ol_version loc"
    by (simp add: Coordinator_Head_def look)
  ultimately show ?thesis using st by blast
qed

definition demo_location :: ObjectLocation where
  "demo_location = \<lparr>ol_key = ''k'', ol_version = 1, ol_checksum = ''old'', ol_size = 3, ol_deleted = False,
    ol_replicas = Repo_PlacementFor ''k'' 3 demo_repo\<rparr>"

definition demo_registered :: "MetadataRepository Coordinator" where
  "demo_registered = demo_coordinator\<lparr>co_metadata := snd (RegisterObject demo_location demo_repo)\<rparr>"

theorem failed_quorum_write_visible_witness:
  "\<exists>st c2 ns2 c3 m3 c4. Coordinator_Put repo_vtable second_down ''k'' ''new'' demo_registered demo_nodes = (Inl st, c2, ns2) \<and>
    Coordinator_Get repo_vtable (\<lambda>_. node_good 0) ''k'' c2 ns2 = (Inr ''new'', c3) \<and>
    Coordinator_Head repo_vtable ''k'' c2 = (Inr m3, c4) \<and> md_checksum m3 = ''old'' \<and> md_version m3 = 1"
proof -
  let ?c = demo_registered and ?R = "Repo_PlacementFor ''k'' (replication_factor (co_opts demo_registered)) (co_metadata demo_registered)"
  have opts: "co_opts ?c = \<lparr>replication_factor = 3, write_quorum = 2\<rparr>" by (simp add: demo_registered_def demo_ok(5))
  have m: "co_metadata ?c = snd (RegisterObject demo_location demo_repo)" by (simp add: demo_registered_def)
  have ok: "repo_ok (co_metadata ?c)" unfolding m by (rule repo_ok_Register) (use demo_ok(1) in \<open>simp add: demo_ok(6)\<close>)
  have own: "own_addresses ?c" using demo_ok(2) by (simp add: demo_registered_def own_addresses_def)
  have R: "?R = Repo_PlacementFor ''k'' 3 demo_repo"
    by (simp add: opts m RegisterObject_def Repo_PlacementFor_def)
  have two: "?R = [''a'', ''b''] \<or> ?R = [''b'', ''a'']" using demo_placement [of "''k''"] unfolding R by simp
  then have len: "length ?R = 2" by (elim disjE) simp_all
  have reps: "ol_replicas demo_location = ?R ! 0 # tl ?R" using two unfolding R by (elim disjE) (simp_all add: demo_location_def)
  obtain a where a: "ClientFor (?R ! 0) ?c = Some a" using two demo_clients by (elim disjE) (auto simp: demo_registered_def)
  have loc: "LookupObject ''k'' (co_metadata ?c) = Inr demo_location"
    by (simp add: m RegisterObject_def LookupObject_def demo_repo_def demo_location_def om_find_def)
  obtain r c2 ns2 where p: "Coordinator_Put repo_vtable second_down ''k'' ''new'' ?c demo_nodes = (r, c2, ns2)" by (metis surj_pair)
  obtain g c3 where g: "Coordinator_Get repo_vtable (\<lambda>_. node_good 0) ''k'' c2 ns2 = (g, c3)" by fastforce
  have h: "''k'' \<noteq> ''''" "ol_version demo_location + 1 < u64_size" "write_quorum (co_opts ?c) \<le> length ?R" "finite {0 :: nat}"
      "card {0 :: nat} < write_quorum (co_opts ?c)" "\<forall>j < length ?R. j \<notin> {0} \<longrightarrow> \<not> rf_arrives (ne_fate (second_down j))" "0 < length ?R"
      "second_down 0 = node_good 0"
    unfolding len by (simp_all add: opts demo_location_def second_down_def)
  have "(\<exists>st. r = Inl st) \<and> g = Inr ''new'' \<and> (\<exists>meta c3. Coordinator_Head repo_vtable ''k'' c2 = (Inr meta, c3) \<and>
      md_checksum meta = ol_checksum demo_location \<and> md_version meta = ol_version demo_location)"
    by (rule failed_quorum_write_visible [OF ok own demo_ok(3) h(1) loc h(2) refl h(3-6) reps h(7) a h(8) demo_ok(7) p g])
  then show ?thesis using p g by (auto simp: demo_location_def)
qed

end
