(* ===== verification/Repairer.thy ===== *)
theory Repairer
  imports Coordinator_History
begin

text \<open>
  \<open>src/network/repairer.cc\<close>: copies to one node the objects the ring places on it and it is not registered for. The
  calls of the run are inputs: \<open>gets\<close> by object and source, \<open>puts\<close> by object.
\<close>

section \<open>Definitions\<close>

record Repair_Report =
  rp_copied :: nat
  rp_already_current :: nat
  rp_failed :: nat

definition Repair_Report_default :: Repair_Report where
  "Repair_Report_default = \<lparr>rp_copied = 0, rp_already_current = 0, rp_failed = 0\<rparr>"

record 's Repairer =
  rr_metadata :: 's
  rr_clients :: "(string, string) omap"
  rr_replication_factor :: nat

text \<open>The loop over the sources of one object: the first with checksum-valid bytes decides, and leaves the loop.\<close>

fun repair_from ::
  "(nat \<Rightarrow> node_env) \<Rightarrow> node_env \<Rightarrow> string \<Rightarrow> ObjectLocation \<Rightarrow> (string, string) omap \<Rightarrow> nat \<Rightarrow> string list \<Rightarrow> nodes \<Rightarrow> bool \<times> nodes" where
  "repair_from gets put target loc clients i [] ns = (False, ns)"
| "repair_from gets put target loc clients i (source_id # ids) ns =
    (case om_find clients source_id of
       None \<Rightarrow> repair_from gets put target loc clients (Suc i) ids ns
     | Some addr \<Rightarrow>
         (case Client_Get (gets i) addr (ol_key loc) (ns addr) of
            Inl _ \<Rightarrow> repair_from gets put target loc clients (Suc i) ids ns
          | Inr data \<Rightarrow>
              if Sha256Hex data \<noteq> ol_checksum loc then repair_from gets put target loc clients (Suc i) ids ns
              else let (r, s) = Client_Put put target (ol_key loc) data (ol_version loc) (ns target) in (sor_ok r, ns(target := s))))"

text \<open>One object: skip, already current, copied or failed.\<close>

definition repair_object ::
  "'s MetadataView \<Rightarrow> (nat \<Rightarrow> node_env) \<Rightarrow> node_env \<Rightarrow> string \<Rightarrow> string \<Rightarrow> ObjectLocation \<Rightarrow> Repair_Report \<Rightarrow> 's Repairer \<Rightarrow> nodes
    \<Rightarrow> Repair_Report \<times> 's Repairer \<times> nodes" where
  "repair_object v gets put target_node_id target loc report r ns =
    (if target_node_id \<notin> set (mv_PlacementFor v (ol_key loc) (rr_replication_factor r) (rr_metadata r)) then (report, r, ns)
     else if target_node_id \<in> set (ol_replicas loc) then (report\<lparr>rp_already_current := rp_already_current report + 1\<rparr>, r, ns)
     else let (repaired, ns) = repair_from gets put target loc (rr_clients r) 0 (ol_replicas loc) ns
          in if repaired
             then (report\<lparr>rp_copied := rp_copied report + 1\<rparr>,
                   r\<lparr>rr_metadata := snd (mv_RegisterObject v (loc\<lparr>ol_replicas := ol_replicas loc @ [target_node_id]\<rparr>) (rr_metadata r))\<rparr>, ns)
             else (report\<lparr>rp_failed := rp_failed report + 1\<rparr>, r, ns))"

fun repair_loop ::
  "'s MetadataView \<Rightarrow> (nat \<Rightarrow> nat \<Rightarrow> node_env) \<Rightarrow> (nat \<Rightarrow> node_env) \<Rightarrow> string \<Rightarrow> string \<Rightarrow> nat \<Rightarrow> ObjectLocation list \<Rightarrow> Repair_Report \<Rightarrow> 's Repairer
    \<Rightarrow> nodes \<Rightarrow> Repair_Report \<times> 's Repairer \<times> nodes" where
  "repair_loop v gets puts target_node_id target i [] report r ns = (report, r, ns)"
| "repair_loop v gets puts target_node_id target i (loc # locs) report r ns =
    (let (report, r, ns) = repair_object v (gets i) (puts i) target_node_id target loc report r ns
     in repair_loop v gets puts target_node_id target (Suc i) locs report r ns)"

definition RepairNode ::
  "'s MetadataView \<Rightarrow> (nat \<Rightarrow> nat \<Rightarrow> node_env) \<Rightarrow> (nat \<Rightarrow> node_env) \<Rightarrow> string \<Rightarrow> 's Repairer \<Rightarrow> nodes \<Rightarrow> Repair_Report StatusOr \<times> 's Repairer \<times> nodes" where
  "RepairNode v gets puts target_node_id r ns =
    (case om_find (rr_clients r) target_node_id of
       None \<Rightarrow> (Inl (InvalidArgument (''unknown target node: '' @ target_node_id)), r, ns)
     | Some target \<Rightarrow>
         (case mv_ListObjects v '''' (rr_metadata r) of
            Inl st \<Rightarrow> (Inl st, r, ns)
          | Inr objects \<Rightarrow>
              let (report, r, ns) = repair_loop v gets puts target_node_id target 0 objects Repair_Report_default r ns
              in (Inr report, r, ns)))"

section \<open>One object\<close>

lemma repair_from_result:
  assumes "repair_from gets put target loc clients i ids ns = (repaired, ns')" and "nodes_ok ns" and "ol_version loc \<noteq> 0"
  shows "nodes_ok ns'" and "a \<noteq> target \<Longrightarrow> ns' a = ns a"
    and "touches (ol_key loc) (ns target) (ns' target)"
    and "repaired \<Longrightarrow> \<exists>data. Sha256Hex data = ol_checksum loc \<and> stored (ol_key loc) data (ol_version loc) (ns' target)"
proof -
  have "nodes_ok ns' \<and> (\<forall>a. a \<noteq> target \<longrightarrow> ns' a = ns a) \<and> touches (ol_key loc) (ns target) (ns' target) \<and>
      (repaired \<longrightarrow> (\<exists>data. Sha256Hex data = ol_checksum loc \<and> stored (ol_key loc) data (ol_version loc) (ns' target)))"
    using assms(1,2)
  proof (induction ids arbitrary: i)
    case Nil
    then show ?case using touches_refl by (auto simp: nodes_ok_def)
  next
    case (Cons x ids)
    show ?case
    proof (cases "\<exists>addr data. om_find clients x = Some addr \<and> Client_Get (gets i) addr (ol_key loc) (ns addr) = Inr data \<and> Sha256Hex data = ol_checksum loc")
      case True
      then obtain addr data where t: "om_find clients x = Some addr" "Client_Get (gets i) addr (ol_key loc) (ns addr) = Inr data"
          "Sha256Hex data = ol_checksum loc" by blast
      obtain r s where p: "Client_Put put target (ol_key loc) data (ol_version loc) (ns target) = (r, s)" by fastforce
      have T: "touches (ol_key loc) (ns target) s \<and> (sor_ok r \<longrightarrow> stored (ol_key loc) data (ol_version loc) s)"
        by (rule Client_Put_touches [OF p _ assms(3)]) (use Cons.prems(2) in \<open>simp add: nodes_ok_def\<close>)
      have "repaired = sor_ok r" "ns' = ns(target := s)" using Cons.prems(1) t p by simp_all
      then show ?thesis using T t(3) Cons.prems(2) by (auto simp: nodes_ok_def touches_def)
    next
      case False
      then have "repair_from gets put target loc clients (Suc i) ids ns = (repaired, ns')"
        using Cons.prems(1) by (auto split: option.splits sum.splits if_splits)
      from Cons.IH [OF this Cons.prems(2)] show ?thesis .
    qed
  qed
  then show "nodes_ok ns'" "a \<noteq> target \<Longrightarrow> ns' a = ns a" "touches (ol_key loc) (ns target) (ns' target)"
    "repaired \<Longrightarrow> \<exists>data. Sha256Hex data = ol_checksum loc \<and> stored (ol_key loc) data (ol_version loc) (ns' target)" by blast+
qed

lemma PutWithVersion_fd:
  assumes "PutWithVersion env key data v s = (r, s')"
  shows "wal_fd_open (ls_wal s') = wal_fd_open (ls_wal s)"
proof -
  have A: "wal_fd_open w' = wal_fd_open w" if "AppendRecord e rec w = (st, w')" for e rec w st w'
    using that by (auto simp: AppendRecord_def split: if_splits prod.splits option.splits)
  have "wal_fd_open (ls_wal s2) = wal_fd_open (ls_wal s1)" if "Local_WriteFileAtomic e p data s1 = (st, s2)" for e p s1 st s2
    using that by (auto simp: Local_WriteFileAtomic_def split: option.splits prod.splits)
  moreover have "wal_fd_open (ls_wal s2) = wal_fd_open (ls_wal s1)" if "DoPut_commit env seq meta s1 = (r, s2)" for seq meta s1 s2
    using that A by (auto simp: DoPut_commit_def torn_append_def AppendCommit_def Let_def prod_eq_iff split: prod.splits if_splits option.splits crash_point.splits)
  ultimately have W: "wal_fd_open (ls_wal s') = wal_fd_open (ls_wal s)" if "DoPut_write env data meta s = (r, s')" for meta
    using that A by (auto simp: DoPut_write_def NextSeq_def AppendBegin_def torn_append_def Let_def
        split: prod.splits if_splits option.splits crash_point.splits)
  show ?thesis
    using assms W by (auto simp: PutWithVersion_def DoPut_def DoPut_versioned_def Let_def split: if_splits sum.splits)
qed

lemma Client_Put_fd:
  assumes "Client_Put env address key data v s = (r, s')" and "v \<noteq> 0"
  shows "wal_fd_open (ls_wal s') = wal_fd_open (ls_wal s)"
proof -
  obtain r0 s0 where p: "PutWithVersion (ne_put env) key data v s = (r0, s0)" by fastforce
  have "s' = s \<or> s' = s0"
    using assms p
    by (auto simp: Client_Put_def Client_put_call_def rpc_call_def Node_Put_def rpc_PutRequest_default_def split: if_splits option.splits)
  then show ?thesis using PutWithVersion_fd [OF p] by auto
qed

section \<open>A run\<close>

definition placed_on :: "'s MetadataView \<Rightarrow> string \<Rightarrow> 's Repairer \<Rightarrow> ObjectLocation \<Rightarrow> bool" where
  "placed_on v target_node_id r loc \<longleftrightarrow> target_node_id \<in> set (mv_PlacementFor v (ol_key loc) (rr_replication_factor r) (rr_metadata r))"

definition with_replica :: "string \<Rightarrow> ObjectLocation \<Rightarrow> ObjectLocation" where
  "with_replica x loc = loc\<lparr>ol_replicas := ol_replicas loc @ [x]\<rparr>"

lemma with_replica_simps [simp]: "ol_key (with_replica x loc) = ol_key loc" "ol_deleted (with_replica x loc) = ol_deleted loc"
    "with_replica x loc \<noteq> loc" "loc \<noteq> with_replica x loc"
proof -
  have "ol_replicas (with_replica x loc) \<noteq> ol_replicas loc" by (simp add: with_replica_def)
  then show "with_replica x loc \<noteq> loc" "loc \<noteq> with_replica x loc" by metis+
qed (simp_all add: with_replica_def)

context replicated_view
begin

definition rep_frame :: "string \<Rightarrow> 's Repairer \<Rightarrow> nodes \<Rightarrow> 's Repairer \<Rightarrow> nodes \<Rightarrow> bool" where
  "rep_frame target r ns r' ns' \<longleftrightarrow> inv (rr_metadata r') \<and> nodes_ok ns' \<and> rr_clients r' = rr_clients r \<and>
    rr_replication_factor r' = rr_replication_factor r \<and> (\<forall>a. a \<noteq> target \<longrightarrow> ns' a = ns a) \<and>
    (\<forall>x loc. placed_on v x r' loc = placed_on v x r loc)"

definition copied_to :: "string \<Rightarrow> string \<Rightarrow> 's Repairer \<Rightarrow> nodes \<Rightarrow> ObjectLocation \<Rightarrow> bool" where
  "copied_to target_node_id target r' ns' loc \<longleftrightarrow> target_node_id \<notin> set (ol_replicas loc) \<and>
    view (rr_metadata r') (ol_key loc) = Some (with_replica target_node_id loc) \<and>
    (\<exists>data. Sha256Hex data = ol_checksum loc \<and> stored (ol_key loc) data (ol_version loc) (ns' target))"

lemma repair_object_spec:
  assumes "inv (rr_metadata r)" and "nodes_ok ns" and "view (rr_metadata r) (ol_key loc) = Some loc" and "ol_version loc \<noteq> 0"
    and "repair_object v gets put x target loc report r ns = (report', r', ns')"
  shows "rep_frame target r ns r' ns'" and "touches (ol_key loc) (ns target) (ns' target)"
    and "\<not> placed_on v x r loc \<and> rr_metadata r' = rr_metadata r \<and> report' = report \<or>
      placed_on v x r loc \<and> x \<in> set (ol_replicas loc) \<and> rr_metadata r' = rr_metadata r \<and>
        report' = report\<lparr>rp_already_current := rp_already_current report + 1\<rparr> \<or>
      placed_on v x r loc \<and> x \<notin> set (ol_replicas loc) \<and> rr_metadata r' = rr_metadata r \<and> report' = report\<lparr>rp_failed := rp_failed report + 1\<rparr> \<or>
      placed_on v x r loc \<and> copied_to x target r' ns' loc \<and>
        view (rr_metadata r') = (view (rr_metadata r))(ol_key loc \<mapsto> with_replica x loc) \<and> report' = report\<lparr>rp_copied := rp_copied report + 1\<rparr>"
proof -
  obtain repaired ns1 where f: "repair_from gets put target loc (rr_clients r) 0 (ol_replicas loc) ns = (repaired, ns1)" by fastforce
  note F = repair_from_result [OF f assms(2,4)]
  let ?m = "snd (mv_RegisterObject v (with_replica x loc) (rr_metadata r))"
  have live: "\<not> ol_deleted (with_replica x loc)" using view_live [OF assms(1,3)] by simp
  obtain st m where m: "mv_RegisterObject v (with_replica x loc) (rr_metadata r) = (st, m)" by fastforce
  have M: "inv m" "view m = (view (rr_metadata r))(ol_key loc \<mapsto> with_replica x loc)"
    using register_ok [OF assms(1) live m] by simp_all
  have P: "mv_PlacementFor v key rf m = mv_PlacementFor v key rf (rr_metadata r)" for key rf
    using placement_register [OF assms(1) live] m by simp
  have refl: "rep_frame target r ns r ns" using assms(1,2) by (simp add: rep_frame_def)
  have step: "rep_frame target r ns r ns1" using F(1,2) assms(1) by (simp add: rep_frame_def)
  have reg: "rep_frame target r ns (r\<lparr>rr_metadata := m\<rparr>) ns1" using F(1,2) M(1) P by (simp add: rep_frame_def placed_on_def)
  have run: "\<not> placed_on v x r loc \<and> (report', r', ns') = (report, r, ns) \<or>
      placed_on v x r loc \<and> x \<in> set (ol_replicas loc) \<and> (report', r', ns') = (report\<lparr>rp_already_current := rp_already_current report + 1\<rparr>, r, ns) \<or>
      placed_on v x r loc \<and> x \<notin> set (ol_replicas loc) \<and> (report', r', ns') = (report\<lparr>rp_failed := rp_failed report + 1\<rparr>, r, ns1) \<or>
      placed_on v x r loc \<and> x \<notin> set (ol_replicas loc) \<and> repaired \<and> (report', r', ns') = (report\<lparr>rp_copied := rp_copied report + 1\<rparr>, r\<lparr>rr_metadata := m\<rparr>, ns1)"
    using assms(5) f m by (simp add: repair_object_def placed_on_def with_replica_def split: if_splits)
  show "rep_frame target r ns r' ns'" using run refl step reg by auto
  show "touches (ol_key loc) (ns target) (ns' target)" using run F(3) touches_refl assms(2) by (auto simp: nodes_ok_def)
  show "\<not> placed_on v x r loc \<and> rr_metadata r' = rr_metadata r \<and> report' = report \<or>
      placed_on v x r loc \<and> x \<in> set (ol_replicas loc) \<and> rr_metadata r' = rr_metadata r \<and>
        report' = report\<lparr>rp_already_current := rp_already_current report + 1\<rparr> \<or>
      placed_on v x r loc \<and> x \<notin> set (ol_replicas loc) \<and> rr_metadata r' = rr_metadata r \<and> report' = report\<lparr>rp_failed := rp_failed report + 1\<rparr> \<or>
      placed_on v x r loc \<and> copied_to x target r' ns' loc \<and>
        view (rr_metadata r') = (view (rr_metadata r))(ol_key loc \<mapsto> with_replica x loc) \<and> report' = report\<lparr>rp_copied := rp_copied report + 1\<rparr>"
    using run F(4) M(2) by (auto simp: copied_to_def)
qed

end

context replicated_view
begin

lemma rep_frame_trans: "rep_frame target r ns r1 ns1 \<Longrightarrow> rep_frame target r1 ns1 r2 ns2 \<Longrightarrow> rep_frame target r ns r2 ns2"
  by (simp add: rep_frame_def)

lemma repair_loop_spec:
  assumes "repair_loop v gets puts x target i locs report r ns = (report', r', ns')"
    and "inv (rr_metadata r)" and "nodes_ok ns"
    and "\<forall>loc \<in> set locs. view (rr_metadata r) (ol_key loc) = Some loc \<and> ol_version loc \<noteq> 0"
    and "distinct (map ol_key locs)" and "inj_on KeyDigest (ol_key ` set locs)"
  shows "rep_frame target r ns r' ns'"
    and "k \<notin> ol_key ` set locs \<Longrightarrow> view (rr_metadata r') k = view (rr_metadata r) k"
    and "KeyDigest k \<notin> KeyDigest ` ol_key ` set locs \<Longrightarrow> stored k data w (ns target) \<Longrightarrow> stored k data w (ns' target)"
    and "loc \<in> set locs \<Longrightarrow> view (rr_metadata r') (ol_key loc) = Some loc \<or> placed_on v x r loc \<and> copied_to x target r' ns' loc"
    and "rp_copied report' = rp_copied report + length (filter (\<lambda>loc. view (rr_metadata r') (ol_key loc) \<noteq> Some loc) locs)"
    and "rp_copied report' + rp_already_current report' + rp_failed report' =
      rp_copied report + rp_already_current report + rp_failed report + length (filter (placed_on v x r) locs)"
proof -
  have "rep_frame target r ns r' ns' \<and>
    (\<forall>k. k \<notin> ol_key ` set locs \<longrightarrow> view (rr_metadata r') k = view (rr_metadata r) k) \<and>
    (\<forall>k data w. KeyDigest k \<notin> KeyDigest ` ol_key ` set locs \<longrightarrow> stored k data w (ns target) \<longrightarrow> stored k data w (ns' target)) \<and>
    (\<forall>loc \<in> set locs. view (rr_metadata r') (ol_key loc) = Some loc \<or> placed_on v x r loc \<and> copied_to x target r' ns' loc) \<and>
    rp_copied report' = rp_copied report + length (filter (\<lambda>loc. view (rr_metadata r') (ol_key loc) \<noteq> Some loc) locs) \<and>
    rp_copied report' + rp_already_current report' + rp_failed report' =
      rp_copied report + rp_already_current report + rp_failed report + length (filter (placed_on v x r) locs)"
    using assms
  proof (induction locs arbitrary: i report r ns)
    case Nil
    then show ?case by (simp add: rep_frame_def)
  next
    case (Cons loc locs)
    obtain report1 r1 ns1 where o: "repair_object v (gets i) (puts i) x target loc report r ns = (report1, r1, ns1)" by (metis surj_pair)
    have rest: "repair_loop v gets puts x target (Suc i) locs report1 r1 ns1 = (report', r', ns')" using Cons.prems(1) o by simp
    have l: "view (rr_metadata r) (ol_key loc) = Some loc" "ol_version loc \<noteq> 0" using Cons.prems(4) by simp_all
    note S = repair_object_spec [OF Cons.prems(2,3) l o]
    have F: "inv (rr_metadata r1)" "nodes_ok ns1" "placed_on v x r1 = placed_on v x r" using S(1) by (auto simp: rep_frame_def)
    have key: "ol_key loc \<notin> ol_key ` set locs" using Cons.prems(5) by auto
    have other: "view (rr_metadata r1) k = view (rr_metadata r) k" if "k \<noteq> ol_key loc" for k using S(3) that by auto
    have listed: "\<forall>l \<in> set locs. view (rr_metadata r1) (ol_key l) = Some l \<and> ol_version l \<noteq> 0"
      using Cons.prems(4) other key by (metis image_eqI list.set_intros(2))
    have d: "distinct (map ol_key locs)" "inj_on KeyDigest (ol_key ` set locs)" using Cons.prems(5,6) by (auto intro: inj_on_subset)
    note IH = Cons.IH [OF rest F(1,2) listed d]
    have digest: "KeyDigest (ol_key loc) \<notin> KeyDigest ` ol_key ` set locs"
      using Cons.prems(6) key by (auto dest: inj_onD)
    have keep: "stored k data w (ns' target)" if "KeyDigest k \<notin> KeyDigest ` ol_key ` set (loc # locs)" "stored k data w (ns target)" for k data w
    proof -
      have "stored k data w (ns1 target)" by (rule stored_frame [OF that(2) S(2)]) (use that(1) in auto)
      then show ?thesis using IH that(1) by auto
    qed
    have v': "view (rr_metadata r') (ol_key loc) = view (rr_metadata r1) (ol_key loc)" using IH key by blast
    have this_one: "view (rr_metadata r') (ol_key loc) = Some loc \<or> placed_on v x r loc \<and> copied_to x target r' ns' loc"
      using S(3) l(1) v' IH digest by (auto simp: copied_to_def)
    have changed: "view (rr_metadata r') (ol_key loc) \<noteq> Some loc \<longleftrightarrow> view (rr_metadata r1) (ol_key loc) \<noteq> Some loc" using v' by simp
    have c1: "rp_copied report1 = rp_copied report + (if view (rr_metadata r1) (ol_key loc) \<noteq> Some loc then 1 else 0)"
        "rp_copied report1 + rp_already_current report1 + rp_failed report1 =
          rp_copied report + rp_already_current report + rp_failed report + (if placed_on v x r loc then 1 else 0)"
      using S(3) l(1) by auto
    show ?case
    proof (intro conjI allI impI ballI)
      show "rep_frame target r ns r' ns'" using rep_frame_trans [OF S(1)] IH by blast
      show "view (rr_metadata r') k = view (rr_metadata r) k" if "k \<notin> ol_key ` set (loc # locs)" for k using IH other that by auto
      show "stored k data w (ns' target)" if "KeyDigest k \<notin> KeyDigest ` ol_key ` set (loc # locs)" "stored k data w (ns target)" for k data w
        by (rule keep [OF that])
      show "view (rr_metadata r') (ol_key l) = Some l \<or> placed_on v x r l \<and> copied_to x target r' ns' l" if "l \<in> set (loc # locs)" for l
        using that this_one IH F(3) by auto
      show "rp_copied report' = rp_copied report + length (filter (\<lambda>loc. view (rr_metadata r') (ol_key loc) \<noteq> Some loc) (loc # locs))"
        using IH c1(1) changed by auto
      show "rp_copied report' + rp_already_current report' + rp_failed report' =
          rp_copied report + rp_already_current report + rp_failed report + length (filter (placed_on v x r) (loc # locs))"
        using IH c1(2) F(3) by auto
    qed
  qed
  then show "rep_frame target r ns r' ns'"
    and "k \<notin> ol_key ` set locs \<Longrightarrow> view (rr_metadata r') k = view (rr_metadata r) k"
    and "KeyDigest k \<notin> KeyDigest ` ol_key ` set locs \<Longrightarrow> stored k data w (ns target) \<Longrightarrow> stored k data w (ns' target)"
    and "loc \<in> set locs \<Longrightarrow> view (rr_metadata r') (ol_key loc) = Some loc \<or> placed_on v x r loc \<and> copied_to x target r' ns' loc"
    and "rp_copied report' = rp_copied report + length (filter (\<lambda>loc. view (rr_metadata r') (ol_key loc) \<noteq> Some loc) locs)"
    and "rp_copied report' + rp_already_current report' + rp_failed report' =
      rp_copied report + rp_already_current report + rp_failed report + length (filter (placed_on v x r) locs)" by blast+
qed

end

section \<open>Enough sources\<close>

definition has_source :: "(string, string) omap \<Rightarrow> string \<Rightarrow> nodes \<Rightarrow> ObjectLocation \<Rightarrow> bool" where
  "has_source clients target ns loc \<longleftrightarrow> (\<exists>x \<in> set (ol_replicas loc). \<exists>addr data w. om_find clients x = Some addr \<and> addr \<noteq> target \<and>
    stored (ol_key loc) data w (ns addr) \<and> Sha256Hex data = ol_checksum loc)"

lemma repair_from_fd:
  assumes "repair_from gets put target loc clients i ids ns = (repaired, ns')" and "ol_version loc \<noteq> 0"
  shows "wal_fd_open (ls_wal (ns' target)) = wal_fd_open (ls_wal (ns target))"
  using assms(1)
  by (induction ids arbitrary: i) (auto dest: Client_Put_fd [OF _ assms(2)] split: option.splits sum.splits if_splits prod.splits)

lemma repair_from_good:
  assumes "\<exists>x \<in> set ids. \<exists>addr data w. om_find clients x = Some addr \<and> stored (ol_key loc) data w (ns addr) \<and> Sha256Hex data = ol_checksum loc"
    and "\<forall>j. \<exists>t. gets j = node_good t" and "\<exists>t. put = node_good t" and "wal_fd_open (ls_wal (ns target))"
    and "ol_key loc \<noteq> ''''" and "ol_version loc \<noteq> 0"
  shows "fst (repair_from gets put target loc clients i ids ns)"
  using assms(1)
proof (induction ids arbitrary: i)
  case (Cons x ids)
  have good: "sor_ok (fst (Client_Put put target (ol_key loc) data (ol_version loc) (ns target)))" for data
    using assms(3) Client_Put_good [OF assms(4-6)] by auto
  obtain t where t: "gets i = node_good t" using assms(2) by blast
  show ?case
  proof (cases "\<exists>addr data w. om_find clients x = Some addr \<and> stored (ol_key loc) data w (ns addr) \<and> Sha256Hex data = ol_checksum loc")
    case True
    then show ?thesis using good by (auto simp: t Client_Get_stored(1) case_prod_unfold)
  next
    case False
    with Cons.prems have "\<exists>x \<in> set ids. \<exists>addr data w. om_find clients x = Some addr \<and> stored (ol_key loc) data w (ns addr) \<and>
        Sha256Hex data = ol_checksum loc" by (metis set_ConsD)
    then have "fst (repair_from gets put target loc clients (Suc i) ids ns)" by (rule Cons.IH)
    then show ?thesis using good by (auto simp: case_prod_unfold split: option.split sum.split)
  qed
qed simp

context replicated_view
begin

lemma repair_object_good:
  assumes "repair_object v gets put x target loc report r ns = (report', r', ns')" and "ol_version loc \<noteq> 0"
  shows "wal_fd_open (ls_wal (ns' target)) = wal_fd_open (ls_wal (ns target))"
    and "\<lbrakk>x \<notin> set (ol_replicas loc) \<longrightarrow> has_source (rr_clients r) target ns loc; \<forall>j. \<exists>t. gets j = node_good t; \<exists>t. put = node_good t;
      wal_fd_open (ls_wal (ns target)); ol_key loc \<noteq> ''''\<rbrakk> \<Longrightarrow> rp_failed report' = rp_failed report"
proof -
  obtain repaired ns1 where f: "repair_from gets put target loc (rr_clients r) 0 (ol_replicas loc) ns = (repaired, ns1)" by fastforce
  show "wal_fd_open (ls_wal (ns' target)) = wal_fd_open (ls_wal (ns target))"
    using assms(1) f repair_from_fd [OF f assms(2)] by (auto simp: repair_object_def split: if_splits)
  assume h: "x \<notin> set (ol_replicas loc) \<longrightarrow> has_source (rr_clients r) target ns loc" "\<forall>j. \<exists>t. gets j = node_good t" "\<exists>t. put = node_good t"
      "wal_fd_open (ls_wal (ns target))" "ol_key loc \<noteq> ''''"
  have "repaired" if "x \<notin> set (ol_replicas loc)"
  proof -
    have "\<exists>x \<in> set (ol_replicas loc). \<exists>addr data w. om_find (rr_clients r) x = Some addr \<and> stored (ol_key loc) data w (ns addr) \<and>
        Sha256Hex data = ol_checksum loc" using h(1) that unfolding has_source_def by blast
    from repair_from_good [OF this h(2-5) assms(2), of 0] show ?thesis using f by simp
  qed
  then show "rp_failed report' = rp_failed report" using assms(1) f by (auto simp: repair_object_def split: if_splits)
qed

lemma repair_loop_good:
  assumes "repair_loop v gets puts x target i locs report r ns = (report', r', ns')"
    and "inv (rr_metadata r)" and "nodes_ok ns"
    and "\<forall>loc \<in> set locs. view (rr_metadata r) (ol_key loc) = Some loc \<and> ol_version loc \<noteq> 0 \<and> ol_key loc \<noteq> '''' \<and>
      (x \<notin> set (ol_replicas loc) \<longrightarrow> has_source (rr_clients r) target ns loc)"
    and "distinct (map ol_key locs)" and "inj_on KeyDigest (ol_key ` set locs)"
    and "\<forall>i j. \<exists>t. gets i j = node_good t" and "\<forall>i. \<exists>t. puts i = node_good t" and "wal_fd_open (ls_wal (ns target))"
  shows "rp_failed report' = rp_failed report \<and>
    (\<forall>loc \<in> set locs. placed_on v x r loc \<longrightarrow> (\<exists>loc'. view (rr_metadata r') (ol_key loc) = Some loc' \<and> x \<in> set (ol_replicas loc')))"
  using assms
proof (induction locs arbitrary: i report r ns)
  case (Cons loc locs)
  obtain report1 r1 ns1 where o: "repair_object v (gets i) (puts i) x target loc report r ns = (report1, r1, ns1)" by (metis surj_pair)
  have rest: "repair_loop v gets puts x target (Suc i) locs report1 r1 ns1 = (report', r', ns')" using Cons.prems(1) o by simp
  have l: "view (rr_metadata r) (ol_key loc) = Some loc" "ol_version loc \<noteq> 0" "ol_key loc \<noteq> ''''"
      "x \<notin> set (ol_replicas loc) \<longrightarrow> has_source (rr_clients r) target ns loc" using Cons.prems(4) by simp_all
  note S = repair_object_spec [OF Cons.prems(2,3) l(1,2) o]
  note G = repair_object_good [OF o l(2)]
  have F: "inv (rr_metadata r1)" "nodes_ok ns1" "rr_clients r1 = rr_clients r" "\<And>a. a \<noteq> target \<Longrightarrow> ns1 a = ns a"
    using S(1) by (auto simp: rep_frame_def)
  have src: "has_source (rr_clients r1) target ns1 l = has_source (rr_clients r) target ns l" for l
    unfolding has_source_def F(3) using F(4) by metis
  have key: "ol_key loc \<notin> ol_key ` set locs" using Cons.prems(5) by auto
  have same: "view (rr_metadata r1) k = view (rr_metadata r) k" if "k \<noteq> ol_key loc" for k using S(3) that by auto
  have listed: "\<forall>l \<in> set locs. view (rr_metadata r1) (ol_key l) = Some l \<and> ol_version l \<noteq> 0 \<and> ol_key l \<noteq> '''' \<and>
      (x \<notin> set (ol_replicas l) \<longrightarrow> has_source (rr_clients r1) target ns1 l)"
    using Cons.prems(4) same key by (simp add: src) (metis image_eqI)
  have d: "distinct (map ol_key locs)" "inj_on KeyDigest (ol_key ` set locs)" using Cons.prems(5,6) by (auto intro: inj_on_subset)
  have fd: "wal_fd_open (ls_wal (ns1 target))" using G(1) Cons.prems(9) by simp
  have ok: "rp_failed report1 = rp_failed report" by (rule G(2) [OF l(4) _ _ Cons.prems(9) l(3)]) (use Cons.prems(7,8) in simp_all)
  have "view (rr_metadata r') (ol_key loc) = view (rr_metadata r1) (ol_key loc)"
    by (rule repair_loop_spec(2) [OF rest F(1,2) _ d key]) (use listed in blast)
  moreover have "placed_on v x r loc \<longrightarrow> (\<exists>loc'. view (rr_metadata r1) (ol_key loc) = Some loc' \<and> x \<in> set (ol_replicas loc'))"
    using S(3) ok l(1) by (auto simp: with_replica_def)
  moreover have "placed_on v x r1 = placed_on v x r" using S(1) by (auto simp: rep_frame_def)
  ultimately show ?case using Cons.IH [OF rest F(1,2) listed d Cons.prems(7,8) fd] ok by simp
qed simp

end

section \<open>RepairNode\<close>

definition registered_keys :: "MetadataRepository \<Rightarrow> string set" where
  "registered_keys m = {key. \<exists>loc. LookupObject key m = Inr loc}"

lemma LookupObject_Inr: "LookupObject key m = Inr loc \<longleftrightarrow> repo_view m key = Some loc"
  by (simp add: LookupObject_view split: option.split)

lemma RepairNode_returns:
  assumes "repo_ok (rr_metadata r)" and "om_find (rr_clients r) x = Some target"
  shows "\<exists>report r' ns'. RepairNode repo_vtable gets puts x r ns = (Inr report, r', ns')"
  using repo_cluster.list_view [OF assms(1), of "''''"] assms(2) by (auto simp: RepairNode_def split: prod.split)

lemma RepairNode_run:
  assumes "RepairNode repo_vtable gets puts x r ns = (Inr report, r', ns')" and "repo_ok (rr_metadata r)"
    and "om_find (rr_clients r) x = Some target"
  obtains locs where "repair_loop repo_vtable gets puts x target 0 locs Repair_Report_default r ns = (report, r', ns')"
    and "distinct (map ol_key locs)" and "\<forall>loc. loc \<in> set locs \<longleftrightarrow> LookupObject (ol_key loc) (rr_metadata r) = Inr loc"
proof -
  obtain locs where l: "mv_ListObjects repo_vtable '''' (rr_metadata r) = Inr locs" "distinct (map ol_key locs)"
      "\<forall>loc. loc \<in> set locs \<longleftrightarrow> repo_view (rr_metadata r) (ol_key loc) = Some loc"
    using repo_cluster.list_view [OF assms(2), of "''''"] by auto
  have "repair_loop repo_vtable gets puts x target 0 locs Repair_Report_default r ns = (report, r', ns')"
    using assms(1,3) l(1) by (simp add: RepairNode_def split: prod.splits)
  then show ?thesis using that l(2,3) by (simp add: LookupObject_Inr)
qed

lemma repo_view_key: "repo_ok m \<Longrightarrow> repo_view m key = Some loc \<Longrightarrow> ol_key loc = key"
  by (auto simp: repo_ok_def repo_view_def live_def split: option.splits if_splits)

lemma listed_keys:
  assumes "repo_ok m" and "\<forall>loc. loc \<in> set locs \<longleftrightarrow> LookupObject (ol_key loc) m = Inr loc"
  shows "ol_key ` set locs = registered_keys m"
proof (intro set_eqI iffI)
  fix key
  assume "key \<in> registered_keys m"
  then obtain loc where k: "LookupObject key m = Inr loc" by (auto simp: registered_keys_def)
  then have "ol_key loc = key" using repo_view_key [OF assms(1)] by (simp add: LookupObject_Inr)
  with assms(2) k show "key \<in> ol_key ` set locs" by force
qed (use assms(2) in \<open>auto simp: registered_keys_def\<close>)

lemma length_filter_keys:
  assumes "distinct (map f xs)"
  shows "length (filter P xs) = card (f ` {x \<in> set xs. P x})"
proof -
  have "distinct (map f (filter P xs))" using assms by (simp add: distinct_map_filter)
  from distinct_card [OF this] show ?thesis by simp
qed

lemma repair_run_listed:
  assumes "repo_ok (rr_metadata r)" and "\<forall>key loc. LookupObject key (rr_metadata r) = Inr loc \<longrightarrow> ol_version loc \<noteq> 0"
    and "om_find (rr_clients r) x = Some target" and "RepairNode repo_vtable gets puts x r ns = (Inr report, r', ns')"
  obtains locs where "repair_loop repo_vtable gets puts x target 0 locs Repair_Report_default r ns = (report, r', ns')"
    and "distinct (map ol_key locs)" and "\<forall>loc. loc \<in> set locs \<longleftrightarrow> LookupObject (ol_key loc) (rr_metadata r) = Inr loc"
    and "ol_key ` set locs = registered_keys (rr_metadata r)"
    and "\<forall>loc \<in> set locs. repo_view (rr_metadata r) (ol_key loc) = Some loc \<and> ol_version loc \<noteq> 0"
proof -
  obtain locs where l: "repair_loop repo_vtable gets puts x target 0 locs Repair_Report_default r ns = (report, r', ns')"
      "distinct (map ol_key locs)" "\<forall>loc. loc \<in> set locs \<longleftrightarrow> LookupObject (ol_key loc) (rr_metadata r) = Inr loc"
    using RepairNode_run [OF assms(4,1,3)] .
  have "repo_view (rr_metadata r) (ol_key loc) = Some loc \<and> ol_version loc \<noteq> 0" if "loc \<in> set locs" for loc
  proof -
    have k: "LookupObject (ol_key loc) (rr_metadata r) = Inr loc" using l(3) that by blast
    then show ?thesis using assms(2) [rule_format, OF k] by (simp add: LookupObject_Inr)
  qed
  with l listed_keys [OF assms(1) l(3)] show thesis using that by blast
qed

lemma same_lookup: "LookupObject key m' = LookupObject key m \<longleftrightarrow> repo_view m' key = repo_view m key"
  by (auto simp: LookupObject_view split: option.splits)

lemma copied_lookup:
  assumes "placed_on repo_vtable x r loc" and "repo_cluster.copied_to x target r' ns' loc"
  shows "x \<notin> set (ol_replicas loc) \<and> x \<in> set (Repo_PlacementFor (ol_key loc) (rr_replication_factor r) (rr_metadata r)) \<and>
    LookupObject (ol_key loc) (rr_metadata r') = Inr (loc\<lparr>ol_replicas := ol_replicas loc @ [x]\<rparr>) \<and>
    (\<exists>data. Sha256Hex data = ol_checksum loc \<and> (\<forall>t. Client_Get (node_good t) target (ol_key loc) (ns' target) = Inr data))"
proof -
  obtain data where "Sha256Hex data = ol_checksum loc" "stored (ol_key loc) data (ol_version loc) (ns' target)"
    using assms(2) by (auto simp: repo_cluster.copied_to_def)
  then show ?thesis
    using assms Client_Get_stored(1) [of "ol_key loc" data "ol_version loc" "ns' target"]
    by (auto simp: repo_cluster.copied_to_def placed_on_def LookupObject_Inr with_replica_def)
qed

text \<open>
  C11. Repair never spreads corruption or loses an object: it writes only to the node under repair; the registration of
  every object stays what it was, or gains that node alone, and then the ring places the key on the node and the node
  serves bytes whose SHA-256 is the registered checksum. The report is exact: \<open>copied\<close> counts the registrations that
  changed, and every object placed on the node is counted once as copied, already current or failed.
\<close>

theorem repair_sound:
  assumes "repo_ok (rr_metadata r)" and "nodes_ok ns"
    and "\<forall>key loc. LookupObject key (rr_metadata r) = Inr loc \<longrightarrow> ol_version loc \<noteq> 0"
    and "inj_on KeyDigest (registered_keys (rr_metadata r))" and "om_find (rr_clients r) x = Some target"
    and "RepairNode repo_vtable gets puts x r ns = (Inr report, r', ns')"
  shows "(\<forall>a. a \<noteq> target \<longrightarrow> ns' a = ns a) \<and>
    (\<forall>key. LookupObject key (rr_metadata r') = LookupObject key (rr_metadata r) \<or>
      (\<exists>loc data. LookupObject key (rr_metadata r) = Inr loc \<and> x \<notin> set (ol_replicas loc) \<and>
        x \<in> set (Repo_PlacementFor key (rr_replication_factor r) (rr_metadata r)) \<and>
        LookupObject key (rr_metadata r') = Inr (loc\<lparr>ol_replicas := ol_replicas loc @ [x]\<rparr>) \<and>
        Sha256Hex data = ol_checksum loc \<and> (\<forall>t. Client_Get (node_good t) target key (ns' target) = Inr data))) \<and>
    rp_copied report = card {key. LookupObject key (rr_metadata r') \<noteq> LookupObject key (rr_metadata r)} \<and>
    rp_copied report + rp_already_current report + rp_failed report =
      card {key \<in> registered_keys (rr_metadata r). x \<in> set (Repo_PlacementFor key (rr_replication_factor r) (rr_metadata r))}"
proof -
  let ?m = "rr_metadata r" and ?m' = "rr_metadata r'"
  obtain locs where l: "repair_loop repo_vtable gets puts x target 0 locs Repair_Report_default r ns = (report, r', ns')"
      "distinct (map ol_key locs)" "\<forall>loc. loc \<in> set locs \<longleftrightarrow> LookupObject (ol_key loc) ?m = Inr loc"
      and keys: "ol_key ` set locs = registered_keys ?m"
      and listed: "\<forall>loc \<in> set locs. repo_view ?m (ol_key loc) = Some loc \<and> ol_version loc \<noteq> 0"
    using repair_run_listed [OF assms(1,3,5,6)] .
  note S = repo_cluster.repair_loop_spec [OF l(1) assms(1,2) listed l(2) assms(4) [folded keys]]
  have outside: "repo_view ?m' key = repo_view ?m key" if "key \<notin> registered_keys ?m" for key by (rule S(2)) (simp add: keys that)
  have one: "LookupObject key ?m' = LookupObject key ?m \<or>
      (\<exists>loc data. LookupObject key ?m = Inr loc \<and> x \<notin> set (ol_replicas loc) \<and> x \<in> set (Repo_PlacementFor key (rr_replication_factor r) ?m) \<and>
        LookupObject key ?m' = Inr (loc\<lparr>ol_replicas := ol_replicas loc @ [x]\<rparr>) \<and>
        Sha256Hex data = ol_checksum loc \<and> (\<forall>t. Client_Get (node_good t) target key (ns' target) = Inr data))" for key
  proof (cases "key \<in> registered_keys ?m")
    case True
    then obtain loc where loc: "loc \<in> set locs" "ol_key loc = key" unfolding keys [symmetric] by (elim imageE) simp
    have k: "LookupObject key ?m = Inr loc" "repo_view ?m key = Some loc" using l(3) listed loc by auto
    show ?thesis using S(4) [OF loc(1)] copied_lookup [of x r loc target r' ns'] k unfolding loc(2) same_lookup by metis
  qed (simp add: same_lookup outside)
  have "{key. LookupObject key ?m' \<noteq> LookupObject key ?m} = {key \<in> ol_key ` set locs. repo_view ?m' key \<noteq> repo_view ?m key}"
    unfolding keys same_lookup using outside by blast
  also have "\<dots> = ol_key ` {loc \<in> set locs. repo_view ?m' (ol_key loc) \<noteq> Some loc}" using listed by auto
  finally have copied: "rp_copied report = card {key. LookupObject key ?m' \<noteq> LookupObject key ?m}"
    using S(5) length_filter_keys [OF l(2)] by (simp add: Repair_Report_default_def)
  have "{key \<in> registered_keys ?m. x \<in> set (Repo_PlacementFor key (rr_replication_factor r) ?m)} = ol_key ` {loc \<in> set locs. placed_on repo_vtable x r loc}"
    using keys by (auto simp: placed_on_def)
  then have total: "rp_copied report + rp_already_current report + rp_failed report =
      card {key \<in> registered_keys ?m. x \<in> set (Repo_PlacementFor key (rr_replication_factor r) ?m)}"
    using S(6) length_filter_keys [OF l(2)] by (simp add: Repair_Report_default_def)
  have frame: "ns' a = ns a" if "a \<noteq> target" for a using S(1) that by (simp add: repo_cluster.rep_frame_def)
  show ?thesis by (intro conjI allI impI frame one copied total)
qed

text \<open>One object, on node \<open>a\<close> alone, and node \<open>b\<close> under repair.\<close>

definition repair_location :: ObjectLocation where
  "repair_location = \<lparr>ol_key = ''k'', ol_version = 1, ol_checksum = Sha256Hex ''v'', ol_size = 1, ol_deleted = False, ol_replicas = [''a'']\<rparr>"

definition demo_repairer :: "MetadataRepository Repairer" where
  "demo_repairer = \<lparr>rr_metadata = snd (RegisterObject repair_location demo_repo), rr_clients = [(''a'', ''host-a''), (''b'', ''host-b'')],
    rr_replication_factor = 3\<rparr>"

definition one_copy :: nodes where
  "one_copy = demo_nodes(''host-a'' := snd (Client_Put (node_good 0) ''host-a'' ''k'' ''v'' 1 empty_store))"

lemma demo_repairer_ok:
  shows "repo_ok (rr_metadata demo_repairer)" "nodes_ok one_copy" "wal_fd_open (ls_wal (one_copy ''host-b''))"
    "LookupObject key (rr_metadata demo_repairer) = Inr loc \<longleftrightarrow> key = ''k'' \<and> loc = repair_location"
    "om_find (rr_clients demo_repairer) ''b'' = Some ''host-b''" "has_source (rr_clients demo_repairer) ''host-b'' one_copy repair_location"
    "''b'' \<in> set (Repo_PlacementFor key (rr_replication_factor demo_repairer) (rr_metadata demo_repairer))"
proof -
  show "repo_ok (rr_metadata demo_repairer)"
    using repo_ok_Register [of demo_repo repair_location] demo_ok(1) by (simp add: demo_ok(6) demo_repairer_def)
  obtain r s where p: "Client_Put (node_good 0) ''host-a'' ''k'' ''v'' 1 empty_store = (r, s)" by fastforce
  have e: "om_ok (ls_meta empty_store)" "wal_fd_open (ls_wal empty_store)"
    using store_okD(1) [OF store_ok_empty] store_ok_fd [OF store_ok_empty] by simp_all
  have "sor_ok r" using Client_Put_good [OF e(2), of "''k''" 1 0 "''host-a''" "''v''"] p by simp
  then have s: "stored ''k'' ''v'' 1 s" "om_ok (ls_meta s)"
    using Client_Put_touches [OF p e(1)] by (simp_all add: touches_def)
  show "nodes_ok one_copy" using demo_ok(3) s(2) p by (simp add: nodes_ok_def one_copy_def)
  show "wal_fd_open (ls_wal (one_copy ''host-b''))" using demo_ok(7) by (simp add: one_copy_def)
  show "om_find (rr_clients demo_repairer) ''b'' = Some ''host-b''" by (simp add: demo_repairer_def om_find_def)
  show "has_source (rr_clients demo_repairer) ''host-b'' one_copy repair_location"
    using s(1) p by (auto simp: has_source_def repair_location_def demo_repairer_def om_find_def one_copy_def)
  show "LookupObject key (rr_metadata demo_repairer) = Inr loc \<longleftrightarrow> key = ''k'' \<and> loc = repair_location"
    by (auto simp: LookupObject_def demo_repairer_def RegisterObject_def demo_repo_def repair_location_def om_find_def)
  have "Repo_PlacementFor key 3 (rr_metadata demo_repairer) = Repo_PlacementFor key 3 demo_repo"
    by (simp add: demo_repairer_def RegisterObject_def Repo_PlacementFor_def)
  then show "''b'' \<in> set (Repo_PlacementFor key (rr_replication_factor demo_repairer) (rr_metadata demo_repairer))"
    using demo_placement [of key] by (auto simp: demo_repairer_def)
qed

lemma demo_registered_keys: "registered_keys (rr_metadata demo_repairer) = {''k''}"
  by (simp add: registered_keys_def demo_repairer_ok(4))

theorem repair_sound_witness:
  "\<exists>report r' ns'. RepairNode repo_vtable (\<lambda>_ _. node_good 0) (\<lambda>_. node_good 0) ''b'' demo_repairer one_copy = (Inr report, r', ns') \<and>
    rp_copied report + rp_already_current report + rp_failed report = 1 \<and> ns' ''host-a'' = one_copy ''host-a''"
proof -
  obtain report r' ns' where run: "RepairNode repo_vtable (\<lambda>_ _. node_good 0) (\<lambda>_. node_good 0) ''b'' demo_repairer one_copy = (Inr report, r', ns')"
    using RepairNode_returns [OF demo_repairer_ok(1,5)] by metis
  have h: "\<forall>key loc. LookupObject key (rr_metadata demo_repairer) = Inr loc \<longrightarrow> ol_version loc \<noteq> 0"
      "inj_on KeyDigest (registered_keys (rr_metadata demo_repairer))"
    by (simp_all add: demo_repairer_ok(4) demo_registered_keys repair_location_def)
  from repair_sound [OF demo_repairer_ok(1,2) h demo_repairer_ok(5) run]
  have "rp_copied report + rp_already_current report + rp_failed report = 1" "ns' ''host-a'' = one_copy ''host-a''"
    by (simp_all add: demo_registered_keys demo_repairer_ok(7))
  with run show ?thesis by blast
qed

text \<open>
  C20. Repair completes: when calls reach their nodes and every object the target is not registered for has one
  registered replica holding bytes with the registered checksum, \<open>RepairNode\<close> returns a report with no failures, and
  afterwards the target is a registered replica of every object the ring places on it.
\<close>

theorem repair_complete:
  assumes "repo_ok (rr_metadata r)" and "nodes_ok ns"
    and "\<forall>key loc. LookupObject key (rr_metadata r) = Inr loc \<longrightarrow> key \<noteq> '''' \<and> ol_version loc \<noteq> 0 \<and>
      (x \<notin> set (ol_replicas loc) \<longrightarrow> has_source (rr_clients r) target ns loc)"
    and "inj_on KeyDigest (registered_keys (rr_metadata r))" and "om_find (rr_clients r) x = Some target"
    and "\<forall>i j. \<exists>t. gets i j = node_good t" and "\<forall>i. \<exists>t. puts i = node_good t" and "wal_fd_open (ls_wal (ns target))"
  shows "\<exists>report r' ns'. RepairNode repo_vtable gets puts x r ns = (Inr report, r', ns') \<and> rp_failed report = 0 \<and>
    (\<forall>key loc. LookupObject key (rr_metadata r) = Inr loc \<longrightarrow> x \<in> set (Repo_PlacementFor key (rr_replication_factor r) (rr_metadata r)) \<longrightarrow>
      (\<exists>loc'. LookupObject key (rr_metadata r') = Inr loc' \<and> x \<in> set (ol_replicas loc')))"
proof -
  let ?m = "rr_metadata r"
  obtain report r' ns' where run: "RepairNode repo_vtable gets puts x r ns = (Inr report, r', ns')"
    using RepairNode_returns [OF assms(1,5)] by metis
  obtain locs where l: "repair_loop repo_vtable gets puts x target 0 locs Repair_Report_default r ns = (report, r', ns')"
      "distinct (map ol_key locs)" "\<forall>loc. loc \<in> set locs \<longleftrightarrow> LookupObject (ol_key loc) ?m = Inr loc"
    using RepairNode_run [OF run assms(1,5)] .
  have keys: "ol_key ` set locs = registered_keys ?m"
    by (rule listed_keys [OF assms(1) l(3)])
  have listed: "\<forall>loc \<in> set locs. repo_view ?m (ol_key loc) = Some loc \<and> ol_version loc \<noteq> 0 \<and> ol_key loc \<noteq> '''' \<and>
      (x \<notin> set (ol_replicas loc) \<longrightarrow> has_source (rr_clients r) target ns loc)"
  proof
    fix loc assume "loc \<in> set locs"
    then have k: "LookupObject (ol_key loc) ?m = Inr loc" using l(3) by blast
    with assms(3) [rule_format, OF k] show "repo_view ?m (ol_key loc) = Some loc \<and> ol_version loc \<noteq> 0 \<and> ol_key loc \<noteq> '''' \<and>
      (x \<notin> set (ol_replicas loc) \<longrightarrow> has_source (rr_clients r) target ns loc)" by (simp add: LookupObject_Inr)
  qed
  have G: "rp_failed report = 0" "\<forall>loc \<in> set locs. placed_on repo_vtable x r loc \<longrightarrow>
      (\<exists>loc'. repo_view (rr_metadata r') (ol_key loc) = Some loc' \<and> x \<in> set (ol_replicas loc'))"
    using repo_cluster.repair_loop_good [OF l(1) assms(1,2) listed l(2) assms(4) [folded keys] assms(6-8)]
    by (simp_all add: Repair_Report_default_def)
  have "\<exists>loc'. LookupObject key (rr_metadata r') = Inr loc' \<and> x \<in> set (ol_replicas loc')"
    if k: "LookupObject key ?m = Inr loc" and p: "x \<in> set (Repo_PlacementFor key (rr_replication_factor r) ?m)" for key loc
  proof -
    have key: "ol_key loc = key" using k repo_view_key [OF assms(1)] by (simp add: LookupObject_Inr)
    then have "loc \<in> set locs" using l(3) k by simp
    from bspec [OF G(2) this] p show ?thesis by (simp add: placed_on_def LookupObject_Inr key)
  qed
  with run G(1) show ?thesis by blast
qed

theorem repair_complete_witness:
  "\<exists>report r' ns' loc. RepairNode repo_vtable (\<lambda>_ _. node_good 0) (\<lambda>_. node_good 0) ''b'' demo_repairer one_copy = (Inr report, r', ns') \<and>
    rp_failed report = 0 \<and> LookupObject ''k'' (rr_metadata r') = Inr loc \<and> ''b'' \<in> set (ol_replicas loc)"
proof -
  have h: "\<forall>key loc. LookupObject key (rr_metadata demo_repairer) = Inr loc \<longrightarrow> key \<noteq> '''' \<and> ol_version loc \<noteq> 0 \<and>
      (''b'' \<notin> set (ol_replicas loc) \<longrightarrow> has_source (rr_clients demo_repairer) ''host-b'' one_copy loc)"
      "inj_on KeyDigest (registered_keys (rr_metadata demo_repairer))"
    using demo_repairer_ok(6) by (simp_all add: demo_repairer_ok(4) demo_registered_keys repair_location_def)
  have k: "LookupObject ''k'' (rr_metadata demo_repairer) = Inr repair_location" by (simp add: demo_repairer_ok(4))
  from repair_complete [OF demo_repairer_ok(1,2) h demo_repairer_ok(5) _ _ demo_repairer_ok(3), of "\<lambda>_ _. node_good 0" "\<lambda>_. node_good 0"] k
  show ?thesis using demo_repairer_ok(7) by blast
qed

end
