(* ===== verification/Metadata_Service.thy ===== *)
theory Metadata_Service
  imports Raft_Metadata_Repository Repairer
begin

text \<open>
  \<open>src/network/metadata_server.cc\<close> and \<open>src/network/metadata_client.cc\<close>: the control plane behind gRPC.

  A group of metadata servers is a map from addresses to servers. A mutation a follower receives is forwarded to the
  server it believes to be the leader, which may forward it again; \<open>hops\<close> is the number of forwards that complete
  before the deadline, and \<open>fates\<close> what becomes of each of these calls.
\<close>

section \<open>Messages\<close>

record MetaAck =
  ma_code :: rpc_Code
  ma_message :: string

record LookupResponse =
  lk_code :: rpc_Code
  lk_message :: string
  lk_location :: rpc_ObjectLocation

record PlacementRequest =
  pq_key :: string
  pq_replication_factor :: nat

definition MetaAck_default :: MetaAck where
  "MetaAck_default = \<lparr>ma_code = rpc_OK, ma_message = ''''\<rparr>"

definition rpc_ObjectLocation_default :: rpc_ObjectLocation where
  "rpc_ObjectLocation_default = \<lparr>pb_key = '''', pb_version = 0, pb_checksum = '''', pb_size = 0, pb_deleted = False, pb_replicas = []\<rparr>"

section \<open>The server\<close>

text \<open>The interface class \<open>ControlPlane\<close>.\<close>

record 's ControlPlane =
  cp_PlacementFor :: "string \<Rightarrow> nat \<Rightarrow> 's \<Rightarrow> string list"
  cp_RegisterObject :: "ObjectLocation \<Rightarrow> 's \<Rightarrow> Status \<times> 's"
  cp_LookupObject :: "string \<Rightarrow> 's \<Rightarrow> ObjectLocation StatusOr"
  cp_RemoveObject :: "string \<Rightarrow> 's \<Rightarrow> Status \<times> 's"
  cp_ListObjects :: "string \<Rightarrow> 's \<Rightarrow> ObjectLocation list StatusOr"
  cp_AddNode :: "NodeInfo \<Rightarrow> 's \<Rightarrow> 's"
  cp_Nodes :: "'s \<Rightarrow> NodeInfo list"
  cp_leadership :: "'s \<Rightarrow> Leadership"
  cp_leader_forward_address :: "'s \<Rightarrow> string"

definition repo_plane :: "MetadataRepository ControlPlane" where
  "repo_plane = \<lparr>cp_PlacementFor = Repo_PlacementFor, cp_RegisterObject = RegisterObject, cp_LookupObject = LookupObject,
    cp_RemoveObject = RemoveObject, cp_ListObjects = ListObjects, cp_AddNode = Repo_AddNode, cp_Nodes = Repo_Nodes,
    cp_leadership = (\<lambda>_. kLeaderHere), cp_leader_forward_address = (\<lambda>_. '''')\<rparr>"

text \<open>
  \<open>RaftMetadataRepository\<close> as a control plane. Its state is the repository and its Raft node. While a mutation is under
  way the other threads of the node go on: \<open>rt_propose\<close> is the node when \<open>Propose\<close> takes the lock, after the term was read,
  and \<open>rt_wait\<close> the states of the node from the proposal until the call returns; the entries applied by then have reached
  the repository. \<open>Propose\<close> fails to return only on a node that has committed beyond its log, which \<open>Propose_moves\<close> excludes.
\<close>

record raft_server =
  rs_repo :: RaftMetadataRepository
  rs_node :: RaftNode

record raft_threads =
  rt_propose :: "RaftNode \<Rightarrow> RaftNode"
  rt_wait :: "RaftNode \<Rightarrow> RaftNode list"

definition raft_mutation ::
  "(string \<Rightarrow> MetadataCommand option) \<Rightarrow> raft_threads
    \<Rightarrow> (RaftMetadataRepository \<Rightarrow> RaftNode \<Rightarrow> RaftNode \<Rightarrow> RaftNode list \<Rightarrow> (RaftNode \<times> Status) option) \<Rightarrow> raft_server \<Rightarrow> Status \<times> raft_server" where
  "raft_mutation parse threads call s =
    (let n0 = rs_node s; n = rt_propose threads n0 in
     case call (rs_repo s) n0 n [] of
       None \<Rightarrow> (Unavailable '''', s)
     | Some (n1, _) \<Rightarrow>
         let ns = rt_wait threads n1; n' = last (n1 # ns)
         in (snd (the (call (rs_repo s) n0 n ns)),
             s\<lparr>rs_repo := replay parse (rs_repo s) (drop (length (applied n0)) (applied n')), rs_node := n'\<rparr>))"

definition raft_plane ::
  "(string \<Rightarrow> MetadataCommand option) \<Rightarrow> (MetadataCommand \<Rightarrow> string) \<Rightarrow> raft_env \<Rightarrow> raft_threads \<Rightarrow> raft_server ControlPlane" where
  "raft_plane parse serialize env threads =
    \<lparr>cp_PlacementFor = (\<lambda>key rf s. Raft_PlacementFor key rf (rs_repo s)),
     cp_RegisterObject = (\<lambda>loc. raft_mutation parse threads (\<lambda>r n0 n ns. Raft_RegisterObject serialize env r n0 n ns loc)),
     cp_LookupObject = (\<lambda>key s. Raft_LookupObject key (rs_repo s)),
     cp_RemoveObject = (\<lambda>key. raft_mutation parse threads (\<lambda>r n0 n ns. Raft_RemoveObject serialize env r n0 n ns key)),
     cp_ListObjects = (\<lambda>prefix s. Raft_ListObjects prefix (rs_repo s)),
     cp_AddNode = (\<lambda>node s. snd (raft_mutation parse threads
       (\<lambda>r n0 n ns. map_option (\<lambda>n. (n, Status_Ok)) (Raft_AddNode serialize env r n0 n ns node)) s)),
     cp_Nodes = (\<lambda>s. Raft_Nodes (rs_repo s)),
     cp_leadership = (\<lambda>s. leadership (rs_repo s) (rs_node s)),
     cp_leader_forward_address = (\<lambda>s. leader_forward_address (rs_repo s) (rs_node s))\<rparr>"

record 's MetadataServiceImpl =
  ms_repo :: 's
  ms_forward_clients :: "string set"

type_synonym 's meta_group = "string \<Rightarrow> 's MetadataServiceImpl"

datatype mutation_route = kLocal | kForward string | kReject

definition ResolveMutation :: "'s ControlPlane \<Rightarrow> 's \<Rightarrow> mutation_route" where
  "ResolveMutation cp s =
    (case cp_leadership cp s of
       kLeaderHere \<Rightarrow> kLocal
     | kNoLeader \<Rightarrow> kReject
     | kFollowerHere \<Rightarrow> let leader = cp_leader_forward_address cp s in if leader = '''' then kReject else kForward leader)"

definition ForwardClient :: "string \<Rightarrow> 's MetadataServiceImpl \<Rightarrow> 's MetadataServiceImpl" where
  "ForwardClient address m = m\<lparr>ms_forward_clients := insert address (ms_forward_clients m)\<rparr>"

definition meta_ack :: "Status \<Rightarrow> MetaAck" where
  "meta_ack s = MetaAck_default\<lparr>ma_code := ToProtoCode (code s), ma_message := (if ok s then '''' else message s)\<rparr>"

text \<open>A client call with its answer turned into a status.\<close>

definition Remote_mutation :: "string \<Rightarrow> rpc_fate \<Rightarrow> ('w \<Rightarrow> MetaAck option \<times> 'w) \<Rightarrow> 'w \<Rightarrow> Status \<times> 'w" where
  "Remote_mutation rpc fate h w =
    (case rpc_call fate h w of
       (Inl e, w) \<Rightarrow> (Unavailable (rpc @ '' RPC failed: '' @ e), w)
     | (Inr resp, w) \<Rightarrow> (\<lparr>code = FromProtoCode (ma_code resp), message = ma_message resp\<rparr>, w))"

text \<open>
  The common part of \<open>RegisterObject\<close>, \<open>RemoveObject\<close> and \<open>AddNode\<close>: reject, forward or serve; \<open>again\<close> is the request
  a forwarding server builds from the one it received.
\<close>

fun Meta_mutation ::
  "'s ControlPlane \<Rightarrow> string \<Rightarrow> ('q \<Rightarrow> 's \<Rightarrow> Status \<times> 's) \<Rightarrow> ('q \<Rightarrow> 'q) \<Rightarrow> (nat \<Rightarrow> rpc_fate) \<Rightarrow> nat \<Rightarrow> string \<Rightarrow> 'q \<Rightarrow> 's meta_group
    \<Rightarrow> MetaAck option \<times> 's meta_group" where
  "Meta_mutation cp rpc serve again fates hops a req w =
    (case ResolveMutation cp (ms_repo (w a)) of
       kReject \<Rightarrow> (Some (MetaAck_default\<lparr>ma_code := rpc_UNAVAILABLE, ma_message := ''no metadata leader available''\<rparr>), w)
     | kForward leader \<Rightarrow>
         let w = w(a := ForwardClient leader (w a))
         in (case hops of
               0 \<Rightarrow> (Some (meta_ack (Unavailable (rpc @ '' RPC failed: '' @ rf_error (fates 0)))), w)
             | Suc hops' \<Rightarrow>
                 let (s, w) = Remote_mutation rpc (fates hops) (Meta_mutation cp rpc serve again fates hops' leader (again req)) w
                 in (Some (meta_ack s), w))
     | kLocal \<Rightarrow>
         let (s, repo) = serve req (ms_repo (w a)) in (Some (meta_ack s), w(a := (w a)\<lparr>ms_repo := repo\<rparr>)))"

declare Meta_mutation.simps [simp del]

definition Meta_RegisterObject ::
  "'s ControlPlane \<Rightarrow> (nat \<Rightarrow> rpc_fate) \<Rightarrow> nat \<Rightarrow> string \<Rightarrow> rpc_ObjectLocation \<Rightarrow> 's meta_group \<Rightarrow> MetaAck option \<times> 's meta_group" where
  "Meta_RegisterObject cp = Meta_mutation cp ''RegisterObject'' (\<lambda>req. cp_RegisterObject cp (FromProtoLocation req)) (\<lambda>req. ToProtoLocation (FromProtoLocation req))"

definition Meta_RemoveObject :: "'s ControlPlane \<Rightarrow> (nat \<Rightarrow> rpc_fate) \<Rightarrow> nat \<Rightarrow> string \<Rightarrow> string \<Rightarrow> 's meta_group \<Rightarrow> MetaAck option \<times> 's meta_group" where
  "Meta_RemoveObject cp = Meta_mutation cp ''RemoveObject'' (cp_RemoveObject cp) (\<lambda>key. key)"

definition Meta_AddNode :: "'s ControlPlane \<Rightarrow> (nat \<Rightarrow> rpc_fate) \<Rightarrow> nat \<Rightarrow> string \<Rightarrow> NodeDesc \<Rightarrow> 's meta_group \<Rightarrow> MetaAck option \<times> 's meta_group" where
  "Meta_AddNode cp = Meta_mutation cp ''AddNode''
    (\<lambda>req s. (Status_Ok, cp_AddNode cp (NodeInfo_default\<lparr>ni_id := nd_id req, ni_address := nd_address req\<rparr>) s))
    (\<lambda>req. \<lparr>nd_id = nd_id req, nd_address = nd_address req\<rparr>)"

definition Meta_Placement :: "'s ControlPlane \<Rightarrow> PlacementRequest \<Rightarrow> 's \<Rightarrow> string list" where
  "Meta_Placement cp req s = cp_PlacementFor cp (pq_key req) (pq_replication_factor req) s"

definition Meta_LookupObject :: "'s ControlPlane \<Rightarrow> string \<Rightarrow> 's \<Rightarrow> LookupResponse" where
  "Meta_LookupObject cp key s =
    (case cp_LookupObject cp key s of
       Inl st \<Rightarrow> \<lparr>lk_code = ToProtoCode (code st), lk_message = message st, lk_location = rpc_ObjectLocation_default\<rparr>
     | Inr loc \<Rightarrow> \<lparr>lk_code = rpc_OK, lk_message = '''', lk_location = ToProtoLocation loc\<rparr>)"

definition Meta_ListObjects :: "'s ControlPlane \<Rightarrow> string \<Rightarrow> 's \<Rightarrow> rpc_ObjectLocation list" where
  "Meta_ListObjects cp prefix s = (case cp_ListObjects cp prefix s of Inl st \<Rightarrow> [] | Inr locs \<Rightarrow> map ToProtoLocation locs)"

definition Meta_ListNodes :: "'s ControlPlane \<Rightarrow> 's \<Rightarrow> NodeDesc list" where
  "Meta_ListNodes cp s = map (\<lambda>n. \<lparr>nd_id = ni_id n, nd_address = ni_address n\<rparr>) (cp_Nodes cp s)"

section \<open>The client\<close>

text \<open>What becomes of the calls of one coordinator operation, by method.\<close>

record meta_env =
  me_placement :: rpc_fate
  me_register :: rpc_fate
  me_lookup :: rpc_fate
  me_remove :: rpc_fate
  me_list :: rpc_fate

definition Remote_AddNode :: "rpc_fate \<Rightarrow> (NodeDesc \<Rightarrow> 'w \<Rightarrow> MetaAck option \<times> 'w) \<Rightarrow> string \<Rightarrow> string \<Rightarrow> 'w \<Rightarrow> Status \<times> 'w" where
  "Remote_AddNode fate h i address = Remote_mutation ''AddNode'' fate (h \<lparr>nd_id = i, nd_address = address\<rparr>)"

definition Remote_ListNodes :: "rpc_fate \<Rightarrow> ('w \<Rightarrow> NodeDesc list) \<Rightarrow> 'w \<Rightarrow> NodeInfo list StatusOr" where
  "Remote_ListNodes fate h w =
    (case fst (rpc_call fate (\<lambda>w. (Some (h w), w)) w) of
       Inl e \<Rightarrow> Inl (Unavailable (''ListNodes RPC failed: '' @ e))
     | Inr ns \<Rightarrow> Inr (map (\<lambda>d. NodeInfo_default\<lparr>ni_id := nd_id d, ni_address := nd_address d\<rparr>) ns))"

definition Remote_PlacementFor :: "rpc_fate \<Rightarrow> (PlacementRequest \<Rightarrow> 'w \<Rightarrow> string list) \<Rightarrow> string \<Rightarrow> nat \<Rightarrow> 'w \<Rightarrow> string list" where
  "Remote_PlacementFor fate h key rf w =
    (case fst (rpc_call fate (\<lambda>w. (Some (h \<lparr>pq_key = key, pq_replication_factor = rf mod 2 ^ 32\<rparr> w), w)) w) of
       Inl e \<Rightarrow> []
     | Inr ids \<Rightarrow> ids)"

definition Remote_RegisterObject :: "rpc_fate \<Rightarrow> (rpc_ObjectLocation \<Rightarrow> 'w \<Rightarrow> MetaAck option \<times> 'w) \<Rightarrow> ObjectLocation \<Rightarrow> 'w \<Rightarrow> Status \<times> 'w" where
  "Remote_RegisterObject fate h loc = Remote_mutation ''RegisterObject'' fate (h (ToProtoLocation loc))"

definition Remote_LookupObject :: "rpc_fate \<Rightarrow> (string \<Rightarrow> 'w \<Rightarrow> LookupResponse) \<Rightarrow> string \<Rightarrow> 'w \<Rightarrow> ObjectLocation StatusOr" where
  "Remote_LookupObject fate h key w =
    (case fst (rpc_call fate (\<lambda>w. (Some (h key w), w)) w) of
       Inl e \<Rightarrow> Inl (Unavailable (''LookupObject RPC failed: '' @ e))
     | Inr resp \<Rightarrow>
         if lk_code resp \<noteq> rpc_OK then Inl \<lparr>code = FromProtoCode (lk_code resp), message = lk_message resp\<rparr>
         else Inr (FromProtoLocation (lk_location resp)))"

definition Remote_RemoveObject :: "rpc_fate \<Rightarrow> (string \<Rightarrow> 'w \<Rightarrow> MetaAck option \<times> 'w) \<Rightarrow> string \<Rightarrow> 'w \<Rightarrow> Status \<times> 'w" where
  "Remote_RemoveObject fate h key = Remote_mutation ''RemoveObject'' fate (h key)"

definition Remote_ListObjects :: "rpc_fate \<Rightarrow> (string \<Rightarrow> 'w \<Rightarrow> rpc_ObjectLocation list) \<Rightarrow> string \<Rightarrow> 'w \<Rightarrow> ObjectLocation list StatusOr" where
  "Remote_ListObjects fate h prefix w =
    (case fst (rpc_call fate (\<lambda>w. (Some (h prefix w), w)) w) of
       Inl e \<Rightarrow> Inl (Unavailable (''ListObjects RPC failed: '' @ e))
     | Inr locs \<Rightarrow> Inr (map FromProtoLocation locs))"

text \<open>The view of a client that talks to the server at \<open>a\<close> of a group.\<close>

definition remote_vtable :: "'s ControlPlane \<Rightarrow> (nat \<Rightarrow> rpc_fate) \<Rightarrow> nat \<Rightarrow> meta_env \<Rightarrow> string \<Rightarrow> 's meta_group MetadataView" where
  "remote_vtable cp fates hops env a =
    \<lparr>mv_PlacementFor = Remote_PlacementFor (me_placement env) (\<lambda>req w. Meta_Placement cp req (ms_repo (w a))),
     mv_RegisterObject = Remote_RegisterObject (me_register env) (Meta_RegisterObject cp fates hops a),
     mv_LookupObject = (\<lambda>key w. (Remote_LookupObject (me_lookup env) (\<lambda>key w. Meta_LookupObject cp key (ms_repo (w a))) key w, w)),
     mv_RemoveObject = Remote_RemoveObject (me_remove env) (Meta_RemoveObject cp fates hops a),
     mv_ListObjects = Remote_ListObjects (me_list env) (\<lambda>prefix w. Meta_ListObjects cp prefix (ms_repo (w a)))\<rparr>"

section \<open>A remote view of one server\<close>

definition fate_good :: rpc_fate where
  "fate_good = \<lparr>rf_arrives = True, rf_returns = True, rf_error = ''''\<rparr>"

definition meta_good :: meta_env where
  "meta_good = \<lparr>me_placement = fate_good, me_register = fate_good, me_lookup = fate_good, me_remove = fate_good, me_list = fate_good\<rparr>"

lemma rpc_call_good: "rpc_call fate_good h w = (case h w of (Some resp, w) \<Rightarrow> (Inr resp, w) | (None, w) \<Rightarrow> (Inl '''', w))"
  by (simp add: rpc_call_def fate_good_def split: prod.split option.split)

text \<open>A status crosses the wire, its message unless it is Ok.\<close>

lemma ack_status: "(ok s \<longrightarrow> message s = '''') \<Longrightarrow> \<lparr>code = FromProtoCode (ma_code (meta_ack s)), message = ma_message (meta_ack s)\<rparr> = s"
  by (cases s) (auto simp: meta_ack_def MetaAck_default_def)

lemma Remote_mutation_good:
  assumes "h w = (Some (meta_ack s), w')" and "ok s \<longrightarrow> message s = ''''"
  shows "Remote_mutation rpc fate_good h w = (s, w')"
  using ack_status [OF assms(2)] by (simp add: Remote_mutation_def rpc_call_good assms(1))

lemma Meta_mutation_local:
  assumes "ResolveMutation cp (ms_repo (w a)) = kLocal" and "serve req (ms_repo (w a)) = (s, repo)"
  shows "Meta_mutation cp rpc serve again fates hops a req w = (Some (meta_ack s), w(a := (w a)\<lparr>ms_repo := repo\<rparr>))"
  by (subst Meta_mutation.simps) (simp add: assms)

lemma repo_plane_local: "ResolveMutation repo_plane s = kLocal"
  by (simp add: ResolveMutation_def repo_plane_def)

definition repo_at :: "string \<Rightarrow> MetadataRepository meta_group \<Rightarrow> MetadataRepository" where
  "repo_at a w = ms_repo (w a)"

definition with_repo :: "string \<Rightarrow> MetadataRepository \<Rightarrow> MetadataRepository meta_group \<Rightarrow> MetadataRepository meta_group" where
  "with_repo a m w = w(a := (w a)\<lparr>ms_repo := m\<rparr>)"

lemma repo_at_with [simp]: "repo_at a (with_repo a m w) = m"
  by (simp add: repo_at_def with_repo_def)

lemma remote_repo:
  shows "mv_PlacementFor (remote_vtable repo_plane fates hops (meta_good\<lparr>me_lookup := fate\<rparr>) a) key rf w = Repo_PlacementFor key (rf mod 2 ^ 32) (repo_at a w)"
    and "mv_RegisterObject (remote_vtable repo_plane fates hops (meta_good\<lparr>me_lookup := fate\<rparr>) a) loc w =
      (fst (RegisterObject loc (repo_at a w)), with_repo a (snd (RegisterObject loc (repo_at a w))) w)"
    and "mv_RemoveObject (remote_vtable repo_plane fates hops (meta_good\<lparr>me_lookup := fate\<rparr>) a) key w =
      (fst (RemoveObject key (repo_at a w)), with_repo a (snd (RemoveObject key (repo_at a w))) w)"
    and "mv_ListObjects (remote_vtable repo_plane fates hops (meta_good\<lparr>me_lookup := fate\<rparr>) a) prefix w = ListObjects prefix (repo_at a w)"
    and "mv_LookupObject (remote_vtable repo_plane fates hops meta_good a) key w = (LookupObject key (repo_at a w), w)"
proof -
  show "mv_PlacementFor (remote_vtable repo_plane fates hops (meta_good\<lparr>me_lookup := fate\<rparr>) a) key rf w = Repo_PlacementFor key (rf mod 2 ^ 32) (repo_at a w)"
    by (simp add: remote_vtable_def Remote_PlacementFor_def meta_good_def rpc_call_good Meta_Placement_def repo_plane_def repo_at_def)
  have reg: "Meta_RegisterObject repo_plane fates hops a (ToProtoLocation loc) w =
      (Some (meta_ack (fst (RegisterObject loc (repo_at a w)))), with_repo a (snd (RegisterObject loc (repo_at a w))) w)"
    unfolding Meta_RegisterObject_def with_repo_def
    by (rule Meta_mutation_local [OF repo_plane_local]) (simp add: repo_plane_def repo_at_def)
  show "mv_RegisterObject (remote_vtable repo_plane fates hops (meta_good\<lparr>me_lookup := fate\<rparr>) a) loc w =
      (fst (RegisterObject loc (repo_at a w)), with_repo a (snd (RegisterObject loc (repo_at a w))) w)"
    using Remote_mutation_good [where h = "Meta_RegisterObject repo_plane fates hops a (ToProtoLocation loc)" and w = w, OF reg] by (simp add: remote_vtable_def Remote_RegisterObject_def meta_good_def RegisterObject_def Status_Ok_def)
  have rem: "Meta_RemoveObject repo_plane fates hops a key w =
      (Some (meta_ack (fst (RemoveObject key (repo_at a w)))), with_repo a (snd (RemoveObject key (repo_at a w))) w)"
    unfolding Meta_RemoveObject_def with_repo_def
    by (rule Meta_mutation_local [OF repo_plane_local]) (simp add: repo_plane_def repo_at_def)
  have msg: "ok (fst (RemoveObject key (repo_at a w))) \<longrightarrow> message (fst (RemoveObject key (repo_at a w))) = ''''"
    by (simp add: RemoveObject_def NotFound_def Status_Ok_def ok_def split: option.split)
  show "mv_RemoveObject (remote_vtable repo_plane fates hops (meta_good\<lparr>me_lookup := fate\<rparr>) a) key w =
      (fst (RemoveObject key (repo_at a w)), with_repo a (snd (RemoveObject key (repo_at a w))) w)"
    using Remote_mutation_good [where h = "Meta_RemoveObject repo_plane fates hops a key" and w = w, OF rem msg] by (simp add: remote_vtable_def Remote_RemoveObject_def meta_good_def)
  show "mv_ListObjects (remote_vtable repo_plane fates hops (meta_good\<lparr>me_lookup := fate\<rparr>) a) prefix w = ListObjects prefix (repo_at a w)"
    by (simp add: remote_vtable_def Remote_ListObjects_def meta_good_def rpc_call_good Meta_ListObjects_def repo_plane_def repo_at_def ListObjects_def comp_def)
  show "mv_LookupObject (remote_vtable repo_plane fates hops meta_good a) key w = (LookupObject key (repo_at a w), w)"
    by (auto simp: remote_vtable_def Remote_LookupObject_def meta_good_def rpc_call_good Meta_LookupObject_def repo_plane_def repo_at_def LookupObject_def
        NotFound_def ToProtoCode_def FromProtoCode_def split: option.split sum.split)
qed

lemma meta_good_same: "meta_good\<lparr>me_lookup := fate_good\<rparr> = meta_good"
  by (simp add: meta_good_def)

lemmas remote_repo_good = remote_repo(1-4) [where fate = fate_good, unfolded meta_good_same] remote_repo(5)

interpretation remote_cluster: replicated_view "\<lambda>w. repo_ok (repo_at a w)" "\<lambda>w. repo_view (repo_at a w)" "remote_vtable repo_plane fates hops meta_good a"
  for a fates hops
proof (intro replicated_view.intro metadata_view.intro replicated_view_axioms.intro, goal_cases)
  case (1 w loc st w')
  then show ?case
    using repo.register_ok [of "repo_at a w" loc "fst (RegisterObject loc (repo_at a w))" "snd (RegisterObject loc (repo_at a w))"]
    by (auto simp: remote_repo_good)
next
  case (2 w key r w')
  then show ?case by (auto simp: remote_repo_good LookupObject_view)
next
  case (3 w key st w')
  then show ?case
    using repo.remove_view [of "repo_at a w" key "fst (RemoveObject key (repo_at a w))" "snd (RemoveObject key (repo_at a w))"]
    by (auto simp: remote_repo_good)
next
  case (4 w key rf)
  then show ?case by (simp add: remote_repo_good repo_placement_distinct)
next
  case (5 w loc key rf)
  then show ?case by (simp add: remote_repo_good repo_placement_register)
next
  case (6 w key loc)
  then show ?case using repo_view_live by blast
next
  case (7 w prefix)
  then show ?case using repo_list_view [of "repo_at a w" prefix] by (simp add: remote_repo_good)
qed

section \<open>Properties\<close>

text \<open>
  A coordinator may keep its metadata behind the network: with a \<open>RemoteMetadataView\<close> of a metadata server whose
  calls succeed, every history of puts, gets and deletes is explained, exactly as with the repository in the same
  process.
\<close>

theorem remote_histories_explained:
  assumes "repo_ok (repo_at a w)" and "\<forall>k. repo_view (repo_at a w) k = None" and "c = Coordinator_new w clients opts"
    and "own_addresses c" and "nodes_ok ns" and "inj_on KeyDigest (op_key ` fst ` set ops)" and "length ops < u64_size"
  shows "explained (\<lambda>_. {}) (run_history (remote_vtable repo_plane fates hops meta_good a) ops c ns)"
proof -
  have m: "co_metadata c = w" using assms(3) by (simp add: Coordinator_new_def)
  have "remote_cluster.history_inv a (op_key ` fst ` set ops) 0 (\<lambda>_. {}) c ns"
    unfolding remote_cluster.history_inv_def m using assms(1,2,4,5) by simp
  from remote_cluster.history_explained [OF this order_refl assms(6)] assms(7) show ?thesis by simp
qed

definition demo_group :: "MetadataRepository meta_group" where
  "demo_group = (\<lambda>_. \<lparr>ms_repo = demo_repo, ms_forward_clients = {}\<rparr>)"

theorem remote_histories_explained_witness:
  "explained (\<lambda>_. {}) (run_history (remote_vtable repo_plane (\<lambda>_. fate_good) 3 meta_good ''meta:9000'') demo_history
    (Coordinator_new demo_group [(''a'', ''host-a''), (''b'', ''host-b'')] Coordinator_Options_default) demo_nodes)"
proof -
  let ?c = "Coordinator_new demo_group [(''a'', ''host-a''), (''b'', ''host-b'')] Coordinator_Options_default"
  have "repo_ok (repo_at ''meta:9000'' demo_group)" "\<forall>k. repo_view (repo_at ''meta:9000'' demo_group) k = None"
    using demo_ok(1,4) by (simp_all add: demo_ok(6) repo_at_def demo_group_def)
  moreover have "own_addresses ?c" by (auto simp: own_addresses_def ClientFor_def Coordinator_new_def om_find_def split: if_splits)
  moreover have "inj_on KeyDigest (op_key ` fst ` set demo_history)" "length demo_history < u64_size" by (simp_all add: demo_history_def)
  ultimately show ?thesis using remote_histories_explained [OF _ _ refl _ demo_ok(3)] by blast
qed

text \<open>
  C40. The version authority fails open: when the lookup call of a \<open>Put\<close> is lost, the coordinator takes the key for a
  new one. With a quorum of storage nodes answering the write succeeds, and it registers version 1 in place of a
  location of any higher version.
\<close>

theorem lost_lookup_resets_version:
  assumes "repo_ok (repo_at a (co_metadata c))" and "own_addresses c" and "key \<noteq> ''''" and "\<not> rf_arrives fate"
    and "LookupObject key (repo_at a (co_metadata c)) = Inr loc" and "replication_factor (co_opts c) < 2 ^ 32"
    and "R = Repo_PlacementFor key (replication_factor (co_opts c)) (repo_at a (co_metadata c))"
    and "G \<subseteq> {..<length R}" and "write_quorum (co_opts c) \<le> card G"
    and "\<forall>j \<in> G. \<exists>addr t. ClientFor (R ! j) c = Some addr \<and> envs j = node_good t \<and> wal_fd_open (ls_wal (ns addr))"
  shows "\<exists>meta c' ns' loc'. Coordinator_Put (remote_vtable repo_plane fates hops (meta_good\<lparr>me_lookup := fate\<rparr>) a) envs key data c ns = (Inr meta, c', ns') \<and>
    md_version meta = 1 \<and> LookupObject key (repo_at a (co_metadata c')) = Inr loc' \<and> ol_version loc' = 1"
proof -
  let ?v = "remote_vtable repo_plane fates hops (meta_good\<lparr>me_lookup := fate\<rparr>) a" and ?w = "co_metadata c"
  have look: "mv_LookupObject ?v key ?w = (Inl (Unavailable (''LookupObject RPC failed: '' @ rf_error fate)), ?w)"
    using assms(4) by (simp add: remote_vtable_def Remote_LookupObject_def meta_good_def rpc_call_def)
  have R: "R = mv_PlacementFor ?v key (replication_factor (co_opts c)) ?w" using assms(6,7) by (simp add: remote_repo(1))
  have d: "distinct R" using repo_placement_distinct [OF assms(1)] assms(7) by simp
  have reg: "ok (fst (mv_RegisterObject ?v l ?w))" for l by (simp add: remote_repo(2) RegisterObject_def Status_Ok_def ok_def)
  have "\<exists>meta c' ns'. Coordinator_Put ?v envs key data c ns = (Inr meta, c', ns')"
    by (rule Put_quorum [OF look _ _ assms(3,2) R d assms(8-10) reg, of 1]) simp_all
  then obtain meta c' ns' where p: "Coordinator_Put ?v envs key data c ns = (Inr meta, c', ns')" by (elim exE)
  note P = Put_registers [OF p look]
  obtain ids where "co_metadata c' = snd (mv_RegisterObject ?v \<lparr>ol_key = key, ol_version = 1, ol_checksum = Sha256Hex data,
      ol_size = length data, ol_deleted = False, ol_replicas = ids\<rparr> ?w)" using P by auto
  then have "repo_at a (co_metadata c') = snd (RegisterObject \<lparr>ol_key = key, ol_version = 1, ol_checksum = Sha256Hex data,
      ol_size = length data, ol_deleted = False, ol_replicas = ids\<rparr> (repo_at a ?w))" by (simp add: remote_repo(2))
  then have "LookupObject key (repo_at a (co_metadata c')) = Inr \<lparr>ol_key = key, ol_version = 1, ol_checksum = Sha256Hex data,
      ol_size = length data, ol_deleted = False, ol_replicas = ids\<rparr>"
    using assms(1) by (simp add: LookupObject_view repo_view_Register live_def)
  with p P(1) show ?thesis by auto
qed

definition version_seven :: "MetadataRepository meta_group" where
  "version_seven = with_repo ''meta:9000'' (snd (RegisterObject (demo_location\<lparr>ol_version := 7\<rparr>) demo_repo)) demo_group"

definition remote_coordinator :: "MetadataRepository meta_group Coordinator" where
  "remote_coordinator = Coordinator_new version_seven [(''a'', ''host-a''), (''b'', ''host-b'')] Coordinator_Options_default"

definition lost_lookup :: meta_env where
  "lost_lookup = meta_good\<lparr>me_lookup := \<lparr>rf_arrives = False, rf_returns = False, rf_error = ''deadline''\<rparr>\<rparr>"

theorem lost_lookup_resets_version_witness:
  "\<exists>loc meta c' ns' loc'. LookupObject ''k'' (repo_at ''meta:9000'' (co_metadata remote_coordinator)) = Inr loc \<and> ol_version loc = 7 \<and>
    Coordinator_Put (remote_vtable repo_plane (\<lambda>_. fate_good) 3 lost_lookup ''meta:9000'') (\<lambda>_. node_good 0) ''k'' ''new''
      remote_coordinator demo_nodes = (Inr meta, c', ns') \<and>
    LookupObject ''k'' (repo_at ''meta:9000'' (co_metadata c')) = Inr loc' \<and> ol_version loc' = 1"
proof -
  let ?c = remote_coordinator and ?loc = "demo_location\<lparr>ol_version := 7\<rparr>"
  have m: "repo_at ''meta:9000'' (co_metadata ?c) = snd (RegisterObject ?loc demo_repo)"
    by (simp add: remote_coordinator_def Coordinator_new_def version_seven_def)
  have ok: "repo_ok (repo_at ''meta:9000'' (co_metadata ?c))"
    unfolding m by (rule repo_ok_Register) (use demo_ok(1) in \<open>simp add: demo_ok(6)\<close>)
  have own: "own_addresses ?c"
    by (auto simp: remote_coordinator_def own_addresses_def ClientFor_def Coordinator_new_def om_find_def split: if_splits)
  have look: "LookupObject ''k'' (repo_at ''meta:9000'' (co_metadata ?c)) = Inr ?loc"
    unfolding m by (simp add: RegisterObject_def LookupObject_def demo_repo_def demo_location_def om_find_def)
  have opts: "replication_factor (co_opts ?c) = 3" "write_quorum (co_opts ?c) = 2"
    by (simp_all add: remote_coordinator_def Coordinator_new_def Coordinator_Options_default_def)
  let ?R = "Repo_PlacementFor ''k'' (replication_factor (co_opts ?c)) (repo_at ''meta:9000'' (co_metadata ?c))"
  have R: "?R \<in> {[''a'', ''b''], [''b'', ''a'']}"
    unfolding m opts using demo_placement [of "''k''"] by (simp add: RegisterObject_def Repo_PlacementFor_def)
  have G: "\<forall>j \<in> {..<length ?R}. \<exists>addr t. ClientFor (?R ! j) ?c = Some addr \<and> node_good 0 = node_good t \<and> wal_fd_open (ls_wal (demo_nodes addr))"
  proof
    fix j assume "j \<in> {..<length ?R}"
    then have "?R ! j \<in> set ?R" by simp
    moreover have "set ?R = {''a'', ''b''}" using R by auto
    ultimately have "\<exists>addr. ClientFor (?R ! j) ?c = Some addr"
      by (auto simp: remote_coordinator_def Coordinator_new_def ClientFor_def om_find_def)
    then show "\<exists>addr t. ClientFor (?R ! j) ?c = Some addr \<and> node_good 0 = node_good t \<and> wal_fd_open (ls_wal (demo_nodes addr))"
      using demo_ok(7) by blast
  qed
  have h: "''k'' \<noteq> ''''" "\<not> rf_arrives \<lparr>rf_arrives = False, rf_returns = False, rf_error = ''deadline''\<rparr>"
      "replication_factor (co_opts ?c) < 2 ^ 32" "write_quorum (co_opts ?c) \<le> card {..<length ?R}"
    using R by (auto simp: opts)
  from lost_lookup_resets_version [OF ok own h(1,2) look h(3) refl order_refl h(4) G] look show ?thesis
    unfolding lost_lookup_def by fastforce
qed

section \<open>Forwarding\<close>

text \<open>The repositories after a mutation that was served at most at one server.\<close>

definition served_once :: "'s ControlPlane \<Rightarrow> ('s \<Rightarrow> Status \<times> 's) \<Rightarrow> 's meta_group \<Rightarrow> 's meta_group \<Rightarrow> bool \<Rightarrow> bool" where
  "served_once cp serve w w' acknowledged \<longleftrightarrow>
    \<not> acknowledged \<and> (\<forall>x. ms_repo (w' x) = ms_repo (w x)) \<or>
    (\<exists>l st repo. cp_leadership cp (ms_repo (w l)) = kLeaderHere \<and> serve (ms_repo (w l)) = (st, repo) \<and> (acknowledged \<longrightarrow> ok st) \<and>
      (\<forall>x. ms_repo (w' x) = (if x = l then repo else ms_repo (w x))))"

lemma served_once_cong: "\<forall>x. ms_repo (v x) = ms_repo (w x) \<Longrightarrow> served_once cp serve v w' b = served_once cp serve w w' b"
  by (simp add: served_once_def)

lemma served_once_weaken: "served_once cp serve w w' b \<Longrightarrow> (b' \<longrightarrow> b) \<Longrightarrow> served_once cp serve w w' b'"
  unfolding served_once_def by blast

lemma ack_ok: "ok \<lparr>code = FromProtoCode (ma_code (meta_ack s)), message = m\<rparr> \<longleftrightarrow> ok s"
  by (simp add: meta_ack_def MetaAck_default_def ok_def)

lemma Remote_mutation_once:
  assumes "Remote_mutation rpc fate h w = (s, w')" and "h w = (Some ack, w'')"
    and "served_once cp serve w w'' (ok \<lparr>code = FromProtoCode (ma_code ack), message = ma_message ack\<rparr>)"
  shows "served_once cp serve w w' (ok s)"
proof -
  have "ok s \<longrightarrow> w' = w'' \<and> ok \<lparr>code = FromProtoCode (ma_code ack), message = ma_message ack\<rparr>" "w' = w'' \<or> w' = w \<and> \<not> ok s"
    using assms(1,2) by (auto simp: Remote_mutation_def rpc_call_def split: if_splits)
  then show ?thesis
  proof (elim disjE)
    assume "w' = w''" "ok s \<longrightarrow> w' = w'' \<and> ok \<lparr>code = FromProtoCode (ma_code ack), message = ma_message ack\<rparr>"
    then show ?thesis using served_once_weaken [OF assms(3)] by blast
  qed (simp add: served_once_def)
qed

lemma Meta_mutation_here:
  assumes "ResolveMutation cp (ms_repo (w a)) = kLocal \<or> ResolveMutation cp (ms_repo (w a)) = kReject"
  shows "\<exists>ack w'. Meta_mutation cp rpc serve again fates hops a req w = (Some ack, w') \<and>
    served_once cp (serve req) w w' (ok \<lparr>code = FromProtoCode (ma_code ack), message = ma_message ack\<rparr>)"
  using assms
proof
  assume l: "ResolveMutation cp (ms_repo (w a)) = kLocal"
  then have "cp_leadership cp (ms_repo (w a)) = kLeaderHere" by (auto simp: ResolveMutation_def Let_def split: Leadership.splits if_splits)
  moreover obtain s repo where s: "serve req (ms_repo (w a)) = (s, repo)" by fastforce
  ultimately have "served_once cp (serve req) w (w(a := (w a)\<lparr>ms_repo := repo\<rparr>)) (ok s)" unfolding served_once_def by auto
  then show ?thesis using Meta_mutation_local [where serve = serve and cp = cp and w = w and a = a and req = req, OF l s] by (simp add: ack_ok)
next
  assume "ResolveMutation cp (ms_repo (w a)) = kReject"
  then show ?thesis by (subst Meta_mutation.simps) (simp add: served_once_def MetaAck_default_def FromProtoCode_def ok_def)
qed

lemma Meta_mutation_once:
  assumes "\<And>req. serve (again req) = serve req"
  shows "\<exists>ack w'. Meta_mutation cp rpc serve again fates hops a req w = (Some ack, w') \<and>
    served_once cp (serve req) w w' (ok \<lparr>code = FromProtoCode (ma_code ack), message = ma_message ack\<rparr>)"
proof (induction hops arbitrary: a req w)
  case 0
  show ?case
  proof (cases "ResolveMutation cp (ms_repo (w a))")
    case (kForward leader)
    then show ?thesis
      by (subst Meta_mutation.simps) (simp add: meta_ack_def MetaAck_default_def served_once_def ForwardClient_def Unavailable_def ok_def)
  qed (rule Meta_mutation_here, simp)+
next
  case (Suc hops)
  show ?case
  proof (cases "ResolveMutation cp (ms_repo (w a))")
    case (kForward leader)
    let ?w = "w(a := ForwardClient leader (w a))" and ?h = "Meta_mutation cp rpc serve again fates hops leader (again req)"
    have same: "\<forall>x. ms_repo (?w x) = ms_repo (w x)" by (simp add: ForwardClient_def)
    obtain s w' where r: "Remote_mutation rpc (fates (Suc hops)) ?h ?w = (s, w')" by fastforce
    obtain ack w'' where h: "?h ?w = (Some ack, w'')"
        "served_once cp (serve (again req)) ?w w'' (ok \<lparr>code = FromProtoCode (ma_code ack), message = ma_message ack\<rparr>)"
      using Suc.IH [of leader "again req" ?w] by blast
    have "served_once cp (serve req) w w' (ok s)"
      using Remote_mutation_once [OF r h] by (simp only: assms served_once_cong [OF same])
    then show ?thesis using kForward r by (subst Meta_mutation.simps) (simp add: ack_ok)
  qed (rule Meta_mutation_here, simp)+
qed

text \<open>
  C10. A registration sent to any server of a group is executed at most once, whatever hints the servers have about the
  leader (stale ones and cycles included) and whichever of the forwarded calls are lost: either no repository changed
  and the client got an error, or exactly one server, which believed itself leader, executed it. An acknowledged
  registration was executed. This holds for every control plane, in particular for \<open>repo_plane\<close> and \<open>raft_plane\<close>, where
  executing is proposing and waiting; what the Raft threads of the other servers do meanwhile is \<open>Raft_Cluster\<close>.
\<close>

theorem mutation_at_most_once:
  assumes "Remote_RegisterObject fate (Meta_RegisterObject cp fates hops a) loc w = (s, w')"
  shows "\<not> ok s \<and> (\<forall>x. ms_repo (w' x) = ms_repo (w x)) \<or>
    (\<exists>l st repo. cp_leadership cp (ms_repo (w l)) = kLeaderHere \<and> cp_RegisterObject cp loc (ms_repo (w l)) = (st, repo) \<and> (ok s \<longrightarrow> ok st) \<and>
      (\<forall>x. ms_repo (w' x) = (if x = l then repo else ms_repo (w x))))"
proof -
  let ?serve = "\<lambda>req. cp_RegisterObject cp (FromProtoLocation req)" and ?again = "\<lambda>req. ToProtoLocation (FromProtoLocation req)"
  have again: "?serve (?again req) = ?serve req" for req by simp
  obtain ack w'' where h: "Meta_RegisterObject cp fates hops a (ToProtoLocation loc) w = (Some ack, w'')"
      "served_once cp (?serve (ToProtoLocation loc)) w w'' (ok \<lparr>code = FromProtoCode (ma_code ack), message = ma_message ack\<rparr>)"
    using Meta_mutation_once [where serve = ?serve and again = ?again and req = "ToProtoLocation loc", OF again]
    unfolding Meta_RegisterObject_def by blast
  from Remote_mutation_once [OF assms [unfolded Remote_RegisterObject_def] h] show ?thesis
    unfolding served_once_def From_To_ProtoLocation .
qed

text \<open>
  A group of replicated servers in which \<open>c\<close> still names \<open>b\<close>, which names the leader \<open>a\<close>; while the registration waits,
  \<open>b\<close> answers and \<open>a\<close> commits it.
\<close>

definition trio_threads :: raft_threads where
  "trio_threads = \<lparr>rt_propose = (\<lambda>n. n), rt_wait = (\<lambda>n. [n, comm_a])\<rparr>"

definition trio_plane :: "raft_server ControlPlane" where
  "trio_plane = raft_plane register_of_key key_of_register (env_at 300) trio_threads"

definition trio_repo :: RaftMetadataRepository where
  "trio_repo = SetPeerMetadataAddress ''a'' ''host-a'' (SetPeerMetadataAddress ''b'' ''host-b'' (AttachRaft (RaftMetadataRepository_new 1)))"

definition trio_group :: "raft_server meta_group" where
  "trio_group x =
    \<lparr>ms_repo = \<lparr>rs_repo = trio_repo,
       rs_node = if x = ''host-a'' then lead_a else if x = ''host-b'' then stored_b else stored_b\<lparr>leader_id := ''b''\<rparr>\<rparr>,
     ms_forward_clients = {}\<rparr>"

lemma trio_nodes:
  "ms_repo (trio_group x) = \<lparr>rs_repo = trio_repo, rs_node = rs_node (ms_repo (trio_group x))\<rparr>"
  "cp_leadership trio_plane (ms_repo (trio_group x)) = kLeaderHere \<longleftrightarrow> x = ''host-a''"
  "ResolveMutation trio_plane (ms_repo (trio_group ''host-a'')) = kLocal"
  "ResolveMutation trio_plane (ms_repo (trio_group ''host-b'')) = kForward ''host-a''"
  "ResolveMutation trio_plane (ms_repo (trio_group ''host-c'')) = kForward ''host-b''"
proof -
  have "leader_id stored_b = ''a''"
    by (simp add: stored_b_def HandleAppendEntries_def Let_def StepDownIfStaleLocked_def append_b_def voted_b node_simps entry_x_def done1_def)
  then show "ms_repo (trio_group x) = \<lparr>rs_repo = trio_repo, rs_node = rs_node (ms_repo (trio_group x))\<rparr>"
      "cp_leadership trio_plane (ms_repo (trio_group x)) = kLeaderHere \<longleftrightarrow> x = ''host-a''"
      "ResolveMutation trio_plane (ms_repo (trio_group ''host-a'')) = kLocal"
      "ResolveMutation trio_plane (ms_repo (trio_group ''host-b'')) = kForward ''host-a''"
      "ResolveMutation trio_plane (ms_repo (trio_group ''host-c'')) = kForward ''host-b''"
    by (simp_all add: ResolveMutation_def trio_plane_def raft_plane_def trio_group_def trio_repo_def leadership_def leader_forward_address_def
        SetPeerMetadataAddress_def AttachRaft_def RaftMetadataRepository_new_def lead_a stored_b)
qed

lemma trio_register:
  "cp_RegisterObject trio_plane loc_x (ms_repo (trio_group ''host-a'')) =
    (Status_Ok, \<lparr>rs_repo = replay register_of_key trio_repo [entry_x], rs_node = comm_a\<rparr>)"
proof -
  have cmd: "key_of_register (register_object (ToProtoLocation loc_x)) = ''x''"
    by (simp add: key_of_register_def ToProtoLocation_def loc_x_def)
  have w: "WaitApplied 1 1 [prop_a, comm_a] = Status_Ok"
    by (simp add: comm_a prop_a LastLogIndexLocked_def last_index_def TermAtLocked_def term_at_def entry_x_def)
  have att: "rmr_attached trio_repo" by (simp add: trio_repo_def SetPeerMetadataAddress_def AttachRaft_def)
  have reg: "Raft_RegisterObject key_of_register (env_at 300) trio_repo lead_a lead_a ns loc_x = Some (prop_a, WaitApplied 1 1 ns)" for ns
    using prop_a(1) att by (simp add: Raft_RegisterObject_def ProposeAndWait_def cmd lead_a)
  show ?thesis
    by (simp add: trio_plane_def raft_plane_def raft_mutation_def trio_threads_def trio_group_def reg w [unfolded One_nat_def] lead_a comm_a del: WaitApplied.simps)
qed

theorem mutation_at_most_once_witness:
  "\<exists>w'. Remote_RegisterObject fate_good (Meta_RegisterObject trio_plane (\<lambda>_. fate_good) 2 ''host-c'') loc_x trio_group = (Status_Ok, w') \<and>
    (\<forall>x. ms_repo (w' x) = (if x = ''host-a'' then \<lparr>rs_repo = replay register_of_key trio_repo [entry_x], rs_node = comm_a\<rparr> else ms_repo (trio_group x)))"
proof -
  obtain s w' where r: "Remote_RegisterObject fate_good (Meta_RegisterObject trio_plane (\<lambda>_. fate_good) 2 ''host-c'') loc_x trio_group = (s, w')"
    by fastforce
  have s: "s = Status_Ok"
    using r by (simp add: Remote_RegisterObject_def Meta_RegisterObject_def Meta_mutation.simps Remote_mutation_def rpc_call_def fate_good_def
        trio_nodes(3-5) trio_register ForwardClient_def numeral_2_eq_2 meta_ack_def MetaAck_default_def Status_Ok_def ok_def ToProtoCode_def FromProtoCode_def)
  from mutation_at_most_once [OF r] s obtain l st repo where l: "cp_leadership trio_plane (ms_repo (trio_group l)) = kLeaderHere"
      "cp_RegisterObject trio_plane loc_x (ms_repo (trio_group l)) = (st, repo)"
      "\<forall>x. ms_repo (w' x) = (if x = l then repo else ms_repo (trio_group x))"
    by (auto simp: ok_def Status_Ok_def)
  have "l = ''host-a''" using l(1) by (simp only: trio_nodes(2))
  with r s l(2,3) show ?thesis by (simp add: trio_register)
qed

end
