(* ===== verification/Http_Text.thy ===== *)
theory Http_Text
  imports Decimal
begin

text \<open>
  What the HTTP code uses of the C++ library on strings: \<open>find\<close>, \<open>getline\<close>, \<open>operator>>\<close>, \<open>tolower\<close>, \<open>stoul\<close> and
  \<open>atoi\<close>, in the C locale, with the facts about searching that the message parsers rest on.
\<close>

section \<open>Definitions\<close>

definition crlf :: string where
  "crlf = [CHR 0x0D, CHR 0x0A]"

definition isspace :: "char \<Rightarrow> bool" where
  "isspace c \<longleftrightarrow> c = CHR '' '' \<or> (9 \<le> (of_char c :: nat) \<and> (of_char c :: nat) \<le> 13)"

definition tolower :: "char \<Rightarrow> char" where
  "tolower c = (if 65 \<le> (of_char c :: nat) \<and> (of_char c :: nat) \<le> 90 then char_of (of_char c + 32 :: nat) else c)"

text \<open>\<open>std::string::find\<close> of a string, \<open>None\<close> for \<open>npos\<close>; \<open>find (c)\<close> is \<open>find_str [c]\<close>.\<close>

fun find_str :: "string \<Rightarrow> string \<Rightarrow> nat option" where
  "find_str pat [] = (if pat = [] then Some 0 else None)"
| "find_str pat (c # s) = (if take (length pat) (c # s) = pat then Some 0 else map_option Suc (find_str pat s))"

text \<open>The pieces a \<open>while (getline (ss, x, d))\<close> loop sees: a delimiter at the end makes no further piece.\<close>

function getlines :: "char \<Rightarrow> string \<Rightarrow> string list" where
  "getlines d [] = []"
| "getlines d (c # s) = takeWhile (\<lambda>x. x \<noteq> d) (c # s) # getlines d (drop 1 (dropWhile (\<lambda>x. x \<noteq> d) (c # s)))"
  by pat_completeness auto
termination
proof (relation "measure (\<lambda>(d, s). length s)")
  show "((d, drop 1 (dropWhile (\<lambda>x. x \<noteq> d) (c # s))), (d, c # s)) \<in> measure (\<lambda>(d, s). length s)" for d c s
    using length_dropWhile_le [of "\<lambda>x. x \<noteq> d" "c # s"] by (cases "dropWhile (\<lambda>x. x \<noteq> d) (c # s)") auto
qed simp

text \<open>\<open>stream >> word\<close>: the word and the rest.\<close>

definition next_word :: "string \<Rightarrow> string \<times> string" where
  "next_word s = (let s = dropWhile isspace s in (takeWhile (\<lambda>c. \<not> isspace c) s, dropWhile (\<lambda>c. \<not> isspace c) s))"

definition strip_sign :: "string \<Rightarrow> bool \<times> string" where
  "strip_sign s = (case s of [] \<Rightarrow> (False, []) | c # cs \<Rightarrow> if c = CHR ''-'' then (True, cs) else if c = CHR ''+'' then (False, cs) else (False, s))"

text \<open>\<open>std::stoul\<close> at 64 bits; \<open>None\<close> when it throws \<open>invalid_argument\<close> or \<open>out_of_range\<close>. A minus sign negates modulo \<open>2 ^ 64\<close>.\<close>

definition stoul :: "string \<Rightarrow> nat option" where
  "stoul s = (let (neg, s) = strip_sign (dropWhile isspace s); ds = takeWhile is_digit s
     in if ds = [] \<or> u64_size \<le> digits_value ds then None
        else Some (if neg then u64_sub 0 (digits_value ds) else digits_value ds))"

definition atoi :: "string \<Rightarrow> int" where
  "atoi s = (let (neg, s) = strip_sign (dropWhile isspace s); v = int (digits_value (takeWhile is_digit s)) in if neg then - v else v)"

section \<open>Searching\<close>

lemma find_str_Some:
  "find_str pat s = Some i \<Longrightarrow> i + length pat \<le> length s \<and> take (length pat) (drop i s) = pat"
proof (induction s arbitrary: i)
  case (Cons c s)
  show ?case
  proof (cases "take (length pat) (c # s) = pat")
    case True
    then have "length pat = length (take (length pat) (c # s))" by simp
    then have "length pat \<le> Suc (length s)" by simp
    then show ?thesis using Cons.prems True by simp
  next
    case False
    then obtain j where "find_str pat s = Some j" "i = Suc j" using Cons.prems by auto
    then show ?thesis using Cons.IH by simp
  qed
qed (simp split: if_splits)

lemma find_str_skip:
  assumes "\<forall>j < length xs. take (length pat) (drop j (xs @ s)) \<noteq> pat" and "find_str pat s = Some 0"
  shows "find_str pat (xs @ s) = Some (length xs)"
  using assms(1)
proof (induction xs)
  case (Cons x xs)
  have "take (length pat) (x # xs @ s) \<noteq> pat" using Cons.prems by (metis append_Cons drop0 length_greater_0_conv list.distinct(1))
  moreover have "\<forall>j < length xs. take (length pat) (drop j (xs @ s)) \<noteq> pat" using Cons.prems by auto
  ultimately show ?case using Cons.IH by simp
qed (simp add: assms(2))

text \<open>The first character of the pattern occurs only at the match.\<close>

lemma find_str_fresh:
  assumes "c \<notin> set xs"
  shows "find_str (c # pat) (xs @ c # pat @ ys) = Some (length xs)"
proof (rule find_str_skip)
  show "\<forall>j < length xs. take (length (c # pat)) (drop j (xs @ c # pat @ ys)) \<noteq> c # pat"
  proof (intro allI impI)
    fix j assume "j < length xs"
    then have "take (length (c # pat)) (drop j (xs @ c # pat @ ys)) ! 0 = xs ! j" by (simp add: nth_append)
    moreover have "xs ! j \<noteq> c" using assms \<open>j < length xs\<close> by (metis nth_mem)
    ultimately show "take (length (c # pat)) (drop j (xs @ c # pat @ ys)) \<noteq> c # pat" by (metis nth_Cons_0)
  qed
qed simp

lemma find_str_none: "c \<notin> set s \<Longrightarrow> find_str (c # pat) s = None"
proof (induction s)
  case (Cons x s)
  then have "take (length (c # pat)) (x # s) \<noteq> c # pat" by auto
  then show ?case using Cons by simp
qed simp

text \<open>A search in a message of which only a prefix has arrived.\<close>

lemma find_str_prefix:
  assumes "find_str pat (s @ t) = Some i" and "pat \<noteq> []"
  shows "find_str pat s = (if i + length pat \<le> length s then Some i else None)"
  using assms(1)
proof (induction s arbitrary: i)
  case (Cons c s)
  let ?p = "take (length pat) (c # s) = pat"
  show ?case
  proof (cases "take (length pat) (c # s @ t) = pat")
    case True
    then have "i = 0" using Cons.prems by simp
    moreover have "?p \<longleftrightarrow> length pat \<le> Suc (length s)"
    proof
      assume ?p
      then have "length pat = length (take (length pat) (c # s))" by simp
      then show "length pat \<le> Suc (length s)" by simp
    next
      assume "length pat \<le> Suc (length s)"
      then have "take (length pat) ((c # s) @ t) = take (length pat) (c # s)" by (simp only: take_append) simp
      then show ?p using True by simp
    qed
    moreover have "find_str pat s = None" if "\<not> length pat \<le> Suc (length s)"
      using find_str_Some [of pat s] that by (cases "find_str pat s") fastforce+
    ultimately show ?thesis by simp
  next
    case False
    then obtain j where j: "find_str pat (s @ t) = Some j" "i = Suc j" using Cons.prems by auto
    have "\<not> ?p"
    proof
      assume p: ?p
      then have "length pat = length (take (length pat) (c # s))" by simp
      then have "length pat \<le> length (c # s)" by simp
      then have "take (length pat) ((c # s) @ t) = pat" using p by (simp only: take_append) simp
      then show False using False by simp
    qed
    then show ?thesis using Cons.IH [OF j(1)] j(2) by simp
  qed
qed (use assms(2) in simp)

section \<open>Lines\<close>

lemma getlines_single: "d \<notin> set x \<Longrightarrow> getlines d (x @ d # s) = x # getlines d s"
proof -
  assume x: "d \<notin> set x"
  then have "takeWhile (\<lambda>x. x \<noteq> d) (x @ d # s) = x" "dropWhile (\<lambda>x. x \<noteq> d) (x @ d # s) = d # s"
    by (induction x) auto
  moreover obtain c s' where "x @ d # s = c # s'" by (cases x) auto
  ultimately show ?thesis by simp
qed

lemma getlines_last: "d \<notin> set x \<Longrightarrow> x \<noteq> [] \<Longrightarrow> getlines d x = [x]"
proof -
  assume x: "d \<notin> set x" "x \<noteq> []"
  then have "takeWhile (\<lambda>x. x \<noteq> d) x = x" "dropWhile (\<lambda>x. x \<noteq> d) x = []" by (induction x) auto
  moreover obtain c s' where "x = c # s'" using x(2) by (cases x) auto
  ultimately show ?thesis by simp
qed

lemma next_word_is:
  assumes "w \<noteq> []" and "\<forall>c \<in> set w. \<not> isspace c" and "s = [] \<or> isspace (hd s)"
  shows "next_word (w @ s) = (w, s)"
proof -
  have "dropWhile isspace (w @ s) = w @ s" using assms(1,2) by (cases w) auto
  moreover have "takeWhile (\<lambda>c. \<not> isspace c) s = []" "dropWhile (\<lambda>c. \<not> isspace c) s = s" using assms(3) by (cases s; simp)+
  ultimately show ?thesis using assms(2) by (simp add: next_word_def takeWhile_append dropWhile_append)
qed

lemma next_word_space: "isspace c \<Longrightarrow> next_word (c # s) = next_word s"
  by (simp add: next_word_def)

section \<open>Numbers\<close>

lemma is_digit_not_space: "is_digit c \<Longrightarrow> \<not> isspace c"
  by (auto simp: is_digit_def isspace_def)

lemma strip_sign_digits: "\<forall>c \<in> set ds. is_digit c \<Longrightarrow> strip_sign ds = (False, ds)"
  by (cases ds) (auto simp: strip_sign_def is_digit_def)

lemma stoul_to_string: "n < u64_size \<Longrightarrow> stoul (to_string n) = Some n"
proof -
  assume n: "n < u64_size"
  have d: "\<forall>c \<in> set (to_string n). is_digit c" by (rule to_string_digits)
  have "dropWhile isspace (to_string n) = to_string n"
    using d is_digit_not_space by (cases "to_string n") auto
  moreover have "takeWhile is_digit (to_string n) = to_string n" using d by (rule takeWhile_eq_all_conv [THEN iffD2])
  ultimately show ?thesis using n strip_sign_digits [OF d] by (simp only: stoul_def Let_def split digits_value_to_string) simp
qed

lemma atoi_to_string: "atoi (to_string n) = int n"
proof -
  have d: "\<forall>c \<in> set (to_string n). is_digit c" by (rule to_string_digits)
  have "dropWhile isspace (to_string n) = to_string n"
    using d is_digit_not_space by (cases "to_string n") auto
  moreover have "takeWhile is_digit (to_string n) = to_string n" using d by (rule takeWhile_eq_all_conv [THEN iffD2])
  ultimately show ?thesis using strip_sign_digits [OF d] by (simp only: atoi_def Let_def split digits_value_to_string) simp
qed

lemma to_string_length3: "100 \<le> n \<Longrightarrow> n < 1000 \<Longrightarrow> length (to_string n) = 3"
proof -
  assume n: "100 \<le> n" "n < 1000"
  have "10 \<le> n div 10" "n div 10 div 10 < 10" using n by auto
  then show ?thesis using n
    by (simp add: to_string.simps [of n] to_string.simps [of "n div 10"] to_string.simps [of "n div 10 div 10"])
qed

end
