(* ===== verification/Http.thy ===== *)
theory Http
  imports Http_Text Posix Ordered_Map Thread_Pool
begin

text \<open>
  \<open>src/network/http_server.cc\<close> and \<open>src/network/http_client.cc\<close>: the messages, how each side prints and parses them,
  and that a message arrives as it was sent however the kernel cuts it into reads.

  A socket is the list of answers to successive \<open>read\<close> calls; the empty read and the end of the list are the end of
  the stream. \<open>int\<close> status codes are \<open>nat\<close> in a response, which every handler sets to a constant.
\<close>

section \<open>Messages\<close>

record HttpRequest =
  hq_method :: string
  hq_path :: string
  hq_query :: "(string, string) omap"
  hq_body :: string

record HttpResponse =
  hp_status :: nat
  hp_content_type :: string
  hp_body :: string
  hp_headers :: "(string, string) omap"

definition HttpRequest_default :: HttpRequest where
  "HttpRequest_default = \<lparr>hq_method = '''', hq_path = '''', hq_query = [], hq_body = ''''\<rparr>"

definition HttpResponse_default :: HttpResponse where
  "HttpResponse_default = \<lparr>hp_status = 200, hp_content_type = ''application/octet-stream'', hp_body = '''', hp_headers = []\<rparr>"

datatype read_answer = Got string | ReadEintr | ReadErr

section \<open>The server\<close>

definition ReasonPhrase :: "nat \<Rightarrow> string" where
  "ReasonPhrase status =
    (if status = 200 then ''OK''
     else if status = 201 then ''Created''
     else if status = 204 then ''No Content''
     else if status = 400 then ''Bad Request''
     else if status = 404 then ''Not Found''
     else if status = 409 then ''Conflict''
     else if status = 422 then ''Unprocessable Entity''
     else if status = 500 then ''Internal Server Error''
     else if status = 503 then ''Service Unavailable''
     else ''OK'')"

definition parse_pair :: "(string, string) omap \<Rightarrow> string \<Rightarrow> (string, string) omap" where
  "parse_pair query pair =
    (case find_str ''='' pair of
       None \<Rightarrow> om_set pair '''' query
     | Some eq \<Rightarrow> om_set (take eq pair) (drop (eq + 1) pair) query)"

definition ParseTarget :: "string \<Rightarrow> HttpRequest \<Rightarrow> HttpRequest" where
  "ParseTarget target req =
    (case find_str ''?'' target of
       None \<Rightarrow> req\<lparr>hq_path := target\<rparr>
     | Some q \<Rightarrow> req\<lparr>hq_path := take q target, hq_query := foldl parse_pair (hq_query req) (getlines CHR ''&'' (drop (q + 1) target))\<rparr>)"

text \<open>Reading until the header block is complete; \<open>None\<close> when the stream ends or a read fails before.\<close>

fun header_loop :: "read_answer list \<Rightarrow> string \<Rightarrow> (string \<times> nat \<times> read_answer list) option" where
  "header_loop reads buf =
    (case find_str (crlf @ crlf) buf of
       Some header_end \<Rightarrow> Some (buf, header_end, reads)
     | None \<Rightarrow>
         (case reads of
            Got chunk # reads' \<Rightarrow> if chunk = [] then None else header_loop reads' (buf @ chunk)
          | _ \<Rightarrow> None))"

declare header_loop.simps [simp del]

definition pop_cr :: "string \<Rightarrow> string" where
  "pop_cr line = (if line \<noteq> [] \<and> last line = CHR 0x0D then butlast line else line)"

text \<open>A header line: its name in lower case and its value without leading spaces.\<close>

definition header_field :: "string \<Rightarrow> (string \<times> string) option" where
  "header_field line =
    (case find_str '':'' line of
       None \<Rightarrow> None
     | Some colon \<Rightarrow> Some (map tolower (take colon line), dropWhile (\<lambda>c. c = CHR '' '') (drop (colon + 1) line)))"

text \<open>\<open>None\<close> when \<open>std::stoul\<close> throws.\<close>

fun content_length_loop :: "string list \<Rightarrow> nat \<Rightarrow> nat option" where
  "content_length_loop [] content_length = Some content_length"
| "content_length_loop (line # ls) content_length =
    (case header_field (pop_cr line) of
       None \<Rightarrow> content_length_loop ls content_length
     | Some (name, value) \<Rightarrow>
         if name = ''content-length''
         then (case stoul value of None \<Rightarrow> None | Some n \<Rightarrow> content_length_loop ls n)
         else content_length_loop ls content_length)"

fun body_loop :: "nat \<Rightarrow> read_answer list \<Rightarrow> string \<Rightarrow> string" where
  "body_loop content_length reads body =
    (if content_length \<le> length body then body
     else (case reads of
             Got chunk # reads' \<Rightarrow> if chunk = [] then body else body_loop content_length reads' (body @ chunk)
           | _ \<Rightarrow> body))"

declare body_loop.simps [simp del]

definition parse_request_line :: "string \<Rightarrow> HttpRequest" where
  "parse_request_line request_line =
    (let (method, rest) = next_word request_line; (target, rest) = next_word rest
     in ParseTarget target (HttpRequest_default\<lparr>hq_method := method\<rparr>))"

definition format_response :: "HttpResponse \<Rightarrow> string" where
  "format_response resp =
    ''HTTP/1.1 '' @ to_string (hp_status resp) @ '' '' @ ReasonPhrase (hp_status resp) @ crlf
    @ ''Content-Length: '' @ to_string (length (hp_body resp)) @ crlf
    @ ''Content-Type: '' @ hp_content_type resp @ crlf
    @ concat (map (\<lambda>(k, v). k @ '': '' @ v @ crlf) (hp_headers resp))
    @ ''Connection: close'' @ crlf @ crlf
    @ hp_body resp"

text \<open>
  What becomes of a connection: closed without a reply, closed after the reply (with the bytes that were written),
  or left open because an exception leaves \<open>ServeConnection\<close>.
\<close>

datatype conn_end = Dropped | Replied string | Threw

definition ServeConnection ::
  "(HttpRequest \<Rightarrow> 's \<Rightarrow> HttpResponse \<times> 's) \<Rightarrow> read_answer list \<Rightarrow> write_answer list \<Rightarrow> 's \<Rightarrow> conn_end \<times> 's" where
  "ServeConnection handler reads writes s =
    (case header_loop reads '''' of
       None \<Rightarrow> (Dropped, s)
     | Some (buf, header_end, reads) \<Rightarrow>
         let ls = getlines CHR 0x0A (take header_end buf);
             req = parse_request_line (pop_cr (case ls of [] \<Rightarrow> '''' | l # _ \<Rightarrow> l))
         in (case content_length_loop (tl ls) 0 of
              None \<Rightarrow> (Threw, s)
            | Some content_length \<Rightarrow>
                let body = body_loop content_length reads (drop (header_end + 4) buf);
                    (resp, s) = handler (req\<lparr>hq_body := body\<rparr>) s
                in (Replied (fst (write_loop writes '''' (format_response resp))), s)))"

text \<open>
  The server object. \<open>Start\<close> and \<open>Shutdown\<close> with the kernel's answers as inputs; of the accept thread only whether
  it runs is state.
\<close>

record HttpServer =
  sv_pool :: "nat ThreadPool"
  sv_listen_fd :: "nat option"
  sv_bound_port :: nat
  sv_running :: bool
  sv_accept_thread :: bool

definition HttpServer_new :: "nat \<Rightarrow> HttpServer" where
  "HttpServer_new worker_threads = \<lparr>sv_pool = ThreadPool_new worker_threads 1024, sv_listen_fd = None, sv_bound_port = 0, sv_running = False,
    sv_accept_thread = False\<rparr>"

record start_env =
  se_socket :: "nat option"
  se_bind :: bool
  se_listen :: bool
  se_getsockname :: "nat option"

definition HttpServer_Start :: "start_env \<Rightarrow> HttpServer \<Rightarrow> bool \<times> HttpServer" where
  "HttpServer_Start env s =
    (case se_socket env of
       None \<Rightarrow> (False, s\<lparr>sv_listen_fd := None\<rparr>)
     | Some fd \<Rightarrow>
         if \<not> se_bind env then (False, s\<lparr>sv_listen_fd := None\<rparr>)
         else if \<not> se_listen env then (False, s\<lparr>sv_listen_fd := None\<rparr>)
         else (True, s\<lparr>sv_listen_fd := Some fd, sv_bound_port := (case se_getsockname env of None \<Rightarrow> sv_bound_port s | Some port \<Rightarrow> port),
                 sv_running := True, sv_accept_thread := True\<rparr>))"

text \<open>
  \<open>AcceptLoop\<close>: each turn has the value of \<open>running_\<close> at its two reads, the answer of \<open>accept\<close>, and what the workers
  did to the pool meanwhile. The result is the pool and the connections the accept thread served itself, because the
  pool rejected them.
\<close>

datatype accept_answer = Accepted nat | AcceptEintr | AcceptErr

datatype accept_turn = Queued | Inline

definition AcceptLoop_turn :: "'t \<Rightarrow> 't ThreadPool \<Rightarrow> accept_turn \<times> 't ThreadPool" where
  "AcceptLoop_turn fd pool = (let (st, pool) = Submit fd pool in (if ok st then Queued else Inline, pool))"

fun AcceptLoop ::
  "(bool \<times> (nat ThreadPool \<Rightarrow> nat ThreadPool) \<times> accept_answer \<times> bool) list \<Rightarrow> nat ThreadPool \<Rightarrow> nat list \<Rightarrow> nat ThreadPool \<times> nat list" where
  "AcceptLoop [] pool served = (pool, served)"
| "AcceptLoop ((go_on, work, answer, still_on) # turns) pool served =
    (if \<not> go_on then (pool, served)
     else (case answer of
             Accepted fd \<Rightarrow>
               let (turn, pool) = AcceptLoop_turn fd (work pool)
               in AcceptLoop turns pool (if turn = Queued then served else served @ [fd])
           | AcceptEintr \<Rightarrow> if \<not> still_on then (work pool, served) else AcceptLoop turns (work pool) served
           | AcceptErr \<Rightarrow> (work pool, served)))"

definition HttpServer_Shutdown :: "HttpServer \<Rightarrow> HttpServer" where
  "HttpServer_Shutdown s =
    s\<lparr>sv_running := False, sv_listen_fd := None, sv_accept_thread := (sv_accept_thread s \<and> \<not> sv_running s), sv_pool := Shutdown_begin (sv_pool s)\<rparr>"

lemma AcceptLoop_turn_keeps:
  "AcceptLoop_turn fd pool = (turn, pool') \<Longrightarrow> tp_accepted pool' = tp_accepted pool @ (if turn = Queued then [fd] else [])"
  by (auto simp: AcceptLoop_turn_def Submit_def ok_def split: if_splits)

section \<open>The client\<close>

record HttpClientResponse =
  hc_status :: int
  hc_body :: string
  hc_headers :: "(string, string) omap"

definition HttpClientResponse_default :: HttpClientResponse where
  "HttpClientResponse_default = \<lparr>hc_status = 0, hc_body = '''', hc_headers = []\<rparr>"

definition format_request :: "string \<Rightarrow> string \<Rightarrow> string \<Rightarrow> string \<Rightarrow> string \<Rightarrow> string" where
  "format_request host method target body content_type =
    method @ '' '' @ target @ '' HTTP/1.1'' @ crlf
    @ ''Host: '' @ host @ crlf
    @ ''Content-Type: '' @ content_type @ crlf
    @ ''Content-Length: '' @ to_string (length body) @ crlf
    @ ''Connection: close'' @ crlf @ crlf
    @ body"

fun read_response :: "read_answer list \<Rightarrow> string \<Rightarrow> string" where
  "read_response [] resp = resp"
| "read_response (ReadErr # reads) resp = resp"
| "read_response (ReadEintr # reads) resp = read_response reads resp"
| "read_response (Got chunk # reads) resp = (if chunk = [] then resp else read_response reads (resp @ chunk))"

definition add_header :: "string \<Rightarrow> (string, string) omap \<Rightarrow> (string, string) omap" where
  "add_header line headers = (case header_field line of None \<Rightarrow> headers | Some (name, value) \<Rightarrow> om_set name value headers)"

function client_headers :: "string \<Rightarrow> (string, string) omap \<Rightarrow> (string, string) omap" where
  "client_headers rest headers =
    (case find_str crlf rest of
       None \<Rightarrow> add_header rest headers
     | Some line_end \<Rightarrow> client_headers (drop (line_end + 2) rest) (add_header (take line_end rest) headers))"
  by pat_completeness auto
termination
  by (relation "measure (\<lambda>(rest, headers). length rest)") (auto simp: crlf_def dest: find_str_Some)

declare client_headers.simps [simp del]

definition parse_response :: "string \<Rightarrow> HttpClientResponse" where
  "parse_response resp =
    (let out = HttpClientResponse_default;
         out = (case find_str '' '' resp of
                  None \<Rightarrow> out
                | Some sp \<Rightarrow> if sp + 4 \<le> length resp then out\<lparr>hc_status := atoi (take 3 (drop (sp + 1) resp))\<rparr> else out)
     in (case find_str (crlf @ crlf) resp of
          None \<Rightarrow> out
        | Some hdr_end \<Rightarrow>
            let out = out\<lparr>hc_body := drop (hdr_end + 4) resp\<rparr>; head = take hdr_end resp
            in (case find_str crlf head of
                 None \<Rightarrow> out
               | Some p \<Rightarrow> out\<lparr>hc_headers := client_headers (drop (p + 2) head) []\<rparr>)))"

text \<open>The answers of the kernel to one request.\<close>

record client_env =
  ce_socket :: "string option"
  ce_host_ok :: bool
  ce_connect :: "string option"
  ce_writes :: "write_answer list"
  ce_reads :: "read_answer list"

definition HttpClient_Request ::
  "client_env \<Rightarrow> string \<Rightarrow> string \<Rightarrow> string \<Rightarrow> string \<Rightarrow> string \<Rightarrow> HttpClientResponse StatusOr" where
  "HttpClient_Request env host method target body content_type =
    (case ce_socket env of
       Some e \<Rightarrow> Inl (IoError (''socket: '' @ e))
     | None \<Rightarrow>
         if \<not> ce_host_ok env then Inl (InvalidArgument (''bad host: '' @ host))
         else (case ce_connect env of
                 Some e \<Rightarrow> Inl (Unavailable (''connect to '' @ host @ '' failed: '' @ e))
               | None \<Rightarrow>
                   (case write_loop (ce_writes env) '''' (format_request host method target body content_type) of
                      (_, Some _) \<Rightarrow> Inl (IoError ''write request failed'')
                    | (_, None) \<Rightarrow> Inr (parse_response (read_response (ce_reads env) '''')))))"

section \<open>Streams\<close>

text \<open>The reads deliver exactly these bytes, cut anywhere, and then the end of the stream.\<close>

fun delivers :: "read_answer list \<Rightarrow> string \<Rightarrow> bool" where
  "delivers [] bytes \<longleftrightarrow> bytes = []"
| "delivers (Got chunk # reads) bytes \<longleftrightarrow> chunk \<noteq> [] \<and> take (length chunk) bytes = chunk \<and> delivers reads (drop (length chunk) bytes)"
| "delivers (_ # reads) bytes \<longleftrightarrow> False"

lemma delivers_step: "delivers (r # reads) bytes \<Longrightarrow> \<exists>chunk rest. r = Got chunk \<and> chunk \<noteq> [] \<and> bytes = chunk @ rest \<and> delivers reads rest"
  by (cases r) (auto, metis append_take_drop_id)

lemma header_loop_delivers:
  assumes "delivers reads bytes" and "find_str (crlf @ crlf) (buf @ bytes) = Some e"
  shows "\<exists>buf' reads' bytes'. header_loop reads buf = Some (buf', e, reads') \<and> buf' @ bytes' = buf @ bytes \<and> delivers reads' bytes' \<and>
    e + 4 \<le> length buf'"
  using assms
proof (induction reads arbitrary: buf bytes)
  case Nil
  then have b: "bytes = []" by simp
  have "e + length (crlf @ crlf) \<le> length buf" using find_str_Some [of "crlf @ crlf" buf e] Nil.prems b by simp
  moreover have "header_loop [] buf = Some (buf, e, [])" using Nil.prems b by (subst header_loop.simps) simp
  ultimately show ?case using b by (simp add: crlf_def)
next
  case (Cons r reads)
  from delivers_step [OF Cons.prems(1)] obtain chunk rest where r: "r = Got chunk" "chunk \<noteq> []" "bytes = chunk @ rest" "delivers reads rest" by blast
  have f: "find_str (crlf @ crlf) buf = (if e + 4 \<le> length buf then Some e else None)"
    using find_str_prefix [OF Cons.prems(2)] by (simp add: crlf_def)
  show ?case
  proof (cases "e + 4 \<le> length buf")
    case True
    then have "header_loop (r # reads) buf = Some (buf, e, r # reads)" using f by (subst header_loop.simps) simp
    then show ?thesis using Cons.prems(1) True by blast
  next
    case False
    then have "header_loop (r # reads) buf = header_loop reads (buf @ chunk)" using f r(1,2) by (subst header_loop.simps) simp
    moreover
    have "find_str (crlf @ crlf) ((buf @ chunk) @ rest) = Some e" using Cons.prems(2) r(3) by simp
    from Cons.IH [OF r(4) this] have "\<exists>buf' reads' bytes'. header_loop reads (buf @ chunk) = Some (buf', e, reads') \<and>
        buf' @ bytes' = buf @ chunk @ rest \<and> delivers reads' bytes' \<and> e + 4 \<le> length buf'" by simp
    ultimately show ?thesis unfolding r(3) by (simp only:)
  qed
qed

lemma body_loop_delivers: "delivers reads bytes \<Longrightarrow> body_loop (length (body @ bytes)) reads body = body @ bytes"
proof (induction reads arbitrary: body bytes)
  case Nil
  then show ?case by (subst body_loop.simps) simp
next
  case (Cons r reads)
  from delivers_step [OF Cons.prems] obtain chunk rest where r: "r = Got chunk" "chunk \<noteq> []" "bytes = chunk @ rest" "delivers reads rest" by blast
  have "body_loop (length ((body @ chunk) @ rest)) reads (body @ chunk) = (body @ chunk) @ rest" by (rule Cons.IH [OF r(4)])
  then show ?case using r(1-3) by (subst body_loop.simps) simp
qed

lemma read_response_delivers: "delivers (filter (\<lambda>r. r \<noteq> ReadEintr) reads) bytes \<Longrightarrow> read_response reads resp = resp @ bytes"
proof (induction reads resp arbitrary: bytes rule: read_response.induct)
  case (4 chunk reads resp)
  then obtain rest where r: "chunk \<noteq> []" "bytes = chunk @ rest" "delivers (filter (\<lambda>r. r \<noteq> ReadEintr) reads) rest"
    using delivers_step [of "Got chunk" "filter (\<lambda>r. r \<noteq> ReadEintr) reads" bytes] by auto
  then show ?case using "4.IH" [OF r(1,3)] by simp
qed simp_all

section \<open>Header blocks\<close>

definition plain :: "string \<Rightarrow> bool" where
  "plain s \<longleftrightarrow> CHR 0x0D \<notin> set s \<and> CHR 0x0A \<notin> set s"

lemma plain_simps [simp]: "plain []" "plain (c # s) \<longleftrightarrow> c \<noteq> CHR 0x0D \<and> c \<noteq> CHR 0x0A \<and> plain s" "plain (s @ t) \<longleftrightarrow> plain s \<and> plain t"
  by (auto simp: plain_def)

lemma plain_to_string [simp]: "plain (to_string n)"
  using to_string_digits [of n] by (auto simp: plain_def is_digit_def)

lemma isspace_line: "isspace (CHR 0x0D)" "isspace (CHR 0x0A)" "isspace (CHR '' '')"
  by (simp_all add: isspace_def)

lemma plain_words: "\<forall>c \<in> set w. \<not> isspace c \<Longrightarrow> plain w"
  using isspace_line unfolding plain_def by blast

fun join_lines :: "string list \<Rightarrow> string" where
  "join_lines [] = []"
| "join_lines [l] = l"
| "join_lines (l # l' # ls) = l @ crlf @ join_lines (l' # ls)"

lemma join_lines_Cons: "ls \<noteq> [] \<Longrightarrow> join_lines (l # ls) = l @ crlf @ join_lines ls"
  by (cases ls) simp_all

lemma join_lines_last: "join_lines (map f hs @ [z]) = concat (map (\<lambda>h. f h @ crlf) hs) @ z"
  by (induction hs) (auto simp: join_lines_Cons)

lemma hd_join_lines: "ls \<noteq> [] \<Longrightarrow> \<forall>l \<in> set ls. l \<noteq> [] \<and> plain l \<Longrightarrow> join_lines ls \<noteq> [] \<and> hd (join_lines ls) \<noteq> CHR 0x0D"
  by (cases ls rule: join_lines.cases) (auto simp: plain_def hd_append dest: hd_in_set)

lemma find_blank_line:
  assumes "CHR 0x0D \<notin> set x" and "y \<noteq> []" and "hd y \<noteq> CHR 0x0D"
  shows "find_str (crlf @ crlf) (x @ crlf @ y) = map_option (\<lambda>i. length x + 2 + i) (find_str (crlf @ crlf) y)"
  using assms(1)
proof (induction x)
  case Nil
  obtain c z where "y = c # z" "c \<noteq> CHR 0x0D" using assms(2,3) by (cases y) auto
  then show ?case by (simp add: crlf_def option.map_comp comp_def)
next
  case (Cons c x)
  then show ?case by (auto simp: crlf_def option.map_comp comp_def)
qed

lemma find_head_end:
  assumes "ls \<noteq> []" and "\<forall>l \<in> set ls. l \<noteq> [] \<and> plain l"
  shows "find_str (crlf @ crlf) (join_lines ls @ crlf @ crlf @ body) = Some (length (join_lines ls))"
  using assms
proof (induction ls rule: join_lines.induct)
  case (2 l)
  then show ?case using find_str_fresh [of "CHR 0x0D" l "CHR 0x0A # crlf" body] by (simp add: crlf_def plain_def)
next
  case (3 l l' ls)
  let ?y = "join_lines (l' # ls) @ crlf @ crlf @ body"
  have y: "?y \<noteq> []" "hd ?y \<noteq> CHR 0x0D" using hd_join_lines [of "l' # ls"] "3.prems" by auto
  have "CHR 0x0D \<notin> set l" using "3.prems"(2) by (simp add: plain_def)
  from find_blank_line [OF this y] show ?case using 3 by (simp add: crlf_def)
qed simp

fun cr_lines :: "string list \<Rightarrow> string list" where
  "cr_lines [] = []"
| "cr_lines [l] = [l]"
| "cr_lines (l # l' # ls) = (l @ [CHR 0x0D]) # cr_lines (l' # ls)"

lemma getlines_join: "\<forall>l \<in> set ls. l \<noteq> [] \<and> plain l \<Longrightarrow> getlines CHR 0x0A (join_lines ls) = cr_lines ls"
proof (induction ls rule: join_lines.induct)
  case (2 l)
  then show ?case by (simp add: getlines_last plain_def)
next
  case (3 l l' ls)
  have "getlines CHR 0x0A ((l @ [CHR 0x0D]) @ CHR 0x0A # join_lines (l' # ls)) = (l @ [CHR 0x0D]) # getlines CHR 0x0A (join_lines (l' # ls))"
    by (rule getlines_single) (use "3.prems" in \<open>simp add: plain_def\<close>)
  with 3 show ?case by (simp add: crlf_def)
qed simp

lemma pop_cr_plain: "plain l \<Longrightarrow> pop_cr l = l" "pop_cr (l @ [CHR 0x0D]) = l"
  by (auto simp: pop_cr_def plain_def dest: last_in_set)

lemma content_length_lines: "\<forall>l \<in> set ls. plain l \<Longrightarrow> content_length_loop (cr_lines ls) n = content_length_loop ls n"
  by (induction ls arbitrary: n rule: cr_lines.induct) (simp_all add: pop_cr_plain split: option.split prod.split)

lemma header_field_printed:
  assumes "CHR '':'' \<notin> set k" and "v = [] \<or> hd v \<noteq> CHR '' ''"
  shows "header_field (k @ '': '' @ v) = Some (map tolower k, v)"
proof -
  have "find_str '':'' (k @ CHR '':'' # CHR '' '' # v) = Some (length k)"
    using find_str_fresh [OF assms(1), of "[]" "CHR '' '' # v"] by simp
  moreover have "dropWhile (\<lambda>c. c = CHR '' '') v = v" using assms(2) by (cases v) auto
  ultimately show ?thesis by (simp add: header_field_def)
qed

section \<open>A request arrives\<close>

definition word_ok :: "string \<Rightarrow> bool" where
  "word_ok w \<longleftrightarrow> w \<noteq> [] \<and> (\<forall>c \<in> set w. \<not> isspace c)"

definition request_lines :: "string \<Rightarrow> string \<Rightarrow> string \<Rightarrow> string \<Rightarrow> nat \<Rightarrow> string list" where
  "request_lines host method target content_type n =
    [method @ '' '' @ target @ '' HTTP/1.1'', ''Host: '' @ host, ''Content-Type: '' @ content_type,
     ''Content-Length: '' @ to_string n, ''Connection: close'']"

lemma format_request_lines:
  "format_request host method target body content_type = join_lines (request_lines host method target content_type (length body)) @ crlf @ crlf @ body"
  by (simp add: format_request_def request_lines_def)

lemma request_lines_ok:
  assumes "word_ok method" and "word_ok target" and "plain host" and "plain content_type"
  shows "\<forall>l \<in> set (request_lines host method target content_type n). l \<noteq> [] \<and> plain l"
  using assms plain_words [of "method"] plain_words [of "target"] by (simp add: request_lines_def word_ok_def)

lemma parse_request_line_printed:
  assumes "word_ok method" and "word_ok target"
  shows "parse_request_line (method @ '' '' @ target @ '' HTTP/1.1'') = ParseTarget target (HttpRequest_default\<lparr>hq_method := method\<rparr>)"
proof -
  have "next_word (method @ '' '' @ target @ '' HTTP/1.1'') = (method, '' '' @ target @ '' HTTP/1.1'')"
    by (rule next_word_is) (use assms(1) isspace_line(3) in \<open>simp_all add: word_ok_def\<close>)
  moreover have "next_word (target @ '' HTTP/1.1'') = (target, '' HTTP/1.1'')"
    by (rule next_word_is) (use assms(2) isspace_line(3) in \<open>simp_all add: word_ok_def\<close>)
  ultimately show ?thesis by (simp add: parse_request_line_def next_word_space isspace_line(3))
qed

lemma lower_names: "map tolower ''Host'' = ''host''" "map tolower ''Content-Type'' = ''content-type''"
    "map tolower ''Content-Length'' = ''content-length''" "map tolower ''Connection'' = ''connection''"
  by code_simp+

lemma hd_to_string: "hd (to_string n) \<noteq> CHR '' ''"
  using to_string_digits [of n] is_digit_not_space isspace_line(3) by (cases "to_string n") auto

lemma request_content_length:
  assumes "plain host" and "plain content_type" and "n < u64_size"
  shows "content_length_loop (tl (request_lines host method target content_type n)) 0 = Some n"
proof -
  have name: "header_field (k @ '': '' @ v) = Some (map tolower k, dropWhile (\<lambda>c. c = CHR '' '') v)" if "CHR '':'' \<notin> set k" for k v
    using find_str_fresh [OF that, of "[]" "CHR '' '' # v"] by (simp add: header_field_def)
  have "header_field (''Host: '' @ host) = Some (''host'', dropWhile (\<lambda>c. c = CHR '' '') host)"
      "header_field (''Content-Type: '' @ content_type) = Some (''content-type'', dropWhile (\<lambda>c. c = CHR '' '') content_type)"
      "header_field (''Content-Length: '' @ to_string n) = Some (''content-length'', to_string n)"
      "header_field (''Connection: close'') = Some (''connection'', ''close'')"
    using name [of "''Host''" host] name [of "''Content-Type''" content_type] name [of "''Connection''" "''close''"]
      header_field_printed [of "''Content-Length''" "to_string n"] hd_to_string
    by (simp_all add: lower_names [simplified])
  then show ?thesis using assms stoul_to_string [of n] by (simp add: request_lines_def pop_cr_plain)
qed

definition request_of :: "string \<Rightarrow> string \<Rightarrow> string \<Rightarrow> HttpRequest" where
  "request_of method target body = (ParseTarget target (HttpRequest_default\<lparr>hq_method := method\<rparr>))\<lparr>hq_body := body\<rparr>"

lemma ServeConnection_request:
  assumes "word_ok method" and "word_ok target" and "plain host" and "plain content_type" and "length body < u64_size"
    and "delivers reads (format_request host method target body content_type)"
    and "handler (request_of method target body) s = (resp, s')"
  shows "ServeConnection handler reads writes s = (Replied (fst (write_loop writes '''' (format_response resp))), s')"
proof -
  let ?ls = "request_lines host method target content_type (length body)"
  note ok = request_lines_ok [OF assms(1-4), of "length body"]
  have ne: "?ls \<noteq> []" by (simp add: request_lines_def)
  note f = find_head_end [OF ne ok, of body]
  from header_loop_delivers [OF assms(6), of "''''"] f obtain buf reads' bytes' where
    h: "header_loop reads '''' = Some (buf, length (join_lines ?ls), reads')"
      "buf @ bytes' = join_lines ?ls @ crlf @ crlf @ body" "delivers reads' bytes'" "length (join_lines ?ls) + 4 \<le> length buf"
    unfolding format_request_lines by auto
  obtain b where b: "buf = join_lines ?ls @ crlf @ crlf @ b" "body = b @ bytes'"
  proof -
    have "take (length (join_lines ?ls) + 4) buf = take (length (join_lines ?ls) + 4) (buf @ bytes')" using h(4) by simp
    also have "\<dots> = join_lines ?ls @ crlf @ crlf" unfolding h(2) by (simp add: crlf_def)
    finally have "buf = (join_lines ?ls @ crlf @ crlf) @ drop (length (join_lines ?ls) + 4) buf" by (metis append_take_drop_id)
    then show ?thesis using that [of "drop (length (join_lines ?ls) + 4) buf"] h(2) by (metis append.assoc same_append_eq)
  qed
  have head: "take (length (join_lines ?ls)) buf = join_lines ?ls" and rest: "drop (length (join_lines ?ls) + 4) buf = b"
    unfolding b(1) by (simp_all add: crlf_def)
  have ls: "getlines CHR 0x0A (join_lines ?ls) = cr_lines ?ls" by (rule getlines_join [OF ok])
  have first: "cr_lines ?ls = (hd ?ls @ [CHR 0x0D]) # cr_lines (tl ?ls)" by (simp add: request_lines_def)
  have len: "content_length_loop (cr_lines (tl ?ls)) 0 = Some (length body)"
    using content_length_lines [of "tl ?ls"] ok request_content_length [OF assms(3-5)] by (simp add: request_lines_def)
  have body: "body_loop (length body) reads' b = body" using body_loop_delivers [OF h(3), of b] by (simp add: b(2))
  have req: "parse_request_line (hd ?ls) = ParseTarget target (HttpRequest_default\<lparr>hq_method := method\<rparr>)"
    using parse_request_line_printed [OF assms(1,2)] by (simp add: request_lines_def)
  show ?thesis
    by (simp add: ServeConnection_def h(1) head rest ls first len body req pop_cr_plain(2) assms(7) [unfolded request_of_def])
qed

section \<open>A response arrives\<close>

definition response_lines :: "HttpResponse \<Rightarrow> string list" where
  "response_lines resp =
    [''HTTP/1.1 '' @ to_string (hp_status resp) @ '' '' @ ReasonPhrase (hp_status resp),
     ''Content-Length: '' @ to_string (length (hp_body resp)), ''Content-Type: '' @ hp_content_type resp]
    @ map (\<lambda>(k, v). k @ '': '' @ v) (hp_headers resp) @ [''Connection: close'']"

definition value_ok :: "string \<Rightarrow> bool" where
  "value_ok v \<longleftrightarrow> plain v \<and> (v = [] \<or> hd v \<noteq> CHR '' '')"

definition name_ok :: "string \<Rightarrow> bool" where
  "name_ok k \<longleftrightarrow> plain k \<and> CHR '':'' \<notin> set k"

definition response_ok :: "HttpResponse \<Rightarrow> bool" where
  "response_ok resp \<longleftrightarrow> 100 \<le> hp_status resp \<and> hp_status resp < 1000 \<and> value_ok (hp_content_type resp) \<and>
    (\<forall>(k, v) \<in> set (hp_headers resp). name_ok k \<and> value_ok v)"

text \<open>The headers a client sees.\<close>

definition sent_headers :: "HttpResponse \<Rightarrow> (string \<times> string) list" where
  "sent_headers resp =
    [(''Content-Length'', to_string (length (hp_body resp))), (''Content-Type'', hp_content_type resp)] @ hp_headers resp
    @ [(''Connection'', ''close'')]"

definition lower_headers :: "(string \<times> string) list \<Rightarrow> (string, string) omap" where
  "lower_headers kvs = foldl (\<lambda>m (k, v). om_set (map tolower k) v m) [] kvs"

lemma plain_ReasonPhrase [simp]: "plain (ReasonPhrase n)"
  by (simp add: ReasonPhrase_def)

lemma format_response_lines: "format_response resp = join_lines (response_lines resp) @ crlf @ crlf @ hp_body resp"
  by (simp add: format_response_def response_lines_def join_lines_Cons join_lines_last case_prod_unfold)

lemma response_lines_ok: "response_ok resp \<Longrightarrow> \<forall>l \<in> set (response_lines resp). l \<noteq> [] \<and> plain l"
  by (auto simp: response_ok_def response_lines_def name_ok_def value_ok_def)

lemma client_headers_join:
  "ls \<noteq> [] \<Longrightarrow> \<forall>l \<in> set ls. plain l \<Longrightarrow> client_headers (join_lines ls) m = foldl (\<lambda>m l. add_header l m) m ls"
proof (induction ls arbitrary: m rule: join_lines.induct)
  case (2 l)
  then have "find_str crlf l = None" by (simp add: crlf_def plain_def find_str_none)
  then show ?case by (subst client_headers.simps) simp
next
  case (3 l l' ls)
  have "find_str crlf (l @ crlf @ join_lines (l' # ls)) = Some (length l)"
    using find_str_fresh [of "CHR 0x0D" l "[CHR 0x0A]" "join_lines (l' # ls)"] "3.prems"(2) by (simp add: crlf_def plain_def)
  then have "client_headers (join_lines (l # l' # ls)) m = client_headers (join_lines (l' # ls)) (add_header l m)"
    by (subst client_headers.simps) (simp add: crlf_def)
  then show ?case using "3.IH" "3.prems" by simp
qed simp

lemma response_headers:
  assumes "response_ok resp"
  shows "foldl (\<lambda>m l. add_header l m) [] (tl (response_lines resp)) = lower_headers (sent_headers resp)"
proof -
  have add: "add_header (k @ '': '' @ v) m = om_set (map tolower k) v m" if "name_ok k" "value_ok v" for k v m
    using header_field_printed [of k v] that by (simp add: add_header_def name_ok_def value_ok_def)
  have loop: "foldl (\<lambda>m l. add_header l m) m (map (\<lambda>(k, v). k @ '': '' @ v) kvs) = foldl (\<lambda>m (k, v). om_set (map tolower k) v m) m kvs"
    if "\<forall>(k, v) \<in> set kvs. name_ok k \<and> value_ok v" for kvs m
    using that add by (induction kvs arbitrary: m) (auto simp: case_prod_unfold)
  have "tl (response_lines resp) = map (\<lambda>(k, v). k @ '': '' @ v) (sent_headers resp)"
    by (simp add: response_lines_def sent_headers_def)
  moreover have "\<forall>(k, v) \<in> set (sent_headers resp). name_ok k \<and> value_ok v"
    using assms hd_to_string by (auto simp: sent_headers_def response_ok_def name_ok_def value_ok_def)
  ultimately show ?thesis using loop by (simp add: lower_headers_def)
qed

lemma parse_response_printed:
  assumes "response_ok resp"
  shows "parse_response (format_response resp) =
    \<lparr>hc_status = int (hp_status resp), hc_body = hp_body resp, hc_headers = lower_headers (sent_headers resp)\<rparr>"
proof -
  let ?ls = "response_lines resp" and ?n = "to_string (hp_status resp)"
  let ?l = "''HTTP/1.1 '' @ ?n @ '' '' @ ReasonPhrase (hp_status resp)"
  note ok = response_lines_ok [OF assms]
  have ls: "?ls = ?l # tl ?ls" "tl ?ls \<noteq> []" by (simp_all add: response_lines_def)
  have f: "find_str (crlf @ crlf) (join_lines ?ls @ crlf @ crlf @ hp_body resp) = Some (length (join_lines ?ls))"
    by (rule find_head_end [OF _ ok]) (simp add: response_lines_def)
  have join: "join_lines ?ls = ?l @ crlf @ join_lines (tl ?ls)" using ls join_lines_Cons by metis
  have n3: "length ?n = 3" using assms to_string_length3 by (simp add: response_ok_def)
  let ?msg = "join_lines ?ls @ crlf @ crlf @ hp_body resp"
  have sp: "find_str '' '' ?msg = Some 8"
    unfolding join using find_str_fresh [of "CHR '' ''" "''HTTP/1.1''" "[]"] by simp
  have status: "8 + 4 \<le> length ?msg" "take 3 (drop (8 + 1) ?msg) = ?n" unfolding join using n3 by simp_all
  have body: "drop (length (join_lines ?ls) + 4) ?msg = hp_body resp" and head: "take (length (join_lines ?ls)) ?msg = join_lines ?ls"
    by (simp_all add: crlf_def)
  have "plain ?l" using ok ls(1) by (metis list.set_intros(1))
  then have p: "find_str crlf (join_lines ?ls) = Some (length ?l)"
    unfolding join using find_str_fresh [of "CHR 0x0D" ?l "[CHR 0x0A]" "join_lines (tl ?ls)"] by (simp add: crlf_def plain_def)
  have drop2: "drop (length l + 2) (l @ crlf @ y) = y" for l y by (simp add: crlf_def)
  have rest: "drop (length ?l + 2) (join_lines ?ls) = join_lines (tl ?ls)" unfolding join by (rule drop2)
  have "\<forall>l \<in> set (tl ?ls). plain l" using ok ls(1) by (metis list.set_intros(2))
  from client_headers_join [OF ls(2) this] response_headers [OF assms]
  have hdrs: "client_headers (join_lines (tl ?ls)) [] = lower_headers (sent_headers resp)" by simp
  show ?thesis
    unfolding format_response_lines parse_response_def Let_def sp f option.case body head p rest hdrs
    using status by (simp add: HttpClientResponse_default_def atoi_to_string)
qed

section \<open>Properties\<close>

text \<open>The kernel lets a request be made: its answers up to the reads of the response.\<close>

definition connected :: "client_env \<Rightarrow> string \<Rightarrow> bool" where
  "connected env request \<longleftrightarrow> ce_socket env = None \<and> ce_host_ok env \<and> ce_connect env = None \<and>
    snd (write_loop (ce_writes env) '''' request) = None"

lemma HttpClient_Request_reads:
  assumes "connected env (format_request host method target body content_type)"
    and "delivers (filter (\<lambda>r. r \<noteq> ReadEintr) (ce_reads env)) bytes"
  shows "HttpClient_Request env host method target body content_type = Inr (parse_response bytes)"
  using assms(1) read_response_delivers [OF assms(2), of "''''"]
  by (auto simp: HttpClient_Request_def connected_def split: prod.splits option.splits)

lemma http_request_reaches_handler:
  assumes "word_ok method" and "word_ok target" and "plain host" and "plain content_type" and "length body < u64_size"
    and "delivers reads (format_request host method target body content_type)"
    and "handler (request_of method target body) s = (resp, s')" and "response_ok resp"
    and "snd (write_loop writes '''' (format_response resp)) = None"
    and "connected env (format_request host method target body content_type)"
    and "ServeConnection handler reads writes s = (Replied out, s'')" and "delivers (filter (\<lambda>r. r \<noteq> ReadEintr) (ce_reads env)) out"
  shows "s'' = s' \<and> HttpClient_Request env host method target body content_type =
    Inr \<lparr>hc_status = int (hp_status resp), hc_body = hp_body resp, hc_headers = lower_headers (sent_headers resp)\<rparr>"
proof -
  have out: "out = format_response resp" "s'' = s'"
    using ServeConnection_request [where handler = handler and writes = writes, OF assms(1-7)] assms(9,11) write_loop_ok [of writes "''''" "format_response resp"]
    by (auto simp: prod_eq_iff)
  show ?thesis
    using HttpClient_Request_reads [OF assms(10,12)] parse_response_printed [OF assms(8)] out by simp
qed

text \<open>
  C37. A request and its response cross the connection unchanged, wherever the kernel cuts them into reads and however
  often the client's reads are interrupted: the handler is called once, with the method, the target split at the first
  question mark, and the body the client passed, and the client returns the handler's status, body and headers. The
  method and the target are words without white space, header values have no line breaks.
\<close>

theorem http_roundtrip:
  assumes "word_ok method" and "word_ok target" and "plain host" and "plain content_type" and "length body < u64_size"
    and "delivers reads (format_request host method target body content_type)"
    and "handler (request_of method target body) s = (resp, s')" and "response_ok resp"
    and "snd (write_loop writes '''' (format_response resp)) = None"
    and "connected env (format_request host method target body content_type)"
  shows "\<exists>out. ServeConnection handler reads writes s = (Replied out, s') \<and>
    (delivers (filter (\<lambda>r. r \<noteq> ReadEintr) (ce_reads env)) out \<longrightarrow>
      HttpClient_Request env host method target body content_type =
        Inr \<lparr>hc_status = int (hp_status resp), hc_body = hp_body resp, hc_headers = lower_headers (sent_headers resp)\<rparr>)"
proof -
  note run = ServeConnection_request [where handler = handler and writes = writes, OF assms(1-7)]
  show ?thesis using run http_request_reaches_handler [where handler = handler, OF assms run] by blast
qed

text \<open>An echo handler; the request arrives in two pieces, the response byte by byte with an interrupted read in between.\<close>

definition echo :: "HttpRequest \<Rightarrow> nat \<Rightarrow> HttpResponse \<times> nat" where
  "echo req n = (HttpResponse_default\<lparr>hp_status := 201, hp_body := hq_body req, hp_headers := [(''X-Path'', hq_path req)]\<rparr>, n + 1)"

lemma delivers_bytes: "delivers (map (\<lambda>c. Got [c]) bytes) bytes"
  by (induction bytes) simp_all

definition echo_response :: HttpResponse where
  "echo_response = \<lparr>hp_status = 201, hp_content_type = ''application/octet-stream'', hp_body = ''hello'', hp_headers = [(''X-Path'', ''/objects/k'')]\<rparr>"

definition echo_client :: client_env where
  "echo_client = \<lparr>ce_socket = None, ce_host_ok = True, ce_connect = None, ce_writes = [Wrote 3, Eintr, Wrote 10],
    ce_reads = ReadEintr # map (\<lambda>c. Got [c]) (format_response echo_response)\<rparr>"

theorem http_roundtrip_witness:
  "\<exists>out. ServeConnection echo (map (\<lambda>c. Got [c]) (format_request ''h'' ''PUT'' ''/objects/k'' ''hello'' ''text/plain'')) [] 0 = (Replied out, 1) \<and>
    HttpClient_Request echo_client ''h'' ''PUT'' ''/objects/k'' ''hello'' ''text/plain'' =
      Inr \<lparr>hc_status = 201, hc_body = ''hello'', hc_headers = lower_headers (sent_headers echo_response)\<rparr>"
proof -
  have w: "word_ok ''PUT''" "word_ok ''/objects/k''" by (simp_all add: word_ok_def isspace_def)
  have p: "plain ''h''" "plain ''text/plain''" "length ''hello'' < u64_size" by simp_all
  have h: "echo (request_of ''PUT'' ''/objects/k'' ''hello'') 0 = (echo_response, 1)"
    by (simp add: echo_def echo_response_def request_of_def ParseTarget_def HttpResponse_default_def)
  have r: "response_ok echo_response" by (simp add: response_ok_def echo_response_def name_ok_def value_ok_def)
  have c: "connected echo_client (format_request ''h'' ''PUT'' ''/objects/k'' ''hello'' ''text/plain'')"
    by (simp add: connected_def echo_client_def format_request_def)
  have f: "filter (\<lambda>r. r \<noteq> ReadEintr) (ce_reads echo_client) = map (\<lambda>c. Got [c]) (format_response echo_response)"
    by (simp add: echo_client_def filter_map comp_def)
  from http_roundtrip [where handler = echo and writes = "[]", OF w p delivers_bytes h r _ c] obtain out where
    o: "ServeConnection echo (map (\<lambda>c. Got [c]) (format_request ''h'' ''PUT'' ''/objects/k'' ''hello'' ''text/plain'')) [] 0 = (Replied out, 1)"
      "delivers (filter (\<lambda>r. r \<noteq> ReadEintr) (ce_reads echo_client)) out \<longrightarrow>
        HttpClient_Request echo_client ''h'' ''PUT'' ''/objects/k'' ''hello'' ''text/plain'' =
          Inr \<lparr>hc_status = int (hp_status echo_response), hc_body = hp_body echo_response, hc_headers = lower_headers (sent_headers echo_response)\<rparr>"
    by auto
  have "out = format_response echo_response"
    using ServeConnection_request [where handler = echo and writes = "[]", OF w p delivers_bytes h] o(1) by simp
  then have "delivers (filter (\<lambda>r. r \<noteq> ReadEintr) (ce_reads echo_client)) out" using delivers_bytes f by simp
  then show ?thesis using o by (auto simp: echo_response_def)
qed

text \<open>
  C38. A request whose Content-Length is not a number, or does not fit 64 bits, makes \<open>ServeConnection\<close> leave by an
  exception: no reply is written, the handler is not called and the descriptor is not closed. When the pool's queue is
  full the accept thread serves the connection itself, where nothing catches the exception.
\<close>

theorem bad_content_length_throws:
  assumes "word_ok method" and "word_ok target" and "value_ok v" and "stoul v = None"
    and "delivers reads (join_lines [method @ '' '' @ target @ '' HTTP/1.1'', ''Content-Length: '' @ v] @ crlf @ crlf @ body)"
    and "tp_max_queue pool \<le> length (tp_queue pool)"
  shows "ServeConnection handler reads writes s = (Threw, s) \<and> fst (AcceptLoop_turn fd pool) = Inline"
proof -
  let ?ls = "[method @ '' '' @ target @ '' HTTP/1.1'', ''Content-Length: '' @ v]"
  have ok: "\<forall>l \<in> set ?ls. l \<noteq> [] \<and> plain l"
    using assms(1-3) plain_words [of "method"] plain_words [of "target"] by (simp add: word_ok_def value_ok_def)
  have f: "find_str (crlf @ crlf) (join_lines ?ls @ crlf @ crlf @ body) = Some (length (join_lines ?ls))"
    by (rule find_head_end [OF _ ok]) simp
  then have f0: "find_str (crlf @ crlf) ([] @ join_lines ?ls @ crlf @ crlf @ body) = Some (length (join_lines ?ls))" by simp
  from header_loop_delivers [OF assms(5) f0] obtain buf reads' bytes' where
    h: "header_loop reads '''' = Some (buf, length (join_lines ?ls), reads')"
      "buf @ bytes' = join_lines ?ls @ crlf @ crlf @ body" "length (join_lines ?ls) + 4 \<le> length buf" by auto
  have take_app: "take (length xs) (xs @ ys) = xs" for xs ys :: string by simp
  have "take (length (join_lines ?ls)) buf = take (length (join_lines ?ls)) (buf @ bytes')" using h(3) by simp
  then have head: "take (length (join_lines ?ls)) buf = join_lines ?ls" unfolding h(2) by (simp only: take_app)
  have ls: "getlines CHR 0x0A (join_lines ?ls) = cr_lines ?ls" by (rule getlines_join [OF ok])
  have "header_field (''Content-Length: '' @ v) = Some (''content-length'', v)"
    using header_field_printed [of "''Content-Length''" v] assms(3) lower_names(3) by (simp add: value_ok_def)
  then have "content_length_loop (tl (cr_lines ?ls)) 0 = None" using ok assms(4) by (simp add: pop_cr_plain(1))
  then have "ServeConnection handler reads writes s = (Threw, s)"
    unfolding ServeConnection_def h(1) option.case split head ls Let_def by (simp only: option.case)
  then show ?thesis using assms(6) by (simp add: AcceptLoop_turn_def Submit_def ok_def)
qed

theorem bad_content_length_throws_witness:
  "ServeConnection echo (map (\<lambda>c. Got [c]) (join_lines [''PUT /k HTTP/1.1'', ''Content-Length: many''] @ crlf @ crlf @ ''x'')) [] 0 = (Threw, 0) \<and>
    fst (AcceptLoop_turn (7 :: nat) (snd (Submit 1 (ThreadPool_new 4 1)))) = Inline"
proof -
  have w: "word_ok ''PUT''" "word_ok ''/k''" "value_ok ''many''" by (simp_all add: word_ok_def isspace_def value_ok_def)
  have v: "stoul ''many'' = None" by (simp add: stoul_def isspace_def strip_sign_def is_digit_def)
  have d: "delivers (map (\<lambda>c. Got [c]) (join_lines [''PUT /k HTTP/1.1'', ''Content-Length: many''] @ crlf @ crlf @ ''x''))
      (join_lines [''PUT'' @ '' '' @ ''/k'' @ '' HTTP/1.1'', ''Content-Length: '' @ ''many''] @ crlf @ crlf @ ''x'')"
    using delivers_bytes [of "join_lines [''PUT /k HTTP/1.1'', ''Content-Length: many''] @ crlf @ crlf @ ''x''"] by simp
  have q: "tp_max_queue (snd (Submit 1 (ThreadPool_new 4 1))) \<le> length (tp_queue (snd (Submit 1 (ThreadPool_new 4 1))))" by (simp add: ThreadPool_new_def Submit_def)
  show ?thesis by (rule bad_content_length_throws [where handler = echo and writes = "[]", OF w v d q])
qed

end
