(* ===== verification/Metrics.thy ===== *)
theory Metrics
  imports Ordered_Map Decimal "HOL-Library.Product_Lexorder"
begin

text \<open>
  \<open>src/common/metrics.cc\<close>: the registry of counters, gauges and histograms and its text exposition.

  \<open>double\<close> is the type \<open>'d\<close> with the addition and comparison of its instance; \<open>lit n d\<close> is the literal \<open>n / d\<close> and
  \<open>show_double\<close> what an \<open>ostream\<close> prints. Operations hold the mutex throughout.
\<close>

section \<open>Definitions\<close>

type_synonym Labels = "(string \<times> string) list"

datatype metric_type = kCounter | kGauge | kHistogram

record 'd Sample =
  sm_value :: 'd
  sm_bucket_counts :: "nat list"
  sm_sum :: 'd
  sm_count :: nat

record 'd Family =
  fm_type :: metric_type
  fm_help :: string
  fm_buckets :: "'d list"
  fm_samples :: "(string, 'd Sample) omap"

type_synonym 'd MetricsRegistry = "(string, 'd Family) omap"

definition Sample_default :: "'d::zero Sample" where
  "Sample_default = \<lparr>sm_value = 0, sm_bucket_counts = [], sm_sum = 0, sm_count = 0\<rparr>"

fun label_items :: "Labels \<Rightarrow> string" where
  "label_items [] = ''''"
| "label_items [(k, v)] = k @ ''=\"'' @ v @ ''\"''"
| "label_items ((k, v) # l # ls) = k @ ''=\"'' @ v @ ''\",'' @ label_items (l # ls)"

definition LabelKey :: "Labels \<Rightarrow> string" where
  "LabelKey labels = (if labels = [] then '''' else ''{'' @ label_items (sort labels) @ ''}'')"

definition DefaultBuckets :: "(nat \<Rightarrow> nat \<Rightarrow> 'd) \<Rightarrow> 'd list" where
  "DefaultBuckets lit = [lit 5 10000, lit 1 1000, lit 5 1000, lit 1 100, lit 5 100, lit 1 10, lit 5 10, lit 1 1, lit 5 1]"

definition GetOrCreate :: "string \<Rightarrow> metric_type \<Rightarrow> string \<Rightarrow> 'd MetricsRegistry \<Rightarrow> 'd Family \<times> 'd MetricsRegistry" where
  "GetOrCreate name type help m =
    (let m = om_emplace name \<lparr>fm_type = type, fm_help = help, fm_buckets = [], fm_samples = []\<rparr> m in (the (om_find m name), m))"

text \<open>\<open>f.samples[key]\<close>: a missing sample is created.\<close>

definition sample_at :: "string \<Rightarrow> 'd::zero Family \<Rightarrow> 'd Sample" where
  "sample_at key f = (case om_find (fm_samples f) key of None \<Rightarrow> Sample_default | Some s \<Rightarrow> s)"

definition set_sample :: "string \<Rightarrow> string \<Rightarrow> 'd Sample \<Rightarrow> 'd Family \<Rightarrow> 'd MetricsRegistry \<Rightarrow> 'd MetricsRegistry" where
  "set_sample name key s f m = om_set name (f\<lparr>fm_samples := om_set key s (fm_samples f)\<rparr>) m"

definition IncCounter :: "string \<Rightarrow> string \<Rightarrow> 'd::{zero,plus} \<Rightarrow> Labels \<Rightarrow> 'd MetricsRegistry \<Rightarrow> 'd MetricsRegistry" where
  "IncCounter name help amount labels m =
    (let (f, m) = GetOrCreate name kCounter help m; key = LabelKey labels; s = sample_at key f
     in set_sample name key (s\<lparr>sm_value := sm_value s + amount\<rparr>) f m)"

definition SetGauge :: "string \<Rightarrow> string \<Rightarrow> 'd::zero \<Rightarrow> Labels \<Rightarrow> 'd MetricsRegistry \<Rightarrow> 'd MetricsRegistry" where
  "SetGauge name help value labels m =
    (let (f, m) = GetOrCreate name kGauge help m; key = LabelKey labels; s = sample_at key f
     in set_sample name key (s\<lparr>sm_value := value\<rparr>) f m)"

text \<open>The first bucket the value fits in, or the last one.\<close>

fun bucket_of :: "'d::ord \<Rightarrow> 'd list \<Rightarrow> nat" where
  "bucket_of value [] = 0"
| "bucket_of value (b # bs) = (if value \<le> b then 0 else Suc (bucket_of value bs))"

definition ObserveHistogram ::
  "(nat \<Rightarrow> nat \<Rightarrow> 'd) \<Rightarrow> string \<Rightarrow> string \<Rightarrow> 'd::{zero,plus,ord} \<Rightarrow> Labels \<Rightarrow> 'd list \<Rightarrow> 'd MetricsRegistry \<Rightarrow> 'd MetricsRegistry" where
  "ObserveHistogram lit name help value labels buckets m =
    (let (f, m) = GetOrCreate name kHistogram help m;
         f = (if fm_buckets f = [] then f\<lparr>fm_buckets := (if buckets = [] then DefaultBuckets lit else buckets)\<rparr> else f);
         key = LabelKey labels; s = sample_at key f;
         counts = (if sm_bucket_counts s = [] then replicate (length (fm_buckets f) + 1) 0 else sm_bucket_counts s);
         i = bucket_of value (fm_buckets f);
         i = (if i < length (fm_buckets f) then i else length counts - 1);
         s = s\<lparr>sm_bucket_counts := counts[i := u64_add (counts ! i) 1], sm_sum := sm_sum s + value, sm_count := u64_add (sm_count s) 1\<rparr>
     in set_sample name key s f m)"

section \<open>Exposition\<close>

text \<open>\<open>None\<close> when \<open>bucket_counts\<close> is read out of range.\<close>

definition bucket_labels :: "string \<Rightarrow> string \<Rightarrow> string" where
  "bucket_labels labelkey le =
    (if labelkey = '''' then ''{le=\"'' @ le @ ''\"}'' else take (length labelkey - 1) labelkey @ '',le=\"'' @ le @ ''\"}'')"

fun bucket_lines :: "('d \<Rightarrow> string) \<Rightarrow> string \<Rightarrow> string \<Rightarrow> 'd list \<Rightarrow> nat list \<Rightarrow> nat \<Rightarrow> string option" where
  "bucket_lines show_double name labelkey [] counts cumulative = Some ''''"
| "bucket_lines show_double name labelkey (b # bs) counts cumulative =
    (case counts of
       [] \<Rightarrow> None
     | c # counts' \<Rightarrow>
         let cumulative = u64_add cumulative c
         in map_option (\<lambda>out. name @ ''_bucket'' @ bucket_labels labelkey (show_double b) @ '' '' @ to_string cumulative @ [CHR 0x0A] @ out)
              (bucket_lines show_double name labelkey bs counts' cumulative))"

definition sample_text :: "('d \<Rightarrow> string) \<Rightarrow> string \<Rightarrow> 'd Family \<Rightarrow> string \<Rightarrow> 'd Sample \<Rightarrow> string option" where
  "sample_text show_double name f labelkey s =
    (if fm_type f = kHistogram
     then map_option (\<lambda>lines. lines
            @ name @ ''_bucket'' @ bucket_labels labelkey ''+Inf'' @ '' '' @ to_string (sm_count s) @ [CHR 0x0A]
            @ name @ ''_sum'' @ labelkey @ '' '' @ show_double (sm_sum s) @ [CHR 0x0A]
            @ name @ ''_count'' @ labelkey @ '' '' @ to_string (sm_count s) @ [CHR 0x0A])
          (bucket_lines show_double name labelkey (fm_buckets f) (sm_bucket_counts s) 0)
     else Some (name @ labelkey @ '' '' @ show_double (sm_value s) @ [CHR 0x0A]))"

fun samples_text :: "('d \<Rightarrow> string) \<Rightarrow> string \<Rightarrow> 'd Family \<Rightarrow> (string, 'd Sample) omap \<Rightarrow> string option" where
  "samples_text show_double name f [] = Some ''''"
| "samples_text show_double name f ((labelkey, s) # ss) =
    (case sample_text show_double name f labelkey s of
       None \<Rightarrow> None
     | Some t \<Rightarrow> map_option (\<lambda>out. t @ out) (samples_text show_double name f ss))"

definition type_name :: "metric_type \<Rightarrow> string" where
  "type_name t = (case t of kCounter \<Rightarrow> ''counter'' | kGauge \<Rightarrow> ''gauge'' | kHistogram \<Rightarrow> ''histogram'')"

definition family_head :: "string \<Rightarrow> 'd Family \<Rightarrow> string" where
  "family_head name f =
    (if fm_help f \<noteq> '''' then ''# HELP '' @ name @ '' '' @ fm_help f @ [CHR 0x0A] else '''')
    @ ''# TYPE '' @ name @ '' '' @ type_name (fm_type f) @ [CHR 0x0A]"

fun Metrics_Serialize :: "('d \<Rightarrow> string) \<Rightarrow> 'd MetricsRegistry \<Rightarrow> string option" where
  "Metrics_Serialize show_double [] = Some ''''"
| "Metrics_Serialize show_double ((name, f) # m) =
    (case samples_text show_double name f (fm_samples f) of
       None \<Rightarrow> None
     | Some t \<Rightarrow> map_option (\<lambda>out. family_head name f @ t @ out) (Metrics_Serialize show_double m))"

text \<open>\<open>NewRequestId\<close>: \<open>n\<close> is the counter, \<open>r\<close> what the generator returned; the text is lower-case hexadecimal.\<close>

definition hex_char :: "nat \<Rightarrow> char" where
  "hex_char d = (if d < 10 then digit_char d else char_of (87 + d))"

fun to_hex :: "nat \<Rightarrow> string" where
  "to_hex n = (if n < 16 then [hex_char n] else to_hex (n div 16) @ [hex_char (n mod 16)])"

declare to_hex.simps [simp del]

unbundle bit_operations_syntax

definition NewRequestId :: "u64 \<Rightarrow> u64 \<Rightarrow> string \<times> u64" where
  "NewRequestId r n = (to_hex (unat (r XOR (n * 0x9e3779b97f4a7c15))), n + 1)"

section \<open>Runs\<close>

datatype 'd metric_op =
    Inc string string 'd Labels
  | Gauge string string 'd Labels
  | Observe string string 'd Labels "'d list"

fun apply_metric :: "(nat \<Rightarrow> nat \<Rightarrow> 'd) \<Rightarrow> 'd::{zero,plus,ord} MetricsRegistry \<Rightarrow> 'd metric_op \<Rightarrow> 'd MetricsRegistry" where
  "apply_metric lit m (Inc name help amount labels) = IncCounter name help amount labels m"
| "apply_metric lit m (Gauge name help value labels) = SetGauge name help value labels m"
| "apply_metric lit m (Observe name help value labels buckets) = ObserveHistogram lit name help value labels buckets m"

fun op_name :: "'d metric_op \<Rightarrow> string" where
  "op_name (Inc name _ _ _) = name"
| "op_name (Gauge name _ _ _) = name"
| "op_name (Observe name _ _ _ _) = name"

fun op_type :: "'d metric_op \<Rightarrow> metric_type" where
  "op_type (Inc _ _ _ _) = kCounter"
| "op_type (Gauge _ _ _ _) = kGauge"
| "op_type (Observe _ _ _ _ _) = kHistogram"

fun observes :: "string \<Rightarrow> string \<Rightarrow> 'd metric_op \<Rightarrow> bool" where
  "observes name key (Observe name' _ _ labels _) \<longleftrightarrow> name' = name \<and> LabelKey labels = key"
| "observes name key _ \<longleftrightarrow> False"

definition observations :: "string \<Rightarrow> string \<Rightarrow> 'd metric_op list \<Rightarrow> nat" where
  "observations name key ops = length (filter (observes name key) ops)"

definition exact_sample :: "'d Family \<Rightarrow> nat \<Rightarrow> 'd Sample \<Rightarrow> bool" where
  "exact_sample f n s \<longleftrightarrow> sm_count s = n \<and> sum_list (sm_bucket_counts s) = n \<and> length (sm_bucket_counts s) = length (fm_buckets f) + 1 \<and>
    fm_buckets f \<noteq> []"

text \<open>A family belongs to one type; the samples of a histogram are exact and exist for everything observed.\<close>

definition family_ok :: "metric_type \<Rightarrow> (string \<Rightarrow> nat) \<Rightarrow> 'd Family \<Rightarrow> bool" where
  "family_ok t obs f \<longleftrightarrow> fm_type f = t \<and> om_ok (fm_samples f) \<and>
    (\<forall>key. case om_find (fm_samples f) key of None \<Rightarrow> obs key = 0 | Some s \<Rightarrow> t = kHistogram \<longrightarrow> exact_sample f (obs key) s)"

definition registry_ok :: "(string \<Rightarrow> metric_type) \<Rightarrow> (string \<Rightarrow> string \<Rightarrow> nat) \<Rightarrow> 'd MetricsRegistry \<Rightarrow> bool" where
  "registry_ok ty obs m \<longleftrightarrow> om_ok m \<and> (\<forall>name. case om_find m name of None \<Rightarrow> obs name = (\<lambda>_. 0) | Some f \<Rightarrow> family_ok (ty name) (obs name) f)"

lemma GetOrCreate_ok:
  assumes "registry_ok ty obs m" and "GetOrCreate name (ty name) help m = (f, m')"
  shows "registry_ok ty obs m'" and "family_ok (ty name) (obs name) f"
proof -
  have m: "om_ok m" and each: "case om_find m k of None \<Rightarrow> obs k = (\<lambda>_. 0) | Some f \<Rightarrow> family_ok (ty k) (obs k) f" for k
    using assms(1) by (simp_all add: registry_ok_def)
  let ?new = "\<lparr>fm_type = ty name, fm_help = help, fm_buckets = [], fm_samples = []\<rparr>"
  have f: "m' = om_emplace name ?new m" "f = the (om_find m' name)" using assms(2) by (auto simp: GetOrCreate_def Let_def)
  have new: "obs name = (\<lambda>_. 0) \<Longrightarrow> family_ok (ty name) (obs name) ?new" by (simp add: family_ok_def om_find_def)
  have find: "om_find m' = (if om_find m name = None then (om_find m)(name \<mapsto> ?new) else om_find m)" unfolding f(1) by (rule om_find_emplace [OF m])
  show "registry_ok ty obs m'"
    unfolding registry_ok_def
  proof (intro conjI allI)
    show "om_ok m'" using om_ok_emplace [OF m] f(1) by simp
    show "case om_find m' k of None \<Rightarrow> obs k = (\<lambda>_. 0) | Some f \<Rightarrow> family_ok (ty k) (obs k) f" for k
      using each [of k] new by (cases "om_find m name"; cases "k = name") (simp_all add: find)
  qed
  show "family_ok (ty name) (obs name) f"
    using each [of name] new by (cases "om_find m name") (simp_all add: f(2) find)
qed

lemma set_sample_ok:
  assumes "registry_ok ty obs m" and "family_ok (ty name) (obs name) f" and "fm_type f' = fm_type f" and "fm_samples f' = fm_samples f"
    and "ty name = kHistogram \<Longrightarrow> exact_sample f' (obs' name key) s"
    and "ty name = kHistogram \<Longrightarrow> \<forall>k s. om_find (fm_samples f) k = Some s \<longrightarrow> fm_buckets f' = fm_buckets f"
    and "\<forall>n k. (n, k) \<noteq> (name, key) \<longrightarrow> obs' n k = obs n k"
  shows "registry_ok ty obs' (set_sample name key s f' m)"
proof -
  have m: "om_ok m" and each: "case om_find m k of None \<Rightarrow> obs k = (\<lambda>_. 0) | Some f \<Rightarrow> family_ok (ty k) (obs k) f" for k
    using assms(1) by (simp_all add: registry_ok_def)
  let ?f = "f'\<lparr>fm_samples := om_set key s (fm_samples f')\<rparr>"
  have sf: "om_ok (fm_samples f)" "fm_type f = ty name" using assms(2) by (simp_all add: family_ok_def)
  have old: "case om_find (fm_samples f) k of None \<Rightarrow> obs name k = 0 | Some s \<Rightarrow> ty name = kHistogram \<longrightarrow> exact_sample f (obs name k) s" for k
    using assms(2) by (simp add: family_ok_def)
  have "family_ok (ty name) (obs' name) ?f"
    unfolding family_ok_def
  proof (intro conjI allI)
    show "fm_type ?f = ty name" using sf assms(3) by simp
    show "om_ok (fm_samples ?f)" using om_ok_set [OF sf(1)] assms(4) by simp
    show "case om_find (fm_samples ?f) k of None \<Rightarrow> obs' name k = 0 | Some s \<Rightarrow> ty name = kHistogram \<longrightarrow> exact_sample ?f (obs' name k) s" for k
      using old [of k] assms(5,6) assms(7) om_find_set [OF sf(1), of key s]
      by (cases "k = key") (auto simp: assms(4) exact_sample_def split: option.splits)
  qed
  moreover have "case om_find m k of None \<Rightarrow> obs' k = (\<lambda>_. 0) | Some f \<Rightarrow> family_ok (ty k) (obs' k) f" if "k \<noteq> name" for k
  proof -
    have "obs' k = obs k" using assms(7) that by auto
    show ?thesis unfolding \<open>obs' k = obs k\<close> by (rule each)
  qed
  ultimately show ?thesis
    using each om_ok_set [OF m] om_find_set [OF m, of name ?f] by (simp add: registry_ok_def set_sample_def)
qed

lemma observations_snoc: "observations name key (ops @ [a]) = observations name key ops + (if observes name key a then 1 else 0)"
  by (simp add: observations_def)

lemma observations_le: "observations name key ops \<le> length ops"
  by (simp add: observations_def)

lemma value_metric_ok:
  assumes "registry_ok ty (\<lambda>n k. observations n k ops) m" and "GetOrCreate name (ty name) help m = (f, m')"
    and "ty name \<noteq> kHistogram" and "op_name a = name" and "op_type a = ty name"
  shows "registry_ok ty (\<lambda>n k. observations n k (ops @ [a])) (set_sample name key s f m')"
proof -
  have "\<not> observes n k a" for n k using assms(3-5) by (cases a) auto
  then show ?thesis
    using set_sample_ok [OF GetOrCreate_ok [OF assms(1,2)] refl refl, of "\<lambda>n k. observations n k (ops @ [a])" key s] assms(3)
    by (simp add: observations_snoc)
qed

lemma bucket_of_le: "bucket_of value bs \<le> length bs"
  by (induction bs) auto

lemma sum_list_bump: "i < length xs \<Longrightarrow> sum_list (xs[i := xs ! i + 1]) = sum_list xs + (1 :: nat)"
  by (induction xs arbitrary: i) (auto simp: nth_Cons split: nat.splits)

lemma count_le_sum: "i < length xs \<Longrightarrow> xs ! i \<le> sum_list (xs :: nat list)"
  using elem_le_sum_list by blast

lemma Observe_ok:
  assumes "registry_ok ty (\<lambda>n k. observations n k ops) m" and "ty name = kHistogram" and "Suc (length ops) < u64_size"
  shows "registry_ok ty (\<lambda>n k. observations n k (ops @ [Observe name help value labels buckets]))
    (ObserveHistogram lit name help value labels buckets m)"
proof -
  obtain f m' where g: "GetOrCreate name (ty name) help m = (f, m')" by fastforce
  note G = GetOrCreate_ok [OF assms(1) g]
  let ?key = "LabelKey labels" and ?n = "observations name (LabelKey labels) ops"
  define f' where "f' = (if fm_buckets f = [] then f\<lparr>fm_buckets := (if buckets = [] then DefaultBuckets lit else buckets)\<rparr> else f)"
  define s where "s = sample_at ?key f'"
  define counts where "counts = (if sm_bucket_counts s = [] then replicate (length (fm_buckets f') + 1) 0 else sm_bucket_counts s)"
  define i where "i = (if bucket_of value (fm_buckets f') < length (fm_buckets f') then bucket_of value (fm_buckets f') else length counts - 1)"
  let ?s = "s\<lparr>sm_bucket_counts := counts[i := u64_add (counts ! i) 1], sm_sum := sm_sum s + value, sm_count := u64_add (sm_count s) 1\<rparr>"
  have f': "fm_type f' = fm_type f" "fm_samples f' = fm_samples f" by (simp_all add: f'_def)
  have old: "case om_find (fm_samples f) k of None \<Rightarrow> observations name k ops = 0 | Some s \<Rightarrow> exact_sample f (observations name k ops) s" for k
  proof -
    have "case om_find (fm_samples f) k of None \<Rightarrow> observations name k ops = 0
        | Some s \<Rightarrow> ty name = kHistogram \<longrightarrow> exact_sample f (observations name k ops) s"
      using G(2) by (simp add: family_ok_def)
    then show ?thesis using assms(2) by (cases "om_find (fm_samples f) k") simp_all
  qed
  have keep: "fm_buckets f' = fm_buckets f" if "om_find (fm_samples f) k = Some s0" for k s0
    using old [of k] that by (simp add: exact_sample_def f'_def)
  have counts: "length counts = length (fm_buckets f') + 1" "sum_list counts = ?n" "sm_count s = ?n"
    using old [of ?key] keep [of ?key]
    by (auto simp: counts_def s_def sample_at_def f' Sample_default_def exact_sample_def sum_list_replicate split: option.splits)
  have i: "i < length counts" using counts(1) by (simp add: i_def)
  have n: "?n < u64_size - 1" using observations_le [of name ?key ops] assms(3) by simp
  have "u64_add (counts ! i) 1 = counts ! i + 1" "u64_add (sm_count s) 1 = ?n + 1"
    using count_le_sum [OF i] counts(2,3) n by (simp_all add: u64_add_exact)
  then have "exact_sample f' (?n + 1) ?s" using counts i sum_list_bump [OF i] by (simp add: exact_sample_def f'_def DefaultBuckets_def)
  then have "registry_ok ty (\<lambda>n k. observations n k (ops @ [Observe name help value labels buckets])) (set_sample name ?key ?s f' m')"
    using set_sample_ok [OF G f', of "\<lambda>n k. observations n k (ops @ [Observe name help value labels buckets])" ?key ?s] keep
    by (simp add: observations_snoc)
  moreover have "ObserveHistogram lit name help value labels buckets m = set_sample name ?key ?s f' m'"
    using g assms(2) by (simp add: ObserveHistogram_def Let_def f'_def s_def counts_def i_def)
  ultimately show ?thesis by simp
qed

lemma run_metrics_ok:
  assumes "\<forall>a \<in> set ops. op_type a = ty (op_name a)" and "length ops < u64_size"
  shows "registry_ok ty (\<lambda>n k. observations n k ops) (foldl (apply_metric lit) [] ops)"
  using assms
proof (induction ops rule: rev_induct)
  case Nil
  then show ?case by (simp add: registry_ok_def om_find_def observations_def)
next
  case (snoc a ops)
  let ?m = "foldl (apply_metric lit) [] ops"
  have IH: "registry_ok ty (\<lambda>n k. observations n k ops) ?m" using snoc by simp
  have t: "op_type a = ty (op_name a)" using snoc.prems(1) by simp
  show ?case
  proof (cases a)
    case (Inc name hlp amount labels)
    then show ?thesis using value_metric_ok [OF IH, of name hlp] t
      by (simp add: IncCounter_def Let_def split: prod.split)
  next
    case (Gauge name hlp v labels)
    then show ?thesis using value_metric_ok [OF IH, of name hlp] t
      by (simp add: SetGauge_def Let_def split: prod.split)
  next
    case (Observe name hlp v labels buckets)
    then show ?thesis using Observe_ok [OF IH, of name hlp v labels buckets lit] t snoc.prems(2) by simp
  qed
qed

lemma bucket_lines_some: "length buckets \<le> length counts \<Longrightarrow> \<exists>t. bucket_lines show_double name labelkey buckets counts n = Some t"
proof (induction buckets arbitrary: counts n)
  case (Cons b bs)
  then obtain c cs where "counts = c # cs" by (cases counts) auto
  then show ?case using Cons by (auto simp: Let_def)
qed simp

lemma samples_text_some:
  "\<forall>(k, s) \<in> set ss. fm_type f = kHistogram \<longrightarrow> length (fm_buckets f) \<le> length (sm_bucket_counts s) \<Longrightarrow>
    \<exists>t. samples_text show_double name f ss = Some t"
proof (induction ss)
  case (Cons ks ss)
  obtain k s where ks: "ks = (k, s)" by fastforce
  have "\<exists>t. sample_text show_double name f k s = Some t"
    using bucket_lines_some [of "fm_buckets f" "sm_bucket_counts s" show_double name k 0] Cons.prems by (auto simp: sample_text_def ks)
  then show ?case using Cons ks by auto
qed simp

lemma Metrics_Serialize_some:
  "\<forall>(name, f) \<in> set m. \<forall>(k, s) \<in> set (fm_samples f). fm_type f = kHistogram \<longrightarrow> length (fm_buckets f) \<le> length (sm_bucket_counts s) \<Longrightarrow>
    \<exists>t. Metrics_Serialize show_double m = Some t"
proof (induction m)
  case (Cons nf m)
  obtain name f where nf: "nf = (name, f)" by fastforce
  have "\<exists>t. samples_text show_double name f (fm_samples f) = Some t"
    by (rule samples_text_some) (use Cons.prems nf in auto)
  then show ?case using Cons nf by auto
qed simp

text \<open>
  C39. As long as every metric name is used with one type, and fewer than \<open>2 ^ 64\<close> operations were made, \<open>Serialize\<close>
  never reads a histogram's counts out of range, and every histogram is exact: the count printed for the bucket
  \<open>+Inf\<close> is the number of observations made under that name and label set (the labels in any order), it is the sum of
  the bucket counts, and there is one count per bound and one for the rest.
\<close>

theorem metrics_histograms_exact:
  assumes "\<forall>a \<in> set ops. op_type a = ty (op_name a)" and "length ops < u64_size"
    and "m = foldl (apply_metric lit) [] ops"
  shows "(\<exists>text. Metrics_Serialize show_double m = Some text) \<and>
    (\<forall>name f key s. om_find m name = Some f \<and> fm_type f = kHistogram \<and> om_find (fm_samples f) key = Some s \<longrightarrow>
      sm_count s = observations name key ops \<and> sum_list (sm_bucket_counts s) = sm_count s \<and>
      length (sm_bucket_counts s) = length (fm_buckets f) + 1)"
proof -
  have R: "registry_ok ty (\<lambda>n k. observations n k ops) m" unfolding assms(3) by (rule run_metrics_ok [OF assms(1,2)])
  have exact: "exact_sample f (observations name key ops) s"
    if "om_find m name = Some f" "fm_type f = kHistogram" "om_find (fm_samples f) key = Some s" for name f key s
  proof -
    have "family_ok (ty name) (\<lambda>key. observations name key ops) f"
      using R that(1) unfolding registry_ok_def by (metis (mono_tags, lifting) option.simps(5))
    then have "case om_find (fm_samples f) key of None \<Rightarrow> observations name key ops = 0
        | Some s \<Rightarrow> ty name = kHistogram \<longrightarrow> exact_sample f (observations name key ops) s" "fm_type f = ty name"
      by (simp_all add: family_ok_def)
    then show ?thesis using that(2,3) by simp
  qed
  have ok: "om_ok m" "om_find m name = Some f \<Longrightarrow> om_ok (fm_samples f)" for name f
    using R by (auto simp: registry_ok_def family_ok_def split: option.splits)
  have "\<exists>text. Metrics_Serialize show_double m = Some text"
  proof (rule Metrics_Serialize_some, clarify)
    fix name f k s
    assume a: "(name, f) \<in> set m" "(k, s) \<in> set (fm_samples f)" "fm_type f = kHistogram"
    then have n: "om_find m name = Some f" using om_find_iff [OF ok(1)] by blast
    then have "om_find (fm_samples f) k = Some s" using a(2) om_find_iff [OF ok(2)] by blast
    from exact [OF n a(3) this] show "length (fm_buckets f) \<le> length (sm_bucket_counts s)" by (simp add: exact_sample_def)
  qed
  then show ?thesis using exact by (auto simp: exact_sample_def)
qed

lemma found_sample:
  "map_option (\<lambda>f. (fm_type f, map_option sm_count (om_find (fm_samples f) k))) x = Some (t, Some n) \<Longrightarrow>
    \<exists>f s. x = Some f \<and> fm_type f = t \<and> om_find (fm_samples f) k = Some s"
  by (cases x) auto

definition demo_metrics :: "nat metric_op list" where
  "demo_metrics = [Observe ''lat'' ''latency'' 3 [(''b'', ''2''), (''a'', ''1'')] [1, 5], Inc ''total'' '''' 1 [],
    Observe ''lat'' ''latency'' 9 [(''a'', ''1''), (''b'', ''2'')] []]"

definition demo_registry :: "nat MetricsRegistry" where
  "demo_registry = foldl (apply_metric (\<lambda>n d. n div d)) [] demo_metrics"

lemma demo_label_keys: "LabelKey [(''b'', ''2''), (''a'', ''1'')] = ''{a=\"1\",b=\"2\"}''" "LabelKey [(''a'', ''1''), (''b'', ''2'')] = ''{a=\"1\",b=\"2\"}''"
  by (simp_all add: LabelKey_def less_eq_prod_def less_prod_def less_char_def)

theorem metrics_histograms_exact_witness:
  "\<exists>f s. om_find demo_registry ''lat'' = Some f \<and> om_find (fm_samples f) ''{a=\"1\",b=\"2\"}'' = Some s \<and>
    sm_count s = 2 \<and> sum_list (sm_bucket_counts s) = 2"
proof -
  have t: "\<forall>a \<in> set demo_metrics. op_type a = (if op_name a = ''lat'' then kHistogram else kCounter)" "length demo_metrics < u64_size"
    by (simp_all add: demo_metrics_def)
  have "map_option (\<lambda>f. (fm_type f, map_option sm_count (om_find (fm_samples f) ''{a=\"1\",b=\"2\"}''))) (om_find demo_registry ''lat'') = Some (kHistogram, Some 2)"
    by (simp add: demo_registry_def demo_metrics_def ObserveHistogram_def IncCounter_def demo_label_keys GetOrCreate_def om_emplace_def om_find_def
        set_sample_def sample_at_def Sample_default_def less_char_def u64_add_def)
  from found_sample [OF this] obtain f s where f: "om_find demo_registry ''lat'' = Some f" "fm_type f = kHistogram"
      "om_find (fm_samples f) ''{a=\"1\",b=\"2\"}'' = Some s" by (elim exE conjE)
  have o: "observations ''lat'' ''{a=\"1\",b=\"2\"}'' demo_metrics = 2" by (simp add: observations_def demo_metrics_def demo_label_keys)
  from metrics_histograms_exact [OF t demo_registry_def] f o
  have "sm_count s = 2" "sum_list (sm_bucket_counts s) = 2" by auto
  with f show ?thesis by (intro exI conjI)
qed

end
