(* ===== verification/Logging.thy ===== *)
theory Logging
  imports Decimal
begin

text \<open>\<open>src/common/logging.cc\<close>: the JSON lines of the logger; the clock is the input \<open>ms\<close>, the sink is the returned line.\<close>

section \<open>Definitions\<close>

datatype LogLevel = kInfo | kWarn | kError

fun json_escape_char :: "char \<Rightarrow> string" where
  "json_escape_char c =
    (if c = CHR 0x22 then [CHR 0x5C, CHR 0x22]
     else if c = CHR 0x5C then [CHR 0x5C, CHR 0x5C]
     else if c = CHR 0x0A then [CHR 0x5C, CHR ''n'']
     else if c = CHR 0x0D then [CHR 0x5C, CHR ''r'']
     else if c = CHR 0x09 then [CHR 0x5C, CHR ''t'']
     else [c])"

definition Log_JsonEscape :: "string \<Rightarrow> string" where
  "Log_JsonEscape s = concat (map json_escape_char s)"

definition LevelName :: "LogLevel \<Rightarrow> string" where
  "LevelName level = (case level of kInfo \<Rightarrow> ''info'' | kWarn \<Rightarrow> ''warn'' | kError \<Rightarrow> ''error'')"

definition quoted :: "string \<Rightarrow> string" where
  "quoted s = [CHR 0x22] @ Log_JsonEscape s @ [CHR 0x22]"

definition Log :: "LogLevel \<Rightarrow> string \<Rightarrow> (string \<times> string) list \<Rightarrow> nat \<Rightarrow> string" where
  "Log level msg fields ms =
    ''{\"ts_ms\":'' @ to_string ms @ '',\"level\":\"'' @ LevelName level @ ''\",\"msg\":'' @ quoted msg
    @ concat (map (\<lambda>(k, v). '','' @ quoted k @ '':'' @ quoted v) fields)
    @ ''}'' @ [CHR 0x0A]"

section \<open>Reading a line back\<close>

text \<open>A reader of JSON strings: what follows an opening quote, up to the closing one.\<close>

fun read_string :: "string \<Rightarrow> (string \<times> string) option" where
  "read_string [] = None"
| "read_string (c # s) =
    (if c = CHR 0x22 then Some ('''', s)
     else if c = CHR 0x5C then
       (case s of
          [] \<Rightarrow> None
        | e # s' \<Rightarrow>
            map_option (\<lambda>(t, r). ((if e = CHR ''n'' then CHR 0x0A else if e = CHR ''r'' then CHR 0x0D else if e = CHR ''t'' then CHR 0x09 else e) # t, r))
              (read_string s'))
     else map_option (\<lambda>(t, r). (c # t, r)) (read_string s))"

fun read_fields :: "nat \<Rightarrow> string \<Rightarrow> ((string \<times> string) list \<times> string) option" where
  "read_fields 0 s = Some ([], s)"
| "read_fields (Suc n) s =
    (if take 2 s \<noteq> '',\"'' then None
     else case read_string (drop 2 s) of
       None \<Rightarrow> None
     | Some (k, r) \<Rightarrow>
         if take 2 r \<noteq> '':\"'' then None
         else (case read_string (drop 2 r) of
            None \<Rightarrow> None
          | Some (v, r) \<Rightarrow> map_option (\<lambda>(kvs, r). ((k, v) # kvs, r)) (read_fields n r)))"

lemma read_string_quoted: "read_string (Log_JsonEscape s @ CHR 0x22 # r) = Some (s, r)"
  by (induction s) (auto simp: Log_JsonEscape_def)

lemma read_fields_printed:
  "read_fields (length fields) (concat (map (\<lambda>(k, v). '','' @ quoted k @ '':'' @ quoted v) fields) @ r) = Some (fields, r)"
  by (induction fields) (auto simp: quoted_def read_string_quoted)

lemma escape_no_newline: "CHR 0x0A \<notin> set (Log_JsonEscape s)"
  by (induction s) (auto simp: Log_JsonEscape_def)

lemma quoted_no_newline: "CHR 0x0A \<notin> set (quoted s)"
  using escape_no_newline by (simp add: quoted_def)

lemma to_string_no_newline: "CHR 0x0A \<notin> set (to_string n)"
  using to_string_digits [of n] by (auto simp: is_digit_def)

text \<open>
  A log call writes exactly one line, whatever the message and the fields contain: the only newline is the last
  character. Behind the fixed part of the line a reader of JSON strings gets back the message and then every field
  name and value, in order, and stops at the closing brace.
\<close>

theorem log_line_reads_back:
  "\<exists>front rest. Log level msg fields ms = front @ [CHR 0x22] @ rest \<and> CHR 0x0A \<notin> set (butlast (Log level msg fields ms)) \<and>
    last (Log level msg fields ms) = CHR 0x0A \<and>
    (\<exists>r. read_string rest = Some (msg, r) \<and> read_fields (length fields) r = Some (fields, ''}'' @ [CHR 0x0A]))"
proof -
  let ?front = "''{\"ts_ms\":'' @ to_string ms @ '',\"level\":\"'' @ LevelName level @ ''\",\"msg\":''"
  let ?fields = "concat (map (\<lambda>(k, v). '','' @ quoted k @ '':'' @ quoted v) fields)"
  let ?rest = "Log_JsonEscape msg @ CHR 0x22 # ?fields @ ''}'' @ [CHR 0x0A]"
  have line: "Log level msg fields ms = (?front @ quoted msg @ ?fields @ ''}'') @ [CHR 0x0A]" by (simp add: Log_def)
  have f: "CHR 0x0A \<notin> set ?fields" using quoted_no_newline by (induction fields) auto
  have "CHR 0x0A \<notin> set (?front @ quoted msg @ ?fields @ ''}'')"
    using f quoted_no_newline [of msg] to_string_no_newline [of ms] by (cases level) (auto simp: LevelName_def)
  then have b: "CHR 0x0A \<notin> set (butlast (Log level msg fields ms))" "last (Log level msg fields ms) = CHR 0x0A"
    unfolding line butlast_snoc last_snoc by blast+
  have "read_string ?rest = Some (msg, ?fields @ ''}'' @ [CHR 0x0A])" by (rule read_string_quoted)
  moreover have "read_fields (length fields) (?fields @ ''}'' @ [CHR 0x0A]) = Some (fields, ''}'' @ [CHR 0x0A])" by (rule read_fields_printed)
  moreover have "Log level msg fields ms = ?front @ [CHR 0x22] @ ?rest" by (simp add: Log_def quoted_def)
  ultimately show ?thesis using b by blast
qed

end
