(* ===== verification/Http_Gateway.thy ===== *)
theory Http_Gateway
  imports Http Metrics Logging Coordinator_History
begin

text \<open>
  \<open>src/network/http_gateway.cc\<close>: from an HTTP request to coordinator calls and back, with the metrics, the request
  ids and the log around it.

  Inputs of one request: the random number of its id, the clock, the latency that was measured and its text, and what
  becomes of the coordinator's calls to the storage nodes. What the code computes with \<open>double\<close> is in \<open>double_fns\<close>.
\<close>

section \<open>Definitions\<close>
















section \<open>Metrics, ids and the log\<close>






section \<open>One request\<close>



















section \<open>Histories over HTTP\<close>























section \<open>Properties\<close>










end
