(* ===== verification/Raft_Transport.thy ===== *)
theory Raft_Transport
  imports Raft_Safety Storage_Node "HOL-Library.Multiset"
begin

text \<open>
  The transports of the Raft nodes: the interface \<open>RaftTransport\<close>, \<open>InMemoryCluster\<close> of
  \<open>consensus/in_memory_transport.cc\<close>, and \<open>GrpcRaftTransport\<close> with \<open>RaftServiceImpl\<close> of \<open>network/raft_client.cc\<close> and
  \<open>network/raft_server.cc\<close>. The members \<open>StartElection\<close> and \<open>ReplicateTo\<close> of a node are composed here from their locked
  regions and the calls they make through a transport, the request threads of a vote round ending in any order.

  Locale \<open>raft_transport\<close> is what the nodes rely on: a call that returns false had no effect or only that of the
  handler, and one that returns true carries the handler's answer. \<open>transport_step\<close> interleaves the threads of all nodes
  with the calls they make through a transport; under the contract every such run is a run of \<open>Raft_Cluster\<close>, so the
  safety results hold for both transports. A pass of a loop that nobody disturbs is one such run.
\<close>

section \<open>The interface\<close>

text \<open>The nodes of all processes, by id; and what the environment decides about one call.\<close>

type_synonym heap = "string \<Rightarrow> RaftNode"

record call_env =
  ce_node :: raft_env
  ce_fate :: rpc_fate

record 't RaftTransport =
  SendRequestVote :: "call_env \<Rightarrow> string \<Rightarrow> RequestVoteRequest \<Rightarrow> 't \<times> heap \<Rightarrow> RequestVoteResponse option \<times> 't \<times> heap"
  SendAppendEntries :: "call_env \<Rightarrow> string \<Rightarrow> AppendEntriesRequest \<Rightarrow> 't \<times> heap \<Rightarrow> (AppendEntriesResponse option \<times> 't \<times> heap) option"

section \<open>The in-memory transport\<close>

record InMemoryCluster =
  ic_nodes :: "string \<rightharpoonup> string"
  ic_down :: "string set"

definition InMemoryCluster_new :: InMemoryCluster where
  "InMemoryCluster_new = \<lparr>ic_nodes = Map.empty, ic_down = {}\<rparr>"

definition Register :: "string \<Rightarrow> string \<Rightarrow> InMemoryCluster \<Rightarrow> InMemoryCluster" where
  "Register i node c = c\<lparr>ic_nodes := (ic_nodes c)(i \<mapsto> node)\<rparr>"

definition SetDown :: "string \<Rightarrow> bool \<Rightarrow> InMemoryCluster \<Rightarrow> InMemoryCluster" where
  "SetDown i down c = c\<lparr>ic_down := (if down then insert i (ic_down c) else ic_down c - {i})\<rparr>"

definition IsDown :: "string \<Rightarrow> InMemoryCluster \<Rightarrow> bool" where
  "IsDown i c \<longleftrightarrow> i \<in> ic_down c"

definition DeliverRequestVote ::
  "raft_env \<Rightarrow> string \<Rightarrow> string \<Rightarrow> RequestVoteRequest \<Rightarrow> InMemoryCluster \<Rightarrow> heap \<Rightarrow> RequestVoteResponse option \<times> heap" where
  "DeliverRequestVote env from tgt req c w =
    (if from \<in> ic_down c \<or> tgt \<in> ic_down c then (None, w)
     else case ic_nodes c tgt of
       None \<Rightarrow> (None, w)
     | Some node \<Rightarrow> let (n, resp) = HandleRequestVote env req (w node) in (Some resp, w(node := n)))"

definition DeliverAppendEntries ::
  "raft_env \<Rightarrow> string \<Rightarrow> string \<Rightarrow> AppendEntriesRequest \<Rightarrow> InMemoryCluster \<Rightarrow> heap \<Rightarrow> (AppendEntriesResponse option \<times> heap) option" where
  "DeliverAppendEntries env from tgt req c w =
    (if from \<in> ic_down c \<or> tgt \<in> ic_down c then Some (None, w)
     else case ic_nodes c tgt of
       None \<Rightarrow> Some (None, w)
     | Some node \<Rightarrow>
         (case HandleAppendEntries env req (w node) of
            None \<Rightarrow> None
          | Some (n, resp) \<Rightarrow> Some (Some resp, w(node := n))))"

definition Endpoint :: "string \<Rightarrow> InMemoryCluster RaftTransport" where
  "Endpoint i =
    \<lparr>SendRequestVote = (\<lambda>e peer req (c, w). let (r, w) = DeliverRequestVote (ce_node e) i peer req c w in (r, c, w)),
     SendAppendEntries = (\<lambda>e peer req (c, w). map_option (\<lambda>(r, w). (r, c, w)) (DeliverAppendEntries (ce_node e) i peer req c w))\<rparr>"

section \<open>The gRPC transport\<close>

text \<open>
  A stub is the address its channel was created for. \<open>servers\<close> says which node's \<open>RaftServer\<close> listens at an address.
  An exception of the handler ends the call with an error.
\<close>

record GrpcRaftTransport =
  gt_addresses :: "string \<rightharpoonup> string"
  gt_stubs :: "string \<rightharpoonup> string"

definition GrpcRaftTransport_new :: "(string \<rightharpoonup> string) \<Rightarrow> GrpcRaftTransport" where
  "GrpcRaftTransport_new peer_addresses = \<lparr>gt_addresses = peer_addresses, gt_stubs = Map.empty\<rparr>"

definition SetPeer :: "string \<Rightarrow> string \<Rightarrow> GrpcRaftTransport \<Rightarrow> GrpcRaftTransport" where
  "SetPeer peer_id address t = t\<lparr>gt_addresses := (gt_addresses t)(peer_id \<mapsto> address), gt_stubs := (gt_stubs t)(peer_id := None)\<rparr>"

definition StubFor :: "string \<Rightarrow> GrpcRaftTransport \<Rightarrow> string option \<times> GrpcRaftTransport" where
  "StubFor peer t =
    (case gt_stubs t peer of
       Some stub \<Rightarrow> (Some stub, t)
     | None \<Rightarrow>
         (case gt_addresses t peer of
            None \<Rightarrow> (None, t)
          | Some addr \<Rightarrow> (Some addr, t\<lparr>gt_stubs := (gt_stubs t)(peer \<mapsto> addr)\<rparr>)))"

definition RaftServiceImpl_RequestVote :: "raft_env \<Rightarrow> RequestVoteRequest \<Rightarrow> string \<Rightarrow> heap \<Rightarrow> RequestVoteResponse option \<times> heap" where
  "RaftServiceImpl_RequestVote env req node w = (let (n, resp) = HandleRequestVote env req (w node) in (Some resp, w(node := n)))"

definition RaftServiceImpl_AppendEntries :: "raft_env \<Rightarrow> AppendEntriesRequest \<Rightarrow> string \<Rightarrow> heap \<Rightarrow> AppendEntriesResponse option \<times> heap" where
  "RaftServiceImpl_AppendEntries env req node w =
    (case HandleAppendEntries env req (w node) of None \<Rightarrow> (None, w) | Some (n, resp) \<Rightarrow> (Some resp, w(node := n)))"

definition call_stub :: "(string \<rightharpoonup> string) \<Rightarrow> rpc_fate \<Rightarrow> (string \<Rightarrow> heap \<Rightarrow> 'r option \<times> heap) \<Rightarrow> string \<Rightarrow> heap \<Rightarrow> 'r option \<times> heap" where
  "call_stub servers fate h stub w =
    (case servers stub of
       None \<Rightarrow> (None, w)
     | Some node \<Rightarrow> (case rpc_call fate (h node) w of (Inl e, w) \<Rightarrow> (None, w) | (Inr resp, w) \<Rightarrow> (Some resp, w)))"

definition Grpc_SendRequestVote ::
  "(string \<rightharpoonup> string) \<Rightarrow> call_env \<Rightarrow> string \<Rightarrow> RequestVoteRequest \<Rightarrow> GrpcRaftTransport \<times> heap \<Rightarrow> RequestVoteResponse option \<times> GrpcRaftTransport \<times> heap" where
  "Grpc_SendRequestVote servers e peer req tw =
    (case StubFor peer (fst tw) of
       (None, t) \<Rightarrow> (None, t, snd tw)
     | (Some stub, t) \<Rightarrow>
         let (r, w) = call_stub servers (ce_fate e) (RaftServiceImpl_RequestVote (ce_node e) req) stub (snd tw) in (r, t, w))"

definition Grpc_SendAppendEntries ::
  "(string \<rightharpoonup> string) \<Rightarrow> call_env \<Rightarrow> string \<Rightarrow> AppendEntriesRequest \<Rightarrow> GrpcRaftTransport \<times> heap \<Rightarrow> AppendEntriesResponse option \<times> GrpcRaftTransport \<times> heap" where
  "Grpc_SendAppendEntries servers e peer req tw =
    (case StubFor peer (fst tw) of
       (None, t) \<Rightarrow> (None, t, snd tw)
     | (Some stub, t) \<Rightarrow>
         let (r, w) = call_stub servers (ce_fate e) (RaftServiceImpl_AppendEntries (ce_node e) req) stub (snd tw) in (r, t, w))"

text \<open>The transport object of node \<open>p\<close> among those of all nodes.\<close>

definition grpc_endpoint :: "(string \<rightharpoonup> string) \<Rightarrow> string \<Rightarrow> (string \<Rightarrow> GrpcRaftTransport) RaftTransport" where
  "grpc_endpoint servers p =
    \<lparr>SendRequestVote = (\<lambda>e peer req (ts, w). let (r, t, w) = Grpc_SendRequestVote servers e peer req (ts p, w) in (r, ts(p := t), w)),
     SendAppendEntries = (\<lambda>e peer req (ts, w). let (r, t, w) = Grpc_SendAppendEntries servers e peer req (ts p, w) in Some (r, ts(p := t), w))\<rparr>"

section \<open>Elections and replication through a transport\<close>

text \<open>
  One request thread of \<open>WinVoteRound\<close>: \<open>send\<close> gives the environment of its call, \<open>reply\<close> that of the region behind it.
\<close>

definition vote_request ::
  "'t RaftTransport \<Rightarrow> (string \<Rightarrow> call_env) \<Rightarrow> (string \<Rightarrow> raft_env) \<Rightarrow> string \<Rightarrow> RequestVoteRequest \<Rightarrow> string
    \<Rightarrow> nat \<times> 't \<times> heap \<Rightarrow> nat \<times> 't \<times> heap" where
  "vote_request tr send reply p req peer s =
    (case SendRequestVote tr (send peer) peer req (snd s) of
       (None, t, w) \<Rightarrow> (fst s, t, w)
     | (Some resp, t, w) \<Rightarrow>
         let (n, votes) = WinVoteRound_reply (reply peer) resp (rv_pre_vote req) (rv_term req) (w p, fst s) in (votes, t, w(p := n)))"

definition WinVoteRound ::
  "'t RaftTransport \<Rightarrow> (string \<Rightarrow> call_env) \<Rightarrow> (string \<Rightarrow> raft_env) \<Rightarrow> string list \<Rightarrow> string \<Rightarrow> RequestVoteRequest
    \<Rightarrow> 't \<times> heap \<Rightarrow> bool \<times> 't \<times> heap" where
  "WinVoteRound tr send reply order p req tw =
    (let (votes, t, w) = fold (vote_request tr send reply p req) order (1, tw) in (WinVoteRound_result (w p) votes, t, w))"

record election_env =
  el_due :: raft_env
  el_pre_order :: "string list"
  el_pre_send :: "string \<Rightarrow> call_env"
  el_pre_reply :: "string \<Rightarrow> raft_env"
  el_begin :: raft_env
  el_order :: "string list"
  el_send :: "string \<Rightarrow> call_env"
  el_reply :: "string \<Rightarrow> raft_env"

definition StartElection :: "'t RaftTransport \<Rightarrow> election_env \<Rightarrow> string \<Rightarrow> 't \<times> heap \<Rightarrow> 't \<times> heap" where
  "StartElection tr el p tw =
    (case StartElection_prevote (snd tw p) of
       None \<Rightarrow> tw
     | Some pre \<Rightarrow>
         let (won, t, w) = WinVoteRound tr (el_pre_send el) (el_pre_reply el) (el_pre_order el) p pre tw
         in if \<not> won then (t, w)
            else (case StartElection_begin (el_begin el) (rv_term pre) (w p) of
                None \<Rightarrow> (t, w)
              | Some (n, req) \<Rightarrow>
                  let (won, t, w) = WinVoteRound tr (el_send el) (el_reply el) (el_order el) p req (t, w(p := n))
                  in if won then (t, w(p := StartElection_finish (rv_term req) (w p))) else (t, w)))"

text \<open>One pass of the loops of a node.\<close>

definition ElectionLoop_pass :: "'t RaftTransport \<Rightarrow> election_env \<Rightarrow> string \<Rightarrow> 't \<times> heap \<Rightarrow> 't \<times> heap" where
  "ElectionLoop_pass tr el p tw = (if ElectionLoop_due (el_due el) (snd tw p) then StartElection tr el p tw else tw)"

definition ReplicateTo :: "'t RaftTransport \<Rightarrow> call_env \<Rightarrow> raft_env \<Rightarrow> string \<Rightarrow> string \<Rightarrow> nat \<Rightarrow> 't \<times> heap \<Rightarrow> ('t \<times> heap) option" where
  "ReplicateTo tr send reply p peer trm tw =
    (case ReplicateTo_request peer trm (snd tw p) of
       None \<Rightarrow> Some tw
     | Some req \<Rightarrow>
         (case SendAppendEntries tr send peer req tw of
            None \<Rightarrow> None
          | Some (None, t, w) \<Rightarrow> Some (t, w)
          | Some (Some resp, t, w) \<Rightarrow> map_option (\<lambda>n. (t, w(p := n))) (ReplicateTo_response reply peer trm req resp (w p))))"

definition ReplicationLoop_pass :: "'t RaftTransport \<Rightarrow> call_env \<Rightarrow> raft_env \<Rightarrow> string \<Rightarrow> string \<Rightarrow> 't \<times> heap \<Rightarrow> ('t \<times> heap) option" where
  "ReplicationLoop_pass tr send reply p peer tw =
    (if role (snd tw p) \<noteq> kLeader then Some tw else ReplicateTo tr send reply p peer (current_term (snd tw p)) tw)"

section \<open>Runs through a transport are cluster runs\<close>

definition election_ok :: "string list \<Rightarrow> election_env \<Rightarrow> bool" where
  "election_ok peers el \<longleftrightarrow> mset (el_pre_order el) = mset peers \<and> mset (el_order el) = mset peers \<and> disk_ok (el_begin el) \<and>
    (\<forall>q. disk_ok (ce_node (el_pre_send el q)) \<and> disk_ok (el_pre_reply el q)) \<and> (\<forall>q. disk_ok (ce_node (el_send el q)) \<and> disk_ok (el_reply el q))"

lemma u64_add_pos: "t < u64_size \<Longrightarrow> 0 < u64_add t 1 \<Longrightarrow> t + 1 < u64_size"
  by (cases "t + 1 = u64_size") (auto simp: u64_add_def)

lemma begin_fields:
  assumes "StartElection_begin env trm n = Some (n', req)"
  shows "config n' = config n" and "\<not> rv_pre_vote req" and "u64_add (current_term n) 1 = trm"
  using assms by (auto simp: StartElection_begin_def Let_def split: if_splits)

lemma reachable_node:
  assumes "wf_config M cfg" and "reachable M cfg s" and "p \<in> set M"
  shows "config (nodes s p) = cfg p" and "cfg_id (cfg p) = p" and "set (cfg_peers (cfg p)) = set M - {p}"
    and "distinct (cfg_peers (cfg p))" and "current_term (nodes s p) < u64_size" and "log_wf (log (nodes s p))"
proof -
  obtain a where a: "sim M cfg s a" using sim_reachable [OF assms(1,2)] .
  show "config (nodes s p) = cfg p" by (rule simD(6) [OF a assms(3)])
  show "cfg_id (cfg p) = p" and "set (cfg_peers (cfg p)) = set M - {p}" and "distinct (cfg_peers (cfg p))"
    using assms(1,3) by (auto simp: wf_config_def)
  show "current_term (nodes s p) < u64_size" and "log_wf (log (nodes s p))"
    using simD(5) [OF a assms(3)] by (simp_all add: node_ok_def)
qed

text \<open>
  What a group does over a transport, in any interleaving. The threads of the nodes build requests, take up answers and
  give up waiting as in \<open>node_step\<close>. The call of a request runs at any time after the request was built: before or after
  other nodes move, when its thread has given up and the node is in a later term, or never; and its answer is taken up
  at any later time, or never. Nodes restart, and the transport itself may change (nodes become unreachable, addresses
  are set).
\<close>

inductive transport_step :: "string list \<Rightarrow> (string \<Rightarrow> 't RaftTransport) \<Rightarrow> ('t \<Rightarrow> bool) \<Rightarrow> 't \<times> cluster \<Rightarrow> 't \<times> cluster \<Rightarrow> bool" for M tr wf where
  own: "node_step M s s' \<Longrightarrow> transport_step M tr wf (t, s) (t, s')"
| vote_call: "p \<in> set M \<Longrightarrow> q \<in> set M \<Longrightarrow> (p, q, req) \<in> vote_reqs s \<Longrightarrow> disk_ok (ce_node e) \<Longrightarrow>
    SendRequestVote (tr p) e q req (t, nodes s) = (r, t', w) \<Longrightarrow>
    transport_step M tr wf (t, s) (t', s\<lparr>nodes := w, vote_resps := (case r of None \<Rightarrow> {} | Some resp \<Rightarrow> {(q, p, req, resp)}) \<union> vote_resps s\<rparr>)"
| append_call: "p \<in> set M \<Longrightarrow> q \<in> set M \<Longrightarrow> (p, q, areq) \<in> append_reqs s \<Longrightarrow> disk_ok (ce_node e) \<Longrightarrow>
    SendAppendEntries (tr p) e q areq (t, nodes s) = Some (ar, t', w) \<Longrightarrow>
    transport_step M tr wf (t, s) (t', s\<lparr>nodes := w, append_resps := (case ar of None \<Rightarrow> {} | Some resp \<Rightarrow> {(q, p, areq, resp)}) \<union> append_resps s\<rparr>)"
| network: "wf t' \<Longrightarrow> transport_step M tr wf (t, s) (t', s)"

text \<open>The same group with more answers under way.\<close>

definition with_replies ::
  "(string \<times> string \<times> RequestVoteRequest \<times> RequestVoteResponse) set \<Rightarrow> (string \<times> string \<times> AppendEntriesRequest \<times> AppendEntriesResponse) set
    \<Rightarrow> cluster \<Rightarrow> cluster" where
  "with_replies V A s = s\<lparr>vote_resps := V, append_resps := A\<rparr>"

lemma with_replies_simps [simp]:
  "nodes (with_replies V A s) = nodes s" "vthreads (with_replies V A s) = vthreads s" "rthreads (with_replies V A s) = rthreads s"
  "vote_reqs (with_replies V A s) = vote_reqs s" "append_reqs (with_replies V A s) = append_reqs s"
  "vote_resps (with_replies V A s) = V" "append_resps (with_replies V A s) = A"
  "with_replies (vote_resps s) (append_resps s) s = s"
  by (simp_all add: with_replies_def)

lemma with_replies_updates [simp]:
  "with_replies V A (s\<lparr>nodes := w\<rparr>) = (with_replies V A s)\<lparr>nodes := w\<rparr>"
  "with_replies V A (s\<lparr>vthreads := vt\<rparr>) = (with_replies V A s)\<lparr>vthreads := vt\<rparr>"
  "with_replies V A (s\<lparr>rthreads := rt\<rparr>) = (with_replies V A s)\<lparr>rthreads := rt\<rparr>"
  "with_replies V A (s\<lparr>vote_reqs := vq\<rparr>) = (with_replies V A s)\<lparr>vote_reqs := vq\<rparr>"
  "with_replies V A (s\<lparr>append_reqs := aq\<rparr>) = (with_replies V A s)\<lparr>append_reqs := aq\<rparr>"
  "with_replies V A (s\<lparr>vote_resps := V'\<rparr>) = with_replies V A s" "with_replies V A (s\<lparr>append_resps := A'\<rparr>) = with_replies V A s"
  "(with_replies V A s)\<lparr>nodes := w, vote_resps := V'\<rparr> = (with_replies V' A s)\<lparr>nodes := w\<rparr>"
  "(with_replies V A s)\<lparr>nodes := w, append_resps := A'\<rparr> = (with_replies V A' s)\<lparr>nodes := w\<rparr>"
  by (cases s; simp add: with_replies_def)+

lemma node_step_replies:
  assumes "node_step M s s'" and "vote_resps s \<subseteq> V" and "append_resps s \<subseteq> A"
  shows "node_step M (with_replies V A s) (with_replies V A s')" and "vote_resps s' = vote_resps s" and "append_resps s' = append_resps s"
proof -
  show "vote_resps s' = vote_resps s" and "append_resps s' = append_resps s" using assms(1) by (cases rule: node_step.cases; simp)+
  note N = node_step.intros [where s = "with_replies V A s", simplified]
  show "node_step M (with_replies V A s) (with_replies V A s')"
    using assms(1)
  proof (cases rule: node_step.cases)
    case (vote_reply p env req pend votes q resp n votes')
    then show ?thesis using N(2) [of p M env req pend votes q resp n votes'] assms(2) by auto
  next
    case (replicate_reply p env q req resp n)
    then show ?thesis using N(10) [of p M env q req resp n] assms(3) by auto
  qed (simp_all add: N)
qed

locale raft_transport =
  fixes tr :: "string \<Rightarrow> 't RaftTransport" and wf :: "'t \<Rightarrow> bool"
  assumes send_vote: "wf t \<Longrightarrow> SendRequestVote (tr p) e q req (t, w) = (r, t', w') \<Longrightarrow>
      wf t' \<and> (r = None \<and> w' = w \<or>
        (\<exists>n resp. HandleRequestVote (ce_node e) req (w q) = (n, resp) \<and> w' = w(q := n) \<and> (r = None \<or> r = Some resp)))"
    and send_append: "wf t \<Longrightarrow> SendAppendEntries (tr p) e q areq (t, w) = Some (ar, t', w') \<Longrightarrow>
      wf t' \<and> (ar = None \<and> w' = w \<or>
        (\<exists>n resp. HandleAppendEntries (ce_node e) areq (w q) = Some (n, resp) \<and> w' = w(q := n) \<and> (ar = None \<or> ar = Some resp)))"
begin

lemma vote_call_step:
  assumes "SendRequestVote (tr p) e q req (t, nodes s) = (r, t', w)" and "wf t" and "q \<in> set M" and "disk_ok (ce_node e)"
    and "(p, q, req) \<in> vote_reqs s"
  shows "\<exists>V. (cluster_step M)\<^sup>*\<^sup>* s (s\<lparr>nodes := w, vote_resps := V\<rparr>) \<and> (case r of None \<Rightarrow> {} | Some resp \<Rightarrow> {(q, p, req, resp)}) \<union> vote_resps s \<subseteq> V \<and> wf t'"
proof -
  note S = send_vote [OF assms(2,1)]
  show ?thesis
  proof (cases "r = None \<and> w = nodes s")
    case True
    then show ?thesis using S by (intro exI [of _ "vote_resps s"]) simp
  next
    case False
    then obtain n resp where h: "HandleRequestVote (ce_node e) req (nodes s q) = (n, resp)" "w = (nodes s)(q := n)" "r = None \<or> r = Some resp"
      using S by blast
    have "cluster_step M s (s\<lparr>nodes := w, vote_resps := insert (q, p, req, resp) (vote_resps s)\<rparr>)"
      unfolding h(2) by (rule cluster_step.handle_vote [OF assms(3,4,5) h(1)])
    then show ?thesis using S h(3) by (intro exI [of _ "insert (q, p, req, resp) (vote_resps s)"]) auto
  qed
qed

lemma append_call_step:
  assumes "SendAppendEntries (tr p) e q req (t, nodes s) = Some (r, t', w)" and "wf t" and "q \<in> set M" and "disk_ok (ce_node e)"
    and "(p, q, req) \<in> append_reqs s"
  shows "\<exists>A. (cluster_step M)\<^sup>*\<^sup>* s (s\<lparr>nodes := w, append_resps := A\<rparr>) \<and> (case r of None \<Rightarrow> {} | Some resp \<Rightarrow> {(q, p, req, resp)}) \<union> append_resps s \<subseteq> A \<and> wf t'"
proof -
  note S = send_append [OF assms(2,1)]
  show ?thesis
  proof (cases "r = None \<and> w = nodes s")
    case True
    then show ?thesis using S by (intro exI [of _ "append_resps s"]) simp
  next
    case False
    then obtain n resp where h: "HandleAppendEntries (ce_node e) req (nodes s q) = Some (n, resp)" "w = (nodes s)(q := n)" "r = None \<or> r = Some resp"
      using S by blast
    have "cluster_step M s (s\<lparr>nodes := w, append_resps := insert (q, p, req, resp) (append_resps s)\<rparr>)"
      unfolding h(2) by (rule cluster_step.handle_append [OF assms(3,4,5) h(1)])
    then show ?thesis using S h(3) by (intro exI [of _ "insert (q, p, req, resp) (append_resps s)"]) auto
  qed
qed

lemma transport_step_steps:
  assumes "transport_step M tr wf ts ts'" and "wf (fst ts)" and "vote_resps (snd ts) \<subseteq> V" and "append_resps (snd ts) \<subseteq> A"
  shows "\<exists>V' A'. (cluster_step M)\<^sup>*\<^sup>* (with_replies V A (snd ts)) (with_replies V' A' (snd ts')) \<and> wf (fst ts') \<and>
    vote_resps (snd ts') \<subseteq> V' \<and> append_resps (snd ts') \<subseteq> A'"
  using assms(1)
proof (cases rule: transport_step.cases)
  case (own s s' t)
  note N = node_step_replies [OF own(3), of V A]
  show ?thesis using N assms(2-4) own(1,2) by (auto intro!: exI [of _ V] exI [of _ A] r_into_rtranclp cluster_step.own)
next
  case (vote_call p q req s e t r t' w)
  obtain V' where V': "(cluster_step M)\<^sup>*\<^sup>* (with_replies V A s) ((with_replies V A s)\<lparr>nodes := w, vote_resps := V'\<rparr>)"
      "(case r of None \<Rightarrow> {} | Some resp \<Rightarrow> {(q, p, req, resp)}) \<union> V \<subseteq> V'" "wf t'"
    using vote_call_step [of p e q req t "with_replies V A s" r t' w M] vote_call assms(2) by auto
  then show ?thesis using vote_call(1,2) assms(3,4) by (intro exI [of _ V'] exI [of _ A]) auto
next
  case (append_call p q req s e t r t' w)
  obtain A' where A': "(cluster_step M)\<^sup>*\<^sup>* (with_replies V A s) ((with_replies V A s)\<lparr>nodes := w, append_resps := A'\<rparr>)"
      "(case r of None \<Rightarrow> {} | Some resp \<Rightarrow> {(q, p, req, resp)}) \<union> A \<subseteq> A'" "wf t'"
    using append_call_step [of p e q req t "with_replies V A s" r t' w M] append_call assms(2) by auto
  then show ?thesis using append_call(1,2) assms(3,4) by (intro exI [of _ V] exI [of _ A']) auto
next
  case (network t' t s)
  then show ?thesis using assms(3,4) by auto
qed

lemma transport_reachable:
  assumes "(transport_step M tr wf)\<^sup>*\<^sup>* ts ts'" and "wf (fst ts)" and "reachable M cfg (snd ts)"
  shows "(\<exists>V A. reachable M cfg (with_replies V A (snd ts'))) \<and> wf (fst ts')"
proof -
  have "\<exists>V A. reachable M cfg (with_replies V A (snd ts')) \<and> wf (fst ts') \<and> vote_resps (snd ts') \<subseteq> V \<and> append_resps (snd ts') \<subseteq> A"
    using assms(1)
  proof (induction rule: rtranclp_induct)
    case base
    then show ?case using assms(2,3) by (intro exI [of _ "vote_resps (snd ts)"] exI [of _ "append_resps (snd ts)"]) simp
  next
    case (step ts1 ts2)
    then obtain V A where V: "reachable M cfg (with_replies V A (snd ts1))" "wf (fst ts1)" "vote_resps (snd ts1) \<subseteq> V" "append_resps (snd ts1) \<subseteq> A"
      by blast
    from transport_step_steps [OF step.hyps(2) V(2-4)] reachable_steps [OF V(1)] show ?case by blast
  qed
  then show ?thesis by blast
qed

text \<open>A pass of a loop that nobody disturbs is one of these runs.\<close>

lemma vote_request_steps:
  assumes "vote_request (tr p) send reply p req q (votes, t, nodes s) = (votes', t', w')"
    and "p \<in> set M" and "q \<in> set M" and "disk_ok (ce_node (send q))" and "disk_ok (reply q)"
    and "vthreads s p = VRound req pend votes" and "q \<in> set pend" and "(p, q, req) \<in> vote_reqs s"
  shows "\<exists>s'. (transport_step M tr wf)\<^sup>*\<^sup>* (t, s) (t', s') \<and> nodes s' = w' \<and> vote_reqs s' = vote_reqs s \<and>
    vthreads s' = (vthreads s)(p := VRound req (remove1 q pend) votes')"
proof -
  obtain r t1 w1 where send: "SendRequestVote (tr p) (send q) q req (t, nodes s) = (r, t1, w1)" by (metis prod_cases3)
  let ?s = "s\<lparr>nodes := w1, vote_resps := (case r of None \<Rightarrow> {} | Some resp \<Rightarrow> {(q, p, req, resp)}) \<union> vote_resps s\<rparr>"
  have call: "transport_step M tr wf (t, s) (t1, ?s)" by (rule transport_step.vote_call [OF assms(2,3,8,4)]) (rule send)
  show ?thesis
  proof (cases r)
    case None
    let ?e = "?s\<lparr>vthreads := (vthreads ?s)(p := VRound req (remove1 q pend) votes)\<rparr>"
    have "node_step M ?s ?e" by (rule node_step.vote_unreachable [OF assms(2) _ assms(7)]) (simp add: assms(6))
    then have "(transport_step M tr wf)\<^sup>*\<^sup>* (t, s) (t1, ?e)" using call by (meson transport_step.own converse_rtranclp_into_rtranclp r_into_rtranclp)
    moreover have "votes' = votes" "t' = t1" "w' = w1" using assms(1) send None by (simp_all add: vote_request_def)
    ultimately show ?thesis by (intro exI [of _ ?e]) simp
  next
    case (Some resp)
    obtain n' v where rep: "WinVoteRound_reply (reply q) resp (rv_pre_vote req) (rv_term req) (nodes ?s p, votes) = (n', v)" by fastforce
    let ?e = "?s\<lparr>nodes := (nodes ?s)(p := n'), vthreads := (vthreads ?s)(p := VRound req (remove1 q pend) v)\<rparr>"
    have "node_step M ?s ?e"
      by (rule node_step.vote_reply [where resp = resp, OF assms(2,5) _ assms(7) _ rep]) (simp_all add: assms(6) Some)
    then have "(transport_step M tr wf)\<^sup>*\<^sup>* (t, s) (t1, ?e)" using call by (meson transport_step.own converse_rtranclp_into_rtranclp r_into_rtranclp)
    moreover have "votes' = v" "t' = t1" "w' = w1(p := n')" using assms(1) send Some rep by (auto simp: vote_request_def split: prod.splits)
    ultimately show ?thesis by (intro exI [of _ ?e]) simp
  qed
qed

lemma vote_round_steps:
  assumes "fold (vote_request (tr p) send reply p req) order (votes, t, nodes s) = (votes', t', w')"
    and "p \<in> set M" and "set order \<subseteq> set M" and "\<forall>q. disk_ok (ce_node (send q)) \<and> disk_ok (reply q)"
    and "vthreads s p = VRound req pend votes" and "mset order = mset pend" and "\<forall>q \<in> set order. (p, q, req) \<in> vote_reqs s"
  shows "\<exists>s'. (transport_step M tr wf)\<^sup>*\<^sup>* (t, s) (t', s') \<and> nodes s' = w' \<and> vthreads s' = (vthreads s)(p := VRound req [] votes')"
  using assms
proof (induction order arbitrary: votes t s pend)
  case Nil
  then have "pend = []" by simp
  with Nil show ?case by (intro exI [of _ s]) (auto simp: fun_upd_idem)
next
  case (Cons q order)
  obtain v1 t1 w1 where one: "vote_request (tr p) send reply p req q (votes, t, nodes s) = (v1, t1, w1)" by (metis prod_cases3)
  have q: "q \<in> set pend" using Cons.prems(6) by (metis list.set_intros(1) mset_eq_setD)
  obtain s1 where s1: "(transport_step M tr wf)\<^sup>*\<^sup>* (t, s) (t1, s1)" "nodes s1 = w1" "vote_reqs s1 = vote_reqs s"
      "vthreads s1 = (vthreads s)(p := VRound req (remove1 q pend) v1)"
    using vote_request_steps [OF one Cons.prems(2) _ _ _ Cons.prems(5) q] Cons.prems(3,4,7) by auto
  have "mset order = mset (remove1 q pend)" using Cons.prems(6) q by (metis add_mset_remove_trivial mset.simps(2) mset_remove1)
  moreover have "fold (vote_request (tr p) send reply p req) order (v1, t1, nodes s1) = (votes', t', w')"
    using Cons.prems(1) one s1(2) by simp
  ultimately have "\<exists>s'. (transport_step M tr wf)\<^sup>*\<^sup>* (t1, s1) (t', s') \<and> nodes s' = w' \<and> vthreads s' = (vthreads s1)(p := VRound req [] votes')"
    using Cons.prems(2-4,7) s1(3,4) by (intro Cons.IH [where pend = "remove1 q pend"]) (simp_all add: mset_remove1)
  then show ?case unfolding s1(4) fun_upd_upd using s1(1) rtranclp_trans [of "transport_step M tr wf" "(t, s)" "(t1, s1)"] by blast
qed

lemma fan_out_steps:
  assumes "WinVoteRound (tr p) send reply order p req (t, nodes s) = (won, t', w')"
    and "wf_config M cfg" and "p \<in> set M" and "\<forall>q. disk_ok (ce_node (send q)) \<and> disk_ok (reply q)"
    and "mset order = mset (cfg_peers (cfg p))" and "vthreads s p = VRound req (cfg_peers (cfg p)) 1"
    and "config n = cfg p" and "fan_out n req \<subseteq> vote_reqs s"
  shows "\<exists>votes s'. (transport_step M tr wf)\<^sup>*\<^sup>* (t, s) (t', s') \<and> nodes s' = w' \<and> vthreads s' = (vthreads s)(p := VRound req [] votes) \<and>
    won = WinVoteRound_result (w' p) votes"
proof -
  obtain votes t1 w1 where f: "fold (vote_request (tr p) send reply p req) order (1, t, nodes s) = (votes, t1, w1)" by (metis prod_cases3)
  have "set order = set M - {p}" "cfg_id (cfg p) = p" using assms(2,3,5) by (auto simp: wf_config_def dest: mset_eq_setD)
  moreover from this have "\<forall>q \<in> set order. (p, q, req) \<in> vote_reqs s"
    using assms(2,3,7,8) by (auto simp: fan_out_def wf_config_def)
  ultimately show ?thesis
    using vote_round_steps [OF f assms(3) _ assms(4,6,5)] f assms(1) by (auto simp: WinVoteRound_def)
qed

lemma round_over_steps:
  assumes "p \<in> set M" and "vthreads s p = VRound req [] votes" and "\<not> WinVoteRound_result (nodes s p) votes"
  shows "(transport_step M tr wf)\<^sup>*\<^sup>* (t, s) (t, s\<lparr>vthreads := (vthreads s)(p := VIdle)\<rparr>)"
  by (intro r_into_rtranclp transport_step.own node_step.round_lost [OF assms])

lemma vote_phase_steps:
  assumes "StartElection_begin (el_begin el) (rv_term pre) (nodes s p) = Some (n, req)"
    and "WinVoteRound (tr p) (el_send el) (el_reply el) (el_order el) p req (t, (nodes s)(p := n)) = (won, t', w')"
    and "wf_config M cfg" and "p \<in> set M" and "election_ok (cfg_peers (cfg p)) el" and "config (nodes s p) = cfg p"
    and "vthreads s p = VRound pre [] votes" and "rv_pre_vote pre" and "WinVoteRound_result (nodes s p) votes" and "current_term (nodes s p) + 1 < u64_size"
  shows "\<exists>s'. (transport_step M tr wf)\<^sup>*\<^sup>* (t, s) (t', s') \<and> vthreads s' = (vthreads s)(p := VIdle) \<and>
    nodes s' = (if won then w'(p := StartElection_finish (rv_term req) (w' p)) else w')"
proof -
  note B = begin_fields [OF assms(1)]
  let ?s = "s\<lparr>nodes := (nodes s)(p := n), vthreads := (vthreads s)(p := VRound req (cfg_peers (config n)) 1), vote_reqs := fan_out n req \<union> vote_reqs s\<rparr>"
  have el: "disk_ok (el_begin el)" "mset (el_order el) = mset (cfg_peers (cfg p))" "\<forall>q. disk_ok (ce_node (el_send el q)) \<and> disk_ok (el_reply el q)"
    using assms(5) by (simp_all add: election_ok_def)
  have one: "transport_step M tr wf (t, s) (t, ?s)"
    by (rule transport_step.own, rule node_step.election_begun [OF assms(4) el(1) assms(7,8,9,10,1)])
  obtain votes' s2 where s2: "(transport_step M tr wf)\<^sup>*\<^sup>* (t, ?s) (t', s2)" "nodes s2 = w'" "vthreads s2 = (vthreads ?s)(p := VRound req [] votes')"
      "won = WinVoteRound_result (w' p) votes'"
    using fan_out_steps [of p "el_send el" "el_reply el" "el_order el" req t ?s won t' w' M cfg n] assms(2-4,6) el B(1) by auto
  let ?e = "(if won then s2\<lparr>nodes := (nodes s2)(p := StartElection_finish (rv_term req) (nodes s2 p))\<rparr> else s2)\<lparr>vthreads := (vthreads s2)(p := VIdle)\<rparr>"
  have "(transport_step M tr wf)\<^sup>*\<^sup>* (t', s2) (t', ?e)"
  proof (cases won)
    case True
    then show ?thesis
      using node_step.election_won [OF assms(4), of s2 req votes'] s2(2-4) B(2) by (auto intro!: r_into_rtranclp transport_step.own)
  next
    case False
    then show ?thesis using round_over_steps [OF assms(4), of s2 req votes'] s2(2-4) by simp
  qed
  then have "(transport_step M tr wf)\<^sup>*\<^sup>* (t, s) (t', ?e)" using one s2(1) by (meson converse_rtranclp_into_rtranclp rtranclp_trans)
  with s2 show ?thesis by (intro exI [of _ ?e]) auto
qed

lemma election_steps:
  assumes "ElectionLoop_pass (tr p) el p (t, nodes s) = (t', w')" and "wf t" and "wf_config M cfg" and "reachable M cfg s"
    and "p \<in> set M" and "vthreads s p = VIdle" and "election_ok (cfg_peers (cfg p)) el" and "current_term (nodes s p) + 1 < u64_size"
  shows "\<exists>s'. (transport_step M tr wf)\<^sup>*\<^sup>* (t, s) (t', s') \<and> nodes s' = w' \<and> vthreads s' = vthreads s"
proof (cases "ElectionLoop_due (el_due el) (nodes s p)")
  case False
  then show ?thesis using assms(1) by (auto simp: ElectionLoop_pass_def)
next
  case True
  then obtain pre where pre: "StartElection_prevote (nodes s p) = Some pre" "rv_pre_vote pre" "rv_term pre = current_term (nodes s p) + 1"
    using assms(8) by (auto simp: ElectionLoop_due_def StartElection_prevote_def u64_add_exact)
  note R = reachable_node [OF assms(3,4,5)]
  let ?s = "s\<lparr>vthreads := (vthreads s)(p := VRound pre (cfg_peers (config (nodes s p))) 1), vote_reqs := fan_out (nodes s p) pre \<union> vote_reqs s\<rparr>"
  have one: "transport_step M tr wf (t, s) (t, ?s)" by (rule transport_step.own, rule node_step.prevote [OF assms(5,6) True pre(1)])
  obtain won t1 w1 where w1: "WinVoteRound (tr p) (el_pre_send el) (el_pre_reply el) (el_pre_order el) p pre (t, nodes s) = (won, t1, w1)"
    by (metis prod_cases3)
  obtain votes s1 where s1: "(transport_step M tr wf)\<^sup>*\<^sup>* (t, ?s) (t1, s1)" "nodes s1 = w1" "vthreads s1 = (vthreads ?s)(p := VRound pre [] votes)"
      "won = WinVoteRound_result (w1 p) votes"
    using fan_out_steps [of p "el_pre_send el" "el_pre_reply el" "el_pre_order el" pre t ?s won t1 w1 M cfg "nodes s p"] w1 assms(3,5,7) R(1)
    by (auto simp: election_ok_def)
  have to1: "(transport_step M tr wf)\<^sup>*\<^sup>* (t, s) (t1, s1)" using one s1(1) by (rule converse_rtranclp_into_rtranclp)
  obtain V A where "reachable M cfg (with_replies V A s1)" using transport_reachable [OF to1, where cfg = cfg] assms(2,4) by auto
  note R1 = reachable_node [OF assms(3) this assms(5), simplified]
  have th: "vthreads s1 p = VRound pre [] votes" "(vthreads s1)(p := VIdle) = vthreads s" using s1(3) assms(6) by auto
  let ?idle = "s1\<lparr>vthreads := (vthreads s1)(p := VIdle)\<rparr>"
  note E = assms(1) [unfolded ElectionLoop_pass_def StartElection_def, simplified, unfolded w1 pre(1)]
  consider (lost) "\<not> won" | (aborted) "won" "StartElection_begin (el_begin el) (rv_term pre) (w1 p) = None"
    | (begun) n req where "won" "StartElection_begin (el_begin el) (rv_term pre) (w1 p) = Some (n, req)" by fastforce
  then show ?thesis
  proof cases
    case lost
    then have "t' = t1" "w' = w1" using E True pre(1) w1 by auto
    moreover have "(transport_step M tr wf)\<^sup>*\<^sup>* (t1, s1) (t1, ?idle)" by (rule round_over_steps [OF assms(5) th(1)]) (use lost s1 in simp)
    ultimately show ?thesis using rtranclp_trans [OF to1] s1 th(2) by (intro exI [of _ ?idle]) auto
  next
    case aborted
    then have "t' = t1" "w' = w1" using E True pre(1) w1 by auto
    moreover have "node_step M s1 ?idle"
      by (rule node_step.election_aborted [OF assms(5) th(1) pre(2)]) (use aborted s1 in simp_all)
    ultimately show ?thesis using rtranclp.rtrancl_into_rtrancl [OF to1 transport_step.own] s1 th(2) by (intro exI [of _ ?idle]) auto
  next
    case begun
    obtain won2 t2 w2 where w2: "WinVoteRound (tr p) (el_send el) (el_reply el) (el_order el) p req (t1, w1(p := n)) = (won2, t2, w2)"
      by (metis prod_cases3)
    have "t' = t2" "w' = (if won2 then w2(p := StartElection_finish (rv_term req) (w2 p)) else w2)"
      using E True pre(1) w1 w2 begun by (auto split: if_splits)
    moreover have "current_term (nodes s1 p) + 1 < u64_size"
      by (rule u64_add_pos [OF R1(5)]) (use begin_fields(3) [OF begun(2)] pre(3) s1(2) in simp)
    ultimately have "\<exists>s'. (transport_step M tr wf)\<^sup>*\<^sup>* (t1, s1) (t', s') \<and> vthreads s' = (vthreads s1)(p := VIdle) \<and> nodes s' = w'"
      using vote_phase_steps [of el pre s1 p n req t1 won2 t2 w2 M cfg votes] begun w2 s1(2,4) assms(3,5,7) R1(1) th(1) pre(2) by simp
    then show ?thesis unfolding th(2) using rtranclp_trans [OF to1] by blast
  qed
qed

lemma replicate_steps:
  assumes "ReplicationLoop_pass (tr p) send reply p q (t, nodes s) = Some (t', w')" and "wf_config M cfg" and "reachable M cfg s"
    and "p \<in> set M" and "q \<in> set (cfg_peers (cfg p))" and "disk_ok (ce_node send)" and "disk_ok reply" and "wf t"
  shows "\<exists>s'. (transport_step M tr wf)\<^sup>*\<^sup>* (t, s) (t', s') \<and> nodes s' = w'"
proof (cases "ReplicateTo_request q (current_term (nodes s p)) (nodes s p)")
  case None
  then have "t' = t" "w' = nodes s" using assms(1) by (auto simp: ReplicationLoop_pass_def ReplicateTo_def split: if_splits)
  then show ?thesis by auto
next
  case (Some req)
  note R = reachable_node [OF assms(2,3,4)]
  have q: "q \<in> set M" "q \<noteq> p" using R(3) assms(5) by auto
  have lead: "role (nodes s p) = kLeader" "ae_term req = current_term (nodes s p)"
    using Some by (auto simp: ReplicateTo_request_def Let_def split: if_splits)
  let ?clear = "s\<lparr>rthreads := (rthreads s)(p := (rthreads s p)(q := None))\<rparr>"
  let ?s = "?clear\<lparr>rthreads := (rthreads ?clear)(p := (rthreads ?clear p)(q \<mapsto> req)), append_reqs := insert (p, q, req) (append_reqs ?clear)\<rparr>"
  obtain r t1 w1 where send: "SendAppendEntries (tr p) send q req (t, nodes s) = Some (r, t1, w1)"
    using assms(1) lead Some by (auto simp: ReplicationLoop_pass_def ReplicateTo_def split: option.splits)
  let ?c = "?s\<lparr>nodes := w1, append_resps := (case r of None \<Rightarrow> {} | Some resp \<Rightarrow> {(q, p, req, resp)}) \<union> append_resps ?s\<rparr>"
  have "node_step M s ?clear" by (rule node_step.replicate_unreachable [OF assms(4)])
  moreover have "node_step M ?clear ?s" by (rule node_step.replicate [OF assms(4)]) (use assms(5) R(1) Some in simp_all)
  moreover have "transport_step M tr wf (t, ?s) (t1, ?c)" by (rule transport_step.append_call [OF assms(4) q(1)]) (use assms(6) send in simp_all)
  ultimately have to: "(transport_step M tr wf)\<^sup>*\<^sup>* (t, s) (t1, ?c)"
    by (meson transport_step.own converse_rtranclp_into_rtranclp r_into_rtranclp)
  note E = assms(1) [unfolded ReplicationLoop_pass_def ReplicateTo_def]
  show ?thesis
  proof (cases r)
    case None
    then have "t' = t1" "w' = w1" using E lead Some send by simp_all
    then show ?thesis using to by (intro exI [of _ ?c]) simp
  next
    case r: (Some resp)
    have "w1 p = nodes s p" using send_append [OF assms(8) send] q(2) by auto
    then obtain n where n: "ReplicateTo_response reply q (ae_term req) req resp (nodes ?c p) = Some n" "t' = t1" "w' = w1(p := n)"
      using E lead Some send r by auto
    let ?u = "?c\<lparr>nodes := (nodes ?c)(p := n), rthreads := (rthreads ?c)(p := (rthreads ?c p)(q := None))\<rparr>"
    have "node_step M ?c ?u" by (rule node_step.replicate_reply [OF assms(4,7) _ _ n(1)]) (simp_all add: r)
    then show ?thesis using rtranclp.rtrancl_into_rtrancl [OF to transport_step.own] n(2,3) by (intro exI [of _ ?u]) simp
  qed
qed

end

section \<open>The two transports\<close>

text \<open>Every id is registered with the node of that id, and an address of a peer is that of its server.\<close>

definition ids_registered :: "InMemoryCluster \<Rightarrow> bool" where
  "ids_registered c \<longleftrightarrow> (\<forall>q node. ic_nodes c q = Some node \<longrightarrow> node = q)"

interpretation in_memory: raft_transport Endpoint ids_registered
proof unfold_locales
  show "ids_registered t' \<and> (r = None \<and> w' = w \<or>
      (\<exists>n resp. HandleRequestVote (ce_node e) req (w q) = (n, resp) \<and> w' = w(q := n) \<and> (r = None \<or> r = Some resp)))"
    if "ids_registered t" "SendRequestVote (Endpoint p) e q req (t, w) = (r, t', w')" for t p e q req w r t' w'
    using that by (auto simp: Endpoint_def DeliverRequestVote_def ids_registered_def split: if_splits option.splits prod.splits)
  show "ids_registered t' \<and> (ar = None \<and> w' = w \<or>
      (\<exists>n resp. HandleAppendEntries (ce_node e) areq (w q) = Some (n, resp) \<and> w' = w(q := n) \<and> (ar = None \<or> ar = Some resp)))"
    if "ids_registered t" "SendAppendEntries (Endpoint p) e q areq (t, w) = Some (ar, t', w')" for t p e q areq w ar t' w'
    using that by (auto simp: Endpoint_def DeliverAppendEntries_def ids_registered_def split: if_splits option.splits prod.splits)
qed

definition peers_addressed :: "(string \<rightharpoonup> string) \<Rightarrow> (string \<Rightarrow> GrpcRaftTransport) \<Rightarrow> bool" where
  "peers_addressed servers ts \<longleftrightarrow>
    (\<forall>p q a node. (gt_addresses (ts p) q = Some a \<or> gt_stubs (ts p) q = Some a) \<longrightarrow> servers a = Some node \<longrightarrow> node = q)"

lemma StubFor_addressed:
  assumes "peers_addressed servers ts" and "StubFor q (ts p) = (r, t)"
  shows "peers_addressed servers (ts(p := t))" and "r = Some a \<Longrightarrow> servers a = Some node \<Longrightarrow> node = q"
  using assms by (auto simp: StubFor_def peers_addressed_def split: option.splits if_splits)

lemma call_stub_cases:
  assumes "call_stub servers fate h stub w = (r, w')" and "\<forall>node. servers stub = Some node \<longrightarrow> node = q"
  shows "r = None \<and> w' = w \<or> (\<exists>resp. h q w = (resp, w') \<and> (r = None \<or> r = resp))"
  using assms by (auto simp: call_stub_def rpc_call_def split: option.splits if_splits prod.splits sum.splits)

interpretation grpc: raft_transport "grpc_endpoint servers" "peers_addressed servers" for servers
proof unfold_locales
  show "peers_addressed servers t' \<and> (r = None \<and> w' = w \<or>
      (\<exists>n resp. HandleRequestVote (ce_node e) req (w q) = (n, resp) \<and> w' = w(q := n) \<and> (r = None \<or> r = Some resp)))"
    if "peers_addressed servers t" "SendRequestVote (grpc_endpoint servers p) e q req (t, w) = (r, t', w')" for t p e q req w r t' w'
    using that StubFor_addressed [of servers t q p]
    by (auto simp: grpc_endpoint_def Grpc_SendRequestVote_def RaftServiceImpl_RequestVote_def split: option.splits prod.splits
        dest!: call_stub_cases [where q = q])
  show "peers_addressed servers t' \<and> (ar = None \<and> w' = w \<or>
      (\<exists>n resp. HandleAppendEntries (ce_node e) areq (w q) = Some (n, resp) \<and> w' = w(q := n) \<and> (ar = None \<or> ar = Some resp)))"
    if "peers_addressed servers t" "SendAppendEntries (grpc_endpoint servers p) e q areq (t, w) = Some (ar, t', w')" for t p e q areq w ar t' w'
    using that StubFor_addressed [of servers t q p]
    by (auto simp: grpc_endpoint_def Grpc_SendAppendEntries_def RaftServiceImpl_AppendEntries_def split: option.splits prod.splits
        dest!: call_stub_cases [where q = q])
qed

end
