(* ===== verification/Raft_Liveness.thy ===== *)
theory Raft_Liveness
  imports Raft_Transport
begin

text \<open>
  Progress of a Raft group over a transport that delivers: a node whose election timeout has passed becomes leader when
  a majority is reachable, has no leader and no newer log; and a leader brings any reachable follower up to its log in
  as many passes as its log has entries plus one, and commits its log once a majority has it. Locale
  \<open>reliable_transport\<close> extends \<open>raft_transport\<close> by the peers that can be reached.
\<close>

locale reliable_transport = raft_transport tr wf for tr :: "string \<Rightarrow> 't RaftTransport" and wf :: "'t \<Rightarrow> bool" +
  fixes reach :: "call_env \<Rightarrow> string \<Rightarrow> string \<Rightarrow> 't \<Rightarrow> bool"
  assumes reach_vote: "wf t \<Longrightarrow> reach e p q t \<Longrightarrow> HandleRequestVote (ce_node e) req (w q) = (n, resp) \<Longrightarrow>
      \<exists>t'. SendRequestVote (tr p) e q req (t, w) = (Some resp, t', w(q := n))"
    and reach_append: "wf t \<Longrightarrow> reach e p q t \<Longrightarrow> HandleAppendEntries (ce_node e) areq (w q) = Some (n, aresp) \<Longrightarrow>
      \<exists>t'. SendAppendEntries (tr p) e q areq (t, w) = Some (Some aresp, t', w(q := n))"
    and reach_after_vote: "reach e p q t \<Longrightarrow> SendRequestVote (tr p) e' q' req (t, w) = (r, t', w') \<Longrightarrow> reach e p q t'"
    and reach_after_append: "reach e p q t \<Longrightarrow> SendAppendEntries (tr p) e' q' areq (t, w) = Some (ar, t', w') \<Longrightarrow> reach e p q t'"

section \<open>Votes\<close>

definition at_least_as_new :: "RaftNode \<Rightarrow> RaftNode \<Rightarrow> bool" where
  "at_least_as_new c n \<longleftrightarrow> LastLogTermLocked c > LastLogTermLocked n \<or>
    LastLogTermLocked c = LastLogTermLocked n \<and> LastLogIndexLocked c \<ge> LastLogIndexLocked n"

lemma prevote_handled:
  assumes "rv_pre_vote req"
  shows "fst (HandleRequestVote env req n) = n" and "rvr_term (snd (HandleRequestVote env req n)) = current_term n"
    and "rvr_vote_granted (snd (HandleRequestVote env req n)) \<longleftrightarrow> rv_term req \<ge> current_term n \<and> role n \<noteq> kLeader \<and> up_to_date req n \<and>
      now env - last_leader_contact n \<ge> cfg_election_min (config n)"
  using assms by (auto simp: HandleRequestVote_def Let_def)

lemma StepDown_fields:
  assumes "current_term n < trm"
  shows "current_term (StepDownIfStaleLocked env trm n) = trm" and "voted_for (StepDownIfStaleLocked env trm n) = ''''"
    and "log (StepDownIfStaleLocked env trm n) = log n"
  using assms by (simp_all add: StepDownIfStaleLocked_def)

lemma vote_handled:
  assumes "\<not> rv_pre_vote req" and "current_term n < rv_term req"
  shows "rvr_term (snd (HandleRequestVote env req n)) = rv_term req"
    and "rvr_vote_granted (snd (HandleRequestVote env req n)) \<longleftrightarrow> up_to_date req n"
    and "up_to_date req n \<Longrightarrow> voted_for (fst (HandleRequestVote env req n)) = rv_candidate_id req"
proof -
  have up: "up_to_date req (StepDownIfStaleLocked env (rv_term req) n) = up_to_date req n"
    using StepDown_fields(3) [OF assms(2)] by (simp add: up_to_date_def LastLogTermLocked_def LastLogIndexLocked_def)
  show "rvr_term (snd (HandleRequestVote env req n)) = rv_term req"
    "rvr_vote_granted (snd (HandleRequestVote env req n)) \<longleftrightarrow> up_to_date req n"
    "up_to_date req n \<Longrightarrow> voted_for (fst (HandleRequestVote env req n)) = rv_candidate_id req"
    using assms by (simp_all add: HandleRequestVote_def Let_def StepDown_fields up)
qed

lemma begin_candidate:
  assumes "role n \<noteq> kLeader" and "u64_add (current_term n) 1 = trm" and "now env - last_leader_contact n \<ge> cfg_election_min (config n)"
  shows "\<exists>n' req. StartElection_begin env trm n = Some (n', req) \<and> current_term n' = trm \<and> role n' = kCandidate \<and>
    config n' = config n \<and> log n' = log n \<and> \<not> rv_pre_vote req \<and> rv_term req = trm \<and> rv_candidate_id req = cfg_id (config n) \<and>
    rv_last_log_index req = LastLogIndexLocked n \<and> rv_last_log_term req = LastLogTermLocked n"
  using assms by (simp add: StartElection_begin_def Let_def LastLogIndexLocked_def LastLogTermLocked_def)

lemma BecomeLeader_keeps:
  "role (BecomeLeaderLocked n) = kLeader" "current_term (BecomeLeaderLocked n) = current_term n" "log (BecomeLeaderLocked n) = log n"
proof -
  have "role (fold (\<lambda>peer n. n\<lparr>next_index := (next_index n)(peer \<mapsto> k), match_index := (match_index n)(peer \<mapsto> 0)\<rparr>) ps n) = role n \<and>
    current_term (fold (\<lambda>peer n. n\<lparr>next_index := (next_index n)(peer \<mapsto> k), match_index := (match_index n)(peer \<mapsto> 0)\<rparr>) ps n) = current_term n \<and>
    log (fold (\<lambda>peer n. n\<lparr>next_index := (next_index n)(peer \<mapsto> k), match_index := (match_index n)(peer \<mapsto> 0)\<rparr>) ps n) = log n" for k ps and n :: RaftNode
    by (induction ps arbitrary: n) simp_all
  then show "role (BecomeLeaderLocked n) = kLeader" "current_term (BecomeLeaderLocked n) = current_term n" "log (BecomeLeaderLocked n) = log n"
    by (simp_all add: BecomeLeaderLocked_def Let_def)
qed

context reliable_transport
begin

lemma vote_request_counts:
  assumes "vote_request (tr p) send reply p req q (v, t, w) = (v', t', w')" and "wf t" and "q \<noteq> p"
    and "HandleRequestVote (ce_node (send q)) req (w q) = (n, resp)" and "rvr_term resp \<le> current_term (w p)"
    and "rv_pre_vote req \<or> role (w p) = kCandidate \<and> current_term (w p) = rv_term req"
  shows "wf t'" and "v \<le> v'" and "w' = w \<or> w' = w(q := n)" and "reach e p x t \<Longrightarrow> reach e p x t'"
    and "reach (send q) p q t \<Longrightarrow> rvr_vote_granted resp \<Longrightarrow> v' = v + 1 \<and> w' = w(q := n)"
proof -
  obtain r t1 w1 where send: "SendRequestVote (tr p) (send q) q req (t, w) = (r, t1, w1)" by (metis prod_cases3)
  have S: "wf t1" "r = None \<and> w1 = w \<or> w1 = w(q := n) \<and> (r = None \<or> r = Some resp)"
    using send_vote [OF assms(2) send] assms(4) by auto
  have one: "v' = (if r = Some resp \<and> rvr_vote_granted resp then v + 1 else v)" "t' = t1" "w' = w1"
    using assms(1,3,5,6) send S(2) by (auto simp: vote_request_def WinVoteRound_reply_def fun_upd_idem split: if_splits)
  from one S show "wf t'" "v \<le> v'" "w' = w \<or> w' = w(q := n)" by auto
  show "reach e p x t'" if "reach e p x t" using reach_after_vote [OF that send] one(2) by simp
  show "v' = v + 1 \<and> w' = w(q := n)" if "reach (send q) p q t" "rvr_vote_granted resp"
    using reach_vote [where e = "send q" and q = q and w = w and req = req, OF assms(2) that(1) assms(4)] send one that(2) by auto
qed

lemma votes_counted:
  assumes "fold (vote_request (tr p) send reply p req) order (v, t, w) = (v', t', w')" and "wf t" and "distinct order" and "p \<notin> set order"
    and "\<forall>q \<in> set order. rvr_term (snd (HandleRequestVote (ce_node (send q)) req (w q))) \<le> current_term (w p)"
    and "rv_pre_vote req \<or> role (w p) = kCandidate \<and> current_term (w p) = rv_term req"
    and "\<forall>q \<in> G. reach (send q) p q t \<and> rvr_vote_granted (snd (HandleRequestVote (ce_node (send q)) req (w q)))"
  shows "v + card (G \<inter> set order) \<le> v' \<and> wf t' \<and> (\<forall>x. x \<notin> set order \<longrightarrow> w' x = w x) \<and>
    (\<forall>q \<in> G \<inter> set order. w' q = fst (HandleRequestVote (ce_node (send q)) req (w q))) \<and>
    (rv_pre_vote req \<longrightarrow> w' = w) \<and> (\<forall>e x. reach e p x t \<longrightarrow> reach e p x t')"
  using assms
proof (induction order arbitrary: v t w G)
  case (Cons q order)
  obtain v1 t1 w1 where one: "vote_request (tr p) send reply p req q (v, t, w) = (v1, t1, w1)" by (metis prod_cases3)
  obtain n resp where h: "HandleRequestVote (ce_node (send q)) req (w q) = (n, resp)" by fastforce
  have q: "q \<noteq> p" "q \<notin> set order" "rvr_term resp \<le> current_term (w p)" using Cons.prems(3-5) h by auto
  note C = vote_request_counts [OF one Cons.prems(2) q(1) h q(3) Cons.prems(6)]
  have same: "w1 x = w x" if "x \<noteq> q" for x using C(3) that by auto
  have pre: "rv_pre_vote req \<longrightarrow> w1 = w" using C(3) prevote_handled(1) [of req "ce_node (send q)" "w q"] h by auto
  have rest: "(G - {q}) \<inter> set order = G \<inter> set order" using q(2) by auto
  have IH: "v1 + card ((G - {q}) \<inter> set order) \<le> v' \<and> wf t' \<and> (\<forall>x. x \<notin> set order \<longrightarrow> w' x = w1 x) \<and>
      (\<forall>x \<in> (G - {q}) \<inter> set order. w' x = fst (HandleRequestVote (ce_node (send x)) req (w1 x))) \<and>
      (rv_pre_vote req \<longrightarrow> w' = w1) \<and> (\<forall>e x. reach e p x t1 \<longrightarrow> reach e p x t')"
  proof (rule Cons.IH)
    show "fold (vote_request (tr p) send reply p req) order (v1, t1, w1) = (v', t', w')" using Cons.prems(1) one by simp
    show "\<forall>x \<in> set order. rvr_term (snd (HandleRequestVote (ce_node (send x)) req (w1 x))) \<le> current_term (w1 p)"
      using Cons.prems(5) same q by (metis list.set_intros(2))
    show "rv_pre_vote req \<or> role (w1 p) = kCandidate \<and> current_term (w1 p) = rv_term req" using Cons.prems(6) same q by metis
    show "\<forall>x \<in> G - {q}. reach (send x) p x t1 \<and> rvr_vote_granted (snd (HandleRequestVote (ce_node (send x)) req (w1 x)))"
      using Cons.prems(7) same C(4) by simp
  qed (use Cons.prems C in auto)
  have here: "v1 = v + 1 \<and> w1 = w(q := n)" if "q \<in> G" using C(5) Cons.prems(7) h that by auto
  have "v + card (G \<inter> set (q # order)) \<le> v1 + card (G \<inter> set order)"
    using here C(2) q(2) by (cases "q \<in> G") (auto simp: Int_insert_right card_insert_if)
  moreover have "\<forall>x \<in> G \<inter> set (q # order). w' x = fst (HandleRequestVote (ce_node (send x)) req (w x))"
  proof
    fix x assume x: "x \<in> G \<inter> set (q # order)"
    show "w' x = fst (HandleRequestVote (ce_node (send x)) req (w x))"
    proof (cases "x = q")
      case True
      then show ?thesis using IH here h q(2) x by auto
    next
      case False
      then show ?thesis using IH same [OF False] x by auto
    qed
  qed
  ultimately show ?case using IH same pre C(4) unfolding rest by auto
qed auto

lemma round_wins:
  assumes "wf t" and "distinct order" and "p \<notin> set order" and "G \<subseteq> set order" and "MajorityLocked (w p) \<le> card G + 1"
    and "\<forall>q \<in> set order. rvr_term (snd (HandleRequestVote (ce_node (send q)) req (w q))) \<le> current_term (w p)"
    and "rv_pre_vote req \<or> role (w p) = kCandidate \<and> current_term (w p) = rv_term req"
    and "\<forall>q \<in> G. reach (send q) p q t \<and> rvr_vote_granted (snd (HandleRequestVote (ce_node (send q)) req (w q)))"
  shows "\<exists>t' w'. WinVoteRound (tr p) send reply order p req (t, w) = (True, t', w') \<and> wf t' \<and> w' p = w p \<and>
    (\<forall>q \<in> G. w' q = fst (HandleRequestVote (ce_node (send q)) req (w q))) \<and>
    (rv_pre_vote req \<longrightarrow> w' = w) \<and> (\<forall>e x. reach e p x t \<longrightarrow> reach e p x t')"
proof -
  obtain v t' w' where f: "fold (vote_request (tr p) send reply p req) order (1, t, w) = (v, t', w')" by (metis prod_cases3)
  note V = votes_counted [OF f assms(1-3,6-8)]
  have G: "G \<inter> set order = G" using assms(4) by auto
  have "w' p = w p" using V assms(3) by simp
  moreover have "WinVoteRound_result (w' p) v" using V calculation assms(5) unfolding G by (simp add: WinVoteRound_result_def)
  ultimately show ?thesis using V f unfolding G by (intro exI [of _ t'] exI [of _ w']) (simp add: WinVoteRound_def)
qed

lemma election_wins:
  assumes "wf t" and "ElectionLoop_due (el_due el) (w p)" and "current_term (w p) + 1 < u64_size"
    and "now (el_begin el) - last_leader_contact (w p) \<ge> cfg_election_min (config (w p))"
    and "distinct (cfg_peers (config (w p)))" and "p \<notin> set (cfg_peers (config (w p)))"
    and "mset (el_pre_order el) = mset (cfg_peers (config (w p)))" and "mset (el_order el) = mset (cfg_peers (config (w p)))"
    and "\<forall>q \<in> set (cfg_peers (config (w p))). current_term (w q) \<le> current_term (w p)"
    and "G \<subseteq> set (cfg_peers (config (w p)))" and "MajorityLocked (w p) \<le> card G + 1"
    and "\<forall>q \<in> G. role (w q) \<noteq> kLeader \<and> at_least_as_new (w p) (w q) \<and>
      now (ce_node (el_pre_send el q)) - last_leader_contact (w q) \<ge> cfg_election_min (config (w q))"
    and "\<forall>q \<in> G. reach (el_pre_send el q) p q t \<and> reach (el_send el q) p q t"
  shows "\<exists>t' w'. ElectionLoop_pass (tr p) el p (t, w) = (t', w') \<and> role (w' p) = kLeader \<and> current_term (w' p) = current_term (w p) + 1 \<and>
    log (w' p) = log (w p) \<and> (\<forall>q \<in> G. voted_for (w' q) = cfg_id (config (w p)))"
proof -
  let ?T = "current_term (w p)"
  have T: "u64_add ?T 1 = ?T + 1" using assms(3) by (simp add: u64_add_exact)
  obtain pre where pre: "StartElection_prevote (w p) = Some pre" "rv_pre_vote pre" "rv_term pre = ?T + 1"
      "rv_last_log_index pre = LastLogIndexLocked (w p)" "rv_last_log_term pre = LastLogTermLocked (w p)"
    using assms(2) T by (auto simp: ElectionLoop_due_def StartElection_prevote_def)
  have orders: "distinct (el_pre_order el)" "p \<notin> set (el_pre_order el)" "set (el_pre_order el) = set (cfg_peers (config (w p)))"
      "distinct (el_order el)" "p \<notin> set (el_order el)" "set (el_order el) = set (cfg_peers (config (w p)))"
    using assms(5-8) mset_eq_setD mset_eq_imp_distinct_iff by metis+
  have up: "up_to_date req (w q)" if "q \<in> G" "rv_last_log_index req = LastLogIndexLocked (w p)" "rv_last_log_term req = LastLogTermLocked (w p)" for q req
    using assms(12) that by (auto simp: up_to_date_def at_least_as_new_def)
  have "\<forall>q \<in> set (el_pre_order el). rvr_term (snd (HandleRequestVote (ce_node (el_pre_send el q)) pre (w q))) \<le> ?T"
    using assms(9) orders(3) by (simp add: prevote_handled(2) [OF pre(2)])
  moreover have "\<forall>q \<in> G. reach (el_pre_send el q) p q t \<and> rvr_vote_granted (snd (HandleRequestVote (ce_node (el_pre_send el q)) pre (w q)))"
    using assms(9,10,12,13) up pre(3-5) by (fastforce simp: prevote_handled(3) [OF pre(2)])
  ultimately obtain t1 where one: "WinVoteRound (tr p) (el_pre_send el) (el_pre_reply el) (el_pre_order el) p pre (t, w) = (True, t1, w)"
      "wf t1" "\<forall>e x. reach e p x t \<longrightarrow> reach e p x t1"
    using round_wins [OF assms(1) orders(1,2), of G w "el_pre_send el" pre "el_pre_reply el"] assms(10,11) orders(3) pre(2) by auto
  obtain n req where n: "StartElection_begin (el_begin el) (rv_term pre) (w p) = Some (n, req)" "current_term n = ?T + 1" "role n = kCandidate"
      "config n = config (w p)" "log n = log (w p)" "\<not> rv_pre_vote req" "rv_term req = ?T + 1" "rv_candidate_id req = cfg_id (config (w p))"
      "rv_last_log_index req = LastLogIndexLocked (w p)" "rv_last_log_term req = LastLogTermLocked (w p)"
    using begin_candidate [of "w p" "?T + 1" "el_begin el"] assms(2,4) T pre(3) by (auto simp: ElectionLoop_due_def)
  let ?w = "w(p := n)"
  have other: "?w q = w q" if "q \<in> set (el_order el)" for q using orders(5) that by auto
  have behind: "current_term (w q) < rv_term req" if "q \<in> set (el_order el)" for q using assms(9) orders(6) n(7) that by fastforce
  have "\<exists>t2 w2. WinVoteRound (tr p) (el_send el) (el_reply el) (el_order el) p req (t1, ?w) = (True, t2, w2) \<and> wf t2 \<and> w2 p = ?w p \<and>
      (\<forall>q \<in> G. w2 q = fst (HandleRequestVote (ce_node (el_send el q)) req (?w q))) \<and>
      (rv_pre_vote req \<longrightarrow> w2 = ?w) \<and> (\<forall>e x. reach e p x t1 \<longrightarrow> reach e p x t2)"
  proof (rule round_wins [OF one(2) orders(4,5)])
    show "\<forall>q \<in> set (el_order el). rvr_term (snd (HandleRequestVote (ce_node (el_send el q)) req (?w q))) \<le> current_term (?w p)"
      using vote_handled(1) [OF n(6) behind] other n(2,7) by simp
    show "\<forall>q \<in> G. reach (el_send el q) p q t1 \<and> rvr_vote_granted (snd (HandleRequestVote (ce_node (el_send el q)) req (?w q)))"
      using assms(10,13) one(3) vote_handled(2) [OF n(6) behind] other up [OF _ n(9,10)] orders(6) by (metis subsetD)
  qed (use assms(10,11) orders(6) n in \<open>simp_all add: MajorityLocked_def\<close>)
  then obtain t2 w2 where two: "WinVoteRound (tr p) (el_send el) (el_reply el) (el_order el) p req (t1, ?w) = (True, t2, w2)" "w2 p = n"
      "\<forall>q \<in> G. w2 q = fst (HandleRequestVote (ce_node (el_send el q)) req (?w q))" by auto
  let ?w' = "w2(p := BecomeLeaderLocked n)"
  have "ElectionLoop_pass (tr p) el p (t, w) = (t2, ?w')"
    using assms(2) pre(1) one(1) n(1) two(1,2) n(2,3,7) by (simp add: ElectionLoop_pass_def StartElection_def StartElection_finish_def)
  moreover have "voted_for (?w' q) = cfg_id (config (w p))" if "q \<in> G" for q
    using two(3) that vote_handled(3) [OF n(6) behind up [OF that n(9,10)]] other assms(6,10) orders(6) n(8) by (auto simp: subset_iff)
  ultimately show ?thesis using BecomeLeader_keeps [of n] n by (intro exI [of _ t2] exI [of _ ?w']) simp
qed

end

section \<open>Replication\<close>

text \<open>The position \<open>ReplicateTo\<close> sends from, and a leader that knows a peer to have all of its log.\<close>

definition next_of :: "RaftNode \<Rightarrow> string \<Rightarrow> nat" where
  "next_of n q = (case next_index n q of Some i \<Rightarrow> i | None \<Rightarrow> length (log n) + 1)"

definition caught_up :: "RaftNode \<Rightarrow> string \<Rightarrow> bool" where
  "caught_up n q \<longleftrightarrow> match_index n q = Some (length (log n)) \<and> next_of n q = length (log n) + 1"

definition leader_kept :: "string \<Rightarrow> RaftNode \<Rightarrow> RaftNode \<Rightarrow> bool" where
  "leader_kept q n n' \<longleftrightarrow> log n' = log n \<and> role n' = role n \<and> current_term n' = current_term n \<and> config n' = config n \<and>
    (\<forall>x. x \<noteq> q \<longrightarrow> match_index n' x = match_index n x \<and> next_index n' x = next_index n x)"

definition commits_own :: "RaftNode \<Rightarrow> bool" where
  "commits_own n \<longleftrightarrow> (TermAtLocked n (length (log n)) = current_term n \<longrightarrow> 0 < length (log n) \<longrightarrow>
    MajorityLocked n \<le> replica_count n (length (log n)) \<longrightarrow> commit_index n = length (log n))"

lemma advance_commits:
  assumes "log_wf (log n)" and "commit_index n \<le> length (log n)" and "last_applied n = commit_index n" and "applied n = take (commit_index n) (log n)"
  shows "\<exists>n'. AdvanceCommitLocked n = Some n' \<and> log n' = log n \<and> role n' = role n \<and> current_term n' = current_term n \<and> config n' = config n \<and>
    match_index n' = match_index n \<and> next_index n' = next_index n \<and> commits_own n'"
proof (cases "commit_scan n (length (log n))")
  case None
  have "commits_own n"
    using None assms(2) by (cases "length (log n)") (auto simp: commits_own_def split: if_splits)
  then show ?thesis using None assms(1) by (simp add: AdvanceCommitLocked_def)
next
  case (Some j)
  note S = commit_scan_Some [OF Some]
  let ?n = "n\<lparr>commit_index := j, last_applied := j, applied := take j (log n)\<rparr>"
  have "AdvanceCommitLocked n = Some ?n"
    using Some S assms ApplyCommitted_all [of "n\<lparr>commit_index := j\<rparr>"] by (simp add: AdvanceCommitLocked_def)
  moreover have "commits_own ?n"
    using Some by (cases "length (log n)") (auto simp: commits_own_def TermAtLocked_def replica_count_def MajorityLocked_def split: if_splits)
  ultimately show ?thesis by simp
qed

lemma request_sent:
  assumes "node_ok n" and "role n = kLeader" and "1 \<le> next_of n q" and "next_of n q \<le> length (log n) + 1"
  shows "ReplicateTo_request q (current_term n) n = Some \<lparr>ae_term = current_term n, ae_leader_id = cfg_id (config n),
    ae_prev_log_index = next_of n q - 1, ae_prev_log_term = TermAtLocked n (next_of n q - 1), ae_entries = drop (next_of n q - 1) (log n),
    ae_leader_commit = commit_index n\<rparr>"
proof -
  have wf: "log_wf (log n)" using assms(1) by (simp add: node_ok_def)
  then have "(case next_index n q of Some i \<Rightarrow> i | None \<Rightarrow> u64_add (LastLogIndexLocked n) 1) = next_of n q"
    by (auto simp: next_of_def log_wf_def u64_add_exact split: option.split)
  moreover have "u64_sub (next_of n q) 1 = next_of n q - 1" using assms(3,4) wf by (simp add: u64_sub_exact log_wf_def)
  ultimately show ?thesis
    using assms(2) ReplicateTo_in_range [OF wf assms(3)] by (simp add: ReplicateTo_request_def Let_def)
qed

lemma append_handled:
  assumes "HandleAppendEntries env req n = Some (n', resp)" and "current_term n \<le> ae_term req" and "log_wf (log n)"
  shows "aer_term resp = ae_term req" and "current_term n' = ae_term req"
    and "aer_success resp \<longleftrightarrow> ae_prev_log_index req \<le> length (log n) \<and>
      (0 < ae_prev_log_index req \<longrightarrow> TermAtLocked n (ae_prev_log_index req) = ae_prev_log_term req)"
    and "\<not> aer_success resp \<Longrightarrow> 1 \<le> aer_conflict_index resp \<and> aer_conflict_index resp \<le> ae_prev_log_index req"
proof -
  have sd: "current_term (StepDownIfStaleLocked env (ae_term req) n) = ae_term req" "log (StepDownIfStaleLocked env (ae_term req) n) = log n"
    using assms(2) by (auto simp: StepDownIfStaleLocked_def)
  have last: "last_index (log n) = length (log n)" "u64_add (length (log n)) 1 = length (log n) + 1"
    using assms(3) last_index_wf by (auto simp: log_wf_def u64_add_exact)
  note H = assms(1) [unfolded HandleAppendEntries_def Let_def LastLogIndexLocked_def TermAtLocked_def, simplified sd last, simplified]
  show "aer_term resp = ae_term req" "current_term n' = ae_term req"
    using H assms(2) sd last by (auto dest!: ApplyCommitted_frame split: if_splits option.splits)
  show "aer_success resp \<longleftrightarrow> ae_prev_log_index req \<le> length (log n) \<and>
      (0 < ae_prev_log_index req \<longrightarrow> TermAtLocked n (ae_prev_log_index req) = ae_prev_log_term req)"
    "\<not> aer_success resp \<Longrightarrow> 1 \<le> aer_conflict_index resp \<and> aer_conflict_index resp \<le> ae_prev_log_index req"
    using H assms(2) sd last by (auto simp: TermAtLocked_def split: if_splits option.splits)
qed

lemma response_taken:
  assumes "node_ok n" and "role n = kLeader" and "1 \<le> next_of n q" and "next_of n q \<le> length (log n) + 1"
    and "\<forall>m. match_index n q = Some m \<longrightarrow> m \<le> length (log n)" and "ReplicateTo_request q (current_term n) n = Some req"
    and "aer_term resp \<le> current_term n" and "\<not> aer_success resp \<longrightarrow> 1 \<le> aer_conflict_index resp \<and> aer_conflict_index resp < next_of n q"
  shows "\<exists>n'. ReplicateTo_response env q (current_term n) req resp n = Some n' \<and> leader_kept q n n' \<and>
    (if aer_success resp then caught_up n' q \<and> commits_own n' else next_of n' q < next_of n q)"
proof (cases "aer_success resp")
  case True
  have n: "log_wf (log n)" "commit_index n \<le> length (log n)" "last_applied n = commit_index n" "applied n = take (commit_index n) (log n)"
    using assms(1) by (simp_all add: node_ok_def)
  have len: "length (log n) + 1 < u64_size" using n(1) by (simp add: log_wf_def)
  have "ae_prev_log_index req + length (ae_entries req) = length (log n)"
    using assms(3,4,6) request_sent [OF assms(1-4)] by auto
  then have matched: "u64_add (ae_prev_log_index req) (length (ae_entries req)) = length (log n)" using len by (simp add: u64_add_exact)
  have m: "max (case match_index n q of Some i \<Rightarrow> i | None \<Rightarrow> 0) (length (log n)) = length (log n)"
    using assms(5) by (auto split: option.split)
  let ?n = "n\<lparr>match_index := (match_index n)(q \<mapsto> length (log n)), next_index := (next_index n)(q \<mapsto> length (log n) + 1)\<rparr>"
  have "ReplicateTo_response env q (current_term n) req resp n = AdvanceCommitLocked ?n"
    using assms(2,7) True len by (simp add: ReplicateTo_response_def Let_def matched m u64_add_exact)
  moreover obtain n' where "AdvanceCommitLocked ?n = Some n'" "log n' = log n" "role n' = role n" "current_term n' = current_term n"
      "config n' = config n" "match_index n' = match_index ?n" "next_index n' = next_index ?n" "commits_own n'"
    using advance_commits [of ?n] n by auto
  ultimately show ?thesis using True by (intro exI [of _ n']) (simp add: leader_kept_def caught_up_def next_of_def)
next
  case False
  then show ?thesis using assms(2,7,8) by (auto simp: ReplicateTo_response_def leader_kept_def next_of_def)
qed

lemma agree_term_at: "agree k l l' \<Longrightarrow> term_at l k = term_at l' k"
  using agree_nth [of k l l' "k - 1"] by (auto simp: agree_def term_at_def)

lemma leader_tables:
  assumes "wf_config M cfg" and "reachable M cfg s" and "p \<in> set M" and "role (nodes s p) = kLeader" and "q \<in> set (cfg_peers (cfg p))"
  shows "1 \<le> next_of (nodes s p) q" and "next_of (nodes s p) q \<le> length (log (nodes s p)) + 1"
    and "match_index (nodes s p) q = Some m \<Longrightarrow> m \<le> length (log (nodes s p))"
    and "match_index (nodes s p) q = Some m \<Longrightarrow> current_term (nodes s q) \<le> current_term (nodes s p) \<Longrightarrow> agree m (log (nodes s q)) (log (nodes s p))"
proof -
  obtain a where a: "sim M cfg s a" using sim_reachable [OF assms(1,2)] .
  let ?n = "nodes s p"
  have c: "config ?n = cfg p" by (rule simD(6) [OF a assms(3)])
  have q: "q \<in> set M" using assms(1,3,5) by (auto simp: wf_config_def)
  note L = sim_leader(2) [OF a assms(3,4)] and acks = abs_invD(7) [OF simD(1) [OF a]]
  have lk: "(\<forall>m. match_index ?n q = Some m \<longrightarrow> m = 0 \<or> (\<exists>k \<ge> m. (q, current_term ?n, k) \<in> acks a))"
      "(\<forall>k. next_index ?n q = Some k \<longrightarrow> 1 \<le> k \<and> k \<le> length (log ?n) + 1)"
    using simD(7) [OF a assms(3)] assms(4,5) c by (auto simp: leader_ok_def)
  show "1 \<le> next_of ?n q" "next_of ?n q \<le> length (log ?n) + 1" using lk(2) by (auto simp: next_of_def split: option.split)
  show "m \<le> length (log ?n)" if "match_index ?n q = Some m"
    using lk(1) that inv_acksD(2) [OF acks] L by (metis le_trans option.inject zero_le)
  show "agree m (log (nodes s q)) (log ?n)" if m: "match_index ?n q = Some m" and le: "current_term (nodes s q) \<le> current_term ?n"
  proof (cases "m = 0")
    case False
    then obtain k where k: "m \<le> k" "(q, current_term ?n, k) \<in> acks a" using lk(1) m by blast
    have "between_agree a (current_term ?n) (Suc (aterm a q)) m (log ?n)"
      using le sim_node(2) [OF a q] by (simp add: between_agree_def)
    then show ?thesis using inv_acksD(3) [OF acks k(2) L k(1)] sim_node(1) [OF a q] by simp
  qed simp
qed

text \<open>\<open>k\<close> passes of the loop for one peer, and of the loops for several.\<close>

primrec ReplicationLoop ::
  "'t RaftTransport \<Rightarrow> (nat \<Rightarrow> call_env) \<Rightarrow> (nat \<Rightarrow> raft_env) \<Rightarrow> string \<Rightarrow> string \<Rightarrow> nat \<Rightarrow> 't \<times> heap \<Rightarrow> ('t \<times> heap) option" where
  "ReplicationLoop tr send reply p peer 0 tw = Some tw"
| "ReplicationLoop tr send reply p peer (Suc k) tw =
     (case ReplicationLoop_pass tr (send k) (reply k) p peer tw of None \<Rightarrow> None | Some tw \<Rightarrow> ReplicationLoop tr send reply p peer k tw)"

primrec replicate_all ::
  "'t RaftTransport \<Rightarrow> (string \<Rightarrow> nat \<Rightarrow> call_env) \<Rightarrow> (string \<Rightarrow> nat \<Rightarrow> raft_env) \<Rightarrow> string \<Rightarrow> string list \<Rightarrow> nat \<Rightarrow> 't \<times> heap \<Rightarrow> ('t \<times> heap) option" where
  "replicate_all tr send reply p [] k tw = Some tw"
| "replicate_all tr send reply p (q # qs) k tw =
     (case ReplicationLoop tr (send q) (reply q) p q k tw of None \<Rightarrow> None | Some tw \<Rightarrow> replicate_all tr send reply p qs k tw)"

text \<open>A leader none of whose entries is of its own term commits nothing, whatever it is answered.\<close>

definition nothing_own :: "RaftNode \<Rightarrow> bool" where
  "nothing_own n \<longleftrightarrow> role n = kLeader \<longrightarrow> (\<forall>e \<in> set (log n). le_term e \<noteq> current_term n)"

lemma advance_nothing_own:
  assumes "\<forall>e \<in> set (log n). le_term e \<noteq> current_term n" and "log_wf (log n)"
  shows "AdvanceCommitLocked n = Some n"
proof -
  have "commit_scan n (LastLogIndexLocked n) = None"
  proof (rule ccontr)
    assume "commit_scan n (LastLogIndexLocked n) \<noteq> None"
    then obtain j where "commit_scan n (LastLogIndexLocked n) = Some j" by blast
    then have j: "0 < j" "j \<le> length (log n)" "term_at (log n) j = current_term n"
      using commit_scan_Some [of n "LastLogIndexLocked n" j] assms(2) by (auto simp: TermAtLocked_def)
    then have "log n ! (j - 1) \<in> set (log n)" "term_at (log n) j = le_term (log n ! (j - 1))" by (auto simp: term_at_def)
    then show False using assms(1) j(3) by metis
  qed
  then show ?thesis by (simp add: AdvanceCommitLocked_def)
qed

lemma response_nothing_own:
  assumes "ReplicateTo_response env q trm req resp n = Some n'" and "nothing_own n" and "log_wf (log n)"
  shows "nothing_own n' \<and> log n' = log n \<and> commit_index n' = commit_index n \<and> applied n' = applied n"
proof (cases "current_term n \<noteq> trm \<or> role n \<noteq> kLeader")
  case True
  then show ?thesis using assms by (simp add: ReplicateTo_response_def)
next
  case False
  then have "\<forall>e \<in> set (log n). le_term e \<noteq> current_term n" using assms(2) by (simp add: nothing_own_def)
  then have "AdvanceCommitLocked (n\<lparr>match_index := m, next_index := x\<rparr>) = Some (n\<lparr>match_index := m, next_index := x\<rparr>)" for m x
    by (intro advance_nothing_own) (use assms(3) in simp_all)
  then show ?thesis
    using assms False by (auto simp: ReplicateTo_response_def Let_def nothing_own_def StepDownIfStaleLocked_def split: if_splits)
qed

context raft_transport
begin

lemma pass_nothing_own:
  assumes "ReplicationLoop_pass (tr p) send reply p q (t, w) = Some (t', w')" and "wf t" and "p \<noteq> q" and "nothing_own (w p)" and "log_wf (log (w p))"
  shows "wf t' \<and> nothing_own (w' p) \<and> log (w' p) = log (w p) \<and> commit_index (w' p) = commit_index (w p) \<and> applied (w' p) = applied (w p)"
proof (cases "role (w p) \<noteq> kLeader \<or> ReplicateTo_request q (current_term (w p)) (w p) = None")
  case True
  then show ?thesis using assms by (auto simp: ReplicationLoop_pass_def ReplicateTo_def split: if_splits)
next
  case False
  then obtain req where req: "role (w p) = kLeader" "ReplicateTo_request q (current_term (w p)) (w p) = Some req" by blast
  obtain r t1 w1 where send: "SendAppendEntries (tr p) send q req (t, w) = Some (r, t1, w1)"
    using assms(1) req by (auto simp: ReplicationLoop_pass_def ReplicateTo_def split: option.splits)
  note S = send_append [OF assms(2) send]
  have w1: "w1 p = w p" using S assms(3) by auto
  have E: "(case r of None \<Rightarrow> Some (t1, w1) | Some resp \<Rightarrow> map_option (\<lambda>n. (t1, w1(p := n))) (ReplicateTo_response reply q (current_term (w p)) req resp (w1 p))) = Some (t', w')"
    using assms(1) req send by (simp add: ReplicationLoop_pass_def ReplicateTo_def split: option.splits)
  then show ?thesis
    using S assms(4,5) w1 response_nothing_own [of reply q "current_term (w p)" req _ "w p"] by (auto split: option.splits)
qed

lemma loop_nothing_own:
  assumes "ReplicationLoop (tr p) send reply p q k (t, w) = Some (t', w')" and "wf t" and "p \<noteq> q" and "nothing_own (w p)" and "log_wf (log (w p))"
  shows "wf t' \<and> nothing_own (w' p) \<and> log (w' p) = log (w p) \<and> commit_index (w' p) = commit_index (w p) \<and> applied (w' p) = applied (w p)"
  using assms
proof (induction k arbitrary: t w)
  case (Suc k)
  obtain t1 w1 where one: "ReplicationLoop_pass (tr p) (send k) (reply k) p q (t, w) = Some (t1, w1)"
      "ReplicationLoop (tr p) send reply p q k (t1, w1) = Some (t', w')"
    using Suc.prems(1) by (auto split: option.splits)
  note P = pass_nothing_own [OF one(1) Suc.prems(2-5)]
  show ?case using Suc.IH [OF one(2)] P Suc.prems(3,5) by simp
qed simp

lemma rounds_nothing_own:
  assumes "replicate_all (tr p) send reply p qs k (t, w) = Some (t', w')" and "wf t" and "p \<notin> set qs" and "nothing_own (w p)" and "log_wf (log (w p))"
  shows "commit_index (w' p) = commit_index (w p) \<and> applied (w' p) = applied (w p)"
  using assms
proof (induction qs arbitrary: t w)
  case (Cons q qs)
  obtain t1 w1 where one: "ReplicationLoop (tr p) (send q) (reply q) p q k (t, w) = Some (t1, w1)"
      "replicate_all (tr p) send reply p qs k (t1, w1) = Some (t', w')"
    using Cons.prems(1) by (auto split: option.splits)
  note P = loop_nothing_own [OF one(1) Cons.prems(2)]
  show ?case using Cons.IH [OF one(2)] P Cons.prems(3-5) by simp
qed simp

end

context reliable_transport
begin

lemma pass_progress:
  assumes "wf_config M cfg" and "reachable M cfg s" and "wf t" and "p \<in> set M" and "role (nodes s p) = kLeader" and "q \<in> set (cfg_peers (cfg p))"
    and "current_term (nodes s q) \<le> current_term (nodes s p)" and "reach send p q t" and "disk_ok (ce_node send)" and "disk_ok reply"
  shows "\<exists>t' w'. ReplicationLoop_pass (tr p) send reply p q (t, nodes s) = Some (t', w') \<and> leader_kept q (nodes s p) (w' p) \<and>
    (\<forall>x. x \<noteq> p \<longrightarrow> x \<noteq> q \<longrightarrow> w' x = nodes s x) \<and> current_term (w' q) = current_term (nodes s p) \<and> (\<forall>e x. reach e p x t \<longrightarrow> reach e p x t') \<and>
    (caught_up (w' p) q \<and> commits_own (w' p) \<or> next_of (w' p) q < next_of (nodes s p) q \<and> \<not> caught_up (nodes s p) q)"
proof -
  obtain a where a: "sim M cfg s a" using sim_reachable [OF assms(1,2)] .
  let ?n = "nodes s p" and ?k = "next_of (nodes s p) q"
  note T = leader_tables [OF assms(1,2,4-6)] and R = reachable_node [OF assms(1,2,4)]
  have q: "q \<in> set M" "q \<noteq> p" using R(3) assms(6) by auto
  have ok: "node_ok ?n" by (rule simD(5) [OF a assms(4)])
  obtain req where req: "ReplicateTo_request q (current_term ?n) ?n = Some req" "ae_term req = current_term ?n"
      "ae_prev_log_index req = ?k - 1" "ae_prev_log_term req = TermAtLocked ?n (?k - 1)"
    using request_sent [OF ok assms(5) T(1,2)] by simp
  have "areq_ok M a req"
    by (rule ReplicateTo_request_ok [OF ok simD(4) [OF a assms(4)] simD(7) [OF a assms(4)] _ simD(1) [OF a] req(1)]) (use assms(6) R(1) in simp)
  then obtain n' resp where h: "HandleAppendEntries (ce_node send) req (nodes s q) = Some (n', resp)"
    using HandleAppendEntries_moves [OF assms(9) q(1) simD(5) [OF a q(1)] simD(4) [OF a q(1)] simD(7) [OF a q(1)] simD(1,2) [OF a]] by blast
  note H = append_handled [OF h _ reachable_node(6) [OF assms(1,2) q(1)], unfolded req(2-4)]
  obtain t1 where t1: "SendAppendEntries (tr p) send q req (t, nodes s) = Some (Some resp, t1, (nodes s)(q := n'))"
    using reach_append [where w = "nodes s" and q = q and areq = req, OF assms(3,8) h] by blast
  obtain n'' where n'': "ReplicateTo_response reply q (current_term ?n) req resp ?n = Some n''" "leader_kept q ?n n''"
      "if aer_success resp then caught_up n'' q \<and> commits_own n'' else next_of n'' q < ?k"
    using response_taken [OF ok assms(5) T(1,2) _ req(1), of resp reply] T(3) H(1,4) assms(7) T(1) by fastforce
  let ?w = "(nodes s)(q := n', p := n'')"
  have "ReplicationLoop_pass (tr p) send reply p q (t, nodes s) = Some (t1, ?w)"
    using assms(5) req(1) t1 n''(1) q(2) by (simp add: ReplicationLoop_pass_def ReplicateTo_def)
  moreover have "caught_up ?n q \<longrightarrow> aer_success resp"
  proof
    assume that: "caught_up ?n q"
    have "agree (length (log ?n)) (log (nodes s q)) (log ?n)" using T(4) assms(7) that by (simp add: caught_up_def)
    then have "length (log ?n) \<le> length (log (nodes s q))" "TermAtLocked (nodes s q) (length (log ?n)) = TermAtLocked ?n (length (log ?n))"
      using agree_term_at [of "length (log ?n)" "log (nodes s q)" "log ?n"] by (simp_all add: agree_def TermAtLocked_def)
    then show "aer_success resp" using H(3) assms(7) that by (simp add: caught_up_def)
  qed
  then have "caught_up n'' q \<and> commits_own n'' \<or> next_of n'' q < ?k \<and> \<not> caught_up ?n q" using n''(3) by (auto split: if_splits)
  moreover have "\<forall>e x. reach e p x t \<longrightarrow> reach e p x t1" using reach_after_append [OF _ t1] by blast
  ultimately show ?thesis
    using n''(2) q(2) H(2) assms(7) by (intro exI [of _ t1] exI [of _ ?w]) simp
qed

lemma passes_catch_up:
  assumes "wf_config M cfg" and "reachable M cfg s" and "wf t" and "p \<in> set M" and "role (nodes s p) = kLeader" and "q \<in> set (cfg_peers (cfg p))"
    and "current_term (nodes s q) \<le> current_term (nodes s p)" and "\<forall>j. reach (send j) p q t \<and> disk_ok (ce_node (send j)) \<and> disk_ok (reply j)"
    and "next_of (nodes s p) q \<le> k \<or> caught_up (nodes s p) q \<and> commits_own (nodes s p)"
  shows "\<exists>t' s'. ReplicationLoop (tr p) send reply p q k (t, nodes s) = Some (t', nodes s') \<and> reachable M cfg s' \<and> wf t' \<and>
    leader_kept q (nodes s p) (nodes s' p) \<and> (\<forall>x. x \<noteq> p \<longrightarrow> x \<noteq> q \<longrightarrow> nodes s' x = nodes s x) \<and>
    current_term (nodes s' q) \<le> current_term (nodes s p) \<and> (\<forall>e x. reach e p x t \<longrightarrow> reach e p x t') \<and>
    caught_up (nodes s' p) q \<and> commits_own (nodes s' p)"
  using assms
proof (induction k arbitrary: s t)
  case 0
  then have "caught_up (nodes s p) q \<and> commits_own (nodes s p)" using leader_tables(1) [OF 0(1,2,4-6)] by auto
  with 0 show ?case by (intro exI [of _ t] exI [of _ s]) (auto simp: leader_kept_def)
next
  case (Suc k)
  obtain t1 w1 where one: "ReplicationLoop_pass (tr p) (send k) (reply k) p q (t, nodes s) = Some (t1, w1)" "leader_kept q (nodes s p) (w1 p)"
      "\<forall>x. x \<noteq> p \<longrightarrow> x \<noteq> q \<longrightarrow> w1 x = nodes s x" "current_term (w1 q) = current_term (nodes s p)" "\<forall>e x. reach e p x t \<longrightarrow> reach e p x t1"
      "caught_up (w1 p) q \<and> commits_own (w1 p) \<or> next_of (w1 p) q < next_of (nodes s p) q \<and> \<not> caught_up (nodes s p) q"
    using pass_progress [OF Suc.prems(1-7), of "send k" "reply k"] Suc.prems(8) by blast
  obtain s2 where s2: "(transport_step M tr wf)\<^sup>*\<^sup>* (t, s) (t1, s2)" "nodes s2 = w1"
    using replicate_steps [OF one(1) Suc.prems(1,2,4,6) _ _ Suc.prems(3)] Suc.prems(8) by blast
  obtain V A where VA: "reachable M cfg (with_replies V A s2)" "wf t1" using transport_reachable [OF s2(1), where cfg = cfg] Suc.prems(2,3) by auto
  obtain s1 where s1: "reachable M cfg s1" "nodes s1 = w1" "wf t1" using VA s2(2) that [of "with_replies V A s2"] by simp
  have "\<exists>t' s'. ReplicationLoop (tr p) send reply p q k (t1, nodes s1) = Some (t', nodes s') \<and> reachable M cfg s' \<and> wf t' \<and>
      leader_kept q (nodes s1 p) (nodes s' p) \<and> (\<forall>x. x \<noteq> p \<longrightarrow> x \<noteq> q \<longrightarrow> nodes s' x = nodes s1 x) \<and>
      current_term (nodes s' q) \<le> current_term (nodes s1 p) \<and> (\<forall>e x. reach e p x t1 \<longrightarrow> reach e p x t') \<and>
      caught_up (nodes s' p) q \<and> commits_own (nodes s' p)"
  proof (rule Suc.IH [OF Suc.prems(1) s1(1,3) Suc.prems(4) _ Suc.prems(6)])
    show "role (nodes s1 p) = kLeader" "current_term (nodes s1 q) \<le> current_term (nodes s1 p)"
      using one(2,4) s1(2) Suc.prems(5) by (simp_all add: leader_kept_def)
    show "\<forall>j. reach (send j) p q t1 \<and> disk_ok (ce_node (send j)) \<and> disk_ok (reply j)" using Suc.prems(8) one(5) by blast
    show "next_of (nodes s1 p) q \<le> k \<or> caught_up (nodes s1 p) q \<and> commits_own (nodes s1 p)" using one(6) s1(2) Suc.prems(9) by auto
  qed
  then obtain t' s' where r: "ReplicationLoop (tr p) send reply p q k (t1, nodes s1) = Some (t', nodes s')" "reachable M cfg s'" "wf t'"
      "leader_kept q (nodes s1 p) (nodes s' p)" "\<forall>x. x \<noteq> p \<longrightarrow> x \<noteq> q \<longrightarrow> nodes s' x = nodes s1 x"
      "current_term (nodes s' q) \<le> current_term (nodes s1 p)" "\<forall>e x. reach e p x t1 \<longrightarrow> reach e p x t'"
      "caught_up (nodes s' p) q" "commits_own (nodes s' p)" by blast
  have "leader_kept q (nodes s p) (nodes s' p)" using one(2) r(4) s1(2) by (simp add: leader_kept_def)
  with r one s1(2) show ?case by (intro exI [of _ t'] exI [of _ s']) (simp add: leader_kept_def)
qed

lemma rounds_catch_up:
  assumes "wf_config M cfg" and "reachable M cfg s" and "wf t" and "p \<in> set M" and "role (nodes s p) = kLeader" and "set qs \<subseteq> set (cfg_peers (cfg p))"
    and "distinct qs" and "\<forall>q \<in> set qs. current_term (nodes s q) \<le> current_term (nodes s p)"
    and "\<forall>q \<in> set qs. \<forall>j. reach (send q j) p q t \<and> disk_ok (ce_node (send q j)) \<and> disk_ok (reply q j)" and "length (log (nodes s p)) < k"
    and "\<forall>x \<in> X. caught_up (nodes s p) x \<and> current_term (nodes s x) \<le> current_term (nodes s p)" and "X \<inter> set qs = {}" and "p \<notin> X" and "qs = [] \<longrightarrow> commits_own (nodes s p)"
  shows "\<exists>t' s'. replicate_all (tr p) send reply p qs k (t, nodes s) = Some (t', nodes s') \<and> reachable M cfg s' \<and> wf t' \<and>
    log (nodes s' p) = log (nodes s p) \<and> role (nodes s' p) = kLeader \<and> current_term (nodes s' p) = current_term (nodes s p) \<and> commits_own (nodes s' p) \<and>
    (\<forall>x \<in> X \<union> set qs. caught_up (nodes s' p) x \<and> current_term (nodes s' x) \<le> current_term (nodes s p))"
  using assms
proof (induction qs arbitrary: s t X)
  case Nil
  then show ?case by (intro exI [of _ t] exI [of _ s]) auto
next
  case (Cons q qs)
  have q: "q \<in> set (cfg_peers (cfg p))" "q \<notin> set qs" "q \<noteq> p" "p \<notin> set qs"
    using Cons.prems(6,7) reachable_node(3) [OF Cons.prems(1,2,4)] by auto
  have "next_of (nodes s p) q \<le> k" using leader_tables(2) [OF Cons.prems(1,2,4,5) q(1)] Cons.prems(10) by simp
  then obtain t1 s1 where one: "ReplicationLoop (tr p) (send q) (reply q) p q k (t, nodes s) = Some (t1, nodes s1)" "reachable M cfg s1" "wf t1"
      "leader_kept q (nodes s p) (nodes s1 p)" "\<forall>x. x \<noteq> p \<longrightarrow> x \<noteq> q \<longrightarrow> nodes s1 x = nodes s x"
      "current_term (nodes s1 q) \<le> current_term (nodes s p)" "\<forall>e x. reach e p x t \<longrightarrow> reach e p x t1" "caught_up (nodes s1 p) q" "commits_own (nodes s1 p)"
    using passes_catch_up [OF Cons.prems(1-5) q(1), of "send q" "reply q" k] Cons.prems(8,9) by (metis list.set_intros(1))
  have kept: "log (nodes s1 p) = log (nodes s p)" "role (nodes s1 p) = kLeader" "current_term (nodes s1 p) = current_term (nodes s p)"
    using one(4) Cons.prems(5) by (simp_all add: leader_kept_def)
  have "caught_up (nodes s1 p) x" if "caught_up (nodes s p) x" "x \<noteq> q" for x
    using one(4) that by (simp add: leader_kept_def caught_up_def next_of_def split: option.splits)
  then have X: "\<forall>x \<in> insert q X. caught_up (nodes s1 p) x \<and> current_term (nodes s1 x) \<le> current_term (nodes s1 p)"
    using one(5,6,8) kept(3) Cons.prems(11,13) by (metis insert_iff)
  have "\<exists>t' s'. replicate_all (tr p) send reply p qs k (t1, nodes s1) = Some (t', nodes s') \<and> reachable M cfg s' \<and> wf t' \<and>
      log (nodes s' p) = log (nodes s1 p) \<and> role (nodes s' p) = kLeader \<and> current_term (nodes s' p) = current_term (nodes s1 p) \<and> commits_own (nodes s' p) \<and>
      (\<forall>x \<in> insert q X \<union> set qs. caught_up (nodes s' p) x \<and> current_term (nodes s' x) \<le> current_term (nodes s1 p))"
  proof (rule Cons.IH [OF Cons.prems(1) one(2,3) Cons.prems(4) kept(2)])
    show "\<forall>x \<in> set qs. current_term (nodes s1 x) \<le> current_term (nodes s1 p)" using Cons.prems(8) one(5) q(2,4) kept(3) by (metis list.set_intros(2))
    show "\<forall>x \<in> set qs. \<forall>j. reach (send x j) p x t1 \<and> disk_ok (ce_node (send x j)) \<and> disk_ok (reply x j)" using Cons.prems(9) one(7) by simp
  qed (use Cons.prems(6,7,10,12,13) q one(9) X kept(1) in auto)
  then show ?case using one(1) kept by auto
qed

end

section \<open>The transports deliver\<close>

definition in_memory_reach :: "call_env \<Rightarrow> string \<Rightarrow> string \<Rightarrow> InMemoryCluster \<Rightarrow> bool" where
  "in_memory_reach e p q c \<longleftrightarrow> \<not> IsDown p c \<and> \<not> IsDown q c \<and> ic_nodes c q = Some q"

interpretation in_memory_up: reliable_transport Endpoint ids_registered in_memory_reach
proof unfold_locales
  show "\<exists>t'. SendRequestVote (Endpoint p) e q req (t, w) = (Some resp, t', w(q := n))"
    if "in_memory_reach e p q t" "HandleRequestVote (ce_node e) req (w q) = (n, resp)" for t e p q req w n resp
    using that by (simp add: Endpoint_def DeliverRequestVote_def in_memory_reach_def IsDown_def)
  show "\<exists>t'. SendAppendEntries (Endpoint p) e q areq (t, w) = Some (Some aresp, t', w(q := n))"
    if "in_memory_reach e p q t" "HandleAppendEntries (ce_node e) areq (w q) = Some (n, aresp)" for t e p q areq w n aresp
    using that by (simp add: Endpoint_def DeliverAppendEntries_def in_memory_reach_def IsDown_def)
qed (auto simp: Endpoint_def in_memory_reach_def split: prod.splits)

lemma in_memory_vote_state: "fst (snd (fold (vote_request (Endpoint p) send reply p req) order (v, c, w))) = c"
proof -
  have "fst (snd (fold (vote_request (Endpoint p) send reply p req) order s)) = fst (snd s)" for s
    by (induction order arbitrary: s) (auto simp: vote_request_def Endpoint_def split: prod.splits option.splits)
  then show ?thesis by simp
qed

lemma in_memory_pass_state: "fst (ElectionLoop_pass (Endpoint p) el p (c, w)) = c"
proof -
  have round: "c2 = c1" if "WinVoteRound (Endpoint p) send reply order p req (c1, w1) = (won, c2, w2)" for send reply order req c1 w1 won c2 w2
    using in_memory_vote_state [of p send reply req order 1 c1 w1] that by (auto simp: WinVoteRound_def split: prod.splits)
  show ?thesis
    by (auto simp: ElectionLoop_pass_def StartElection_def dest!: round split: prod.splits option.splits)
qed

definition grpc_reach :: "(string \<rightharpoonup> string) \<Rightarrow> call_env \<Rightarrow> string \<Rightarrow> string \<Rightarrow> (string \<Rightarrow> GrpcRaftTransport) \<Rightarrow> bool" where
  "grpc_reach servers e p q ts \<longleftrightarrow> rf_arrives (ce_fate e) \<and> rf_returns (ce_fate e) \<and>
    (\<exists>stub. fst (StubFor q (ts p)) = Some stub \<and> servers stub = Some q)"

lemma StubFor_keeps: "fst (StubFor q (snd (StubFor q' t))) = fst (StubFor q t)"
  by (auto simp: StubFor_def split: option.split)

lemma grpc_send_state:
  "fst (snd (SendRequestVote (grpc_endpoint servers p) e q req (ts, w))) = ts(p := snd (StubFor q (ts p)))"
  "\<exists>r w'. SendAppendEntries (grpc_endpoint servers p) e q areq (ts, w) = Some (r, ts(p := snd (StubFor q (ts p))), w')"
  by (auto simp: grpc_endpoint_def Grpc_SendRequestVote_def Grpc_SendAppendEntries_def split: prod.split option.split)

interpretation grpc_up: reliable_transport "grpc_endpoint servers" "peers_addressed servers" "grpc_reach servers" for servers
proof unfold_locales
  show "\<exists>t'. SendRequestVote (grpc_endpoint servers p) e q req (t, w) = (Some resp, t', w(q := n))"
    if "grpc_reach servers e p q t" "HandleRequestVote (ce_node e) req (w q) = (n, resp)" for t e p q req w n resp
    using that by (auto simp: grpc_reach_def grpc_endpoint_def Grpc_SendRequestVote_def call_stub_def rpc_call_def RaftServiceImpl_RequestVote_def
        split: prod.splits option.splits)
  show "\<exists>t'. SendAppendEntries (grpc_endpoint servers p) e q areq (t, w) = Some (Some aresp, t', w(q := n))"
    if "grpc_reach servers e p q t" "HandleAppendEntries (ce_node e) areq (w q) = Some (n, aresp)" for t e p q areq w n aresp
    using that by (auto simp: grpc_reach_def grpc_endpoint_def Grpc_SendAppendEntries_def call_stub_def rpc_call_def RaftServiceImpl_AppendEntries_def
        split: prod.splits option.splits)
  show "grpc_reach servers e p q t'" if "grpc_reach servers e p q t" "SendRequestVote (grpc_endpoint servers p) e' q' req (t, w) = (r, t', w')"
    for e p q t e' q' req w r t' w'
    using that grpc_send_state(1) [of servers p e' q' req t w] StubFor_keeps by (auto simp: grpc_reach_def)
  show "grpc_reach servers e p q t'" if "grpc_reach servers e p q t" "SendAppendEntries (grpc_endpoint servers p) e' q' areq (t, w) = Some (ar, t', w')"
    for e p q t e' q' areq w ar t' w'
    using that grpc_send_state(2) [of servers p e' q' areq t w] StubFor_keeps by (auto simp: grpc_reach_def)
qed

section \<open>Properties\<close>

text \<open>
  C12. An election succeeds. In the in-memory cluster, when the election timeout of a node has passed and a majority,
  itself included, is up, knows no leader and has no newer log, and no peer is in a later term, then one pass of its
  election loop makes it leader of the next term with the votes of that majority, whatever the order in which the
  request threads end and whatever becomes of the requests to the other peers.
\<close>

theorem election_succeeds:
  assumes "ids_registered c" and "ElectionLoop_due (el_due el) (w p)" and "current_term (w p) + 1 < u64_size"
    and "now (el_begin el) - last_leader_contact (w p) \<ge> cfg_election_min (config (w p))"
    and "distinct (cfg_peers (config (w p)))" and "p \<notin> set (cfg_peers (config (w p)))"
    and "mset (el_pre_order el) = mset (cfg_peers (config (w p)))" and "mset (el_order el) = mset (cfg_peers (config (w p)))"
    and "\<forall>q \<in> set (cfg_peers (config (w p))). current_term (w q) \<le> current_term (w p)"
    and "G \<subseteq> set (cfg_peers (config (w p)))" and "MajorityLocked (w p) \<le> card G + 1" and "\<not> IsDown p c"
    and "\<forall>q \<in> G. role (w q) \<noteq> kLeader \<and> at_least_as_new (w p) (w q) \<and>
      now (ce_node (el_pre_send el q)) - last_leader_contact (w q) \<ge> cfg_election_min (config (w q))"
    and "\<forall>q \<in> G. \<not> IsDown q c \<and> ic_nodes c q = Some q"
  shows "\<exists>w'. ElectionLoop_pass (Endpoint p) el p (c, w) = (c, w') \<and> role (w' p) = kLeader \<and> current_term (w' p) = current_term (w p) + 1 \<and>
    log (w' p) = log (w p) \<and> (\<forall>q \<in> G. voted_for (w' q) = cfg_id (config (w p)))"
proof -
  have reach: "\<forall>q \<in> G. in_memory_reach (el_pre_send el q) p q c \<and> in_memory_reach (el_send el q) p q c"
    using assms(12,14) by (simp add: in_memory_reach_def)
  obtain c' w' where r: "ElectionLoop_pass (Endpoint p) el p (c, w) = (c', w')" "role (w' p) = kLeader" "current_term (w' p) = current_term (w p) + 1"
      "log (w' p) = log (w p)" "\<forall>q \<in> G. voted_for (w' q) = cfg_id (config (w p))"
    using in_memory_up.election_wins [OF assms(1-11,13) reach] by blast
  with in_memory_pass_state [of p el c w] show ?thesis by (intro exI [of _ w']) simp
qed

definition duo_net :: InMemoryCluster where
  "duo_net = Register ''b'' ''b'' (Register ''a'' ''a'' InMemoryCluster_new)"

definition good_call :: "int \<Rightarrow> call_env" where
  "good_call t = \<lparr>ce_node = env_at t, ce_fate = \<lparr>rf_arrives = True, rf_returns = True, rf_error = ''''\<rparr>\<rparr>"

definition election_a :: election_env where
  "election_a = \<lparr>el_due = env_at 200, el_pre_order = [''b''], el_pre_send = (\<lambda>_. good_call 205), el_pre_reply = (\<lambda>_. env_at 208),
     el_begin = env_at 220, el_order = [''b''], el_send = (\<lambda>_. good_call 230), el_reply = (\<lambda>_. env_at 240)\<rparr>"

lemma election_a_simps:
  "el_due election_a = env_at 200" "el_pre_order election_a = [''b'']" "el_pre_send election_a q = good_call 205" "el_begin election_a = env_at 220"
  "el_order election_a = [''b'']" "el_send election_a q = good_call 230" "ce_node (good_call t) = env_at t"
  by (simp_all add: election_a_def good_call_def)

lemma duo_electable: "at_least_as_new (nodes run0 p) (nodes run0 q)" "MajorityLocked (nodes run0 ''a'') = 2" "ElectionLoop_due (env_at 200) (nodes run0 p)"
  by (simp_all add: at_least_as_new_def MajorityLocked_def ElectionLoop_due_def start_node LastLogTermLocked_def LastLogIndexLocked_def)

theorem election_succeeds_witness:
  "\<exists>w'. ElectionLoop_pass (Endpoint ''a'') election_a ''a'' (duo_net, nodes run0) = (duo_net, w') \<and> role (w' ''a'') = kLeader \<and>
    current_term (w' ''a'') = 1 \<and> voted_for (w' ''b'') = ''a''"
proof -
  have net: "ids_registered duo_net" "\<not> IsDown q duo_net" "ic_nodes duo_net ''b'' = Some ''b''" for q
    by (auto simp: duo_net_def Register_def InMemoryCluster_new_def ids_registered_def IsDown_def split: if_splits)
  show ?thesis
    using election_succeeds [OF net(1), of election_a "nodes run0" "''a''" "{''b''}"]
    by (simp add: election_a_simps duo_electable start_node net(2,3)) blast
qed

lemma majority_committed:
  assumes "commits_own n" and "0 < length (log n)" and "TermAtLocked n (length (log n)) = current_term n"
    and "\<forall>q \<in> set qs. caught_up n q" and "set qs \<subseteq> set (cfg_peers (config n))" and "distinct qs" and "MajorityLocked n \<le> length qs + 1"
  shows "commit_index n = length (log n)"
proof -
  let ?F = "filter (\<lambda>q. case match_index n q of None \<Rightarrow> False | Some m \<Rightarrow> length (log n) \<le> m) (cfg_peers (config n))"
  have "set qs \<subseteq> set ?F" using assms(4,5) by (auto simp: caught_up_def)
  then have "card (set qs) \<le> length ?F" by (rule le_trans [OF card_mono [OF List.finite_set] card_length])
  then have "MajorityLocked n \<le> replica_count n (length (log n))"
    using assms(6,7) distinct_card [OF assms(6)] by (simp add: MajorityLocked_def replica_count_def)
  then show ?thesis using assms(1-3) by (simp add: commits_own_def)
qed

text \<open>
  C7. Replication brings a majority to the log of the leader, and commits it if it ends in an entry of the leader's
  term. In a reachable state with a leader and a majority of peers that can be reached over gRPC and are in no later
  term, more passes of their replication loops than the log has entries give every one of these peers the leader's log,
  however far theirs had diverged. If the last entry is of the leader's term, the leader has then committed and applied
  all of its log. If no entry is of the leader's term, it commits and applies nothing, however often the loops run: a
  new leader appends no entry of its own, so after a restart of the whole group, when nothing is known to be committed,
  nothing is applied again until the next proposal.
\<close>

theorem replication_commits:
  assumes "wf_config M cfg" and "reachable M cfg s" and "peers_addressed servers ts" and "p \<in> set M" and "role (nodes s p) = kLeader"
    and "set qs \<subseteq> set (cfg_peers (cfg p))" and "distinct qs" and "qs \<noteq> []" and "MajorityLocked (nodes s p) \<le> length qs + 1"
    and "\<forall>q \<in> set qs. current_term (nodes s q) \<le> current_term (nodes s p)"
    and "\<forall>q \<in> set qs. \<forall>j. grpc_reach servers (send q j) p q ts \<and> disk_ok (ce_node (send q j)) \<and> disk_ok (reply q j)"
    and "length (log (nodes s p)) < k"
  shows "\<exists>ts' w. replicate_all (grpc_endpoint servers p) send reply p qs k (ts, nodes s) = Some (ts', w) \<and> log (w p) = log (nodes s p) \<and>
    (\<forall>q \<in> set qs. take (length (log (nodes s p))) (log (w q)) = log (nodes s p)) \<and>
    (log (nodes s p) \<noteq> [] \<and> le_term (last (log (nodes s p))) = current_term (nodes s p) \<longrightarrow>
      commit_index (w p) = length (log (nodes s p)) \<and> applied (w p) = log (nodes s p)) \<and>
    ((\<forall>e \<in> set (log (nodes s p)). le_term e \<noteq> current_term (nodes s p)) \<longrightarrow>
      commit_index (w p) = commit_index (nodes s p) \<and> applied (w p) = applied (nodes s p))"
proof -
  let ?len = "length (log (nodes s p))"
  obtain ts' s' where r: "replicate_all (grpc_endpoint servers p) send reply p qs k (ts, nodes s) = Some (ts', nodes s')" "reachable M cfg s'"
      "log (nodes s' p) = log (nodes s p)" "role (nodes s' p) = kLeader" "current_term (nodes s' p) = current_term (nodes s p)" "commits_own (nodes s' p)"
      "\<forall>x \<in> set qs. caught_up (nodes s' p) x \<and> current_term (nodes s' x) \<le> current_term (nodes s p)"
    using grpc_up.rounds_catch_up [OF assms(1-7,10-12), of "{}"] assms(8) by auto
  obtain a where a: "sim M cfg s' a" using sim_reachable [OF assms(1) r(2)] .
  note R = reachable_node [OF assms(1,2,4)] and R' = reachable_node [OF assms(1) r(2) assms(4)]
  have same: "take ?len (log (nodes s' q)) = log (nodes s p)" if "q \<in> set qs" for q
  proof -
    have "agree ?len (log (nodes s' q)) (log (nodes s' p))"
      using leader_tables(4) [OF assms(1) r(2) assms(4) r(4)] r(3,5,7) assms(6) that by (auto simp: caught_up_def)
    then show ?thesis using r(3) by (simp add: agree_def)
  qed
  have app: "applied (nodes s' p) = take (commit_index (nodes s' p)) (log (nodes s' p))" by (rule sim_applied(1) [OF a assms(4)])
  have "commit_index (nodes s' p) = ?len" if "log (nodes s p) \<noteq> []" "le_term (last (log (nodes s p))) = current_term (nodes s p)"
  proof -
    have "MajorityLocked (nodes s' p) \<le> length qs + 1" using assms(9) R(1) R'(1) by (simp add: MajorityLocked_def)
    then show ?thesis
      using majority_committed [OF r(6) _ _ _ _ assms(7)] r(3,5,7) that R'(1) assms(6) by (auto simp: TermAtLocked_def term_at_def last_conv_nth)
  qed
  then have all: "commit_index (nodes s' p) = ?len \<and> applied (nodes s' p) = log (nodes s p)"
    if "log (nodes s p) \<noteq> []" "le_term (last (log (nodes s p))) = current_term (nodes s p)" using that app r(3) by simp
  have none: "commit_index (nodes s' p) = commit_index (nodes s p) \<and> applied (nodes s' p) = applied (nodes s p)"
    if "\<forall>e \<in> set (log (nodes s p)). le_term e \<noteq> current_term (nodes s p)"
    using grpc.rounds_nothing_own [OF r(1) assms(3) _ _ R(6)] assms(6) R(3) that by (auto simp: nothing_own_def)
  show ?thesis by (intro exI [of _ ts'] exI [of _ "nodes s'"] conjI ballI impI) (simp_all only: r(1,3), simp_all add: same all none)
qed

definition duo_servers :: "string \<rightharpoonup> string" where
  "duo_servers = [''host-a'' \<mapsto> ''a'', ''host-b'' \<mapsto> ''b'']"

definition duo_transports :: "string \<Rightarrow> GrpcRaftTransport" where
  "duo_transports = (\<lambda>_. GrpcRaftTransport_new [''a'' \<mapsto> ''host-a'', ''b'' \<mapsto> ''host-b''])"

lemma duo_addressed: "peers_addressed duo_servers duo_transports"
  by (auto simp: peers_addressed_def duo_servers_def duo_transports_def GrpcRaftTransport_new_def split: if_splits)

lemma duo_reach: "grpc_reach duo_servers (good_call t) p ''b'' duo_transports"
  by (simp add: grpc_reach_def good_call_def duo_servers_def duo_transports_def StubFor_def GrpcRaftTransport_new_def)

theorem replication_commits_witness:
  "\<exists>ts' w. replicate_all (grpc_endpoint duo_servers ''a'') (\<lambda>_ _. good_call 310) (\<lambda>_ _. env_at 320) ''a'' [''b''] 2 (duo_transports, nodes run8) = Some (ts', w) \<and>
    commit_index (w ''a'') = 1 \<and> applied (w ''a'') = [entry_x] \<and> take 1 (log (w ''b'')) = [entry_x]"
proof -
  have "reachable duo duo_cfg run8" using step8 by (intro reachable_steps [OF reach_leader]) (rule r_into_rtranclp)
  from replication_commits [OF wf_duo this duo_addressed, of "''a''" "[''b'']" "\<lambda>_ _. good_call 310" "\<lambda>_ _. env_at 320" 2]
  have "\<exists>ts' w. replicate_all (grpc_endpoint duo_servers ''a'') (\<lambda>_ _. good_call 310) (\<lambda>_ _. env_at 320) ''a'' [''b''] 2 (duo_transports, nodes run8) = Some (ts', w) \<and>
      log (w ''a'') = [entry_x] \<and> (\<forall>q \<in> set [''b'']. take (length [entry_x]) (log (w q)) = [entry_x]) \<and>
      commit_index (w ''a'') = length [entry_x] \<and> applied (w ''a'') = [entry_x]"
    unfolding run_nodes2 prop_a(4)
    by (simp add: run_nodes2 prop_a voted_b TermAtLocked_def term_at_def entry_x_def MajorityLocked_def duo_reach election_a_simps del: replicate_all.simps)
  then show ?thesis by (simp del: replicate_all.simps) blast
qed

text \<open>
  Raft over gRPC is safe. However a group runs from its first start over \<open>GrpcRaftTransport\<close>, with its threads and calls
  interleaved in any way, calls that do not arrive, run late or whose answer is lost or late, addresses set anew and
  restarts, two leaders of one term are the same node, and of what two nodes have applied one is a prefix of the other.
\<close>

lemma grpc_runs_safe:
  assumes "wf_config M cfg" and "peers_addressed servers ts" and "p \<in> set M" and "q \<in> set M"
    and "(transport_step M (grpc_endpoint servers) (peers_addressed servers))\<^sup>*\<^sup>* (ts, cluster_init env cfg) (ts', s)"
  shows "(role (nodes s p) = kLeader \<and> role (nodes s q) = kLeader \<and> current_term (nodes s p) = current_term (nodes s q) \<longrightarrow> p = q) \<and>
    (\<exists>k. applied (nodes s p) = take k (applied (nodes s q)) \<or> applied (nodes s q) = take k (applied (nodes s p)))"
proof -
  have "reachable M cfg (cluster_init env cfg)" unfolding reachable_def by blast
  then obtain V A where c: "reachable M cfg (with_replies V A s)" using grpc.transport_reachable [OF assms(5), where cfg = cfg] assms(2) by auto
  obtain a where a: "sim M cfg (with_replies V A s) a" using sim_reachable [OF assms(1) c] .
  have "p = q" if "role (nodes s p) = kLeader" "role (nodes s q) = kLeader" "current_term (nodes s p) = current_term (nodes s q)"
    using sim_leader(1) [OF a assms(3)] sim_leader(1) [OF a assms(4)] that by simp
  moreover have "\<exists>k. applied (nodes s p) = take k (applied (nodes s q)) \<or> applied (nodes s q) = take k (applied (nodes s p))"
    using applied_prefix [OF assms(1) c assms(3,4)] applied_prefix [OF assms(1) c assms(4,3)]
    by (cases "length (applied (nodes s p)) \<le> length (applied (nodes s q))") auto
  ultimately show ?thesis by blast
qed

end
