(* ===== verification/Programs.thy ===== *)
theory Programs
  imports Raft_Liveness Metadata_Service Http_Gateway
begin

text \<open>
  The programs under \<open>tools/\<close>: the arguments they read and what they build from them. \<open>dos_metadata\<close> sets up the
  replicated or the single control plane, \<open>dos_node\<close> a storage node, \<open>dos_gateway\<close> the coordinator behind the HTTP
  gateway, and \<open>dos_cli\<close> turns a command line into one HTTP request and the response into an exit code. The answers of
  the operating system (does the directory open, does the address bind) and of the other processes are arguments.
\<close>

section \<open>Arguments\<close>

text \<open>\<open>argv\<close> begins with the name of the program. The scans stop before the last argument, which has no value behind it.\<close>

fun scan_value :: "string \<Rightarrow> string \<Rightarrow> string list \<Rightarrow> string" where
  "scan_value flag def (a # b # rest) = (if flag = a then b else scan_value flag def (b # rest))"
| "scan_value flag def _ = def"

definition ArgValue :: "string list \<Rightarrow> string \<Rightarrow> string \<Rightarrow> string" where
  "ArgValue argv flag def = scan_value flag def (tl argv)"

definition split_pair :: "string \<Rightarrow> (string \<times> string) option" where
  "split_pair spec = (case find_str ''='' spec of None \<Rightarrow> None | Some eq \<Rightarrow> Some (take eq spec, drop (eq + 1) spec))"

fun scan_pairs :: "string \<Rightarrow> string list \<Rightarrow> (string \<times> string) list" where
  "scan_pairs flag (a # b # rest) =
    (if flag = a then (case split_pair b of None \<Rightarrow> [] | Some kv \<Rightarrow> [kv]) else []) @ scan_pairs flag (b # rest)"
| "scan_pairs flag _ = []"

definition ArgPairs :: "string list \<Rightarrow> string \<Rightarrow> (string \<times> string) list" where
  "ArgPairs argv flag = scan_pairs flag (tl argv)"

definition HasFlag :: "string list \<Rightarrow> string \<Rightarrow> bool" where
  "HasFlag argv flag \<longleftrightarrow> flag \<in> set (tl argv)"

definition SplitHostPort :: "string \<Rightarrow> int \<Rightarrow> string \<times> int" where
  "SplitHostPort hp default_port =
    (if CHR '':'' \<notin> set hp then (hp, default_port)
     else let port = rev (takeWhile (\<lambda>c. c \<noteq> CHR '':'') (rev hp))
          in (take (length hp - length port - 1) hp, atoi port))"

section \<open>\<open>dos_metadata\<close>\<close>

text \<open>What the system answers while a process starts.\<close>

record start_answers =
  sa_env :: raft_env
  sa_open :: "string \<Rightarrow> RaftStorage StatusOr"
  sa_bind :: "string \<Rightarrow> bool"

record raft_process =
  rp_transport :: GrpcRaftTransport
  rp_repo :: RaftMetadataRepository
  rp_node :: RaftNode
  rp_raft_address :: string
  rp_address :: string

datatype meta_process = Exits nat string | Serves_raft raft_process | Serves_single MetadataRepository string

definition node_info :: "string \<times> string \<Rightarrow> NodeInfo" where
  "node_info n = NodeInfo_default\<lparr>ni_id := fst n, ni_address := snd n\<rparr>"

definition raft_peer_table :: "(string \<times> string) list \<Rightarrow> (string \<rightharpoonup> string) \<times> string list" where
  "raft_peer_table peers = (foldl (\<lambda>m (pid, paddr). m(pid \<mapsto> paddr)) Map.empty peers, map fst peers)"

definition raft_repository :: "(string \<times> string) list \<Rightarrow> (string \<times> string) list \<Rightarrow> RaftMetadataRepository" where
  "raft_repository members peer_meta =
    foldl (\<lambda>r (pid, paddr). SetPeerMetadataAddress pid paddr r)
      (foldl (\<lambda>r n. AddBootstrapNode (node_info n) r) (RaftMetadataRepository_new 150) members) peer_meta"

definition raft_config :: "string \<Rightarrow> string list \<Rightarrow> RaftConfig" where
  "raft_config i peer_ids = \<lparr>cfg_id = i, cfg_peers = peer_ids, cfg_election_min = 400, cfg_election_max = 800, cfg_heartbeat = 100\<rparr>"

definition metadata_main :: "start_answers \<Rightarrow> string list \<Rightarrow> meta_process" where
  "metadata_main ans argv =
    (let address = ArgValue argv ''--address'' ''0.0.0.0:9000'';
         i = ArgValue argv ''--id'' '''';
         peers = ArgPairs argv ''--raft-peer'';
         peer_meta = ArgPairs argv ''--peer-meta'';
         members = ArgPairs argv ''--node''
     in if i \<noteq> '''' \<and> peers \<noteq> [] then
          let raft_address = ArgValue argv ''--raft-address'' ''0.0.0.0:9100'';
              raft_dir = ArgValue argv ''--raft-dir'' (''raft-'' @ i)
          in (case sa_open ans raft_dir of
                Inl st \<Rightarrow> Exits 1 (''failed to open raft dir '' @ raft_dir @ '': '' @ ToString st)
              | Inr raft_storage \<Rightarrow>
                  let (peer_addresses, peer_ids) = raft_peer_table peers;
                      node = RaftNode_new (sa_env ans) (raft_config i peer_ids) raft_storage
                  in if \<not> sa_bind ans raft_address then Exits 1 (''failed to bind raft address '' @ raft_address)
                     else if \<not> sa_bind ans address then Exits 1 (''failed to bind '' @ address)
                     else Serves_raft \<lparr>rp_transport = GrpcRaftTransport_new peer_addresses,
                            rp_repo = AttachRaft (raft_repository members peer_meta), rp_node = node,
                            rp_raft_address = raft_address, rp_address = address\<rparr>)
        else
          let repo = foldl (\<lambda>r n. Repo_AddNode (node_info n) r) (MetadataRepository_new 150) members
          in if \<not> sa_bind ans address then Exits 1 (''failed to bind '' @ address) else Serves_single repo address)"

section \<open>\<open>dos_node\<close>\<close>

datatype node_process = Node_exits nat string | Serves_node LocalObjectStore string string

definition node_main :: "(string \<Rightarrow> LocalObjectStore StatusOr) \<Rightarrow> (string \<Rightarrow> bool) \<Rightarrow> string list \<Rightarrow> node_process" where
  "node_main open_store bind argv =
    (let address = ArgValue argv ''--address'' ''0.0.0.0:9001'';
         data_dir = ArgValue argv ''--data-dir'' '''';
         node_id = ArgValue argv ''--id'' address
     in if data_dir = '''' then Node_exits 2 ''error: --data-dir is required''
        else (case open_store data_dir of
                Inl st \<Rightarrow> Node_exits 1 (''failed to open store at '' @ data_dir @ '': '' @ ToString st)
              | Inr store \<Rightarrow>
                  if \<not> bind address then Node_exits 1 (''failed to bind '' @ address) else Serves_node store address node_id))"

section \<open>\<open>dos_gateway\<close>\<close>

text \<open>The view is the remote one, behind a cache of 4096 entries unless \<open>--no-cache\<close> is given.\<close>

record 's gateway_process =
  gp_coordinator :: "'s Coordinator"
  gp_host :: string
  gp_port :: int

datatype 's gateway_start = Gateway_exits nat string | Gateway_plain "'s gateway_process" | Gateway_cached "'s CachingMetadataView gateway_process"

definition gateway_options :: "int \<Rightarrow> Coordinator_Options" where
  "gateway_options rf = (let r = nat (if rf < 1 then 1 else rf) in \<lparr>replication_factor = r, write_quorum = r div 2 + 1\<rparr>)"

lemma gateway_quorums_meet:
  "1 \<le> write_quorum (gateway_options rf)" "write_quorum (gateway_options rf) \<le> replication_factor (gateway_options rf)"
  "replication_factor (gateway_options rf) < 2 * write_quorum (gateway_options rf)"
  by (auto simp: gateway_options_def Let_def)

definition gateway_clients :: "NodeInfo list \<Rightarrow> (string, string) omap" where
  "gateway_clients ns = foldl (\<lambda>m n. om_set (ni_id n) (ni_address n) m) [] ns"

definition gateway_main :: "(string \<Rightarrow> NodeInfo list StatusOr) \<Rightarrow> (string \<Rightarrow> int \<Rightarrow> bool) \<Rightarrow> string list \<Rightarrow> 's \<Rightarrow> 's gateway_start" where
  "gateway_main list_nodes bind argv view =
    (let listen = ArgValue argv ''--address'' ''127.0.0.1:8080'';
         metadata_addr = ArgValue argv ''--metadata'' ''127.0.0.1:9000'';
         rf = atoi (ArgValue argv ''--rf'' ''3'');
         (host, port) = SplitHostPort listen 8080
     in (case list_nodes metadata_addr of
           Inl st \<Rightarrow> Gateway_exits 1 (''no storage nodes registered with metadata service at '' @ metadata_addr)
         | Inr ns \<Rightarrow>
             if ns = [] then Gateway_exits 1 (''no storage nodes registered with metadata service at '' @ metadata_addr)
             else if \<not> bind host port then Gateway_exits 1 (''failed to bind '' @ listen)
             else if HasFlag argv ''--no-cache''
               then Gateway_plain \<lparr>gp_coordinator = Coordinator_new view (gateway_clients ns) (gateway_options rf), gp_host = host, gp_port = port\<rparr>
               else Gateway_cached \<lparr>gp_coordinator = Coordinator_new (CachingMetadataView_new view 4096) (gateway_clients ns) (gateway_options rf),
                      gp_host = host, gp_port = port\<rparr>))"

section \<open>\<open>dos_cli\<close>\<close>

fun take_gateway :: "string list \<Rightarrow> string \<times> string list" where
  "take_gateway (a # b # rest) = (if a = ''--gateway'' then (b, rest) else let (g, r) = take_gateway (b # rest) in (g, a # r))"
| "take_gateway args = (''127.0.0.1:8080'', args)"

text \<open>The contents of a file by its name; a file that cannot be opened reads as empty.\<close>

definition ReadValueArg :: "(string \<Rightarrow> string) \<Rightarrow> string \<Rightarrow> string" where
  "ReadValueArg files arg = (if arg \<noteq> '''' \<and> hd arg = CHR ''@'' then files (tl arg) else arg)"

definition cli_request :: "(string \<Rightarrow> string) \<Rightarrow> string list \<Rightarrow> (string \<times> string \<times> string) option" where
  "cli_request files args =
    (if hd args = ''put'' \<and> length args = 3 then Some (''PUT'', ''/objects/'' @ args ! 1, ReadValueArg files (args ! 2))
     else if hd args = ''get'' \<and> length args = 2 then Some (''GET'', ''/objects/'' @ args ! 1, '''')
     else if hd args = ''head'' \<and> length args = 2 then Some (''HEAD'', ''/objects/'' @ args ! 1, '''')
     else if hd args = ''delete'' \<and> length args = 2 then Some (''DELETE'', ''/objects/'' @ args ! 1, '''')
     else if hd args = ''list'' then Some (''GET'', if length args \<ge> 2 then ''/objects?prefix='' @ args ! 1 else ''/objects'', '''')
     else None)"

record cli_result =
  cr_exit :: nat
  cr_out :: string
  cr_err :: string

definition Usage :: cli_result where
  "Usage = \<lparr>cr_exit = 2, cr_out = '''', cr_err = ''usage: dos_cli [--gateway HOST:PORT] <put|get|head|delete|list> ...'' @ [CHR 0x0A]\<rparr>"

definition int_to_string :: "int \<Rightarrow> string" where
  "int_to_string i = (if i < 0 then CHR ''-'' # to_string (nat (- i)) else to_string (nat i))"

definition printed :: "string \<Rightarrow> string" where
  "printed body = (if body = '''' then '''' else body @ (if last body \<noteq> CHR 0x0A then [CHR 0x0A] else ''''))"

definition cli_report :: "HttpClientResponse StatusOr \<Rightarrow> cli_result" where
  "cli_report resp =
    (case resp of
       Inl st \<Rightarrow> \<lparr>cr_exit = 1, cr_out = '''', cr_err = ''error: '' @ ToString st @ [CHR 0x0A]\<rparr>
     | Inr r \<Rightarrow>
         \<lparr>cr_exit = (if 200 \<le> hc_status r \<and> hc_status r < 300 then 0 else 1),
          cr_out = printed (hc_body r),
          cr_err = ''HTTP '' @ int_to_string (hc_status r) @ [CHR 0x0A]\<rparr>)"

definition cli_main ::
  "(string \<Rightarrow> string) \<Rightarrow> (string \<Rightarrow> int \<Rightarrow> string \<times> string \<times> string \<Rightarrow> 'g \<Rightarrow> HttpClientResponse StatusOr \<times> 'g) \<Rightarrow> string list \<Rightarrow> 'g \<Rightarrow> cli_result \<times> 'g" where
  "cli_main files request argv g =
    (let (gateway, args) = take_gateway (tl argv)
     in if args = [] then (Usage, g)
        else let (host, port) = SplitHostPort gateway 8080
          in (case cli_request files args of
                None \<Rightarrow> (Usage, g)
              | Some req \<Rightarrow> let (resp, g) = request host port req g in (cli_report resp, g)))"

section \<open>A group started from command lines\<close>

text \<open>The command line of \<open>tools/metadata/metadata_main.cc\<close> for the replicated control plane.\<close>

definition raft_command_line :: "string list \<Rightarrow> (string \<Rightarrow> string) \<Rightarrow> string \<Rightarrow> string list \<Rightarrow> string list" where
  "raft_command_line M addr p rest =
    [''dos_metadata'', ''--id'', p] @ concat (map (\<lambda>q. [''--raft-peer'', q @ ''='' @ addr q]) (filter (\<lambda>q. q \<noteq> p) M)) @ rest"

lemma scan_pairs_skip: "a \<noteq> flag \<Longrightarrow> scan_pairs flag (a # xs) = scan_pairs flag xs"
  by (cases xs) auto

lemma scan_pairs_absent: "flag \<notin> set xs \<Longrightarrow> scan_pairs flag xs = []"
  by (induction xs) (auto simp: scan_pairs_skip)

lemma split_pair_spec: "CHR ''='' \<notin> set q \<Longrightarrow> split_pair (q @ CHR ''='' # a) = Some (q, a)"
  using find_str_fresh [of "CHR ''=''" q "[]" a] by (simp add: split_pair_def)

lemma scan_pairs_specs:
  assumes "\<forall>q \<in> set qs. CHR ''='' \<notin> set q" and "CHR ''='' \<notin> set flag"
  shows "scan_pairs flag (concat (map (\<lambda>q. [flag, q @ ''='' @ addr q]) qs) @ rest) = map (\<lambda>q. (q, addr q)) qs @ scan_pairs flag rest"
  using assms(1)
proof (induction qs)
  case (Cons q qs)
  have "q @ CHR ''='' # addr q \<noteq> flag" using assms(2) by auto
  with Cons show ?case by (simp add: split_pair_spec scan_pairs_skip)
qed simp

lemma raft_command_line_args:
  assumes "\<forall>q \<in> set M. CHR ''='' \<notin> set q" and "p \<noteq> ''--raft-peer''" and "''--raft-peer'' \<notin> set rest"
  shows "ArgValue (raft_command_line M addr p rest) ''--id'' def = p"
    and "ArgPairs (raft_command_line M addr p rest) ''--raft-peer'' = map (\<lambda>q. (q, addr q)) (filter (\<lambda>q. q \<noteq> p) M)"
  using assms scan_pairs_specs [of "filter (\<lambda>q. q \<noteq> p) M" "''--raft-peer''" addr rest]
  by (simp_all add: ArgValue_def ArgPairs_def raft_command_line_def scan_pairs_skip scan_pairs_absent)

text \<open>The nodes and transports of the processes \<open>P\<close>; an id outside of the group stands for no process.\<close>

definition started_nodes :: "string list \<Rightarrow> (string \<Rightarrow> raft_process) \<Rightarrow> heap" where
  "started_nodes M P p = (if p \<in> set M then rp_node (P p) else RaftNode_new (env_at 0) (raft_config p []) empty_storage)"

definition started_cluster :: "string list \<Rightarrow> (string \<Rightarrow> raft_process) \<Rightarrow> cluster" where
  "started_cluster M P =
    \<lparr>nodes = started_nodes M P, vthreads = (\<lambda>_. VIdle), rthreads = (\<lambda>_. Map.empty), vote_reqs = {}, vote_resps = {}, append_reqs = {}, append_resps = {}\<rparr>"

definition started_transports :: "string list \<Rightarrow> (string \<Rightarrow> raft_process) \<Rightarrow> string \<Rightarrow> GrpcRaftTransport" where
  "started_transports M P p = (if p \<in> set M then rp_transport (P p) else GrpcRaftTransport_new Map.empty)"

lemma peer_table_map: "fst (raft_peer_table (map (\<lambda>q. (q, addr q)) qs)) q = (if q \<in> set qs then Some (addr q) else None)"
proof -
  have "foldl (\<lambda>m (pid, paddr). m(pid \<mapsto> paddr)) m (map (\<lambda>q. (q, addr q)) qs) q = (if q \<in> set qs then Some (addr q) else m q)" for m
    by (induction qs arbitrary: m) auto
  then show ?thesis by (simp add: raft_peer_table_def)
qed

lemma started_process:
  assumes "\<forall>q \<in> set M. CHR ''='' \<notin> set q" and "p \<noteq> ''--raft-peer''" and "''--raft-peer'' \<notin> set rest" and "p \<noteq> ''''"
    and "metadata_main ans (raft_command_line M addr p rest) = Serves_raft P" and "\<forall>dir. sa_open ans dir = Inr empty_storage"
    and "filter (\<lambda>q. q \<noteq> p) M \<noteq> []"
  shows "rp_node P = RaftNode_new (sa_env ans) (raft_config p (filter (\<lambda>q. q \<noteq> p) M)) empty_storage"
    and "gt_addresses (rp_transport P) q = (if q \<in> set M \<and> q \<noteq> p then Some (addr q) else None)" and "gt_stubs (rp_transport P) = Map.empty"
proof -
  note A = raft_command_line_args [OF assms(1-3)]
  have "rp_node P = RaftNode_new (sa_env ans) (raft_config p (filter (\<lambda>q. q \<noteq> p) M)) empty_storage \<and>
      rp_transport P = GrpcRaftTransport_new (fst (raft_peer_table (map (\<lambda>q. (q, addr q)) (filter (\<lambda>q. q \<noteq> p) M))))"
    using assms(4-7) by (auto simp: metadata_main_def A Let_def raft_peer_table_def comp_def split: if_splits)
  then show "rp_node P = RaftNode_new (sa_env ans) (raft_config p (filter (\<lambda>q. q \<noteq> p) M)) empty_storage"
    and "gt_addresses (rp_transport P) q = (if q \<in> set M \<and> q \<noteq> p then Some (addr q) else None)" and "gt_stubs (rp_transport P) = Map.empty"
    by (auto simp: GrpcRaftTransport_new_def peer_table_map)
qed

lemma started_group:
  assumes "distinct M" and "2 \<le> length M" and "\<forall>p \<in> set M. p \<noteq> '''' \<and> p \<noteq> ''--raft-peer'' \<and> CHR ''='' \<notin> set p \<and> length p + 12 < 2 ^ 32"
    and "\<forall>p \<in> set M. ''--raft-peer'' \<notin> set (rest p) \<and> metadata_main (ans p) (raft_command_line M addr p (rest p)) = Serves_raft (P p) \<and>
      (\<forall>dir. sa_open (ans p) dir = Inr empty_storage)"
    and "\<forall>p \<in> set M. \<forall>node. servers (addr p) = Some node \<longrightarrow> node = p"
  shows "\<exists>env cfg. wf_config M cfg \<and> started_cluster M P = cluster_init env cfg" and "peers_addressed servers (started_transports M P)"
proof -
  have ne: "filter (\<lambda>q. q \<noteq> p) M \<noteq> []" for p
  proof
    assume "filter (\<lambda>q. q \<noteq> p) M = []"
    then have "set M \<subseteq> {p}" by (auto simp: filter_empty_conv)
    then have "card (set M) \<le> 1" using card_mono [of "{p}" "set M"] by simp
    then show False using assms(1,2) distinct_card [of M] by simp
  qed
  have S: "rp_node (P p) = RaftNode_new (sa_env (ans p)) (raft_config p (filter (\<lambda>q. q \<noteq> p) M)) empty_storage"
      "gt_addresses (rp_transport (P p)) q = (if q \<in> set M \<and> q \<noteq> p then Some (addr q) else None)" "gt_stubs (rp_transport (P p)) = Map.empty"
    if "p \<in> set M" for p q
    using started_process [of M p "rest p" "ans p" addr "P p"] assms(3,4) ne that by simp_all
  let ?cfg = "\<lambda>p. raft_config p (if p \<in> set M then filter (\<lambda>q. q \<noteq> p) M else [])"
  have "wf_config M ?cfg" using assms(1,3) by (auto simp: wf_config_def raft_config_def)
  moreover have "started_nodes M P = (\<lambda>p. RaftNode_new (if p \<in> set M then sa_env (ans p) else env_at 0) (?cfg p) empty_storage)"
    by (rule ext) (simp add: started_nodes_def S(1))
  then have "started_cluster M P = cluster_init (\<lambda>p. if p \<in> set M then sa_env (ans p) else env_at 0) ?cfg"
    by (simp add: cluster_init_def started_cluster_def)
  ultimately show "\<exists>env cfg. wf_config M cfg \<and> started_cluster M P = cluster_init env cfg" by blast
  show "peers_addressed servers (started_transports M P)"
    using assms(5) by (auto simp: peers_addressed_def started_transports_def S(2,3) GrpcRaftTransport_new_def split: if_splits)
qed

text \<open>
  C6. A replicated control plane started from its documented command lines is safe. When every member of a group of
  two or more is started for the first time with its own \<open>--id\<close> and a \<open>--raft-peer\<close> for each of the others, the
  processes form a well configured Raft group. However it then runs over gRPC, with the election and replication
  threads of all members, their calls and the handlers of the calls interleaved in any way, calls that are lost or run
  late, answers that are lost or taken up when the node is already in another term or role, restarts and changed
  addresses, two leaders of one term are the same member, and of the metadata commands two members have applied one
  sequence is a prefix of the other.
\<close>

theorem metadata_group_safe:
  assumes "distinct M" and "2 \<le> length M" and "\<forall>p \<in> set M. p \<noteq> '''' \<and> p \<noteq> ''--raft-peer'' \<and> CHR ''='' \<notin> set p \<and> length p + 12 < 2 ^ 32"
    and "\<forall>p \<in> set M. ''--raft-peer'' \<notin> set (rest p) \<and> metadata_main (ans p) (raft_command_line M addr p (rest p)) = Serves_raft (P p) \<and>
      (\<forall>dir. sa_open (ans p) dir = Inr empty_storage)"
    and "\<forall>p \<in> set M. \<forall>node. servers (addr p) = Some node \<longrightarrow> node = p"
    and "(transport_step M (grpc_endpoint servers) (peers_addressed servers))\<^sup>*\<^sup>* (started_transports M P, started_cluster M P) (ts, s)"
    and "p \<in> set M" and "q \<in> set M"
  shows "(role (nodes s p) = kLeader \<and> role (nodes s q) = kLeader \<and> current_term (nodes s p) = current_term (nodes s q) \<longrightarrow> p = q) \<and>
    (\<exists>k. applied (nodes s p) = take k (applied (nodes s q)) \<or> applied (nodes s q) = take k (applied (nodes s p)))"
proof -
  note G = started_group [OF assms(1-5)]
  obtain env cfg where "wf_config M cfg" "started_cluster M P = cluster_init env cfg" using G(1) by blast
  with grpc_runs_safe [OF _ G(2) assms(7,8)] assms(6) show ?thesis by simp
qed

definition pair_answers :: start_answers where
  "pair_answers = \<lparr>sa_env = env_at 0, sa_open = (\<lambda>_. Inr empty_storage), sa_bind = (\<lambda>_. True)\<rparr>"

definition pair_line :: "string \<Rightarrow> string list" where
  "pair_line p = raft_command_line duo (\<lambda>q. ''host-'' @ q) p [''--raft-dir'', ''/var/lib/dos/raft-'' @ p]"

definition pair_process :: "string \<Rightarrow> raft_process" where
  "pair_process p = (case metadata_main pair_answers (pair_line p) of Serves_raft r \<Rightarrow> r | _ \<Rightarrow> undefined)"

definition pair_election :: election_env where
  "pair_election = \<lparr>el_due = env_at 500, el_pre_order = [''b''], el_pre_send = (\<lambda>_. good_call 505), el_pre_reply = (\<lambda>_. env_at 508),
     el_begin = env_at 520, el_order = [''b''], el_send = (\<lambda>_. good_call 530), el_reply = (\<lambda>_. env_at 540)\<rparr>"

lemma pair_started: "p \<in> set duo \<Longrightarrow> metadata_main pair_answers (pair_line p) = Serves_raft (pair_process p)"
  by (auto simp: pair_process_def pair_line_def metadata_main_def pair_answers_def raft_command_line_args raft_peer_table_def duo_def Let_def)

lemma pair_node:
  assumes "p \<in> set duo"
  shows "rp_node (pair_process p) = RaftNode_new (env_at 0) (raft_config p (filter (\<lambda>q. q \<noteq> p) duo)) empty_storage"
    and "gt_addresses (rp_transport (pair_process p)) q = (if q \<in> set duo \<and> q \<noteq> p then Some (''host-'' @ q) else None)"
    and "gt_stubs (rp_transport (pair_process p)) = Map.empty"
  using started_process [of duo p _ pair_answers "\<lambda>q. ''host-'' @ q", OF _ _ _ _ pair_started [OF assms, unfolded pair_line_def]] assms
  by (auto simp: pair_answers_def duo_def)

lemma pair_nodes:
  assumes "p \<in> set duo"
  shows "started_nodes duo pair_process p = RaftNode_new (env_at 0) (raft_config p (filter (\<lambda>q. q \<noteq> p) duo)) empty_storage"
  using pair_node(1) [OF assms] assms by (simp add: started_nodes_def)

lemma pair_fields:
  assumes "p \<in> set duo"
  shows "current_term (started_nodes duo pair_process p) = 0" "role (started_nodes duo pair_process p) = kFollower"
    "log (started_nodes duo pair_process p) = []" "last_leader_contact (started_nodes duo pair_process p) = - 86400000"
    "cfg_election_min (config (started_nodes duo pair_process p)) = 400" "cfg_peers (config (started_nodes duo pair_process p)) = filter (\<lambda>q. q \<noteq> p) duo"
    "ElectionLoop_due (env_at 500) (started_nodes duo pair_process p)"
  by (simp_all add: pair_nodes [OF assms] RaftNode_new_def raft_config_def empty_storage_def HardState_default_def ElectionLoop_due_def RandomElectionTimeout_def)

lemma pair_peers: "filter (\<lambda>q. q \<noteq> ''a'') duo = [''b'']"
  by (simp add: duo_def)

lemma pair_electable:
  "at_least_as_new (started_nodes duo pair_process ''a'') (started_nodes duo pair_process ''b'')" "MajorityLocked (started_nodes duo pair_process ''a'') = 2"
  by (simp_all add: at_least_as_new_def MajorityLocked_def pair_fields pair_peers LastLogTermLocked_def LastLogIndexLocked_def)

theorem metadata_group_safe_witness:
  "\<exists>ts s. (transport_step duo (grpc_endpoint duo_servers) (peers_addressed duo_servers))\<^sup>*\<^sup>*
      (started_transports duo pair_process, started_cluster duo pair_process) (ts, s) \<and>
    role (nodes s ''a'') = kLeader \<and> (role (nodes s ''b'') = kLeader \<longrightarrow> current_term (nodes s ''b'') \<noteq> current_term (nodes s ''a''))"
proof -
  let ?t = "started_transports duo pair_process" and ?s = "started_cluster duo pair_process" and ?w = "started_nodes duo pair_process"
  have w: "nodes ?s = ?w" "vthreads ?s p = VIdle" for p by (simp_all add: started_cluster_def)
  have ok: "\<forall>p \<in> set duo. p \<noteq> '''' \<and> p \<noteq> ''--raft-peer'' \<and> CHR ''='' \<notin> set p \<and> length p + 12 < 2 ^ 32" by simp
  have up: "\<forall>p \<in> set duo. ''--raft-peer'' \<notin> set [''--raft-dir'', ''/var/lib/dos/raft-'' @ p] \<and>
      metadata_main pair_answers (raft_command_line duo (\<lambda>q. ''host-'' @ q) p [''--raft-dir'', ''/var/lib/dos/raft-'' @ p]) = Serves_raft (pair_process p) \<and>
      (\<forall>dir. sa_open pair_answers dir = Inr empty_storage)"
    using pair_started by (simp add: pair_line_def pair_answers_def)
  have served: "\<forall>p \<in> set duo. \<forall>node. duo_servers (''host-'' @ p) = Some node \<longrightarrow> node = p" by (simp add: duo_servers_def)
  have d: "distinct duo" "2 \<le> length duo" by (simp_all add: duo_def)
  note G = started_group [OF d ok up served]
  obtain env cfg where c: "wf_config duo cfg" "?s = cluster_init env cfg" using G(1) by blast
  have r: "reachable duo cfg ?s" unfolding c(2) reachable_def by blast
  have m: "''a'' \<in> set duo" "''b'' \<in> set duo" by simp_all
  have peers: "cfg_peers (cfg ''a'') = [''b'']" using reachable_node(1) [OF c(1) r m(1)] pair_fields(6) [OF m(1)] pair_peers by (simp add: w)
  have reach: "grpc_reach duo_servers (good_call t) ''a'' ''b'' ?t" for t
    by (simp add: grpc_reach_def good_call_def started_transports_def StubFor_def pair_node duo_servers_def)
  have "\<exists>ts w. ElectionLoop_pass (grpc_endpoint duo_servers ''a'') pair_election ''a'' (?t, ?w) = (ts, w) \<and> role (w ''a'') = kLeader"
    using grpc_up.election_wins [OF G(2), of pair_election ?w "''a''" "{''b''}"] reach
    by (simp add: pair_fields pair_peers pair_electable pair_election_def) (simp add: good_call_def, blast)
  then obtain ts w' where e: "ElectionLoop_pass (grpc_endpoint duo_servers ''a'') pair_election ''a'' (?t, nodes ?s) = (ts, w')" "role (w' ''a'') = kLeader"
    unfolding w(1) by blast
  have "election_ok (cfg_peers (cfg ''a'')) pair_election" by (simp add: peers election_ok_def pair_election_def good_call_def)
  then obtain s where run: "(transport_step duo (grpc_endpoint duo_servers) (peers_addressed duo_servers))\<^sup>*\<^sup>* (?t, ?s) (ts, s)" "nodes s = w'"
    using grpc.election_steps [OF e(1) G(2) c(1) r m(1) w(2)] pair_fields(1) [OF m(1)] by (auto simp: w(1))
  from metadata_group_safe [OF d ok up served run(1) m] e(2) run(2)
  have "role (nodes s ''b'') = kLeader \<longrightarrow> current_term (nodes s ''b'') \<noteq> current_term (nodes s ''a'')" by auto
  with run e(2) show ?thesis by blast
qed

end
