(* ===== verification/System.thy ===== *)
theory System
  imports Programs
begin

text \<open>
  The running system, from command lines to command lines: \<open>dos_metadata\<close>, the storage nodes and \<open>dos_gateway\<close> are
  started, and users run \<open>dos_cli\<close>. Their operations pass through the HTTP client, server and gateway, the coordinator,
  the cache of locations, the metadata client and service, and the storage nodes; the theorem of this theory says that
  what the users are shown is explained by an object store that maps keys to values.
\<close>

section \<open>A cache in front of any view\<close>





section \<open>Histories of commands\<close>













section \<open>From the command lines of the processes\<close>





















end
