(* ===== verification/Spec2Isabelle.thy ===== *)
theory Spec2Isabelle
  imports Raft_Findings Raft_Metadata_Repository Caching_View Failure_Detector Thread_Pool Store_Delete Metadata_Service Http_Gateway System
begin

text \<open>
  Verification of the distributed object store under \<open>src/\<close>.

  \<^bold>\<open>The program.\<close> A client talks HTTP to a gateway. The gateway's coordinator asks the control plane (a metadata
  repository, in one process or replicated with Raft, possibly behind a cache) where a key lives, writes the payload
  to a quorum of storage nodes and registers the replicas that acknowledged; reads try the registered replicas in
  turn. A storage node keeps payloads in files, metadata rows in SQLite and its intentions in a write-ahead log,
  from which it recovers after a crash.

  \<^bold>\<open>The theories.\<close>

  Shared: \<open>Prelude\<close> (integer types, \<open>uint64_t\<close> arithmetic), \<open>Status\<close> (\<open>common/status.h\<close>, \<open>Status\<close>, \<open>StatusOr\<close> and the
  protobuf codes), \<open>Posix\<close> (the write loops; the answers of the operating system are inputs), \<open>Wire\<close>
  (\<open>common/wire.h\<close>: encoding and CRC-32), \<open>Framing\<close> (length-prefixed, checksummed records), \<open>Durable_Log\<close> (the
  contract of an append-only log, a locale provided by \<open>Raft_Storage\<close> and \<open>Wal\<close>), \<open>Ordered_Map\<close> (\<open>std::map\<close>),
  \<open>Decimal\<close> (\<open>std::to_string\<close>), \<open>Sha256\<close> and \<open>Sha256_Vectors\<close> (\<open>common/sha256.cc\<close>, \<open>common/digest.cc\<close>).

  Consensus: \<open>Raft_Storage\<close> (\<open>consensus/raft_storage.cc\<close>), \<open>Raft_Node\<close> (\<open>consensus/raft_node.cc\<close>, one definition per
  critical section), \<open>Quorum\<close> (majorities), \<open>Raft_Abstract\<close> (the protocol with its history and invariant),
  \<open>Raft_Cluster\<close> (nodes that exchange messages, with loss, duplication, reordering, restarts; \<open>node_step\<close> holds the steps
  of a node's own threads, \<open>cluster_step\<close> adds the handlers of messages), \<open>Raft_Refinement\<close>
  (every step of the code is a sequence of protocol steps), \<open>Raft_Safety\<close> (election safety, log matching, leader
  completeness as \<open>committed_never_lost\<close>, state machine safety, disk and memory agree), \<open>Raft_Example\<close> (a run, for the
  witnesses), \<open>Raft_Findings\<close>.

  Raft over a network: \<open>Raft_Transport\<close> (\<open>consensus/in_memory_transport.cc\<close>, \<open>network/raft_client.cc\<close>,
  \<open>network/raft_server.cc\<close> and the election and replication loops of \<open>raft_node.cc\<close> that call them; the locale
  \<open>raft_transport\<close> shows for both transports that every run is a run of \<open>Raft_Cluster\<close>. In these runs, \<open>transport_step\<close>,
  the threads of all nodes interleave at their critical sections, a call is handled at any time after the request was
  built, and its reply is taken up at any later time, in whatever term and role the node is then; the election and
  replication loops, one pass at a time, are such runs), \<open>Raft_Liveness\<close> (the locale
  \<open>reliable_transport\<close>: an election with a reachable majority succeeds, and the replication loops bring the majority to
  the leader's log and commit it if it ends in an entry of the leader's term; a new leader has no such entry until the
  next proposal, and commits nothing before it).

  Control plane: \<open>Hash_Ring\<close> (\<open>cluster/consistent_hash_ring.cc\<close>, \<open>common/hash.cc\<close>: replicas in the order of their clockwise
  distance from the key, keys move only to a new node), \<open>Metadata_Repository\<close>
  (\<open>cluster/cluster_map.cc\<close>, \<open>cluster/metadata_repository.cc\<close> and the contract \<open>metadata_view\<close>),
  \<open>Raft_Metadata_Repository\<close> (\<open>cluster/raft_metadata_repository.cc\<close>), \<open>Lru_Cache\<close>, \<open>Caching_View\<close>
  (\<open>cluster/caching_metadata_view.h\<close>), \<open>Failure_Detector\<close>, \<open>Metadata_Service\<close> (\<open>network/metadata_server.cc\<close>,
  \<open>network/metadata_client.cc\<close>: forwarding to the leader, a mutation is applied at most once, what a lost call costs; the
  control plane behind it is \<open>repo_plane\<close>, one process, or \<open>raft_plane\<close>, the replicated one).

  Storage node: \<open>Wal\<close> (\<open>storage/wal.cc\<close>), \<open>Sqlite_Store\<close> (\<open>storage/sqlite_metadata_store.cc\<close>), \<open>Local_Object_Store\<close>
  (\<open>storage/local_object_store.cc\<close>), \<open>Store_Safety\<close> and \<open>Store_Delete\<close> (its invariant \<open>store_ok\<close>, crash atomicity of
  puts and deletes, conditional writes, and the cases where an object is lost).

  Data plane: \<open>Storage_Node\<close> (\<open>network/storage_node_server.cc\<close>, \<open>network/storage_node_client.cc\<close>), \<open>Coordinator\<close>
  (\<open>network/coordinator.cc\<close>), \<open>Coordinator_Safety\<close> (read your writes and availability, proved against the contract
  \<open>replicated_view\<close>, which the repository, the cached repository, the remote one and the cached remote one provide),
  \<open>Coordinator_History\<close> (every sequence of operations is explained by a map from keys to values; a write that misses
  its quorum can be seen), \<open>Repairer\<close> (\<open>network/repairer.cc\<close>: a run keeps every object readable and restores replicas).

  Front end: \<open>Http_Text\<close> and \<open>Http\<close> (\<open>network/http_server.cc\<close>, \<open>network/http_client.cc\<close>: a request and its response
  cross a connection unchanged), \<open>Metrics\<close> (\<open>common/metrics.cc\<close>), \<open>Logging\<close> (\<open>common/logging.cc\<close>), \<open>Http_Gateway\<close>
  (\<open>network/http_gateway.cc\<close>: what HTTP clients see is explained by a map from keys to values; \<open>http_exchange\<close> joins
  client and server, and the server sees a request only if \<open>socket\<close>, \<open>inet_pton\<close> and \<open>connect\<close> succeed).

  Programs: \<open>Programs\<close> (\<open>tools/metadata\<close>, \<open>tools/node\<close>, \<open>tools/gateway\<close>, \<open>tools/cli\<close>: a control plane started from
  its command lines is a safe Raft group), \<open>System\<close> (the whole stack, from the command lines of the servers to the
  exit codes and output of \<open>dos_cli\<close>).

  Runtime: \<open>Thread_Pool\<close> (\<open>common/thread_pool.cc\<close>, with the wait set of its condition variable: a worker that finds the
  queue empty blocks until a notification or a spurious wake-up, and notifying is a step of its own).

  \<^bold>\<open>Conventions.\<close> \<open>std::string\<close> is \<open>string\<close>; \<open>uint64_t\<close> counters are \<open>nat\<close> with the wrap-around of \<open>u64_add\<close> and
  \<open>u64_sub\<close>, bit-level code uses words. A fallible call returns \<open>Status\<close> or \<open>Status + 'a\<close>. What the operating system,
  SQLite and gRPC answer is an argument, so every error path is a value of the model; a crash is a value of
  \<open>pe_crash\<close>, and then the call returns \<open>None\<close> with what is on disk. Every loop of the models terminates, by structural
  recursion or by a measure on what is left to read; there is no fuel. The number of forwards of a metadata call that
  complete before its deadline (\<open>hops\<close>) is an input, and the theorems hold for every number.

  \<^bold>\<open>Assumptions of the theorems.\<close> The Raft theorems are for distinct peers, for runs in which writes to the Raft files
  succeed (\<open>disk_ok\<close>; \<open>Raft_Findings\<close> shows what happens otherwise) and in which a crash does not tear a log record
  (\<open>Raft_Storage\<close> shows what happens then). Sizes and counters are below \<open>2 ^ 32\<close> and \<open>2 ^ 64\<close> where a theorem says so.
  SHA-256 is not assumed injective: where two keys or payloads must have different digests, the theorem says which.
  A unary call between gateway, storage nodes and metadata service (\<open>rpc_call\<close>) is lost before its handler runs, or its
  handler runs before the caller goes on, with the answer delivered or lost; a handler that starts after the caller's
  deadline is not covered there (the Raft calls of \<open>Raft_Transport\<close> do cover it). The histories of \<open>Coordinator_History\<close>,
  \<open>Http_Gateway\<close> and \<open>System\<close> run one operation after the other.

  \<^bold>\<open>Not modelled.\<close> Thread scheduling inside a critical section (the models interleave critical sections); wall-clock
  time, which is an input; the sockets of gRPC, generated protobuf code and SQLite, whose answers are inputs; signal
  handling; the benchmarks and demos (\<open>tools/bench\<close>, \<open>tools/clusterbench\<close>, \<open>tools/demo\<close>), which measure or print what
  the parts above do and keep no state.
\<close>

end
